(* ===== verification/Openfrp_Prelude.thy ===== *)
theory Openfrp_Prelude
  imports Main "HOL-Library.Word" "HOL-Library.AList" "HOL-Library.List_Lexorder" "HOL-Library.Char_ord"
begin

text \<open>
  Shared vocabulary of the development: the names of the model's basic types, the fact
  collections the component theories extend, and generic lemmas on lists, association lists
  (Go maps) and machine words.

  A Go \<^verbatim>\<open>[]byte\<close> and a Go \<^verbatim>\<open>string\<close> are both finite sequences of bytes and the
  conversions between them keep the bytes, so both are \<^typ>\<open>string\<close> here: an Isabelle
  \<^typ>\<open>char\<close> is one byte. A Go \<^verbatim>\<open>map[K]V\<close> is an association list; its iteration
  order is the order of the list, so a property stated for every list holds for every
  iteration order.
\<close>

section \<open>Types and collections\<close>

type_synonym bytes = string

type_synonym ('k, 'v) gomap = "('k \<times> 'v) list"

type_synonym u8 = "8 word"
type_synonym u16 = "16 word"
type_synonym u32 = "32 word"
type_synonym i64 = "64 word"

named_theorems gostr_simps \<open>facts about the Go string operations\<close>
named_theorems wire_simps \<open>facts about reading and writing wire data\<close>
named_theorems store_simps \<open>lookups in the tables after an update\<close>
named_theorems inv_intros \<open>preservation of the component invariants\<close>

text \<open>Results: \<^term>\<open>Inl\<close> is a Go error return, \<^term>\<open>Inr\<close> the value.\<close>

definition is_ok :: "'e + 'a \<Rightarrow> bool" where
  "is_ok r = (case r of Inl _ \<Rightarrow> False | Inr _ \<Rightarrow> True)"

lemma is_ok_simps [simp]: "is_ok (Inl e) = False" "is_ok (Inr a) = True"
  by (simp_all add: is_ok_def)

section \<open>Maps\<close>

text \<open>A Go map holds each key once.\<close>

definition gomap_ok :: "('k, 'v) gomap \<Rightarrow> bool" where
  "gomap_ok m = distinct (map fst m)"

lemma gomap_ok_Nil [simp]: "gomap_ok []"
  by (simp add: gomap_ok_def)

lemma gomap_ok_Cons: "gomap_ok ((k, v) # m) \<longleftrightarrow> map_of m k = None \<and> gomap_ok m"
  by (auto simp: gomap_ok_def map_of_eq_None_iff)

lemma gomap_ok_update [simp, intro]: "gomap_ok m \<Longrightarrow> gomap_ok (AList.update k v m)"
  by (simp add: gomap_ok_def distinct_update)

lemma gomap_ok_delete [simp, intro]: "gomap_ok m \<Longrightarrow> gomap_ok (AList.delete k m)"
  by (simp add: gomap_ok_def distinct_delete)

lemma gomap_ok_filter [simp, intro]: "gomap_ok m \<Longrightarrow> gomap_ok (filter P m)"
  by (simp add: gomap_ok_def distinct_map_filter)

lemma map_of_update [simp]: "map_of (AList.update k v m) = (map_of m)(k \<mapsto> v)"
  by (rule update_conv')

lemma map_of_delete [simp]: "map_of (AList.delete k m) = (map_of m)(k := None)"
  by (rule delete_conv')

text \<open>Deleting by a predicate on the entries, as a loop over a Go map with
  \<^verbatim>\<open>delete\<close> in its body does.\<close>

lemma map_of_filter_gomap:
  assumes "gomap_ok m"
  shows "map_of (filter P m) k =
    (case map_of m k of None \<Rightarrow> None | Some v \<Rightarrow> if P (k, v) then Some v else None)"
  using assms
proof (induction m)
  case Nil
  then show ?case by simp
next
  case (Cons e m)
  obtain k' v' where e: "e = (k', v')" by (cases e)
  from Cons.prems e have m: "gomap_ok m" and fresh: "map_of m k' = None"
    by (simp_all add: gomap_ok_Cons)
  from Cons.IH [OF m] fresh e show ?case by (auto split: option.splits)
qed

lemma gomap_mem_iff: "gomap_ok m \<Longrightarrow> (k, v) \<in> set m \<longleftrightarrow> map_of m k = Some v"
  by (simp add: gomap_ok_def)

lemma length_gomap: "gomap_ok m \<Longrightarrow> length m = card (dom (map_of m))"
  by (metis gomap_ok_def distinct_card dom_map_of_conv_image_fst length_map set_map)

section \<open>Lists\<close>

lemma take_append_le [gostr_simps]: "n \<le> length xs \<Longrightarrow> take n (xs @ ys) = take n xs"
  by simp

lemma list_all_map_of: "list_all (\<lambda>(k, v). P k v) m \<Longrightarrow> map_of m k = Some v \<Longrightarrow> P k v"
  by (auto simp: list_all_iff dest!: map_of_SomeD)

section \<open>Bytes as numbers\<close>

text \<open>\<^verbatim>\<open>binary.BigEndian\<close> on the first two or four bytes of a slice.\<close>

definition byte_nat :: "char \<Rightarrow> nat" where
  "byte_nat c = of_char c"

definition nat_byte :: "nat \<Rightarrow> char" where
  "nat_byte n = char_of (n mod 256)"

definition be16 :: "nat \<Rightarrow> bytes" where
  "be16 n = [nat_byte (n div 256), nat_byte n]"

definition be32 :: "nat \<Rightarrow> bytes" where
  "be32 n = [nat_byte (n div 2 ^ 24), nat_byte (n div 2 ^ 16), nat_byte (n div 2 ^ 8), nat_byte n]"

fun be_value :: "nat \<Rightarrow> bytes \<Rightarrow> nat" where
  "be_value acc [] = acc"
| "be_value acc (c # cs) = be_value (acc * 256 + byte_nat c) cs"

definition be_nat :: "bytes \<Rightarrow> nat" where
  "be_nat = be_value 0"

lemma byte_nat_less [simp]: "byte_nat c < 256"
  by (simp add: byte_nat_def of_char_def)

lemma byte_nat_nat_byte [simp, wire_simps]: "byte_nat (nat_byte n) = n mod 256"
  by (simp add: byte_nat_def nat_byte_def)

lemma nat_byte_byte_nat [simp]: "nat_byte (byte_nat c) = c"
  by (simp add: byte_nat_def nat_byte_def)

lemma byte_nat_inject [simp]: "byte_nat c = byte_nat d \<longleftrightarrow> c = d"
  by (simp add: byte_nat_def)

lemma length_be16 [simp]: "length (be16 n) = 2" and length_be32 [simp]: "length (be32 n) = 4"
  by (simp_all add: be16_def be32_def)

lemma be_nat_be16 [simp, wire_simps]: "n < 2 ^ 16 \<Longrightarrow> be_nat (be16 n) = n"
  by (simp add: be_nat_def be16_def)

lemma be_nat_be32 [simp, wire_simps]:
  assumes "n < 2 ^ 32"
  shows "be_nat (be32 n) = n"
proof -
  have split: "m = m div 256 * 256 + m mod 256" for m :: nat
    by simp
  have quot: "n div 65536 = n div 256 div 256" "n div 16777216 = n div 65536 div 256"
    by (simp_all add: div_mult2_eq [symmetric])
  have "n div 16777216 mod 256 = n div 16777216"
    using assms by (simp add: div_less_iff_less_mult)
  then show ?thesis
    using split [of n] split [of "n div 256"] split [of "n div 65536"]
    by (simp add: be_nat_def be32_def quot)
qed

lemma be_value_bound: "be_value acc cs < (acc + 1) * 256 ^ length cs"
proof (induction cs arbitrary: acc)
  case Nil
  then show ?case by simp
next
  case (Cons c cs)
  have "be_value acc (c # cs) < (acc * 256 + byte_nat c + 1) * 256 ^ length cs"
    using Cons.IH [of "acc * 256 + byte_nat c"] by simp
  also have "\<dots> \<le> ((acc + 1) * 256) * 256 ^ length cs"
    using byte_nat_less [of c] by (intro mult_right_mono) (auto simp del: byte_nat_less)
  finally show ?case by (simp add: algebra_simps)
qed

lemma be_nat_bound: "be_nat cs < 256 ^ length cs"
  using be_value_bound [of 0 cs] by (simp add: be_nat_def)

text \<open>Go's integer division truncates toward zero.\<close>

definition trunc_div :: "int \<Rightarrow> int \<Rightarrow> int" where
  "trunc_div a b = (let q = \<bar>a\<bar> div \<bar>b\<bar> in if (a < 0) = (b < 0) then q else - q)"

lemma trunc_div_pos: "0 \<le> a \<Longrightarrow> 0 < b \<Longrightarrow> trunc_div a b = a div b"
  by (cases "a = 0") (simp_all add: trunc_div_def)

text \<open>A new key goes to the end; deleting a key removes exactly its entry.\<close>

lemma update_absent: "map_of m k = None \<Longrightarrow> AList.update k v m = m @ [(k, v)]"
  by (induction m) (auto split: if_splits)

lemma delete_absent: "k \<notin> fst ` set m \<Longrightarrow> AList.delete k m = m"
  by (induction m) auto

lemma delete_last: "map_of m k = None \<Longrightarrow> AList.delete k (m @ [(k, v)]) = m"
  by (induction m) (auto split: if_splits)

lemma gomap_split:
  "gomap_ok m \<Longrightarrow> map_of m k = Some v \<Longrightarrow> \<exists>xs ys. m = xs @ (k, v) # ys \<and> AList.delete k m = xs @ ys"
proof (induction m)
  case (Cons e m)
  obtain k' v' where e: "e = (k', v')" by (cases e)
  show ?case
  proof (cases "k' = k")
    case True
    with Cons.prems e have "v' = v" "k \<notin> fst ` set m" by (auto simp: gomap_ok_def)
    then have "e # m = [] @ (k, v) # m \<and> AList.delete k (e # m) = [] @ m"
      using True e by (simp add: delete_absent)
    then show ?thesis by blast
  next
    case False
    with Cons e obtain xs ys where "m = xs @ (k, v) # ys" "AList.delete k m = xs @ ys" by (auto simp: gomap_ok_def)
    with False e have "e # m = (e # xs) @ (k, v) # ys \<and> AList.delete k (e # m) = (e # xs) @ ys" by simp
    then show ?thesis by blast
  qed
qed simp

lemma update_present: "k \<notin> fst ` set xs \<Longrightarrow> AList.update k v' (xs @ (k, v) # ys) = xs @ (k, v') # ys"
  by (induction xs) auto

end
