(* ===== verification/Go_Strings.thy ===== *)
theory Go_Strings
  imports Openfrp_Prelude
begin

text \<open>
  The operations of Go's \<^verbatim>\<open>strings\<close> and \<^verbatim>\<open>bytes\<close> packages the repository uses, on byte
  sequences. Searching, cutting, splitting and joining are exact for every byte sequence.
  \<^verbatim>\<open>strings.ToLower\<close> takes its ASCII path when every byte is below 0x80 and consults the
  Unicode tables otherwise; the tables are the parameter \<open>ulower\<close>.
  \<^verbatim>\<open>strings.TrimSpace\<close> knows the UTF-8 encodings of all of Go's white space.
\<close>

section \<open>Searching\<close>

definition has_prefix :: "string \<Rightarrow> string \<Rightarrow> bool" where
  "has_prefix pre s = (take (length pre) s = pre)"

definition has_suffix :: "string \<Rightarrow> string \<Rightarrow> bool" where
  "has_suffix suf s = (length suf \<le> length s \<and> drop (length s - length suf) s = suf)"

definition trim_prefix :: "string \<Rightarrow> string \<Rightarrow> string" where
  "trim_prefix pre s = (if has_prefix pre s then drop (length pre) s else s)"

definition trim_suffix :: "string \<Rightarrow> string \<Rightarrow> string" where
  "trim_suffix suf s = (if has_suffix suf s then take (length s - length suf) s else s)"

text \<open>\<^verbatim>\<open>bytes.Index\<close>: the first position of \<open>pat\<close>, \<^term>\<open>None\<close> for Go's -1.\<close>

fun index_sub :: "string \<Rightarrow> string \<Rightarrow> nat option" where
  "index_sub pat [] = (if pat = [] then Some 0 else None)"
| "index_sub pat (c # cs) =
     (if has_prefix pat (c # cs) then Some 0 else map_option Suc (index_sub pat cs))"

definition contains :: "string \<Rightarrow> string \<Rightarrow> bool" where
  "contains s pat = (index_sub pat s \<noteq> None)"

definition contains_any :: "string \<Rightarrow> string \<Rightarrow> bool" where
  "contains_any s chars = list_ex (\<lambda>c. c \<in> set chars) s"

fun index_byte :: "char \<Rightarrow> string \<Rightarrow> nat option" where
  "index_byte b [] = None"
| "index_byte b (c # cs) = (if c = b then Some 0 else map_option Suc (index_byte b cs))"

fun last_index_byte :: "char \<Rightarrow> string \<Rightarrow> nat option" where
  "last_index_byte b [] = None"
| "last_index_byte b (c # cs) =
     (case last_index_byte b cs of
        Some i \<Rightarrow> Some (Suc i)
      | None \<Rightarrow> if c = b then Some 0 else None)"

text \<open>\<^verbatim>\<open>strings.Cut\<close>: what is before and after the first \<open>sep\<close>, and whether it was found.\<close>

definition cut :: "string \<Rightarrow> string \<Rightarrow> string \<times> string \<times> bool" where
  "cut s sep = (case index_sub sep s of
     Some i \<Rightarrow> (take i s, drop (i + length sep) s, True)
   | None \<Rightarrow> (s, [], False))"

section \<open>Splitting, joining, replacing\<close>

fun split_on :: "char \<Rightarrow> string \<Rightarrow> string list" where
  "split_on b [] = [[]]"
| "split_on b (c # cs) =
     (if c = b then [] # split_on b cs
      else case split_on b cs of [] \<Rightarrow> [[c]] | p # ps \<Rightarrow> (c # p) # ps)"

fun join_with :: "char \<Rightarrow> string list \<Rightarrow> string" where
  "join_with b [] = []"
| "join_with b [p] = p"
| "join_with b (p # q # ps) = p @ b # join_with b (q # ps)"

definition replace_byte :: "char \<Rightarrow> char \<Rightarrow> string \<Rightarrow> string" where
  "replace_byte old new s = map (\<lambda>c. if c = old then new else c) s"

section \<open>Case and white space\<close>

definition is_ascii :: "char \<Rightarrow> bool" where
  "is_ascii c = (byte_nat c < 128)"

definition lower_char :: "char \<Rightarrow> char" where
  "lower_char c = (if 65 \<le> byte_nat c \<and> byte_nat c \<le> 90 then nat_byte (byte_nat c + 32) else c)"

definition to_lower :: "(string \<Rightarrow> string) \<Rightarrow> string \<Rightarrow> string" where
  "to_lower ulower s = (if list_all is_ascii s then map lower_char s else ulower s)"

text \<open>The UTF-8 encodings of the runes for which \<^verbatim>\<open>unicode.IsSpace\<close> holds.\<close>

definition space_runes :: "string list" where
  "space_runes =
     [[CHR 0x09], [CHR 0x0A], [CHR 0x0B], [CHR 0x0C], [CHR 0x0D], [CHR 0x20],
      [CHR 0xC2, CHR 0x85], [CHR 0xC2, CHR 0xA0], [CHR 0xE1, CHR 0x9A, CHR 0x80],
      [CHR 0xE2, CHR 0x80, CHR 0x80], [CHR 0xE2, CHR 0x80, CHR 0x81],
      [CHR 0xE2, CHR 0x80, CHR 0x82], [CHR 0xE2, CHR 0x80, CHR 0x83],
      [CHR 0xE2, CHR 0x80, CHR 0x84], [CHR 0xE2, CHR 0x80, CHR 0x85],
      [CHR 0xE2, CHR 0x80, CHR 0x86], [CHR 0xE2, CHR 0x80, CHR 0x87],
      [CHR 0xE2, CHR 0x80, CHR 0x88], [CHR 0xE2, CHR 0x80, CHR 0x89],
      [CHR 0xE2, CHR 0x80, CHR 0x8A], [CHR 0xE2, CHR 0x80, CHR 0xA8],
      [CHR 0xE2, CHR 0x80, CHR 0xA9], [CHR 0xE2, CHR 0x80, CHR 0xAF],
      [CHR 0xE2, CHR 0x81, CHR 0x9F], [CHR 0xE3, CHR 0x80, CHR 0x80]]"

lemma space_runes_nonempty: "r \<in> set space_runes \<Longrightarrow> r \<noteq> []"
  by (auto simp: space_runes_def)

function trim_left :: "string \<Rightarrow> string" where
  "trim_left s =
     (case find (\<lambda>r. has_prefix r s) space_runes of
        None \<Rightarrow> s
      | Some r \<Rightarrow> trim_left (drop (length r) s))"
  by pat_completeness auto

lemma find_space_prefix:
  assumes "find (\<lambda>r. has_prefix r s) space_runes = Some r"
  shows "length (drop (length r) s) < length s"
proof -
  from assms have "r \<in> set space_runes" and "has_prefix r s"
    by (auto simp: find_Some_iff)
  then show ?thesis
    using space_runes_nonempty [of r] by (cases s) (auto simp: has_prefix_def)
qed

termination trim_left
  by (relation "measure length") (auto dest: find_space_prefix)

function trim_right :: "string \<Rightarrow> string" where
  "trim_right s =
     (case find (\<lambda>r. has_suffix r s) space_runes of
        None \<Rightarrow> s
      | Some r \<Rightarrow> trim_right (take (length s - length r) s))"
  by pat_completeness auto

lemma find_space_suffix:
  assumes "find (\<lambda>r. has_suffix r s) space_runes = Some r"
  shows "length (take (length s - length r) s) < length s"
proof -
  from assms have r: "r \<in> set space_runes" and "has_suffix r s"
    by (auto simp: find_Some_iff)
  then have "length r \<le> length s" by (simp add: has_suffix_def)
  moreover from space_runes_nonempty [OF r] have "0 < length r" by simp
  ultimately show ?thesis by (simp add: diff_less del: length_greater_0_conv)
qed

termination trim_right
  by (relation "measure length") (auto dest: find_space_suffix)

declare trim_left.simps [simp del] trim_right.simps [simp del]

definition trim_space :: "string \<Rightarrow> string" where
  "trim_space s = trim_right (trim_left s)"

section \<open>Facts\<close>

lemma has_prefix_iff [gostr_simps]: "has_prefix pre s \<longleftrightarrow> (\<exists>t. s = pre @ t)"
  unfolding has_prefix_def by (metis append_eq_conv_conj append_take_drop_id)

lemma has_prefix_append [simp]: "has_prefix p (p @ t)"
  by (simp add: has_prefix_def)

lemma has_suffix_iff [gostr_simps]: "has_suffix suf s \<longleftrightarrow> (\<exists>t. s = t @ suf)"
  unfolding has_suffix_def by (metis append_eq_append_conv append_take_drop_id
      diff_diff_cancel length_append length_drop le_add2)

lemma has_suffix_append [simp]: "has_suffix s (t @ s)"
  by (simp add: has_suffix_def)

lemma trim_prefix_append [simp]: "trim_prefix p (p @ t) = t"
  by (simp add: trim_prefix_def)

lemma trim_suffix_append [simp]: "trim_suffix s (t @ s) = t"
  by (simp add: trim_suffix_def)

lemma index_sub_split:
  "index_sub pat s = Some i \<Longrightarrow> s = take i s @ pat @ drop (i + length pat) s \<and> i + length pat \<le> length s"
proof (induction s arbitrary: i)
  case Nil
  then show ?case by (auto split: if_splits)
next
  case (Cons c cs)
  show ?case
  proof (cases "has_prefix pat (c # cs)")
    case True
    then obtain t where "c # cs = pat @ t" by (auto simp: has_prefix_iff)
    moreover from True Cons.prems have "i = 0" by simp
    ultimately show ?thesis by simp
  next
    case False
    with Cons.prems obtain j where "index_sub pat cs = Some j" "i = Suc j" by auto
    with Cons.IH [of j] show ?thesis by simp
  qed
qed

lemma index_sub_None: "index_sub pat s = None \<Longrightarrow> \<not> has_prefix pat (drop n s)"
proof (induction s arbitrary: n)
  case Nil
  then show ?case by (auto simp: has_prefix_def split: if_splits)
next
  case (Cons c cs)
  then show ?case by (cases n) (auto split: if_splits)
qed

lemma index_sub_least: "index_sub pat s = Some i \<Longrightarrow> j < i \<Longrightarrow> \<not> has_prefix pat (drop j s)"
proof (induction s arbitrary: i j)
  case Nil
  then show ?case by (auto split: if_splits)
next
  case (Cons c cs)
  then show ?case by (cases j) (auto split: if_splits)
qed

lemma index_sub_append_not:
  "index_sub pat s = Some i \<Longrightarrow> index_sub pat (s @ t) = Some i"
proof (induction s arbitrary: i)
  case Nil
  then show ?case by (cases t) (auto simp: has_prefix_def split: if_splits)
next
  case (Cons c cs)
  show ?case
  proof (cases "has_prefix pat (c # cs)")
    case True
    then have "has_prefix pat ((c # cs) @ t)"
      by (metis append.assoc has_prefix_iff)
    with True Cons.prems show ?thesis by simp
  next
    case False
    with Cons.prems obtain j where j: "index_sub pat cs = Some j" "i = Suc j" by auto
    then have "length pat \<le> length cs"
      using index_sub_split [of pat cs j] by simp
    then have "take (length pat) ((c # cs) @ t) = take (length pat) (c # cs)"
      by (subst take_append) simp
    with False have "\<not> has_prefix pat ((c # cs) @ t)"
      by (simp only: has_prefix_def simp_thms)
    with False j Cons.IH [of j] show ?thesis by simp
  qed
qed

lemma index_byte_Some: "index_byte b s = Some i \<Longrightarrow> i < length s \<and> s ! i = b \<and> b \<notin> set (take i s)"
proof (induction s arbitrary: i)
  case Nil
  then show ?case by simp
next
  case (Cons c cs)
  then show ?case by (auto split: if_splits)
qed

lemma index_byte_None [gostr_simps]: "index_byte b s = None \<longleftrightarrow> b \<notin> set s"
  by (induction s) auto

lemma last_index_byte_None [gostr_simps]: "last_index_byte b s = None \<longleftrightarrow> b \<notin> set s"
  by (induction s) (auto split: option.splits)

lemma contains_any_iff [gostr_simps]: "contains_any s cs \<longleftrightarrow> (\<exists>c \<in> set s. c \<in> set cs)"
  by (simp add: contains_any_def list_ex_iff)

lemma contains_single [gostr_simps]: "contains s [b] \<longleftrightarrow> b \<in> set s"
  unfolding contains_def by (induction s) (auto simp: has_prefix_def)

text \<open>Splitting and joining are inverse to each other.\<close>

lemma split_on_nonempty [simp]: "split_on b s \<noteq> []"
  by (induction s) (auto split: list.splits)

lemma join_split [simp]: "join_with b (split_on b s) = s"
proof (induction s)
  case Nil
  then show ?case by simp
next
  case (Cons c cs)
  obtain p ps where ps: "split_on b cs = p # ps"
    by (cases "split_on b cs") auto
  with Cons show ?case by (cases ps) auto
qed

lemma split_on_inject [simp]: "split_on b s = split_on b t \<longleftrightarrow> s = t"
  by (metis join_split)

lemma split_on_parts: "p \<in> set (split_on b s) \<Longrightarrow> b \<notin> set p"
proof (induction s arbitrary: p)
  case Nil
  then show ?case by simp
next
  case (Cons c cs)
  then show ?case by (cases "split_on b cs") (auto split: if_splits)
qed

lemma split_on_single: "b \<notin> set p \<Longrightarrow> split_on b p = [p]"
  by (induction p) auto

lemma split_on_append: "b \<notin> set p \<Longrightarrow> split_on b (p @ b # s) = p # split_on b s"
  by (induction p) auto

lemma split_join:
  "ps \<noteq> [] \<Longrightarrow> \<forall>p \<in> set ps. b \<notin> set p \<Longrightarrow> split_on b (join_with b ps) = ps"
proof (induction b ps rule: join_with.induct)
  case (3 b p q ps)
  then show ?case by (simp add: split_on_append)
qed (auto simp: split_on_single)

lemma join_with_Cons: "ps \<noteq> [] \<Longrightarrow> join_with b (p # ps) = p @ b # join_with b ps"
  by (cases ps) auto

lemma replace_byte_id: "old \<notin> set s \<Longrightarrow> replace_byte old new s = s"
  unfolding replace_byte_def by (rule map_idI) auto

lemma replace_byte_inverse: "new \<notin> set s \<Longrightarrow> replace_byte new old (replace_byte old new s) = s"
  unfolding replace_byte_def by (induction s) auto

text \<open>Lower-casing and trimming.\<close>

lemma lower_char_idem [simp]: "lower_char (lower_char c) = lower_char c"
  by (auto simp: lower_char_def)

lemma is_ascii_lower_char [simp]: "is_ascii (lower_char c) = is_ascii c"
  by (auto simp: lower_char_def is_ascii_def)

lemma to_lower_ascii_idem: "list_all is_ascii s \<Longrightarrow> to_lower u (to_lower u s) = to_lower u s"
  by (simp add: to_lower_def list_all_iff)

lemma trim_left_suffix: "\<exists>p. s = p @ trim_left s"
proof (induction s rule: trim_left.induct)
  case (1 s)
  show ?case
  proof (cases "find (\<lambda>r. has_prefix r s) space_runes")
    case None
    then show ?thesis by (simp add: trim_left.simps [of s])
  next
    case (Some r)
    from "1.IH" [OF Some] obtain p where "drop (length r) s = p @ trim_left (drop (length r) s)" ..
    then have "s = (take (length r) s @ p) @ trim_left s"
      by (metis Some append.assoc append_take_drop_id option.case(2) trim_left.simps)
    then show ?thesis by blast
  qed
qed

lemma trim_right_prefix: "\<exists>t. s = trim_right s @ t"
proof (induction s rule: trim_right.induct)
  case (1 s)
  show ?case
  proof (cases "find (\<lambda>r. has_suffix r s) space_runes")
    case None
    then show ?thesis by (simp add: trim_right.simps [of s])
  next
    case (Some r)
    let ?t = "take (length s - length r) s"
    from "1.IH" [OF Some] obtain t where "?t = trim_right ?t @ t" ..
    then have "s = trim_right s @ t @ drop (length s - length r) s"
      by (metis Some append.assoc append_take_drop_id option.case(2) trim_right.simps)
    then show ?thesis by blast
  qed
qed

lemma trim_space_infix: "\<exists>p t. s = p @ trim_space s @ t"
  unfolding trim_space_def by (metis append.assoc trim_left_suffix trim_right_prefix)

text \<open>A sequence with no space at either end is left alone.\<close>

definition no_outer_space :: "string \<Rightarrow> bool" where
  "no_outer_space s =
     (\<forall>r \<in> set space_runes. \<not> has_prefix r s \<and> \<not> has_suffix r s)"

lemma find_None_space: "\<forall>r \<in> set space_runes. \<not> P r \<Longrightarrow> find P space_runes = None"
  by (auto simp: find_None_iff)

lemma trim_space_id: "no_outer_space s \<Longrightarrow> trim_space s = s"
  by (simp add: trim_space_def no_outer_space_def trim_left.simps [of s] trim_right.simps [of s]
      find_None_space)

text \<open>In particular when both ends are printable ASCII, which is how concrete names are evaluated.\<close>

definition graphic :: "char \<Rightarrow> bool" where
  "graphic c = (32 < byte_nat c \<and> byte_nat c < 128)"

lemma space_rune_ends:
  assumes "r \<in> set space_runes"
  shows "\<not> graphic (hd r) \<and> \<not> graphic (last r)"
  using assms by (auto simp: space_runes_def graphic_def byte_nat_def)

lemma trim_space_graphic: "s \<noteq> [] \<Longrightarrow> graphic (hd s) \<Longrightarrow> graphic (last s) \<Longrightarrow> trim_space s = s"
proof (rule trim_space_id, unfold no_outer_space_def, intro ballI conjI)
  fix r assume s: "s \<noteq> []" "graphic (hd s)" "graphic (last s)" and r: "r \<in> set space_runes"
  note ends = space_rune_ends [OF r] space_runes_nonempty [OF r]
  from s ends show "\<not> has_prefix r s" by (auto simp: has_prefix_iff)
  from s ends show "\<not> has_suffix r s" by (auto simp: has_suffix_iff)
qed

text \<open>Trimming leaves no outer space, and so trimming again changes nothing.\<close>

lemma trim_right_no_suffix: "r \<in> set space_runes \<Longrightarrow> \<not> has_suffix r (trim_right s)"
proof (induction s rule: trim_right.induct)
  case (1 s)
  show ?case
  proof (cases "find (\<lambda>r. has_suffix r s) space_runes")
    case None
    then have "trim_right s = s" by (simp add: trim_right.simps [of s])
    with None "1.prems" show ?thesis by (auto simp: find_None_iff)
  next
    case (Some q)
    with "1.IH" [OF Some "1.prems"] show ?thesis by (simp add: trim_right.simps [of s])
  qed
qed

lemma trim_left_no_prefix: "r \<in> set space_runes \<Longrightarrow> \<not> has_prefix r (trim_left s)"
proof (induction s rule: trim_left.induct)
  case (1 s)
  show ?case
  proof (cases "find (\<lambda>r. has_prefix r s) space_runes")
    case None
    then have "trim_left s = s" by (simp add: trim_left.simps [of s])
    with None "1.prems" show ?thesis by (auto simp: find_None_iff)
  next
    case (Some q)
    with "1.IH" [OF Some "1.prems"] show ?thesis by (simp add: trim_left.simps [of s])
  qed
qed

lemma trim_space_no_outer: "no_outer_space (trim_space s)"
proof -
  obtain t where t: "trim_left s = trim_right (trim_left s) @ t"
    using trim_right_prefix by blast
  have "\<not> has_prefix r (trim_right (trim_left s))" if r: "r \<in> set space_runes" for r
  proof
    assume "has_prefix r (trim_right (trim_left s))"
    then have "has_prefix r (trim_left s)"
      using t by (metis append.assoc has_prefix_iff)
    with trim_left_no_prefix [OF r] show False by blast
  qed
  then show ?thesis
    by (simp add: no_outer_space_def trim_space_def trim_right_no_suffix)
qed

lemma trim_space_idem [simp]: "trim_space (trim_space s) = trim_space s"
  by (rule trim_space_id [OF trim_space_no_outer])

lemma trim_space_blank [gostr_simps]: "trim_space (CHR '' '' # s) = trim_space s"
  by (simp add: trim_space_def trim_left.simps [of "CHR '' '' # s"] space_runes_def has_prefix_def)

end
