(* ===== verification/Vhost_Pattern.thy ===== *)
theory Vhost_Pattern
  imports Go_Strings
begin

text \<open>
  Host names and domain patterns: \<^verbatim>\<open>internal/tunnel/vhost/pattern.go\<close>.

  \<^verbatim>\<open>golang.org/x/net/idna\<close> is not part of the repository. Its two entry points, and the
  Unicode tables behind \<^verbatim>\<open>strings.ToLower\<close>, are the fields of a \<open>text_env\<close> every
  operation takes: \<open>idna_lookup\<close> is \<^verbatim>\<open>idna.Lookup.ToASCII\<close> on a whole name,
  \<open>idna_label\<close> is \<^verbatim>\<open>idna.ToASCII\<close> on one label, \<^term>\<open>None\<close> for an error.
\<close>

section \<open>Data\<close>

record text_env =
  unicode_lower :: "string \<Rightarrow> string"
  idna_lookup :: "string \<Rightarrow> string option"
  idna_label :: "string \<Rightarrow> string option"

datatype vhost_error =
    EmptyHost
  | EmptyAfterNormalisation
  | UnusableHost string
  | TooFewLabels string
  | EmptyLabel string
  | WildcardNotLeftmost string
  | WildcardInLabel string
  | TooBroad string
  | PatternNotHost string
  | NoDomains string
  | AlreadyRouted string string string
  | Rebuilding vhost_error

definition Wildcard :: string where
  "Wildcard = ''*''"

definition CatchAll :: string where
  "CatchAll = ''*''"

record pattern =
  raw :: string
  labels :: "string list"
  catchAll :: bool

section \<open>Operations\<close>

fun convert_each :: "text_env \<Rightarrow> string list \<Rightarrow> string list option" where
  "convert_each env [] = Some []"
| "convert_each env (label # rest) =
     (if label = Wildcard \<or> label = [] then map_option (Cons label) (convert_each env rest)
      else case idna_label env label of
             None \<Rightarrow> None
           | Some converted \<Rightarrow> map_option (Cons converted) (convert_each env rest))"

definition convertLabels :: "text_env \<Rightarrow> string \<Rightarrow> string option" where
  "convertLabels env s = map_option (join_with CHR ''.'') (convert_each env (split_on CHR ''.'' s))"

text \<open>The port is cut at the last colon when what follows holds no dot; an address in
  brackets is left alone.\<close>

definition strip_port :: "string \<Rightarrow> string" where
  "strip_port s =
     (if has_prefix ''['' s then s
      else case last_index_byte CHR '':'' s of
             None \<Rightarrow> s
           | Some idx \<Rightarrow>
               (if \<not> contains (drop (idx + 1) s) '':'' \<and> \<not> contains (drop (idx + 1) s) ''.''
                then take idx s else s))"

definition normalise :: "text_env \<Rightarrow> string \<Rightarrow> vhost_error + string" where
  "normalise env s0 =
     (let s1 = trim_space s0 in
      if s1 = [] then Inl EmptyHost
      else
        let s = trim_suffix ''.'' (to_lower (unicode_lower env) (strip_port s1)) in
        if s = [] then Inl EmptyAfterNormalisation
        else if s = CatchAll then Inr CatchAll
        else case idna_lookup env (replace_byte CHR ''*'' CHR 0x00 s) of
               Some converted \<Rightarrow> Inr (replace_byte CHR 0x00 CHR ''*'' converted)
             | None \<Rightarrow> (case convertLabels env s of
                         None \<Rightarrow> Inl (UnusableHost s)
                       | Some converted \<Rightarrow> Inr converted))"

definition NormaliseHost :: "text_env \<Rightarrow> string \<Rightarrow> vhost_error + string" where
  "NormaliseHost = normalise"

text \<open>The loop over the labels of a pattern, \<open>i\<close> being the index of the first one left.\<close>

fun check_labels :: "string \<Rightarrow> nat \<Rightarrow> string list \<Rightarrow> vhost_error option" where
  "check_labels s i [] = None"
| "check_labels s i (label # rest) =
     (if label = [] then Some (EmptyLabel s)
      else if label = Wildcard then
        (if i \<noteq> 0 then Some (WildcardNotLeftmost s) else check_labels s (i + 1) rest)
      else if contains label Wildcard then Some (WildcardInLabel s)
      else check_labels s (i + 1) rest)"

definition ParsePattern :: "text_env \<Rightarrow> string \<Rightarrow> vhost_error + pattern" where
  "ParsePattern env s =
     (case normalise env s of
        Inl e \<Rightarrow> Inl e
      | Inr normalised \<Rightarrow>
          if normalised = CatchAll then Inr \<lparr>raw = CatchAll, labels = [], catchAll = True\<rparr>
          else
            let parts = split_on CHR ''.'' normalised in
            if length parts < 2 then Inl (TooFewLabels s)
            else case check_labels s 0 parts of
                   Some e \<Rightarrow> Inl e
                 | None \<Rightarrow>
                     if parts ! 0 = Wildcard \<and> length parts < 3 then Inl (TooBroad s)
                     else Inr \<lparr>raw = normalised, labels = rev parts, catchAll = False\<rparr>)"

definition splitHostLabels :: "text_env \<Rightarrow> string \<Rightarrow> vhost_error + string list" where
  "splitHostLabels env host =
     (case normalise env host of
        Inl e \<Rightarrow> Inl e
      | Inr normalised \<Rightarrow>
          if normalised = CatchAll then Inl (PatternNotHost host)
          else Inr (rev (split_on CHR ''.'' normalised)))"

section \<open>What a parsed pattern looks like\<close>

lemma Wildcard_neq_Nil [simp]: "Wildcard \<noteq> []"
  by (simp add: Wildcard_def)

lemma CatchAll_eq_Wildcard: "CatchAll = Wildcard"
  by (simp add: CatchAll_def Wildcard_def)

lemma contains_Wildcard [gostr_simps]: "contains s Wildcard \<longleftrightarrow> CHR ''*'' \<in> set s"
  by (simp add: Wildcard_def contains_single)

lemma star_in_Wildcard [simp]: "CHR ''*'' \<in> set Wildcard" "CHR ''.'' \<notin> set Wildcard"
  by (simp_all add: Wildcard_def)

lemma check_labels_rest:
  "0 < i \<Longrightarrow> check_labels s i ps = None \<longleftrightarrow> (\<forall>q \<in> set ps. q \<noteq> [] \<and> CHR ''*'' \<notin> set q)"
  by (induction s i ps rule: check_labels.induct) (auto simp: contains_Wildcard)

text \<open>A well-formed pattern: the catch-all, or at least two non-empty labels without
  dots, of which only the leftmost (the last of the reversed list) may be the wildcard and then
  there are at least three.\<close>

definition label_ok :: "string \<Rightarrow> bool" where
  "label_ok l \<longleftrightarrow> l \<noteq> [] \<and> CHR ''.'' \<notin> set l \<and> CHR ''*'' \<notin> set l"

definition pattern_ok :: "pattern \<Rightarrow> bool" where
  "pattern_ok p \<longleftrightarrow>
     (if catchAll p then raw p = CatchAll \<and> labels p = []
      else raw p \<noteq> CatchAll \<and> raw p = join_with CHR ''.'' (rev (labels p)) \<and> 2 \<le> length (labels p)
         \<and> (\<forall>l \<in> set (butlast (labels p)). label_ok l)
         \<and> (last (labels p) = Wildcard \<and> 3 \<le> length (labels p) \<or> label_ok (last (labels p))))"

lemma check_labels_parts:
  assumes ok: "check_labels s 0 (p # ps) = None"
    and dots: "\<forall>q \<in> set (p # ps). CHR ''.'' \<notin> set q"
  shows "(p = Wildcard \<or> label_ok p) \<and> (\<forall>q \<in> set ps. label_ok q)"
  using ok dots by (auto simp: check_labels_rest contains_Wildcard label_ok_def split: if_splits)

lemma ParsePattern_ok:
  assumes "ParsePattern env s = Inr p"
  shows "pattern_ok p"
proof (cases "normalise env s")
  case (Inl e)
  with assms show ?thesis by (simp add: ParsePattern_def)
next
  case (Inr n)
  show ?thesis
  proof (cases "n = CatchAll")
    case True
    with assms Inr show ?thesis by (auto simp: ParsePattern_def pattern_ok_def)
  next
    case False
    obtain q qs where parts: "split_on CHR ''.'' n = q # qs"
      by (cases "split_on CHR ''.'' n") auto
    with assms Inr False have len: "2 \<le> length (q # qs)"
      and ck: "check_labels s 0 (q # qs) = None"
      and broad: "\<not> (q = Wildcard \<and> length (q # qs) < 3)"
      and p: "p = \<lparr>raw = n, labels = rev (q # qs), catchAll = False\<rparr>"
      by (auto simp: ParsePattern_def Let_def not_less Suc_le_eq simp del: check_labels.simps
          split: option.splits if_splits)
    have "\<forall>r \<in> set (q # qs). CHR ''.'' \<notin> set r"
      using split_on_parts [of _ "CHR ''.''" n] parts by auto
    with ck have "(q = Wildcard \<or> label_ok q) \<and> (\<forall>r \<in> set qs. label_ok r)"
      by (rule check_labels_parts)
    moreover have "join_with CHR ''.'' (q # qs) = n"
      using join_split [of "CHR ''.''" n] parts by simp
    ultimately show ?thesis
      using False len broad p by (auto simp: pattern_ok_def)
  qed
qed

text \<open>The text of a pattern determines it.\<close>

lemma pattern_labels_no_dot:
  assumes "pattern_ok p" "l \<in> set (labels p)"
  shows "CHR ''.'' \<notin> set l"
proof (cases "labels p" rule: rev_cases)
  case Nil
  with assms show ?thesis by simp
next
  case (snoc ls k)
  with assms show ?thesis
    by (auto simp: pattern_ok_def label_ok_def split: if_splits)
qed

lemma pattern_split_raw:
  assumes "pattern_ok p" "\<not> catchAll p"
  shows "split_on CHR ''.'' (raw p) = rev (labels p)"
proof -
  have "labels p \<noteq> []" using assms by (auto simp: pattern_ok_def)
  then show ?thesis
    using assms pattern_labels_no_dot [OF assms(1)] by (simp add: pattern_ok_def split_join)
qed

lemma pattern_ok_eqI:
  assumes "pattern_ok p" "pattern_ok q" "raw p = raw q"
  shows "labels p = labels q \<and> catchAll p = catchAll q"
proof (cases "catchAll p")
  case True
  with assms show ?thesis by (auto simp: pattern_ok_def split: if_splits)
next
  case False
  with assms have "\<not> catchAll q" by (auto simp: pattern_ok_def split: if_splits)
  with False assms show ?thesis by (metis pattern_split_raw rev_is_rev_conv)
qed

section \<open>A concrete environment\<close>

text \<open>What the two \<^verbatim>\<open>idna\<close> functions do on lower-case ASCII names: \<^verbatim>\<open>idna.Lookup\<close>, which
  applies the STD3 rules, accepts letters, digits, hyphens and dots and refuses every other
  character; \<^verbatim>\<open>idna.ToASCII\<close> leaves an ASCII label as it is. Examples are evaluated here.\<close>

definition ldh :: "char \<Rightarrow> bool" where
  "ldh c = (let n = byte_nat c in 97 \<le> n \<and> n \<le> 122 \<or> 48 \<le> n \<and> n \<le> 57 \<or> n = 45 \<or> n = 46)"

definition ascii_env :: text_env where
  "ascii_env = \<lparr>unicode_lower = id,
     idna_lookup = (\<lambda>s. if list_all ldh s then Some s else None),
     idna_label = (\<lambda>s. if list_all is_ascii s then Some s else None)\<rparr>"

lemmas name_eval = normalise_def strip_port_def to_lower_def trim_suffix_def has_suffix_def
  has_prefix_def trim_space_graphic graphic_def byte_nat_def is_ascii_def lower_char_def
  nat_byte_def char_of_def CatchAll_def Wildcard_def replace_byte_def contains_def ascii_env_def
  ldh_def Let_def convertLabels_def bit_0

lemmas pattern_eval = ParsePattern_def Let_def CatchAll_def Wildcard_def contains_def has_prefix_def

end
