(* ===== verification/Vhost_Trie.thy ===== *)
theory Vhost_Trie
  imports Vhost_Pattern
begin

text \<open>
  The label trie behind the router: \<^verbatim>\<open>internal/tunnel/vhost/trie.go\<close>, and the
  \<^verbatim>\<open>Route\<close> stored in it. A path is the list of a pattern's labels from the top-level domain
  down, the wildcard label leading to the node's \<^verbatim>\<open>wildcard\<close> child. \<open>node_get\<close>
  reads the trie as a finite map from paths to routes; insertion updates that map at one path, and
  the backtracking \<^verbatim>\<open>lookup\<close> is a search in it.
\<close>

section \<open>Data and operations\<close>

record route =
  rt_Pattern :: string
  rt_RunID :: string
  rt_ProxyName :: string
  rt_TLSMode :: string

datatype node = Node (children: "(string \<times> node) list") (wildcard: "node option") (node_route: "route option")

definition newNode :: node where
  "newNode = Node [] None None"

text \<open>\<^verbatim>\<open>insert\<close> walks down, creating the nodes that are missing, and fails when the last
  node already carries a route. The nodes it created before a failure are lost with the table
  under construction, which its only caller drops.\<close>

fun node_insert :: "node \<Rightarrow> string list \<Rightarrow> route \<Rightarrow> vhost_error + node" where
  "node_insert (Node cs w r) [] new =
     (case r of
        Some existing \<Rightarrow> Inl (AlreadyRouted (rt_Pattern new) (rt_ProxyName existing) (rt_RunID existing))
      | None \<Rightarrow> Inr (Node cs w (Some new)))"
| "node_insert (Node cs w r) (label # rest) new =
     (if label = Wildcard then
        (case node_insert (case w of None \<Rightarrow> newNode | Some n \<Rightarrow> n) rest new of
           Inl e \<Rightarrow> Inl e
         | Inr n \<Rightarrow> Inr (Node cs (Some n) r))
      else
        (case node_insert (case map_of cs label of None \<Rightarrow> newNode | Some n \<Rightarrow> n) rest new of
           Inl e \<Rightarrow> Inl e
         | Inr n \<Rightarrow> Inr (Node (AList.update label n cs) w r)))"

fun node_lookup :: "node \<Rightarrow> string list \<Rightarrow> route option" where
  "node_lookup (Node cs w r) [] = r"
| "node_lookup (Node cs w r) (head # rest) =
     (case (case map_of cs head of None \<Rightarrow> None | Some child \<Rightarrow> node_lookup child rest) of
        Some found \<Rightarrow> Some found
      | None \<Rightarrow> (case w of None \<Rightarrow> None | Some n \<Rightarrow> node_lookup n rest))"

text \<open>\<^verbatim>\<open>walk\<close>: the routes of the subtree, the node's own first, then the children,
  then the wildcard.\<close>

fun node_walk :: "node \<Rightarrow> route list" where
  "node_walk (Node cs w r) =
     (case r of None \<Rightarrow> [] | Some x \<Rightarrow> [x])
     @ concat (map (\<lambda>c. node_walk (snd c)) cs)
     @ (case w of None \<Rightarrow> [] | Some n \<Rightarrow> node_walk n)"

section \<open>The trie as a map from paths\<close>

fun node_get :: "node \<Rightarrow> string list \<Rightarrow> route option" where
  "node_get (Node cs w r) [] = r"
| "node_get (Node cs w r) (label # rest) =
     (if label = Wildcard then (case w of None \<Rightarrow> None | Some n \<Rightarrow> node_get n rest)
      else (case map_of cs label of None \<Rightarrow> None | Some n \<Rightarrow> node_get n rest))"

text \<open>No child is filed under the wildcard label.\<close>

fun node_ok :: "node \<Rightarrow> bool" where
  "node_ok (Node cs w r) \<longleftrightarrow>
     gomap_ok cs \<and> list_all (\<lambda>c. fst c \<noteq> Wildcard \<and> node_ok (snd c)) cs
     \<and> (case w of None \<Rightarrow> True | Some n \<Rightarrow> node_ok n)"

lemma node_get_newNode [simp]: "node_get newNode = Map.empty"
proof
  fix ps show "node_get newNode ps = None"
    by (cases ps) (simp_all add: newNode_def)
qed

lemma node_ok_newNode [simp, intro]: "node_ok newNode"
  by (simp add: newNode_def)

lemma node_ok_child:
  assumes "node_ok (Node cs w r)" "map_of cs l = Some n"
  shows "node_ok n" "l \<noteq> Wildcard"
  using assms by (auto simp: list_all_iff dest!: map_of_SomeD)

lemma node_ok_update:
  assumes "node_ok (Node cs w r)" "l \<noteq> Wildcard" "node_ok n"
  shows "node_ok (Node (AList.update l n cs) w r)"
proof -
  have "c \<in> set (AList.update l n cs) \<Longrightarrow> c = (l, n) \<or> c \<in> set cs" for c
    by (induction cs) (auto split: if_splits)
  with assms show ?thesis by (fastforce simp: list_all_iff)
qed

text \<open>Insertion fails exactly on an occupied path and otherwise sets that path.\<close>

lemma node_insert_err:
  "node_get n ps = Some existing \<Longrightarrow>
   node_insert n ps new = Inl (AlreadyRouted (rt_Pattern new) (rt_ProxyName existing) (rt_RunID existing))"
  by (induction n ps new rule: node_insert.induct) (auto split: option.splits if_splits)

lemma node_insert_ok_at:
  assumes "node_ok n" "node_get n ps = None"
  shows "\<exists>n'. node_insert n ps new = Inr n' \<and> node_ok n'
    \<and> (\<forall>qs. node_get n' qs = (if qs = ps then Some new else node_get n qs))"
  using assms
proof (induction n ps new rule: node_insert.induct)
  case (1 cs w r new)
  have "node_get (Node cs w (Some new)) qs = (if qs = [] then Some new else node_get (Node cs w r) qs)"
    for qs by (cases qs) auto
  with 1 show ?case by simp
next
  case (2 cs w r label rest new)
  define sub where "sub = (if label = Wildcard then (case w of None \<Rightarrow> newNode | Some n \<Rightarrow> n)
    else (case map_of cs label of None \<Rightarrow> newNode | Some n \<Rightarrow> n))"
  have sub: "node_ok sub" "node_get sub rest = None"
    using "2.prems" node_ok_child [OF "2.prems"(1)]
    by (auto simp: sub_def split: option.splits)
  obtain n' where n': "node_insert sub rest new = Inr n'" "node_ok n'"
    "\<forall>qs. node_get n' qs = (if qs = rest then Some new else node_get sub qs)"
    using "2.IH" sub by (cases "label = Wildcard") (auto simp: sub_def)
  show ?case
  proof (cases "label = Wildcard")
    case True
    have "node_get (Node cs (Some n') r) qs
        = (if qs = label # rest then Some new else node_get (Node cs w r) qs)" for qs
      using True n'(3) by (cases qs) (auto simp: sub_def split: option.splits)
    with True n' "2.prems"(1) show ?thesis by (simp add: sub_def)
  next
    case False
    have "node_get (Node (AList.update label n' cs) w r) qs
        = (if qs = label # rest then Some new else node_get (Node cs w r) qs)" for qs
      using False n'(3) by (cases qs) (auto simp: sub_def split: option.splits)
    with False n' node_ok_update [OF "2.prems"(1) False n'(2)] show ?thesis
      by (simp add: sub_def del: node_ok.simps)
  qed
qed

lemma node_insert_ok:
  assumes "node_ok n" "node_get n ps = None"
  obtains n' where "node_insert n ps new = Inr n'" "node_ok n'"
    "node_get n' = (node_get n)(ps \<mapsto> new)"
  using node_insert_ok_at [OF assms, of new] by (auto simp: fun_eq_iff)

section \<open>Lookup as a search for patterns\<close>

text \<open>At every label the literal child is preferred to the wildcard, with backtracking.\<close>

fun path_search :: "(string list \<Rightarrow> 'a option) \<Rightarrow> string list \<Rightarrow> 'a option" where
  "path_search f [] = f []"
| "path_search f (l # ls) =
     (case path_search (\<lambda>p. f (l # p)) ls of
        Some r \<Rightarrow> Some r
      | None \<Rightarrow> path_search (\<lambda>p. f (Wildcard # p)) ls)"

lemma path_search_empty [simp]: "path_search (\<lambda>p. None) ls = None"
  by (induction ls) auto

lemma node_lookup_search: "node_ok n \<Longrightarrow> node_lookup n ls = path_search (node_get n) ls"
proof (induction ls arbitrary: n)
  case Nil
  then show ?case by (cases n) simp
next
  case (Cons l ls)
  obtain cs w r where n: "n = Node cs w r" by (cases n)
  have wild: "(case w of None \<Rightarrow> None | Some m \<Rightarrow> node_lookup m ls)
      = path_search (\<lambda>p. node_get n (Wildcard # p)) ls"
    using Cons n by (cases w) auto
  show ?case
  proof (cases "l = Wildcard")
    case True
    then have "map_of cs l = None"
      using Cons.prems n by (auto simp: map_of_eq_None_iff list_all_iff)
    with wild n True show ?thesis by (auto split: option.splits)
  next
    case False
    have "(case map_of cs l of None \<Rightarrow> None | Some m \<Rightarrow> node_lookup m ls)
        = path_search (\<lambda>p. node_get n (l # p)) ls"
      using False n Cons.IH Cons.prems node_ok_child [of cs w r l]
      by (cases "map_of cs l") auto
    with wild n show ?thesis by (auto simp del: node_get.simps split: option.splits)
  qed
qed

text \<open>When the wildcard occurs only at the end of a path, the search has two candidates: the
  path itself and the path with its last label replaced by the wildcard.\<close>

lemma path_search_leftmost:
  assumes "\<And>p r. f p = Some r \<Longrightarrow> Wildcard \<notin> set (butlast p)"
  shows "path_search f ls =
    (case f ls of
       Some r \<Rightarrow> Some r
     | None \<Rightarrow> if ls = [] then None else f (butlast ls @ [Wildcard]))"
  using assms
proof (induction ls arbitrary: f)
  case Nil
  then show ?case by (simp split: option.splits)
next
  case (Cons l ls)
  have lit: "path_search (\<lambda>p. f (l # p)) ls =
    (case f (l # ls) of Some r \<Rightarrow> Some r
     | None \<Rightarrow> if ls = [] then None else f (l # butlast ls @ [Wildcard]))"
  proof (rule Cons.IH)
    fix p r assume "f (l # p) = Some r"
    from Cons.prems [OF this] show "Wildcard \<notin> set (butlast p)"
      by (auto split: if_splits)
  qed
  have wild: "path_search (\<lambda>p. f (Wildcard # p)) ls = (if ls = [] then f [Wildcard] else None)"
  proof (cases ls)
    case Nil
    then show ?thesis by simp
  next
    case (Cons m ms)
    have "f (Wildcard # p) = None" if "p \<noteq> []" for p
      using Cons.prems [of "Wildcard # p"] that by (cases "f (Wildcard # p)") auto
    then have "path_search (\<lambda>p. f (Wildcard # p)) ls = None"
      unfolding Cons by (simp)
    with Cons show ?thesis by simp
  qed
  from lit wild show ?case by (auto split: option.splits)
qed

section \<open>Walking\<close>

text \<open>A walk visits exactly the routes that some path leads to.\<close>

lemma node_get_Cons_Some:
  "node_get (Node cs w r) (l # ps) = Some x \<longleftrightarrow>
     (l = Wildcard \<and> (\<exists>n. w = Some n \<and> node_get n ps = Some x))
     \<or> (l \<noteq> Wildcard \<and> (\<exists>n. map_of cs l = Some n \<and> node_get n ps = Some x))"
  by (auto split: option.splits)

lemma ran_node_get:
  "x \<in> ran (node_get (Node cs w r)) \<longleftrightarrow>
     r = Some x \<or> (\<exists>l n. l \<noteq> Wildcard \<and> map_of cs l = Some n \<and> x \<in> ran (node_get n))
     \<or> (\<exists>n. w = Some n \<and> x \<in> ran (node_get n))"
proof -
  have "x \<in> ran (node_get (Node cs w r)) \<longleftrightarrow>
      node_get (Node cs w r) [] = Some x \<or> (\<exists>l ps. node_get (Node cs w r) (l # ps) = Some x)"
    unfolding ran_def mem_Collect_eq by (metis list.exhaust)
  then show ?thesis
    unfolding node_get_Cons_Some ran_def mem_Collect_eq by auto
qed

lemma node_walk_set: "node_ok n \<Longrightarrow> set (node_walk n) = ran (node_get n)"
proof (induction n rule: node_walk.induct)
  case (1 cs w r)
  have mem: "(l, n) \<in> set cs \<longleftrightarrow> map_of cs l = Some n" for l n
    using "1.prems" by (simp add: gomap_mem_iff)
  have kids: "x \<in> (\<Union>c \<in> set cs. set (node_walk (snd c))) \<longleftrightarrow>
      (\<exists>l n. l \<noteq> Wildcard \<and> map_of cs l = Some n \<and> x \<in> ran (node_get n))" for x
  proof -
    have "x \<in> (\<Union>c \<in> set cs. set (node_walk (snd c)))
        \<longleftrightarrow> (\<exists>l n. (l, n) \<in> set cs \<and> x \<in> ran (node_get n))"
      using "1.IH"(1) "1.prems" by (fastforce simp: list_all_iff)
    also have "\<dots> \<longleftrightarrow> (\<exists>l n. l \<noteq> Wildcard \<and> map_of cs l = Some n \<and> x \<in> ran (node_get n))"
      using node_ok_child(2) [OF "1.prems"] by (auto simp: mem)
    finally show ?thesis .
  qed
  have wild: "x \<in> set (case w of None \<Rightarrow> [] | Some n \<Rightarrow> node_walk n) \<longleftrightarrow>
      (\<exists>n. w = Some n \<and> x \<in> ran (node_get n))" for x
    using "1.IH"(2) "1.prems" by (cases w) auto
  have own: "x \<in> set (case r of None \<Rightarrow> [] | Some y \<Rightarrow> [y]) \<longleftrightarrow> r = Some x" for x
    by (cases r) auto
  show ?case
  proof (rule set_eqI)
    fix x
    have "x \<in> set (node_walk (Node cs w r)) \<longleftrightarrow>
        x \<in> set (case r of None \<Rightarrow> [] | Some y \<Rightarrow> [y])
        \<or> x \<in> (\<Union>c \<in> set cs. set (node_walk (snd c)))
        \<or> x \<in> set (case w of None \<Rightarrow> [] | Some n \<Rightarrow> node_walk n)"
      by simp
    then show "x \<in> set (node_walk (Node cs w r)) \<longleftrightarrow> x \<in> ran (node_get (Node cs w r))"
      unfolding kids wild own ran_node_get .
  qed
qed

end
