(* ===== verification/Vhost_Router.thy ===== *)
theory Vhost_Router
  imports Vhost_Trie
begin

text \<open>
  The domain router: \<^verbatim>\<open>internal/tunnel/vhost/router.go\<close>. \<open>routes\<close> is the
  authoritative map from pattern text to route that writers edit under the mutex;
  \<open>current\<close> is the immutable table that readers load atomically and that
  \<^verbatim>\<open>rebuildLocked\<close> replaces. \<open>lookup_spec\<close> says what a lookup promises in terms of
  the map alone; the invariant \<open>router_ok\<close> makes the table implement it.
\<close>

section \<open>State and operations\<close>

record table =
  root :: node
  tbl_catchAll :: "route option"
  tbl_count :: nat

definition newTable :: table where
  "newTable = \<lparr>root = newNode, tbl_catchAll = None, tbl_count = 0\<rparr>"

record router =
  current :: table
  routes :: "(string, route) gomap"

definition NewRouter :: router where
  "NewRouter = \<lparr>current = newTable, routes = []\<rparr>"

text \<open>The loop of \<^verbatim>\<open>rebuildLocked\<close> over the sorted pattern texts.\<close>

fun rebuild_loop :: "text_env \<Rightarrow> (string, route) gomap \<Rightarrow> string list \<Rightarrow> table \<Rightarrow> vhost_error + table" where
  "rebuild_loop env rs [] nxt = Inr nxt"
| "rebuild_loop env rs (p # ps) nxt =
     (case map_of rs p of
        None \<Rightarrow> rebuild_loop env rs ps nxt
      | Some rt \<Rightarrow>
          (case ParsePattern env p of
             Inl e \<Rightarrow> Inl (Rebuilding e)
           | Inr parsed \<Rightarrow>
               if catchAll parsed then
                 rebuild_loop env rs ps (nxt\<lparr>tbl_catchAll := Some rt, tbl_count := tbl_count nxt + 1\<rparr>)
               else case node_insert (root nxt) (labels parsed) rt of
                      Inl e \<Rightarrow> Inl e
                    | Inr n \<Rightarrow> rebuild_loop env rs ps
                        (nxt\<lparr>root := n, tbl_count := tbl_count nxt + 1\<rparr>)))"

definition rebuildLocked :: "text_env \<Rightarrow> router \<Rightarrow> router \<times> vhost_error option" where
  "rebuildLocked env r =
     (case rebuild_loop env (routes r) (sort (map fst (routes r))) newTable of
        Inl e \<Rightarrow> (r, Some e)
      | Inr nxt \<Rightarrow> (r\<lparr>current := nxt\<rparr>, None))"

fun parse_all :: "text_env \<Rightarrow> string list \<Rightarrow> vhost_error + pattern list" where
  "parse_all env [] = Inr []"
| "parse_all env (s # ss) =
     (case ParsePattern env s of
        Inl e \<Rightarrow> Inl e
      | Inr p \<Rightarrow> (case parse_all env ss of Inl e \<Rightarrow> Inl e | Inr ps \<Rightarrow> Inr (p # ps)))"

fun first_taken :: "(string, route) gomap \<Rightarrow> pattern list \<Rightarrow> vhost_error option" where
  "first_taken rs [] = None"
| "first_taken rs (p # ps) =
     (case map_of rs (raw p) of
        Some existing \<Rightarrow> Some (AlreadyRouted (raw p) (rt_ProxyName existing) (rt_RunID existing))
      | None \<Rightarrow> first_taken rs ps)"

fun claim_all :: "route \<Rightarrow> pattern list \<Rightarrow> (string, route) gomap \<Rightarrow> (string, route) gomap" where
  "claim_all rt [] rs = rs"
| "claim_all rt (p # ps) rs = claim_all rt ps (AList.update (raw p) (rt\<lparr>rt_Pattern := raw p\<rparr>) rs)"

definition Router_Add :: "text_env \<Rightarrow> router \<Rightarrow> string list \<Rightarrow> route \<Rightarrow> router \<times> vhost_error option" where
  "Router_Add env r patterns rt =
     (if patterns = [] then (r, Some (NoDomains (rt_ProxyName rt)))
      else case parse_all env patterns of
             Inl e \<Rightarrow> (r, Some e)
           | Inr parsed \<Rightarrow>
               (case first_taken (routes r) parsed of
                  Some e \<Rightarrow> (r, Some e)
                | None \<Rightarrow> rebuildLocked env (r\<lparr>routes := claim_all rt parsed (routes r)\<rparr>)))"

definition Router_Remove :: "text_env \<Rightarrow> router \<Rightarrow> string \<Rightarrow> string \<Rightarrow> router" where
  "Router_Remove env r runID proxyName =
     fst (rebuildLocked env (r\<lparr>routes :=
       filter (\<lambda>(p, rt). \<not> (rt_RunID rt = runID \<and> rt_ProxyName rt = proxyName)) (routes r)\<rparr>))"

definition Router_RemoveClient :: "text_env \<Rightarrow> router \<Rightarrow> string \<Rightarrow> router" where
  "Router_RemoveClient env r runID =
     fst (rebuildLocked env (r\<lparr>routes := filter (\<lambda>(p, rt). rt_RunID rt \<noteq> runID) (routes r)\<rparr>))"

definition Router_Lookup :: "text_env \<Rightarrow> router \<Rightarrow> string \<Rightarrow> route option" where
  "Router_Lookup env r host =
     (case splitHostLabels env host of
        Inl e \<Rightarrow> tbl_catchAll (current r)
      | Inr ls \<Rightarrow>
          (case node_lookup (root (current r)) ls of
             Some rt \<Rightarrow> Some rt
           | None \<Rightarrow> tbl_catchAll (current r)))"

definition Router_Len :: "router \<Rightarrow> nat" where
  "Router_Len r = tbl_count (current r)"

definition Router_Routes :: "router \<Rightarrow> route list" where
  "Router_Routes r =
     sort_key rt_Pattern (node_walk (root (current r))
       @ (case tbl_catchAll (current r) of None \<Rightarrow> [] | Some rt \<Rightarrow> [rt]))"

section \<open>What a lookup promises\<close>

text \<open>For a host whose normal form is \<open>n\<close>: the route of the pattern \<open>n\<close> itself,
  else the route of the pattern that has \<^verbatim>\<open>*\<close> in place of the leftmost label, else the
  catch-all. Anything that is not a host name only matches the catch-all.\<close>

definition wildcard_of :: "string \<Rightarrow> string" where
  "wildcard_of n = join_with CHR ''.'' (Wildcard # tl (split_on CHR ''.'' n))"

definition lookup_spec :: "text_env \<Rightarrow> (string \<rightharpoonup> route) \<Rightarrow> string \<Rightarrow> route option" where
  "lookup_spec env m host =
     (case normalise env host of
        Inl e \<Rightarrow> m CatchAll
      | Inr n \<Rightarrow>
          if n = CatchAll then m CatchAll
          else case m n of
                 Some rt \<Rightarrow> Some rt
               | None \<Rightarrow> (case m (wildcard_of n) of
                             Some rt \<Rightarrow> Some rt
                           | None \<Rightarrow> m CatchAll))"

section \<open>Invariant\<close>

text \<open>A pattern text is stable when parsing it gives a pattern with the same text. The router
  relies on it: \<^verbatim>\<open>rebuildLocked\<close> parses the keys of its map again.\<close>

definition pattern_stable :: "text_env \<Rightarrow> string \<Rightarrow> bool" where
  "pattern_stable env s = (case ParsePattern env s of Inl _ \<Rightarrow> False | Inr p \<Rightarrow> raw p = s)"

definition path_of :: "string \<Rightarrow> string list" where
  "path_of s = rev (split_on CHR ''.'' s)"

definition routes_ok :: "text_env \<Rightarrow> (string, route) gomap \<Rightarrow> bool" where
  "routes_ok env rs \<longleftrightarrow> gomap_ok rs \<and> (\<forall>(p, rt) \<in> set rs. pattern_stable env p \<and> rt_Pattern rt = p)"

definition table_ok :: "(string \<rightharpoonup> route) \<Rightarrow> table \<Rightarrow> bool" where
  "table_ok m t \<longleftrightarrow> node_ok (root t) \<and> tbl_catchAll t = m CatchAll
     \<and> (\<forall>s. node_get (root t) (path_of s) = (if s = CatchAll then None else m s))
     \<and> (\<forall>p rt. node_get (root t) p = Some rt \<longrightarrow> p \<in> range path_of \<and> Wildcard \<notin> set (butlast p))
     \<and> finite (dom m) \<and> tbl_count t = card (dom m)"

definition router_ok :: "text_env \<Rightarrow> router \<Rightarrow> bool" where
  "router_ok env r \<longleftrightarrow> routes_ok env (routes r) \<and> table_ok (map_of (routes r)) (current r)"

lemma path_of_inject [simp]: "path_of s = path_of t \<longleftrightarrow> s = t"
  by (simp add: path_of_def)

lemma path_of_nonempty [simp]: "path_of s \<noteq> []"
  by (simp add: path_of_def)

lemma pattern_stableE:
  assumes "pattern_stable env s"
  obtains p where "ParsePattern env s = Inr p" "raw p = s" "pattern_ok p"
    "catchAll p \<longleftrightarrow> s = CatchAll" "\<not> catchAll p \<longrightarrow> labels p = path_of s"
    "\<not> catchAll p \<longrightarrow> Wildcard \<notin> set (butlast (labels p))"
proof -
  from assms obtain p where p: "ParsePattern env s = Inr p" "raw p = s"
    by (auto simp: pattern_stable_def split: sum.splits)
  from ParsePattern_ok [OF p(1)] have ok: "pattern_ok p" .
  have ca: "catchAll p \<longleftrightarrow> s = CatchAll"
    using ok p(2) by (auto simp: pattern_ok_def split: if_splits)
  have lab: "\<not> catchAll p \<longrightarrow> labels p = path_of s"
    using pattern_split_raw [OF ok] p(2) by (simp add: path_of_def)
  have "\<not> label_ok Wildcard" by (simp add: label_ok_def)
  with ok have "\<not> catchAll p \<longrightarrow> Wildcard \<notin> set (butlast (labels p))"
    by (auto simp: pattern_ok_def)
  with p ok ca lab that show thesis by blast
qed

lemma table_ok_newTable: "table_ok Map.empty newTable"
  by (simp add: table_ok_def newTable_def)

section \<open>Rebuilding\<close>

text \<open>One step of the loop adds one stable pattern that is not in the table yet.\<close>

lemma table_ok_catchAll:
  assumes "table_ok m t" "m CatchAll = None"
  shows "table_ok (m(CatchAll \<mapsto> rt)) (t\<lparr>tbl_catchAll := Some rt, tbl_count := tbl_count t + 1\<rparr>)"
  using assms by (auto simp: table_ok_def domIff)

lemma table_ok_insert:
  assumes t: "table_ok m t" and fresh: "m s = None" and s: "s \<noteq> CatchAll"
    and left: "Wildcard \<notin> set (butlast (path_of s))"
  obtains n where "node_insert (root t) (path_of s) rt = Inr n"
    "table_ok (m(s \<mapsto> rt)) (t\<lparr>root := n, tbl_count := tbl_count t + 1\<rparr>)"
proof -
  from t fresh s have "node_ok (root t)" "node_get (root t) (path_of s) = None"
    by (auto simp: table_ok_def)
  then obtain n where n: "node_insert (root t) (path_of s) rt = Inr n" "node_ok n"
    "node_get n = (node_get (root t))(path_of s \<mapsto> rt)"
    by (rule node_insert_ok)
  have "table_ok (m(s \<mapsto> rt)) (t\<lparr>root := n, tbl_count := tbl_count t + 1\<rparr>)"
    using t n fresh s left by (auto simp: table_ok_def domIff)
  with n that show thesis by blast
qed

lemma rebuild_loop_ok:
  assumes "routes_ok env rs" "distinct ps" "set ps \<subseteq> dom (map_of rs)"
    and "table_ok m nxt" "dom m \<inter> set ps = {}"
  shows "\<exists>t. rebuild_loop env rs ps nxt = Inr t \<and> table_ok (m ++ map_of rs |` set ps) t"
  using assms(2-)
proof (induction ps arbitrary: m nxt)
  case Nil
  then show ?case by simp
next
  case (Cons s ps)
  obtain rt where rt: "map_of rs s = Some rt"
    using Cons.prems(2) by auto
  have "pattern_stable env s"
    using assms(1) map_of_SomeD [OF rt] by (auto simp: routes_ok_def)
  then obtain p where p: "ParsePattern env s = Inr p" "raw p = s" "pattern_ok p"
    "catchAll p \<longleftrightarrow> s = CatchAll" "\<not> catchAll p \<longrightarrow> labels p = path_of s"
    "\<not> catchAll p \<longrightarrow> Wildcard \<notin> set (butlast (labels p))"
    by (rule pattern_stableE)
  have fresh: "m s = None" using Cons.prems(4) by auto
  have merge: "m(s \<mapsto> rt) ++ map_of rs |` set ps = m ++ map_of rs |` set (s # ps)"
    using rt Cons.prems(1) by (auto simp: fun_eq_iff map_add_def restrict_map_def split: option.splits)
  have IH: "\<exists>t. rebuild_loop env rs ps n' = Inr t \<and> table_ok (m ++ map_of rs |` set (s # ps)) t"
    if "table_ok (m(s \<mapsto> rt)) n'" for n'
  proof -
    have "dom (m(s \<mapsto> rt)) \<inter> set ps = {}" using Cons.prems by auto
    with Cons.IH [of "m(s \<mapsto> rt)" n'] that Cons.prems merge show ?thesis
      by (simp del: fun_upd_apply)
  qed
  show ?case
  proof (cases "s = CatchAll")
    case True
    then show ?thesis
      using rt p table_ok_catchAll [OF Cons.prems(3)] fresh IH by simp
  next
    case False
    with p have lab: "labels p = path_of s" "Wildcard \<notin> set (butlast (path_of s))"
      "\<not> catchAll p" by auto
    obtain n where n: "node_insert (root nxt) (path_of s) rt = Inr n"
      "table_ok (m(s \<mapsto> rt)) (nxt\<lparr>root := n, tbl_count := tbl_count nxt + 1\<rparr>)"
      using table_ok_insert [OF Cons.prems(3) fresh False lab(2)] by blast
    from IH [OF n(2)] show ?thesis
      using rt p lab n(1) by simp
  qed
qed

lemma rebuildLocked_ok:
  assumes "routes_ok env (routes r)"
  shows "snd (rebuildLocked env r) = None" "router_ok env (fst (rebuildLocked env r))"
    "routes (fst (rebuildLocked env r)) = routes r"
proof -
  have keys: "distinct (sort (map fst (routes r)))" "set (sort (map fst (routes r))) \<subseteq> dom (map_of (routes r))"
    using assms by (auto simp: routes_ok_def gomap_ok_def dom_map_of_conv_image_fst)
  obtain t where t: "rebuild_loop env (routes r) (sort (map fst (routes r))) newTable = Inr t"
    "table_ok (Map.empty ++ map_of (routes r) |` set (sort (map fst (routes r)))) t"
    using rebuild_loop_ok [OF assms keys table_ok_newTable] by auto
  have "Map.empty ++ map_of (routes r) |` set (sort (map fst (routes r))) = map_of (routes r)"
    by (auto simp: fun_eq_iff restrict_map_def map_of_eq_None_iff [symmetric])
  with t assms show "snd (rebuildLocked env r) = None" "router_ok env (fst (rebuildLocked env r))"
    "routes (fst (rebuildLocked env r)) = routes r"
    by (simp_all add: rebuildLocked_def router_ok_def)
qed

section \<open>Lookup implements its specification\<close>

lemma butlast_path_of: "butlast (path_of n) @ [Wildcard] = path_of (wildcard_of n)"
proof -
  obtain q qs where parts: "split_on CHR ''.'' n = q # qs"
    by (cases "split_on CHR ''.'' n") auto
  have "\<forall>x \<in> set (Wildcard # qs). CHR ''.'' \<notin> set x"
    using split_on_parts [of _ "CHR ''.''" n] parts by auto
  then have "split_on CHR ''.'' (wildcard_of n) = Wildcard # qs"
    unfolding wildcard_of_def parts by (simp add: split_join del: join_with.simps)
  with parts show ?thesis by (simp add: path_of_def)
qed

lemma Router_Lookup_spec:
  assumes "router_ok env r"
  shows "Router_Lookup env r host = lookup_spec env (map_of (routes r)) host"
proof (cases "splitHostLabels env host")
  case (Inl e)
  with assms show ?thesis
    by (auto simp: Router_Lookup_def lookup_spec_def splitHostLabels_def router_ok_def table_ok_def
        split: sum.splits if_splits)
next
  case (Inr ls)
  then obtain n where n: "normalise env host = Inr n" "n \<noteq> CatchAll" and ls: "ls = path_of n"
    by (auto simp: splitHostLabels_def path_of_def split: sum.splits if_splits)
  have t: "table_ok (map_of (routes r)) (current r)"
    using assms by (simp add: router_ok_def)
  have "node_lookup (root (current r)) ls = path_search (node_get (root (current r))) ls"
    using t by (intro node_lookup_search) (simp add: table_ok_def)
  also have "\<dots> = (case node_get (root (current r)) ls of Some rt \<Rightarrow> Some rt
      | None \<Rightarrow> if ls = [] then None else node_get (root (current r)) (butlast ls @ [Wildcard]))"
    using t by (intro path_search_leftmost) (auto simp: table_ok_def)
  finally show ?thesis
    using t n ls Inr
    by (auto simp: Router_Lookup_def lookup_spec_def table_ok_def butlast_path_of split: option.splits)
qed

section \<open>Updates\<close>

lemma parse_all_Inr:
  "parse_all env ss = Inr ps \<Longrightarrow> list_all2 (\<lambda>s p. ParsePattern env s = Inr p) ss ps"
  by (induction ss arbitrary: ps) (auto split: sum.splits)

lemma first_taken_None: "first_taken rs ps = None \<longleftrightarrow> (\<forall>p \<in> set ps. map_of rs (raw p) = None)"
  by (induction ps) (auto split: option.splits)

lemma claim_all_lookup:
  "map_of (claim_all rt ps rs) k =
     (if k \<in> raw ` set ps then Some (rt\<lparr>rt_Pattern := k\<rparr>) else map_of rs k)"
  by (induction ps arbitrary: rs) auto

lemma claim_all_gomap_ok: "gomap_ok rs \<Longrightarrow> gomap_ok (claim_all rt ps rs)"
  by (induction ps arbitrary: rs) auto

text \<open>The domains a tunnel announces parse to stable patterns.\<close>

definition domains_stable :: "text_env \<Rightarrow> string list \<Rightarrow> bool" where
  "domains_stable env ss =
     list_all (\<lambda>s. case ParsePattern env s of Inl _ \<Rightarrow> True | Inr p \<Rightarrow> pattern_stable env (raw p)) ss"

lemma routes_ok_iff:
  "routes_ok env rs \<longleftrightarrow> gomap_ok rs \<and>
     (\<forall>p rt. map_of rs p = Some rt \<longrightarrow> pattern_stable env p \<and> rt_Pattern rt = p)"
proof (cases "gomap_ok rs")
  case True
  then show ?thesis by (simp add: routes_ok_def Ball_def split_paired_All gomap_mem_iff)
next
  case False
  then show ?thesis by (simp add: routes_ok_def)
qed

lemma routes_ok_claim:
  assumes "routes_ok env rs" "\<forall>p \<in> set ps. pattern_stable env (raw p)"
  shows "routes_ok env (claim_all rt ps rs)"
  using assms by (auto simp: routes_ok_iff claim_all_lookup claim_all_gomap_ok split: if_splits)

lemma routes_ok_filter: "routes_ok env rs \<Longrightarrow> routes_ok env (filter P rs)"
  by (auto simp: routes_ok_def)

text \<open>The texts of the patterns a list of domains stands for.\<close>

definition pattern_texts :: "text_env \<Rightarrow> string list \<Rightarrow> string set" where
  "pattern_texts env ss = {raw p |s p. s \<in> set ss \<and> ParsePattern env s = Inr p}"

lemma pattern_texts_parse_all:
  "parse_all env ss = Inr ps \<Longrightarrow> raw ` set ps = pattern_texts env ss"
proof -
  assume "parse_all env ss = Inr ps"
  then have "list_all2 (\<lambda>s p. ParsePattern env s = Inr p) ss ps" by (rule parse_all_Inr)
  then show ?thesis
  proof (induction rule: list_all2_induct)
    case Nil
    then show ?case by (simp add: pattern_texts_def)
  next
    case (Cons s ss p ps)
    then show ?case by (auto simp: pattern_texts_def)
  qed
qed

text \<open>Claiming domains is all or nothing: on an error the router is as it was; otherwise every
  pattern was free and now belongs to the route.\<close>

lemma Router_Add_error:
  assumes "routes_ok env (routes r)" "domains_stable env ss" "Router_Add env r ss rt = (r', Some e)"
  shows "r' = r"
proof (cases "parse_all env ss")
  case (Inl e')
  with assms show ?thesis by (auto simp: Router_Add_def split: if_splits)
next
  case (Inr ps)
  then have "\<forall>p \<in> set ps. pattern_stable env (raw p)"
    using assms(2) parse_all_Inr [OF Inr]
    by (fastforce simp: domains_stable_def list_all_iff list_all2_conv_all_nth in_set_conv_nth
        split: sum.splits)
  then have "routes_ok env (claim_all rt ps (routes r))"
    using assms(1) by (intro routes_ok_claim) auto
  then have "snd (rebuildLocked env (r\<lparr>routes := claim_all rt ps (routes r)\<rparr>)) = None"
    by (intro rebuildLocked_ok) simp
  with assms Inr show ?thesis
    by (auto simp: Router_Add_def split: if_splits option.splits)
qed

lemma Router_Add_ok:
  assumes "routes_ok env (routes r)" "domains_stable env ss" "Router_Add env r ss rt = (r', None)"
  shows "router_ok env r' \<and> ss \<noteq> []
    \<and> (\<forall>k \<in> pattern_texts env ss. map_of (routes r) k = None)
    \<and> map_of (routes r') =
        (\<lambda>k. if k \<in> pattern_texts env ss then Some (rt\<lparr>rt_Pattern := k\<rparr>) else map_of (routes r) k)"
proof -
  from assms(3) obtain ps where ps: "parse_all env ss = Inr ps" "ss \<noteq> []"
    "first_taken (routes r) ps = None"
    "r' = fst (rebuildLocked env (r\<lparr>routes := claim_all rt ps (routes r)\<rparr>))"
    by (cases "parse_all env ss")
       (auto simp: Router_Add_def split: if_splits option.splits)
  have "\<forall>p \<in> set ps. pattern_stable env (raw p)"
    using assms(2) parse_all_Inr [OF ps(1)]
    by (fastforce simp: domains_stable_def list_all_iff list_all2_conv_all_nth in_set_conv_nth
        split: sum.splits)
  then have "routes_ok env (routes (r\<lparr>routes := claim_all rt ps (routes r)\<rparr>))"
    using assms(1) by (simp add: routes_ok_claim)
  from rebuildLocked_ok [OF this] ps show ?thesis
    by (auto simp: pattern_texts_parse_all [symmetric] first_taken_None claim_all_lookup)
qed

lemma Router_Remove_ok:
  assumes "routes_ok env (routes r)"
  shows "router_ok env (Router_Remove env r runID name)"
    "map_of (routes (Router_Remove env r runID name)) k =
      (case map_of (routes r) k of None \<Rightarrow> None
       | Some rt \<Rightarrow> if rt_RunID rt = runID \<and> rt_ProxyName rt = name then None else Some rt)"
  using assms rebuildLocked_ok [of env "r\<lparr>routes := filter
    (\<lambda>(p, rt). \<not> (rt_RunID rt = runID \<and> rt_ProxyName rt = name)) (routes r)\<rparr>"]
  by (auto simp: Router_Remove_def routes_ok_filter map_of_filter_gomap routes_ok_def [of env "routes r"]
      split: option.splits)

lemma Router_RemoveClient_ok:
  assumes "routes_ok env (routes r)"
  shows "router_ok env (Router_RemoveClient env r runID)"
    "map_of (routes (Router_RemoveClient env r runID)) k =
      (case map_of (routes r) k of None \<Rightarrow> None
       | Some rt \<Rightarrow> if rt_RunID rt = runID then None else Some rt)"
  using assms rebuildLocked_ok [of env "r\<lparr>routes := filter
    (\<lambda>(p, rt). rt_RunID rt \<noteq> runID) (routes r)\<rparr>"]
  by (auto simp: Router_RemoveClient_def routes_ok_filter map_of_filter_gomap
      routes_ok_def [of env "routes r"] split: option.splits)

lemma router_ok_NewRouter: "router_ok env NewRouter"
  by (simp add: router_ok_def NewRouter_def routes_ok_def table_ok_newTable)

section \<open>Reachable routers\<close>

text \<open>The writers of the router: \<^verbatim>\<open>Add\<close>, \<^verbatim>\<open>Remove\<close> and \<^verbatim>\<open>RemoveClient\<close>, one at a time
  under the mutex, in any order.\<close>

datatype router_op =
    OpAdd "string list" route
  | OpRemove string string
  | OpRemoveClient string

fun router_step :: "text_env \<Rightarrow> router \<Rightarrow> router_op \<Rightarrow> router" where
  "router_step env r (OpAdd ss rt) = fst (Router_Add env r ss rt)"
| "router_step env r (OpRemove runID name) = Router_Remove env r runID name"
| "router_step env r (OpRemoveClient runID) = Router_RemoveClient env r runID"

definition router_run :: "text_env \<Rightarrow> router \<Rightarrow> router_op list \<Rightarrow> router" where
  "router_run env = foldl (router_step env)"

fun op_stable :: "text_env \<Rightarrow> router_op \<Rightarrow> bool" where
  "op_stable env (OpAdd ss rt) = domains_stable env ss"
| "op_stable env _ = True"

lemma router_step_ok [inv_intros]:
  assumes "router_ok env r" "op_stable env op"
  shows "router_ok env (router_step env r op)"
proof (cases op)
  case (OpAdd ss rt)
  obtain r' e where add: "Router_Add env r ss rt = (r', e)" by fastforce
  from assms OpAdd have "routes_ok env (routes r)" "domains_stable env ss"
    by (auto simp: router_ok_def)
  with add assms(1) OpAdd show ?thesis
    using Router_Add_ok [of env r ss rt r'] Router_Add_error [of env r ss rt r']
    by (cases e) auto
next
  case (OpRemove runID name)
  with assms show ?thesis by (simp add: Router_Remove_ok router_ok_def [of env r])
next
  case (OpRemoveClient runID)
  with assms show ?thesis by (simp add: Router_RemoveClient_ok router_ok_def [of env r])
qed

lemma router_run_ok: "router_ok env r \<Longrightarrow> list_all (op_stable env) ops \<Longrightarrow> router_ok env (router_run env r ops)"
  unfolding router_run_def
  by (induction ops arbitrary: r) (auto intro: router_step_ok)

text \<open>The listing of the routes is sorted by pattern and is exactly the map's content.\<close>

lemma Router_Routes_set:
  assumes "router_ok env r"
  shows "set (Router_Routes r) = ran (map_of (routes r))"
proof -
  have t: "table_ok (map_of (routes r)) (current r)"
    using assms by (simp add: router_ok_def)
  have "ran (node_get (root (current r))) = {x. \<exists>s. s \<noteq> CatchAll \<and> map_of (routes r) s = Some x}"
    (is "?A = ?B")
  proof
    show "?A \<subseteq> ?B"
    proof
      fix x assume "x \<in> ?A"
      then obtain p where p: "node_get (root (current r)) p = Some x" by (auto simp: ran_def)
      with t obtain s where "p = path_of s" by (auto simp: table_ok_def)
      with t p have "s \<noteq> CatchAll" "map_of (routes r) s = Some x"
        by (auto simp: table_ok_def split: if_splits)
      then show "x \<in> ?B" by blast
    qed
    show "?B \<subseteq> ?A"
    proof
      fix x assume "x \<in> ?B"
      then obtain s where "s \<noteq> CatchAll" "map_of (routes r) s = Some x" by auto
      with t have "node_get (root (current r)) (path_of s) = Some x"
        by (simp add: table_ok_def)
      then show "x \<in> ?A" by (rule ranI)
    qed
  qed
  moreover have "set (Router_Routes r) = ?A \<union> set_option (map_of (routes r) CatchAll)"
    using t node_walk_set [of "root (current r)"]
    by (auto simp: Router_Routes_def table_ok_def split: option.splits)
  moreover have "ran (map_of (routes r)) = ?B \<union> set_option (map_of (routes r) CatchAll)"
    unfolding ran_def by (auto, metis)
  ultimately show ?thesis by simp
qed

section \<open>When a claim is accepted, and when a rebuild cannot succeed\<close>

lemma parse_all_ok_iff: "(\<exists>ps. parse_all env ss = Inr ps) \<longleftrightarrow> (\<forall>s \<in> set ss. \<exists>p. ParsePattern env s = Inr p)"
proof (induction ss)
  case Nil
  then show ?case by simp
next
  case (Cons s ss)
  then show ?case by (cases "ParsePattern env s"; cases "parse_all env ss") auto
qed

lemma Router_Add_accepts:
  assumes "routes_ok env (routes r)" "domains_stable env ss"
  shows "snd (Router_Add env r ss rt) = None \<longleftrightarrow>
    ss \<noteq> [] \<and> (\<forall>s \<in> set ss. \<exists>p. ParsePattern env s = Inr p)
    \<and> (\<forall>k \<in> pattern_texts env ss. map_of (routes r) k = None)"
    (is "?L \<longleftrightarrow> ?R")
proof
  assume ?L
  then obtain r' where add: "Router_Add env r ss rt = (r', None)" by (metis prod.collapse)
  then have "\<exists>ps. parse_all env ss = Inr ps"
    by (auto simp: Router_Add_def split: if_splits sum.splits)
  with Router_Add_ok [OF assms add] show ?R by (simp add: parse_all_ok_iff)
next
  assume R: ?R
  then obtain ps where ps: "parse_all env ss = Inr ps" using parse_all_ok_iff by metis
  with R have "first_taken (routes r) ps = None"
    by (auto simp: first_taken_None pattern_texts_parse_all [OF ps, symmetric])
  moreover have "\<forall>p \<in> set ps. pattern_stable env (raw p)"
    using assms(2) parse_all_Inr [OF ps]
    by (fastforce simp: domains_stable_def list_all_iff list_all2_conv_all_nth in_set_conv_nth
        split: sum.splits)
  then have "snd (rebuildLocked env (r\<lparr>routes := claim_all rt ps (routes r)\<rparr>)) = None"
    using assms(1) by (intro rebuildLocked_ok) (simp add: routes_ok_claim)
  ultimately show ?L using R ps by (simp add: Router_Add_def)
qed

text \<open>One successful step of the loop: nothing is overwritten, and the pattern of the step is
  new.\<close>

lemma rebuild_loop_step:
  assumes run: "rebuild_loop env rs (s # ps) nxt = Inr t" and ok: "node_ok (root nxt)"
  obtains nxt' where "rebuild_loop env rs ps nxt' = Inr t" "node_ok (root nxt')"
    "\<And>path x. node_get (root nxt) path = Some x \<Longrightarrow> node_get (root nxt') path = Some x"
    "\<And>rt p. map_of rs s = Some rt \<Longrightarrow> ParsePattern env s = Inr p \<Longrightarrow> \<not> catchAll p \<Longrightarrow>
       node_get (root nxt) (labels p) = None \<and> node_get (root nxt') (labels p) = Some rt"
proof (cases "map_of rs s")
  case None
  with run ok that [of nxt] show thesis by simp
next
  case (Some rt)
  show thesis
  proof (cases "ParsePattern env s")
    case (Inl e)
    with Some run show thesis by simp
  next
    case (Inr q)
    show thesis
    proof (cases "catchAll q")
      case True
      with Some Inr run ok show thesis
        by (intro that [of "nxt\<lparr>tbl_catchAll := Some rt, tbl_count := tbl_count nxt + 1\<rparr>"]) auto
    next
      case False
      have free: "node_get (root nxt) (labels q) = None"
        using run Some Inr False node_insert_err [of "root nxt" "labels q"]
        by (cases "node_get (root nxt) (labels q)") auto
      then obtain n where n: "node_insert (root nxt) (labels q) rt = Inr n" "node_ok n"
        "node_get n = (node_get (root nxt))(labels q \<mapsto> rt)"
        using node_insert_ok [OF ok] by metis
      with Some Inr False run free show thesis
        by (intro that [of "nxt\<lparr>root := n, tbl_count := tbl_count nxt + 1\<rparr>"]) auto
    qed
  qed
qed

text \<open>A key whose path is occupied makes the loop fail.\<close>

lemma rebuild_loop_occupied:
  assumes "rebuild_loop env rs ps nxt = Inr t" "node_ok (root nxt)"
    and "node_get (root nxt) (labels p) = Some x"
    and "k \<in> set ps" "map_of rs k = Some rt" "ParsePattern env k = Inr p" "\<not> catchAll p"
  shows False
  using assms(1-4)
proof (induction ps arbitrary: nxt x)
  case Nil
  then show ?case by simp
next
  case (Cons s ps)
  from rebuild_loop_step [OF Cons.prems(1,2)] obtain nxt' where
    nxt': "rebuild_loop env rs ps nxt' = Inr t" "node_ok (root nxt')"
      "node_get (root nxt') (labels p) = Some x"
    and new: "s = k \<Longrightarrow> node_get (root nxt) (labels p) = None"
    using assms(5-7) Cons.prems(3) by metis
  with Cons show ?case by (cases "s = k") auto
qed

lemma rebuild_loop_clash:
  assumes "rebuild_loop env rs ps nxt = Inr t" "node_ok (root nxt)"
    and "k1 \<in> set ps" "k2 \<in> set ps" "k1 \<noteq> k2"
    and k1: "map_of rs k1 = Some rt1" "ParsePattern env k1 = Inr p1" "\<not> catchAll p1"
    and k2: "map_of rs k2 = Some rt2" "ParsePattern env k2 = Inr p2" "\<not> catchAll p2"
    and same: "labels p1 = labels p2"
  shows False
  using assms(1-4)
proof (induction ps arbitrary: nxt)
  case Nil
  then show ?case by simp
next
  case (Cons s ps)
  from rebuild_loop_step [OF Cons.prems(1,2)] obtain nxt' where
    nxt': "rebuild_loop env rs ps nxt' = Inr t" "node_ok (root nxt')"
    and n1: "s = k1 \<Longrightarrow> node_get (root nxt') (labels p2) = Some rt1"
    and n2: "s = k2 \<Longrightarrow> node_get (root nxt') (labels p1) = Some rt2"
    using k1 k2 same by metis
  consider "s = k1" | "s = k2" | "s \<noteq> k1" "s \<noteq> k2" by blast
  then show ?case
  proof cases
    case 1
    with Cons.prems assms(5) have "k2 \<in> set ps" by auto
    with rebuild_loop_occupied [OF nxt' n1 [OF 1] _ k2] show ?thesis by blast
  next
    case 2
    with Cons.prems assms(5) have "k1 \<in> set ps" by auto
    with rebuild_loop_occupied [OF nxt' n2 [OF 2] _ k1] show ?thesis by blast
  next
    case 3
    with Cons.IH [OF nxt'] Cons.prems show ?thesis by auto
  qed
qed

section \<open>Properties\<close>


definition demo_route :: "string \<Rightarrow> string \<Rightarrow> route" where
  "demo_route runID name = \<lparr>rt_Pattern = [], rt_RunID = runID, rt_ProxyName = name, rt_TLSMode = ''none''\<rparr>"

lemma norm_nas: "normalise ascii_env ''nas.example.com'' = Inr ''nas.example.com''"
  by (simp add: name_eval)

lemma norm_wild: "normalise ascii_env ''*.example.com'' = Inr ''*.example.com''"
  by (simp add: name_eval)

lemma norm_www: "normalise ascii_env ''WWW.Example.com:8080'' = Inr ''www.example.com''"
  by (simp add: name_eval)

lemma parse_nas: "ParsePattern ascii_env ''nas.example.com'' =
    Inr \<lparr>raw = ''nas.example.com'', labels = [''com'', ''example'', ''nas''], catchAll = False\<rparr>"
  by (simp add: pattern_eval norm_nas)

lemma parse_wild: "ParsePattern ascii_env ''*.example.com'' =
    Inr \<lparr>raw = ''*.example.com'', labels = [''com'', ''example'', ''*''], catchAll = False\<rparr>"
  by (simp add: pattern_eval norm_wild)

lemmas router_eval = router_run_def Router_Add_def rebuildLocked_def NewRouter_def newTable_def
  newNode_def parse_nas parse_wild demo_route_def Wildcard_def CatchAll_def

definition demo_ops :: "router_op list" where
  "demo_ops = [OpAdd [''nas.example.com''] (demo_route ''A'' ''nas''),
               OpAdd [''*.example.com''] (demo_route ''B'' ''web'')]"

lemma demo_routes: "routes (router_run ascii_env NewRouter demo_ops) =
    [(''nas.example.com'', (demo_route ''A'' ''nas'')\<lparr>rt_Pattern := ''nas.example.com''\<rparr>),
     (''*.example.com'', (demo_route ''B'' ''web'')\<lparr>rt_Pattern := ''*.example.com''\<rparr>)]"
  by (simp add: router_eval demo_ops_def less_char_def)

lemma demo_stable: "list_all (op_stable ascii_env) demo_ops"
  by (simp add: demo_ops_def domains_stable_def pattern_stable_def parse_nas parse_wild)


text \<open>Claiming domains is all or nothing. A claim is accepted exactly when there is at
  least one domain, every domain parses and none of the patterns is held; then the patterns
  belong to the new route and every other one is untouched. A refused claim leaves the router as
  it was.\<close>

theorem router_add_atomic:
  assumes "router_ok env r" "domains_stable env ss"
  shows "(snd (Router_Add env r ss rt) = None \<longleftrightarrow>
      ss \<noteq> [] \<and> (\<forall>s \<in> set ss. \<exists>p. ParsePattern env s = Inr p)
      \<and> (\<forall>k \<in> pattern_texts env ss. map_of (routes r) k = None))
    \<and> (if snd (Router_Add env r ss rt) = None
       then map_of (routes (fst (Router_Add env r ss rt))) =
          (\<lambda>k. if k \<in> pattern_texts env ss then Some (rt\<lparr>rt_Pattern := k\<rparr>) else map_of (routes r) k)
       else fst (Router_Add env r ss rt) = r)"
proof -
  have ok: "routes_ok env (routes r)" using assms(1) by (simp add: router_ok_def)
  obtain r' e where add: "Router_Add env r ss rt = (r', e)" by fastforce
  show ?thesis
    using Router_Add_accepts [OF ok assms(2), of rt] add
      Router_Add_ok [OF ok assms(2), of rt r'] Router_Add_error [OF ok assms(2), of rt r']
    by (cases e) simp_all
qed

theorem router_add_atomic_witness:
  "snd (Router_Add ascii_env NewRouter [''nas.example.com''] (demo_route ''A'' ''nas'')) = None"
proof -
  have "domains_stable ascii_env [''nas.example.com'']"
    by (simp add: domains_stable_def pattern_stable_def parse_nas)
  from router_add_atomic [OF router_ok_NewRouter this, of "demo_route ''A'' ''nas''"]
  show ?thesis by (simp add: parse_nas NewRouter_def)
qed

text \<open>After a client is removed no host is routed to it, and a host whose route belonged
  to no pattern of that client keeps its route.\<close>

theorem router_remove_client_isolated:
  assumes "router_ok env r"
  shows "(case Router_Lookup env (Router_RemoveClient env r runID) host of
            None \<Rightarrow> True | Some rt \<Rightarrow> rt_RunID rt \<noteq> runID)
    \<and> (\<forall>rt. Router_Lookup env r host = Some rt \<and> rt_RunID rt \<noteq> runID \<longrightarrow>
          Router_Lookup env (Router_RemoveClient env r runID) host = Some rt)"
proof -
  let ?r = "Router_RemoveClient env r runID"
  have ok: "routes_ok env (routes r)" using assms by (simp add: router_ok_def)
  note rem = Router_RemoveClient_ok [OF ok, of runID]
  have before: "Router_Lookup env r host = lookup_spec env (map_of (routes r)) host"
    using assms by (rule Router_Lookup_spec)
  have after: "Router_Lookup env ?r host = lookup_spec env (map_of (routes ?r)) host"
    using rem(1) by (rule Router_Lookup_spec)
  show ?thesis
    unfolding before after
    by (auto simp: lookup_spec_def rem(2) split: sum.splits option.splits if_splits)
qed

theorem router_remove_client_isolated_witness:
  "Router_Lookup ascii_env
     (Router_RemoveClient ascii_env (router_run ascii_env NewRouter demo_ops) ''A'') ''WWW.Example.com:8080''
   = Some ((demo_route ''B'' ''web'')\<lparr>rt_Pattern := ''*.example.com''\<rparr>)"
proof -
  have ok: "router_ok ascii_env (router_run ascii_env NewRouter demo_ops)"
    using router_ok_NewRouter demo_stable by (rule router_run_ok)
  have "Router_Lookup ascii_env (router_run ascii_env NewRouter demo_ops) ''WWW.Example.com:8080''
      = Some ((demo_route ''B'' ''web'')\<lparr>rt_Pattern := ''*.example.com''\<rparr>)"
    using Router_Lookup_spec [OF ok] by (simp add: lookup_spec_def norm_www demo_routes
      wildcard_of_def Wildcard_def CatchAll_def)
  with router_remove_client_isolated [OF ok, of "''A''" "''WWW.Example.com:8080''"]
  show ?thesis by (simp add: demo_route_def)
qed

text \<open>Stability of the claimed patterns is needed. Two entries of the map whose texts
  parse to the same labels make every rebuild fail, so the published table stays as it is
  although the map has changed. A domain with two colons gets there, since parsing strips one
  port at a time: its claim is reported as refused, yet its entry stays in the map.\<close>

theorem router_rebuild_stuck:
  assumes "map_of (routes r) k1 = Some rt1" "map_of (routes r) k2 = Some rt2" "k1 \<noteq> k2"
    and "ParsePattern env k1 = Inr p1" "ParsePattern env k2 = Inr p2"
    and "\<not> catchAll p1" "\<not> catchAll p2" "labels p1 = labels p2"
  shows "snd (rebuildLocked env r) \<noteq> None \<and> fst (rebuildLocked env r) = r"
proof -
  have keys: "k1 \<in> set (sort (map fst (routes r)))" "k2 \<in> set (sort (map fst (routes r)))"
    using assms(1,2) by (force dest: map_of_SomeD)+
  have "node_ok (root newTable)" by (simp add: newTable_def)
  then have "rebuild_loop env (routes r) (sort (map fst (routes r))) newTable \<noteq> Inr t" for t
    using rebuild_loop_clash [OF _ _ keys assms(3,1,4,6,2,5,7,8)] by blast
  then show ?thesis
    by (cases "rebuild_loop env (routes r) (sort (map fst (routes r))) newTable")
       (auto simp: rebuildLocked_def)
qed

lemma norm_two_ports: "normalise ascii_env ''nas.example.com:1:2'' = Inr ''nas.example.com:1''"
  by (simp add: name_eval)

lemma norm_one_port: "normalise ascii_env ''nas.example.com:1'' = Inr ''nas.example.com''"
  by (simp add: name_eval)

lemma parse_two_ports: "ParsePattern ascii_env ''nas.example.com:1:2'' =
    Inr \<lparr>raw = ''nas.example.com:1'', labels = [''com:1'', ''example'', ''nas''], catchAll = False\<rparr>"
  by (simp add: pattern_eval norm_two_ports)

lemma parse_one_port: "ParsePattern ascii_env ''nas.example.com:1'' =
    Inr \<lparr>raw = ''nas.example.com'', labels = [''com'', ''example'', ''nas''], catchAll = False\<rparr>"
  by (simp add: pattern_eval norm_one_port)

text \<open>The router after client A claimed \<^verbatim>\<open>nas.example.com\<close> and client B then tried
  \<^verbatim>\<open>nas.example.com:1:2\<close>: the second call fails, and from then on every rebuild does.\<close>

definition stuck_router :: router where
  "stuck_router = fst (Router_Add ascii_env
     (fst (Router_Add ascii_env NewRouter [''nas.example.com''] (demo_route ''A'' ''nas'')))
     [''nas.example.com:1:2''] (demo_route ''B'' ''other''))"

lemma stuck_router_routes: "map fst (routes stuck_router) = [''nas.example.com'', ''nas.example.com:1'']"
  by (simp add: stuck_router_def router_eval parse_two_ports parse_one_port less_char_def)

theorem router_rebuild_stuck_witness:
  "snd (rebuildLocked ascii_env stuck_router) \<noteq> None
   \<and> fst (rebuildLocked ascii_env stuck_router) = stuck_router"
proof -
  obtain rt1 rt2 where "routes stuck_router = [(''nas.example.com'', rt1), (''nas.example.com:1'', rt2)]"
    using stuck_router_routes by (auto simp: map_eq_Cons_conv)
  then have "map_of (routes stuck_router) ''nas.example.com'' = Some rt1"
    "map_of (routes stuck_router) ''nas.example.com:1'' = Some rt2"
    by simp_all
  from router_rebuild_stuck [OF this _ parse_nas parse_one_port] show ?thesis by simp
qed

end
