(* ===== verification/Go_IO.thy ===== *)
theory Go_IO
  imports Go_Strings
begin

text \<open>
  What the repository uses of Go's \<^verbatim>\<open>io\<close> package. An \<^verbatim>\<open>io.Reader\<close> (a connection) is the
  list of what its successive \<^verbatim>\<open>Read\<close> calls can deliver: some bytes and possibly an error.
  A \<^verbatim>\<open>Read\<close> into a buffer smaller than the next delivery takes part of it; an exhausted
  list is end of file. The data of a reader is the concatenation of its deliveries, so a fact
  about all lists with the same data is independent of how the network cut the stream.
\<close>

datatype io_error = EOF | UnexpectedEOF | NoProgress | ConnError string

type_synonym reader = "(bytes \<times> io_error option) list"

definition reader_data :: "reader \<Rightarrow> bytes" where
  "reader_data r = concat (map fst r)"

fun read_some :: "nat \<Rightarrow> reader \<Rightarrow> bytes \<times> io_error option \<times> reader" where
  "read_some n [] = ([], Some EOF, [])"
| "read_some n ((d, e) # r) =
     (if length d \<le> n then (d, e, r) else (take n d, None, (drop n d, e) # r))"

text \<open>\<^verbatim>\<open>io.ReadFull\<close>: exactly \<open>n\<close> bytes, or an error; a partial read that meets the end of
  file is \<^verbatim>\<open>io.ErrUnexpectedEOF\<close>.\<close>

function read_full_from :: "bytes \<Rightarrow> nat \<Rightarrow> reader \<Rightarrow> bytes \<times> io_error option \<times> reader" where
  "read_full_from acc n r =
     (if n \<le> length acc then (acc, None, r)
      else case read_some (n - length acc) r of
             (d, None, r') \<Rightarrow> read_full_from (acc @ d) n r'
           | (d, Some err, r') \<Rightarrow>
               if n \<le> length (acc @ d) then (acc @ d, None, r')
               else if acc @ d \<noteq> [] \<and> err = EOF then (acc @ d, Some UnexpectedEOF, r')
               else (acc @ d, Some err, r'))"
  by pat_completeness auto

lemma read_some_data [wire_simps]:
  "read_some n r = (d, e, r') \<Longrightarrow> reader_data r = d @ reader_data r'"
  by (cases "(n, r)" rule: read_some.cases) (auto simp: reader_data_def split: if_splits)

lemma read_some_length: "read_some n r = (d, e, r') \<Longrightarrow> length d \<le> n"
  by (cases "(n, r)" rule: read_some.cases) (auto split: if_splits)

lemma read_some_progress:
  "read_some n r = (d, None, r') \<Longrightarrow> length r' < length r \<or> length d = n \<and> length r' = length r"
  by (cases "(n, r)" rule: read_some.cases) (auto split: if_splits)

termination read_full_from
  by (relation "measure (\<lambda>(acc, n, r). length r + (n - length acc))")
    (auto dest!: sym [of _ "read_some _ _"] read_some_progress)

declare read_full_from.simps [simp del]

definition read_full :: "nat \<Rightarrow> reader \<Rightarrow> bytes \<times> io_error option \<times> reader" where
  "read_full n r = read_full_from [] n r"

lemma read_full_from_data:
  "read_full_from acc n r = (d, e, r') \<Longrightarrow> acc @ reader_data r = d @ reader_data r'"
proof (induction acc n r rule: read_full_from.induct)
  case (1 acc n r)
  show ?case
  proof (cases "n \<le> length acc")
    case True
    with "1.prems" show ?thesis by (simp add: read_full_from.simps [of acc n r])
  next
    case False
    obtain d1 e1 r1 where rs: "read_some (n - length acc) r = (d1, e1, r1)"
      by (metis prod_cases3)
    from read_some_data [OF rs] have data: "reader_data r = d1 @ reader_data r1" .
    show ?thesis
    proof (cases e1)
      case None
      with 1 False rs data show ?thesis
        by (simp add: read_full_from.simps [of acc n r])
    next
      case (Some err)
      with "1.prems" False rs data show ?thesis
        by (auto simp: read_full_from.simps [of acc n r] split: if_splits)
    qed
  qed
qed

lemma read_full_from_length:
  "read_full_from acc n r = (d, None, r') \<Longrightarrow> length acc \<le> n \<Longrightarrow> length d = n"
proof (induction acc n r rule: read_full_from.induct)
  case (1 acc n r)
  show ?case
  proof (cases "n \<le> length acc")
    case True
    with 1 show ?thesis by (simp add: read_full_from.simps [of acc n r])
  next
    case False
    obtain d1 e1 r1 where rs: "read_some (n - length acc) r = (d1, e1, r1)"
      by (metis prod_cases3)
    from read_some_length [OF rs] False have len: "length (acc @ d1) \<le> n" by simp
    show ?thesis
    proof (cases e1)
      case None
      with 1 False rs len show ?thesis by (simp add: read_full_from.simps [of acc n r])
    next
      case (Some err)
      with "1.prems" False rs len show ?thesis
        by (auto simp: read_full_from.simps [of acc n r] split: if_splits)
    qed
  qed
qed

lemma read_full_0 [simp]: "read_full 0 r = ([], None, r)"
  by (simp add: read_full_def read_full_from.simps [of "[]" 0 r])

lemma read_full_if: "(if 0 < n then read_full n r else ([], None, r)) = read_full n r"
  by simp

lemma read_full_data: "read_full n r = (d, e, r') \<Longrightarrow> reader_data r = d @ reader_data r'"
  using read_full_from_data [of "[]" n r] by (simp add: read_full_def)

lemma read_full_length: "read_full n r = (d, None, r') \<Longrightarrow> length d = n"
  using read_full_from_length [of "[]" n r] by (simp add: read_full_def)

text \<open>A connection that delivers its data without an error until the end.\<close>

definition clean :: "reader \<Rightarrow> bool" where
  "clean r = list_all (\<lambda>(d, e). e = None) r"

lemma clean_read_some: "clean r \<Longrightarrow> read_some n r = (d, e, r') \<Longrightarrow> clean r'"
  by (cases "(n, r)" rule: read_some.cases) (auto simp: clean_def split: if_splits)

lemma clean_read_some_err: "clean r \<Longrightarrow> read_some n r = (d, Some e, r') \<Longrightarrow> r = [] \<and> e = EOF \<and> d = []"
  by (cases "(n, r)" rule: read_some.cases) (auto simp: clean_def split: if_splits)

lemma reader_data_Nil [simp]: "reader_data [] = []"
  by (simp add: reader_data_def)

lemma clean_read_full_from:
  assumes "clean r" "n \<le> length (acc @ reader_data r)" "length acc \<le> n"
  shows "\<exists>r'. read_full_from acc n r = (take n (acc @ reader_data r), None, r') \<and> clean r'"
  using assms
proof (induction acc n r rule: read_full_from.induct)
  case (1 acc n r)
  show ?case
  proof (cases "n \<le> length acc")
    case True
    with 1 show ?thesis by (simp add: read_full_from.simps [of acc n r])
  next
    case False
    obtain d1 e1 r1 where rs: "read_some (n - length acc) r = (d1, e1, r1)"
      by (metis prod_cases3)
    have e1: "e1 = None"
    proof (rule ccontr)
      assume "e1 \<noteq> None"
      with clean_read_some_err [OF "1.prems"(1)] rs have "r = []" by auto
      with "1.prems"(2) False show False by simp
    qed
    have "n \<le> length ((acc @ d1) @ reader_data r1)" "length (acc @ d1) \<le> n"
      using read_some_data [OF rs] read_some_length [OF rs] "1.prems" False by auto
    from "1.IH" [OF False rs [symmetric] refl e1 clean_read_some [OF "1.prems"(1) rs] this]
    have "\<exists>r'. read_full_from (acc @ d1) n r1 = (take n ((acc @ d1) @ reader_data r1), None, r') \<and> clean r'" .
    then show ?thesis
      using False rs e1 read_some_data [OF rs] by (simp add: read_full_from.simps [of acc n r])
  qed
qed

lemma clean_read_full:
  assumes "clean r" "n \<le> length (reader_data r)"
  obtains r' where "read_full n r = (take n (reader_data r), None, r')" "clean r'"
    "reader_data r' = drop n (reader_data r)"
proof -
  obtain r' where r': "read_full n r = (take n (reader_data r), None, r')" "clean r'"
    using clean_read_full_from [of r n "[]"] assms by (auto simp: read_full_def)
  moreover have "reader_data r' = drop n (reader_data r)"
    using read_full_data [OF r'(1)] by (metis append_take_drop_id same_append_eq)
  ultimately show thesis using that by blast
qed

text \<open>Reading fails on a clean connection exactly when the data ends early: at once with
  \<^const>\<open>EOF\<close>, in the middle with \<^const>\<open>UnexpectedEOF\<close>.\<close>

lemma clean_read_full_from_short:
  assumes "clean r" "length (acc @ reader_data r) < n"
  shows "\<exists>r'. read_full_from acc n r =
    (acc @ reader_data r, Some (if acc @ reader_data r = [] then EOF else UnexpectedEOF), r')"
  using assms
proof (induction acc n r rule: read_full_from.induct)
  case (1 acc n r)
  have False: "\<not> n \<le> length acc" using "1.prems" by simp
  obtain d1 e1 r1 where rs: "read_some (n - length acc) r = (d1, e1, r1)"
    by (metis prod_cases3)
  show ?case
  proof (cases e1)
    case None
    have "length ((acc @ d1) @ reader_data r1) < n"
      using read_some_data [OF rs] "1.prems"(2) by simp
    with 1 False rs None clean_read_some [OF "1.prems"(1) rs] read_some_data [OF rs]
    show ?thesis by (simp add: read_full_from.simps [of acc n r])
  next
    case (Some e)
    with clean_read_some_err [OF "1.prems"(1)] rs have "r = []" "e = EOF" "d1 = []" by auto
    with False rs Some show ?thesis
      by (simp add: read_full_from.simps [of acc n "[]"])
  qed
qed

lemma clean_read_full_short:
  assumes "clean r" "length (reader_data r) < n"
  shows "fst (snd (read_full n r)) = Some (if reader_data r = [] then EOF else UnexpectedEOF)"
  using clean_read_full_from_short [of r "[]" n] assms by (auto simp: read_full_def)

text \<open>A connection that delivers one byte at a time.\<close>

definition byte_chunks :: "bytes \<Rightarrow> reader" where
  "byte_chunks s = map (\<lambda>b. ([b], None)) s"

lemma byte_chunks_facts [simp]: "clean (byte_chunks s)" "reader_data (byte_chunks s) = s"
  by (induction s) (simp_all add: byte_chunks_def clean_def reader_data_def)

end
