(* ===== verification/Vhost_Sniff.thy ===== *)
theory Vhost_Sniff
  imports Go_IO Vhost_Pattern
begin

text \<open>
  The buffered head reader of \<^verbatim>\<open>internal/tunnel/vhost/sniff.go\<close>, which both sniffers use to
  look at the start of a connection before it is handed on. The record mirrors the struct
  \<^verbatim>\<open>headReader\<close>; a Go slice has a length and a capacity, so the buffer is its contents
  together with \<open>hr_cap\<close>. \<open>hr_pool\<close> holds the capacities of the buffers that were handed to
  \<^verbatim>\<open>headBufPool\<close>. Which buffer \<^verbatim>\<open>sync.Pool.Get\<close> hands out is not determined by the
  program, so its capacity is an argument of \<open>newHeadReader\<close>.
\<close>

definition MaxHTTPHead :: nat where "MaxHTTPHead = 16 * 1024"
definition MaxTLSHead :: nat where "MaxTLSHead = 16 * 1024 + 5"
definition headBufSize :: nat where "headBufSize = 4096"

datatype head_error = HeadTooLarge nat | HeadRead io_error

record headReader =
  hr_src :: reader
  hr_buf :: bytes
  hr_cap :: nat
  hr_max :: nat
  hr_pool :: "nat list"

definition PutConsumed :: "nat \<Rightarrow> nat list \<Rightarrow> nat list" where
  "PutConsumed capacity pool = (if capacity < headBufSize then pool else capacity # pool)"

definition newHeadReader :: "nat \<Rightarrow> reader \<Rightarrow> nat \<Rightarrow> headReader" where
  "newHeadReader pooled r limit =
     \<lparr>hr_src = r, hr_buf = [], hr_cap = pooled, hr_max = limit, hr_pool = []\<rparr>"

text \<open>The growth step both operations share: a new buffer of capacity \<open>c\<close>, the old one to the
  pool.\<close>

definition grow_to :: "nat \<Rightarrow> headReader \<Rightarrow> headReader" where
  "grow_to c h = h\<lparr>hr_cap := c, hr_pool := PutConsumed (hr_cap h) (hr_pool h)\<rparr>"

text \<open>\<^verbatim>\<open>h.r.Read(h.buf[len(h.buf):cap(h.buf)])\<close> and the reslice after it.\<close>

definition fill :: "headReader \<Rightarrow> bytes \<times> io_error option \<times> headReader" where
  "fill h = (case read_some (hr_cap h - length (hr_buf h)) (hr_src h) of
      (d, e, r') \<Rightarrow> (d, e, h\<lparr>hr_src := r', hr_buf := hr_buf h @ d\<rparr>))"

function ensure_loop :: "nat \<Rightarrow> headReader \<Rightarrow> head_error option \<times> headReader" where
  "ensure_loop n h =
     (if n \<le> length (hr_buf h) then (None, h)
      else
        let h1 = (if hr_cap h < n then grow_to (max n (hr_cap h * 2)) h else h) in
        case fill h1 of
          (d, None, h2) \<Rightarrow> ensure_loop n h2
        | (d, Some err, h2) \<Rightarrow>
            if err = EOF \<and> n \<le> length (hr_buf h2) then (None, h2)
            else (Some (HeadRead err), h2))"
  by pat_completeness auto

definition ensure :: "nat \<Rightarrow> headReader \<Rightarrow> head_error option \<times> headReader" where
  "ensure n h = (if hr_max h < n then (Some (HeadTooLarge n), h) else ensure_loop n h)"

definition readMore :: "headReader \<Rightarrow> head_error option \<times> headReader" where
  "readMore h =
     (if hr_max h \<le> length (hr_buf h) then (Some (HeadTooLarge (length (hr_buf h))), h)
      else
        let h1 = (if length (hr_buf h) = hr_cap h
                  then grow_to (min (max (hr_cap h * 2) 1024) (hr_max h)) h else h) in
        case fill h1 of
          (d, Some err, h2) \<Rightarrow> (Some (HeadRead err), h2)
        | (d, None, h2) \<Rightarrow> if d = [] then (Some (HeadRead NoProgress), h2) else (None, h2))"

section \<open>What the reader keeps\<close>

lemma grow_to_simps [simp]:
  "hr_src (grow_to c h) = hr_src h" "hr_buf (grow_to c h) = hr_buf h"
  "hr_cap (grow_to c h) = c" "hr_max (grow_to c h) = hr_max h"
  by (simp_all add: grow_to_def)

text \<open>\<open>stream h\<close> is what the connection's peer sent, seen from the state \<open>h\<close>: the bytes already
  buffered and those still to come. Replaying the buffer in front of the connection is lossless
  when this never changes.\<close>

definition stream :: "headReader \<Rightarrow> bytes" where
  "stream h = hr_buf h @ reader_data (hr_src h)"

lemma stream_grow [simp]: "stream (grow_to c h) = stream h"
  by (simp add: stream_def)

lemma stream_new [simp]: "stream (newHeadReader c r m) = reader_data r"
  by (simp add: stream_def newHeadReader_def)

lemma fill_facts:
  assumes "fill h = (d, e, h')"
  shows "stream h' = stream h" "hr_cap h' = hr_cap h" "hr_max h' = hr_max h"
    "hr_pool h' = hr_pool h" "hr_buf h' = hr_buf h @ d"
    "length d \<le> hr_cap h - length (hr_buf h)"
    "read_some (hr_cap h - length (hr_buf h)) (hr_src h) = (d, e, hr_src h')"
  using assms
  by (auto simp: fill_def stream_def split: prod.splits
      dest: read_some_data read_some_length)

lemma fill_progress:
  assumes "fill h = (d, None, h')"
  shows "length (hr_src h') < length (hr_src h) \<or>
    length d = hr_cap h - length (hr_buf h) \<and> length (hr_src h') = length (hr_src h)"
  using read_some_progress [of _ "hr_src h" d "hr_src h'"] fill_facts(7) [OF assms] by auto

termination ensure_loop
proof (relation "measure (\<lambda>(n, h). length (hr_src h) + (n - length (hr_buf h)))", goal_cases)
  case 1
  then show ?case by simp
next
  case (2 n h h1 x d y h2)
  then have fl: "fill h1 = (x, None, h2)" and nn: "\<not> n \<le> length (hr_buf h)" by simp_all
  have h1: "hr_src h1 = hr_src h" "hr_buf h1 = hr_buf h" "n \<le> hr_cap h1"
    using 2(2) by (auto simp: Let_def)
  show ?case
    using fill_progress [OF fl] fill_facts(5) [OF fl] h1 nn by auto
qed

declare ensure_loop.simps [simp del]

text \<open>Capacities: the buffer fits its capacity, and every capacity in use or pooled is below the
  bound that growing to a TLS record can reach.\<close>

definition capBound :: nat where "capBound = 2 * MaxTLSHead"

definition head_ok :: "headReader \<Rightarrow> bool" where
  "head_ok h \<longleftrightarrow> length (hr_buf h) \<le> hr_cap h \<and> headBufSize \<le> hr_cap h \<and> hr_cap h < capBound
     \<and> list_all (\<lambda>c. headBufSize \<le> c \<and> c < capBound) (hr_pool h)"

lemmas head_consts = MaxHTTPHead_def MaxTLSHead_def headBufSize_def capBound_def

lemma head_ok_new:
  "headBufSize \<le> c \<Longrightarrow> c < capBound \<Longrightarrow> head_ok (newHeadReader c r m)"
  by (simp add: head_ok_def newHeadReader_def)

lemma head_ok_grow [inv_intros]:
  "head_ok h \<Longrightarrow> hr_cap h \<le> c \<Longrightarrow> c < capBound \<Longrightarrow> head_ok (grow_to c h)"
  by (auto simp: head_ok_def grow_to_def PutConsumed_def)

lemma head_ok_fill [inv_intros]: "head_ok h \<Longrightarrow> fill h = (d, e, h') \<Longrightarrow> head_ok h'"
  using fill_facts [of h d e h'] by (auto simp: head_ok_def)

lemma ensure_loop_facts:
  assumes "ensure_loop n h = (e, h')"
  shows "stream h' = stream h \<and> hr_max h' = hr_max h
    \<and> (e = None \<longrightarrow> n \<le> length (hr_buf h'))
    \<and> (head_ok h \<longrightarrow> n \<le> MaxTLSHead \<longrightarrow> head_ok h')"
  using assms
proof (induction n h rule: ensure_loop.induct)
  case (1 n h)
  show ?case
  proof (cases "n \<le> length (hr_buf h)")
    case True
    with "1.prems" show ?thesis by (simp add: ensure_loop.simps [of n h])
  next
    case False
    define h1 where "h1 = (if hr_cap h < n then grow_to (max n (hr_cap h * 2)) h else h)"
    have h1: "stream h1 = stream h" "hr_max h1 = hr_max h"
      "head_ok h \<Longrightarrow> n \<le> MaxTLSHead \<Longrightarrow> head_ok h1"
      by (auto simp: h1_def head_consts intro!: head_ok_grow)
    obtain d e1 h2 where fl: "fill h1 = (d, e1, h2)" by (metis prod_cases3)
    note ff = fill_facts [OF fl] and ok = head_ok_fill [OF _ fl]
    show ?thesis
    proof (cases e1)
      case None
      have "ensure_loop n h2 = (e, h')"
        using "1.prems" False fl None by (simp add: ensure_loop.simps [of n h] h1_def [symmetric])
      from "1.IH" [OF False h1_def fl [symmetric] refl None this] show ?thesis
        using h1 ff ok by auto
    next
      case (Some err)
      then show ?thesis
        using "1.prems" False fl h1 ff ok
        by (auto simp: ensure_loop.simps [of n h] h1_def [symmetric] split: if_splits)
    qed
  qed
qed

lemma ensure_facts:
  assumes "ensure n h = (e, h')"
  shows "stream h' = stream h" "hr_max h' = hr_max h"
    "e = None \<Longrightarrow> n \<le> length (hr_buf h')" "e = None \<Longrightarrow> n \<le> hr_max h"
    "head_ok h \<Longrightarrow> hr_max h \<le> MaxTLSHead \<Longrightarrow> head_ok h'"
  using assms ensure_loop_facts [of n h e h'] by (auto simp: ensure_def split: if_splits)

lemma readMore_facts:
  assumes "readMore h = (e, h')"
  shows "stream h' = stream h" "hr_max h' = hr_max h"
    "head_ok h \<Longrightarrow> hr_max h \<le> MaxTLSHead \<Longrightarrow> head_ok h'"
    "\<exists>d. hr_buf h' = hr_buf h @ d"
    "e = None \<Longrightarrow> length (hr_buf h) < length (hr_buf h')"
proof -
  define h1 where "h1 = (if length (hr_buf h) = hr_cap h
      then grow_to (min (max (hr_cap h * 2) 1024) (hr_max h)) h else h)"
  obtain d e1 h2 where fl: "fill h1 = (d, e1, h2)" by (metis prod_cases3)
  have buf: "hr_buf h1 = hr_buf h" "stream h1 = stream h" "hr_max h1 = hr_max h"
    by (simp_all add: h1_def)
  have ok: "head_ok h1" if "head_ok h" "hr_max h \<le> MaxTLSHead" "length (hr_buf h) < hr_max h"
    using that by (auto simp: h1_def head_consts intro!: head_ok_grow)
  note eq = assms [unfolded readMore_def Let_def h1_def [symmetric] fl]
  note ff = fill_facts [OF fl] and fok = head_ok_fill [OF _ fl]
  show "stream h' = stream h" "hr_max h' = hr_max h" "\<exists>d. hr_buf h' = hr_buf h @ d"
    "e = None \<Longrightarrow> length (hr_buf h) < length (hr_buf h')"
    using eq ff buf by (auto split: if_splits option.splits)
  show "head_ok h'" if "head_ok h" "hr_max h \<le> MaxTLSHead"
    using eq ok [OF that] fok that by (auto split: if_splits option.splits)
qed

section \<open>Connections without errors\<close>

text \<open>On a clean connection with enough data within the limit, \<open>ensure\<close> succeeds however the
  stream is cut.\<close>

lemma fill_clean:
  assumes "clean (hr_src h)" "fill h = (d, e, h')"
  shows "clean (hr_src h')" "e = Some err \<Longrightarrow> hr_src h = [] \<and> err = EOF \<and> d = []"
  using clean_read_some [OF assms(1) fill_facts(7) [OF assms(2)]]
    clean_read_some_err [OF assms(1), of _ d err "hr_src h'"] fill_facts(7) [OF assms(2)]
  by auto

lemma ensure_loop_clean:
  assumes "clean (hr_src h)" "n \<le> length (stream h)"
  shows "fst (ensure_loop n h) = None \<and> clean (hr_src (snd (ensure_loop n h)))"
  using assms
proof (induction n h rule: ensure_loop.induct)
  case (1 n h)
  show ?case
  proof (cases "n \<le> length (hr_buf h)")
    case True
    with 1 show ?thesis by (simp add: ensure_loop.simps [of n h])
  next
    case False
    define h1 where "h1 = (if hr_cap h < n then grow_to (max n (hr_cap h * 2)) h else h)"
    have h1: "stream h1 = stream h" "hr_src h1 = hr_src h" by (simp_all add: h1_def)
    obtain d e1 h2 where fl: "fill h1 = (d, e1, h2)" by (metis prod_cases3)
    have cl1: "clean (hr_src h1)" using "1.prems" h1 by simp
    have none: "e1 = None"
    proof (rule ccontr)
      assume "e1 \<noteq> None"
      with fill_clean(2) [OF cl1 fl] have "hr_src h = []" using h1 by auto
      with False "1.prems" show False by (simp add: stream_def)
    qed
    have "n \<le> length (stream h2)" using fill_facts(1) [OF fl] h1 "1.prems" by simp
    from "1.IH" [OF False h1_def fl [symmetric] refl none fill_clean(1) [OF cl1 fl] this]
    show ?thesis
      using False fl none by (simp add: ensure_loop.simps [of n h] h1_def [symmetric])
  qed
qed

lemma ensure_clean:
  assumes "clean (hr_src h)" "n \<le> length (stream h)" "n \<le> hr_max h"
  obtains h' where "ensure n h = (None, h')" "clean (hr_src h')"
  using ensure_loop_clean [OF assms(1,2)] assms(3)
  by (cases "ensure_loop n h") (auto simp: ensure_def)

text \<open>A connection whose reads always deliver something.\<close>

definition prompt :: "reader \<Rightarrow> bool" where
  "prompt r = list_all (\<lambda>(d, e). e = None \<and> d \<noteq> []) r"

lemma prompt_read_some: "prompt r \<Longrightarrow> read_some n r = (d, e, r') \<Longrightarrow> prompt r'"
  by (cases "(n, r)" rule: read_some.cases) (auto simp: prompt_def split: if_splits)

lemma prompt_read_some_ok:
  "prompt r \<Longrightarrow> read_some n r = (d, e, r') \<Longrightarrow> 0 < n \<Longrightarrow> r \<noteq> [] \<Longrightarrow> e = None \<and> d \<noteq> []"
  by (cases "(n, r)" rule: read_some.cases) (auto simp: prompt_def split: if_splits)

lemma prompt_nonempty: "prompt r \<Longrightarrow> reader_data r \<noteq> [] \<longleftrightarrow> r \<noteq> []"
  by (cases r) (auto simp: prompt_def reader_data_def)

lemma prompt_byte_chunks [simp]: "prompt (byte_chunks s)"
  by (induction s) (simp_all add: byte_chunks_def prompt_def)

lemma readMore_prompt:
  assumes ok: "head_ok h" and pr: "prompt (hr_src h)"
    and room: "length (hr_buf h) < hr_max h" and more: "length (hr_buf h) < length (stream h)"
  obtains h' where "readMore h = (None, h')" "prompt (hr_src h')"
proof -
  define h1 where "h1 = (if length (hr_buf h) = hr_cap h
      then grow_to (min (max (hr_cap h * 2) 1024) (hr_max h)) h else h)"
  have h1: "hr_src h1 = hr_src h" "hr_buf h1 = hr_buf h" by (simp_all add: h1_def)
  have space: "0 < hr_cap h1 - length (hr_buf h1)"
    using ok room by (auto simp: h1_def head_ok_def)
  obtain d e1 h2 where fl: "fill h1 = (d, e1, h2)" by (metis prod_cases3)
  note rs = fill_facts(7) [OF fl]
  have "hr_src h1 \<noteq> []" using more h1 by (auto simp: stream_def)
  with prompt_read_some_ok [OF _ rs space] pr h1 have "e1 = None" "d \<noteq> []" by auto
  moreover have "prompt (hr_src h2)" using prompt_read_some [OF _ rs] pr h1 by simp
  ultimately show thesis
    using that [of h2] fl room by (simp add: readMore_def Let_def h1_def [symmetric])
qed

end
