(* ===== verification/Vhost_Sniff_Http.thy ===== *)
theory Vhost_Sniff_Http
  imports Vhost_Sniff
begin

text \<open>
  Finding the host of a plain HTTP connection:
  \<^verbatim>\<open>internal/tunnel/vhost/sniff_http.go\<close>. The sniffer reads until the blank line that ends the
  header, looks for the first \<^verbatim>\<open>Host\<close> header and reports every byte it took from the
  connection, so that they can be replayed to the tunnel.
\<close>

section \<open>Operations\<close>

definition CRLF :: bytes where "CRLF = [CHR 0x0D, CHR 0x0A]"

definition h2cPreface :: bytes where "h2cPreface = ''PRI * HTTP/2.0'' @ CRLF"

datatype http_error =
    HeadFailed head_error
  | CleartextHTTP2
  | EmptyRequestLine
  | MalformedRequestLine bytes
  | BadHost vhost_error
  | ErrNoHost

record HTTPInfo =
  hi_Host :: string
  hi_Method :: string
  hi_Path :: string
  hi_Consumed :: bytes

definition cutCRLF :: "bytes \<Rightarrow> bytes \<times> bytes" where
  "cutCRLF b = (case index_sub CRLF b of
      Some idx \<Rightarrow> (take idx b, drop (idx + 2) b)
    | None \<Rightarrow> (b, []))"

definition asciiEqualFold :: "bytes \<Rightarrow> string \<Rightarrow> bool" where
  "asciiEqualFold b want = list_all2 (\<lambda>c w. lower_char c = w) b want"

lemma cutCRLF_shorter: "cutCRLF b = (l, r) \<Longrightarrow> b \<noteq> [] \<Longrightarrow> length r < length b"
  by (auto simp: cutCRLF_def CRLF_def split: option.splits dest!: index_sub_split)

text \<open>The loop over the header lines.\<close>

function find_host :: "text_env \<Rightarrow> bytes \<Rightarrow> http_error + string" where
  "find_host env rest =
     (if rest = [] then Inl ErrNoHost
      else
        let (line, rest') = cutCRLF rest; (name, value, found) = cut line '':'' in
        if \<not> found then find_host env rest'
        else if \<not> asciiEqualFold (trim_space name) ''host'' then find_host env rest'
        else case NormaliseHost env (trim_space value) of
               Inl e \<Rightarrow> Inl (BadHost e)
             | Inr host \<Rightarrow> Inr host)"
  by pat_completeness auto
termination
  by (relation "measure (\<lambda>(env, rest). length rest)")
    (auto dest!: sym [of _ "cutCRLF _"] dest: cutCRLF_shorter)

declare find_host.simps [simp del]

text \<open>The part of \<^verbatim>\<open>SniffHTTP\<close> after the header end was found; \<open>headerEnd\<close> is its position.\<close>

definition parse_request ::
  "text_env \<Rightarrow> bytes \<Rightarrow> nat \<Rightarrow> http_error option \<times> HTTPInfo" where
  "parse_request env buf headerEnd =
     (let info = \<lparr>hi_Host = [], hi_Method = [], hi_Path = [], hi_Consumed = buf\<rparr> in
      if has_prefix h2cPreface buf then (Some CleartextHTTP2, info)
      else
        let (line, rest) = cutCRLF (take headerEnd buf) in
        if line = [] then (Some EmptyRequestLine, info)
        else
          let (meth, afterMethod, ok) = cut line '' ''; (path, _, ok2) = cut afterMethod '' '' in
          if \<not> ok \<or> \<not> ok2 \<or> meth = [] \<or> path = [] then (Some (MalformedRequestLine line), info)
          else
            let info = info\<lparr>hi_Method := meth, hi_Path := path\<rparr> in
            case find_host env rest of
              Inl e \<Rightarrow> (Some e, info)
            | Inr host \<Rightarrow> (None, info\<lparr>hi_Host := host\<rparr>))"

lemma readMore_measure:
  assumes "readMore h = (None, h')"
  shows "length (hr_src h') + (hr_max h' - length (hr_buf h'))
    < length (hr_src h) + (hr_max h - length (hr_buf h))"
proof -
  have room: "length (hr_buf h) < hr_max h"
    using assms by (auto simp: readMore_def split: if_splits)
  have src: "length (hr_src h') \<le> length (hr_src h)"
    using assms fill_progress
    by (fastforce simp: readMore_def Let_def split: if_splits prod.splits option.splits)
  show ?thesis
    using readMore_facts(2,5) [OF assms] room src by simp
qed

definition headerMark :: bytes where "headerMark = CRLF @ CRLF"

text \<open>The reading loop: the position after the blank line, or the error that ended it.\<close>

function read_head :: "headReader \<Rightarrow> (head_error + nat) \<times> headReader" where
  "read_head h =
     (case readMore h of
        (Some err, h') \<Rightarrow>
          (case index_sub headerMark (hr_buf h') of
             Some idx \<Rightarrow> (Inr (idx + 4), h')
           | None \<Rightarrow> (Inl err, h'))
      | (None, h') \<Rightarrow>
          (case index_sub headerMark (hr_buf h') of
             Some idx \<Rightarrow> (Inr (idx + 4), h')
           | None \<Rightarrow> read_head h'))"
  by pat_completeness auto
termination
  by (relation "measure (\<lambda>h. length (hr_src h) + (hr_max h - length (hr_buf h)))")
    (auto dest!: sym [of _ "readMore _"] readMore_measure)

declare read_head.simps [simp del]

definition SniffHTTP ::
  "text_env \<Rightarrow> nat \<Rightarrow> reader \<Rightarrow> http_error option \<times> HTTPInfo \<times> headReader" where
  "SniffHTTP env pooled r =
     (case read_head (newHeadReader pooled r MaxHTTPHead) of
        (Inl err, h) \<Rightarrow>
          (Some (HeadFailed err),
           \<lparr>hi_Host = [], hi_Method = [], hi_Path = [], hi_Consumed = hr_buf h\<rparr>, h)
      | (Inr headerEnd, h) \<Rightarrow>
          (case parse_request env (hr_buf h) headerEnd of (e, info) \<Rightarrow> (e, info, h)))"

section \<open>What was read\<close>

lemma read_head_facts:
  assumes "read_head h = (res, h')"
  shows "stream h' = stream h \<and> hr_max h' = hr_max h
    \<and> (head_ok h \<longrightarrow> hr_max h \<le> MaxTLSHead \<longrightarrow> head_ok h')
    \<and> (\<forall>n. res = Inr n \<longrightarrow> (\<exists>i. index_sub headerMark (hr_buf h') = Some i \<and> n = i + 4))"
  using assms
proof (induction h rule: read_head.induct)
  case (1 h)
  obtain e h1 where rm: "readMore h = (e, h1)" by (cases "readMore h")
  note f = readMore_facts [OF rm]
  show ?case
  proof (cases "e = None \<and> index_sub headerMark (hr_buf h1) = None")
    case True
    have "read_head h1 = (res, h')"
      using "1.prems" True rm by (simp add: read_head.simps [of h])
    with "1.IH" [OF rm [symmetric]] True f show ?thesis by auto
  next
    case False
    with "1.prems" rm f show ?thesis
      by (auto simp: read_head.simps [of h] split: option.splits)
  qed
qed

lemma parse_request_Consumed [simp]: "hi_Consumed (snd (parse_request env buf n)) = buf"
  by (simp add: parse_request_def Let_def split: prod.splits sum.splits)

lemma parse_request_ConsumedD: "parse_request env buf n = (e, info) \<Longrightarrow> hi_Consumed info = buf"
  using parse_request_Consumed [of env buf n] by simp

text \<open>On a connection that keeps delivering, the header end is found whatever the chunks are,
  and at the same place.\<close>

lemma read_head_prompt:
  assumes "head_ok h" "hr_max h \<le> MaxTLSHead" "prompt (hr_src h)"
    and "index_sub headerMark (stream h) = Some i" "i + 4 \<le> hr_max h"
    and "index_sub headerMark (hr_buf h) = None"
  shows "fst (read_head h) = Inr (i + 4)"
  using assms
proof (induction h rule: read_head.induct)
  case (1 h)
  have short: "length (hr_buf h) < i + 4"
  proof (rule ccontr)
    assume "\<not> length (hr_buf h) < i + 4"
    moreover have "has_prefix headerMark (drop i (stream h))"
      using index_sub_split [OF "1.prems"(4)] by (metis append_eq_conv_conj has_prefix_append append_take_drop_id drop_drop add.commute)
    ultimately have "has_prefix headerMark (drop i (hr_buf h))"
      by (simp add: has_prefix_def stream_def headerMark_def CRLF_def)
    with index_sub_None [OF "1.prems"(6)] show False by blast
  qed
  have len: "i + 4 \<le> length (stream h)"
    using index_sub_split [OF "1.prems"(4)] by (simp add: headerMark_def CRLF_def)
  obtain h1 where rm: "readMore h = (None, h1)" and pr: "prompt (hr_src h1)"
    using readMore_prompt [of h] "1.prems" short len by (metis order.strict_trans2)
  note f = readMore_facts [OF rm]
  show ?case
  proof (cases "index_sub headerMark (hr_buf h1)")
    case None
    have "fst (read_head h1) = Inr (i + 4)"
      using "1.IH" [OF rm [symmetric] refl None] f "1.prems" pr None by auto
    with None rm show ?thesis by (simp add: read_head.simps [of h])
  next
    case (Some j)
    from index_sub_append_not [OF Some, of "reader_data (hr_src h1)"] f "1.prems"(4)
    have "j = i" by (simp add: stream_def)
    with Some rm show ?thesis by (simp add: read_head.simps [of h])
  qed
qed

section \<open>Requests as they are written\<close>

text \<open>A request as a client writes it: the request line, the header lines, a blank line.\<close>

record request =
  rq_method :: string
  rq_path :: string
  rq_version :: string
  rq_headers :: "(string \<times> string) list"

definition header_line :: "string \<times> string \<Rightarrow> bytes" where
  "header_line h = fst h @ '':'' @ snd h"

definition request_line :: "request \<Rightarrow> bytes" where
  "request_line q = rq_method q @ '' '' @ rq_path q @ '' '' @ rq_version q"

fun lines_text :: "bytes list \<Rightarrow> bytes" where
  "lines_text [] = CRLF"
| "lines_text (l # ls) = l @ CRLF @ lines_text ls"

definition render :: "request \<Rightarrow> bytes" where
  "render q = lines_text (request_line q # map header_line (rq_headers q))"

definition request_ok :: "request \<Rightarrow> bool" where
  "request_ok q \<longleftrightarrow> rq_method q \<noteq> [] \<and> rq_path q \<noteq> []
     \<and> CHR '' '' \<notin> set (rq_method q) \<and> CHR '' '' \<notin> set (rq_path q)
     \<and> CHR 0x0D \<notin> set (request_line q)
     \<and> list_all (\<lambda>(n, v). CHR '':'' \<notin> set n \<and> CHR 0x0D \<notin> set n \<and> CHR 0x0D \<notin> set v) (rq_headers q)"

definition is_host_header :: "string \<times> string \<Rightarrow> bool" where
  "is_host_header h = asciiEqualFold (trim_space (fst h)) ''host''"

text \<open>What sniffing a request must give: the first \<^verbatim>\<open>Host\<close> header, normalised.\<close>

definition request_host :: "text_env \<Rightarrow> request \<Rightarrow> http_error + string" where
  "request_host env q = (case find is_host_header (rq_headers q) of
      None \<Rightarrow> Inl ErrNoHost
    | Some (n, v) \<Rightarrow> (case NormaliseHost env (trim_space v) of Inl e \<Rightarrow> Inl (BadHost e) | Inr h \<Rightarrow> Inr h))"

lemma index_sub_skip [gostr_simps]:
  "c \<notin> set l \<Longrightarrow> index_sub (c # pat) (l @ s) = map_option ((+) (length l)) (index_sub (c # pat) s)"
  by (induction l; cases "index_sub (c # pat) s") (auto simp: has_prefix_def)

lemma index_sub_here [gostr_simps]: "index_sub (c # pat) ((c # pat) @ s) = Some 0"
  by (simp add: has_prefix_def)

lemma cutCRLF_line: "CHR 0x0D \<notin> set l \<Longrightarrow> cutCRLF (l @ CRLF @ s) = (l, s)"
  using index_sub_skip [of "CHR 0x0D" l "[CHR 0x0A]" "CRLF @ s"]
    index_sub_here [of "CHR 0x0D" "[CHR 0x0A]" s]
  by (simp add: cutCRLF_def CRLF_def)

lemma cut_single: "c \<notin> set l \<Longrightarrow> cut (l @ [c] @ s) [c] = (l, s, True)"
  using index_sub_skip [of c l "[]" "[c] @ s"] index_sub_here [of c "[]" s]
  by (simp add: cut_def)

lemma lines_text_nonempty [simp]: "lines_text ls \<noteq> []"
  by (cases ls) (simp_all add: CRLF_def)

lemma find_host_lines:
  assumes "list_all (\<lambda>(n, v). CHR '':'' \<notin> set n \<and> CHR 0x0D \<notin> set n \<and> CHR 0x0D \<notin> set v) hs"
  shows "find_host env (lines_text (map header_line hs)) =
    (case find is_host_header hs of
      None \<Rightarrow> Inl ErrNoHost
    | Some (n, v) \<Rightarrow> (case NormaliseHost env (trim_space v) of Inl e \<Rightarrow> Inl (BadHost e) | Inr h \<Rightarrow> Inr h))"
  using assms
proof (induction hs)
  case Nil
  have "cutCRLF CRLF = ([], [])" using cutCRLF_line [of "[]" "[]"] by simp
  moreover have "cut [] '':'' = ([], [], False)" by (simp add: cut_def)
  moreover have "CRLF \<noteq> []" by (simp add: CRLF_def)
  ultimately show ?case
    by (simp add: find_host.simps [of env CRLF] find_host.simps [of env "[]"])
next
  case (Cons h hs)
  obtain n v where h: "h = (n, v)" by (cases h)
  have line: "cutCRLF (header_line h @ CRLF @ lines_text (map header_line hs))
      = (header_line h, lines_text (map header_line hs))"
    using Cons.prems h by (intro cutCRLF_line) (auto simp: header_line_def)
  have colon: "cut (header_line h) '':'' = (n, v, True)"
    using Cons.prems h cut_single [of "CHR '':''" n v] by (simp add: header_line_def)
  have "header_line h @ CRLF @ lines_text (map header_line hs) \<noteq> []" by simp
  from find_host.simps [of env "header_line h @ CRLF @ lines_text (map header_line hs)"] this
  show ?case
    using Cons h line colon by (simp add: is_host_header_def del: append_is_Nil_conv)
qed

lemma headerMark_lines:
  assumes "CHR 0x0D \<notin> set l"
    and "list_all (\<lambda>l. l \<noteq> [] \<and> CHR 0x0D \<notin> set l) ls"
  shows "index_sub headerMark (lines_text (l # ls) @ rest) = Some (length (lines_text (l # ls)) - 4)
    \<and> 4 \<le> length (lines_text (l # ls))"
  using assms
proof (induction ls arbitrary: l)
  case Nil
  then show ?case
    using index_sub_skip [of "CHR 0x0D" l "[CHR 0x0A, CHR 0x0D, CHR 0x0A]" "CRLF @ CRLF @ rest"]
    by (simp add: headerMark_def CRLF_def has_prefix_def)
next
  case (Cons m ls)
  then obtain c m' where m: "m = c # m'" "c \<noteq> CHR 0x0D" by (cases m) auto
  have ih: "index_sub headerMark (lines_text (m # ls) @ rest) = Some (length (lines_text (m # ls)) - 4)"
    "4 \<le> length (lines_text (m # ls))"
    using Cons.IH [of m] Cons.prems by auto
  have "index_sub headerMark (CRLF @ lines_text (m # ls) @ rest)
      = map_option ((+) 2) (index_sub headerMark (lines_text (m # ls) @ rest))"
    using m by (simp add: headerMark_def CRLF_def has_prefix_def option.map_comp comp_def)
  with ih show ?case
    using index_sub_skip [of "CHR 0x0D" l "[CHR 0x0A, CHR 0x0D, CHR 0x0A]"
        "CRLF @ lines_text (m # ls) @ rest"] Cons.prems
    by (simp add: headerMark_def CRLF_def)
qed

lemma request_lines_ok:
  assumes "request_ok q"
  shows "CHR 0x0D \<notin> set (request_line q)"
    "list_all (\<lambda>l. l \<noteq> [] \<and> CHR 0x0D \<notin> set l) (map header_line (rq_headers q))"
  using assms by (auto simp: request_ok_def list_all_iff header_line_def)

lemma render_eq:
  "render q = request_line q @ CRLF @ lines_text (map header_line (rq_headers q))"
  by (simp add: render_def)

lemma render_headerMark:
  "request_ok q \<Longrightarrow> index_sub headerMark (render q @ rest) = Some (length (render q) - 4) \<and> 4 \<le> length (render q)"
  using headerMark_lines [OF request_lines_ok, of q q rest] by (simp only: render_def)

text \<open>A request carries the HTTP/2 preface exactly when its request line is the preface's.\<close>

definition is_h2c :: "request \<Rightarrow> bool" where
  "is_h2c q \<longleftrightarrow> request_line q = ''PRI * HTTP/2.0''"

lemma h2c_prefix:
  assumes "request_ok q"
  shows "has_prefix h2cPreface (render q @ rest) \<longleftrightarrow> is_h2c q"
proof
  assume "has_prefix h2cPreface (render q @ rest)"
  then obtain t where "render q @ rest = ''PRI * HTTP/2.0'' @ CRLF @ t"
    by (auto simp: has_prefix_iff h2cPreface_def)
  then have "cutCRLF (request_line q @ CRLF @ (lines_text (map header_line (rq_headers q)) @ rest))
      = cutCRLF (''PRI * HTTP/2.0'' @ CRLF @ t)"
    by (simp add: render_eq)
  moreover have "cutCRLF (''PRI * HTTP/2.0'' @ CRLF @ t) = (''PRI * HTTP/2.0'', t)"
    by (rule cutCRLF_line) simp
  ultimately show "is_h2c q"
    using cutCRLF_line [OF request_lines_ok(1) [OF assms]] by (simp add: is_h2c_def)
next
  assume "is_h2c q"
  then show "has_prefix h2cPreface (render q @ rest)"
    by (simp add: has_prefix_iff h2cPreface_def is_h2c_def render_eq)
qed

lemma parse_request_render:
  assumes ok: "request_ok q" and h2c: "\<not> is_h2c q"
  shows "parse_request env (render q @ rest) (length (render q)) =
    (let info = \<lparr>hi_Host = [], hi_Method = rq_method q, hi_Path = rq_path q,
                 hi_Consumed = render q @ rest\<rparr> in
     case request_host env q of Inl e \<Rightarrow> (Some e, info) | Inr h \<Rightarrow> (None, info\<lparr>hi_Host := h\<rparr>))"
proof -
  have line: "cutCRLF (render q) = (request_line q, lines_text (map header_line (rq_headers q)))"
    unfolding render_eq by (rule cutCRLF_line [OF request_lines_ok(1) [OF ok]])
  have m: "cut (request_line q) '' '' = (rq_method q, rq_path q @ '' '' @ rq_version q, True)"
    using ok cut_single [of "CHR '' ''" "rq_method q" "rq_path q @ '' '' @ rq_version q"]
    by (simp add: request_ok_def request_line_def)
  have p: "cut (rq_path q @ '' '' @ rq_version q) '' '' = (rq_path q, rq_version q, True)"
    using ok cut_single [of "CHR '' ''" "rq_path q" "rq_version q"] by (simp add: request_ok_def)
  have fh: "find_host env (lines_text (map header_line (rq_headers q))) = request_host env q"
    using ok find_host_lines [of "rq_headers q" env] by (simp add: request_ok_def request_host_def)
  have "request_line q \<noteq> []" "rq_method q \<noteq> []" "rq_path q \<noteq> []"
    using ok by (auto simp: request_ok_def request_line_def)
  then show ?thesis
    using h2c_prefix [OF ok, of rest] h2c line m p fh
    by (simp add: parse_request_def Let_def split: sum.splits)
qed

lemma SniffHTTP_state:
  assumes "SniffHTTP env pooled r = (e, info, h)" "headBufSize \<le> pooled" "pooled < capBound"
  shows "stream h = reader_data r \<and> head_ok h \<and> hi_Consumed info = hr_buf h"
proof -
  obtain res h' where rh: "read_head (newHeadReader pooled r MaxHTTPHead) = (res, h')" by force
  have "h = h'" "hi_Consumed info = hr_buf h"
    using assms(1) rh
    by (auto simp: SniffHTTP_def split: sum.splits prod.splits dest: parse_request_ConsumedD)
  with read_head_facts [OF rh] head_ok_new [OF assms(2,3), of r MaxHTTPHead] show ?thesis
    by (simp add: head_consts) (simp add: newHeadReader_def)
qed

lemma SniffHTTP_request:
  assumes "request_ok q" "\<not> is_h2c q" "length (render q) \<le> MaxHTTPHead"
    and "prompt r" "reader_data r = render q @ rest"
    and "headBufSize \<le> pooled" "pooled < capBound"
  shows "\<exists>consumed h. SniffHTTP env pooled r =
      (case request_host env q of Inl e \<Rightarrow> Some e | Inr host \<Rightarrow> None,
       \<lparr>hi_Host = (case request_host env q of Inl e \<Rightarrow> [] | Inr host \<Rightarrow> host),
        hi_Method = rq_method q, hi_Path = rq_path q, hi_Consumed = consumed\<rparr>, h)
    \<and> (\<exists>t. consumed = render q @ t)"
proof -
  define h0 where "h0 = newHeadReader pooled r MaxHTTPHead"
  obtain res h where rh: "read_head h0 = (res, h)" by force
  have h0: "head_ok h0" "prompt (hr_src h0)" "hr_max h0 = MaxHTTPHead" "hr_buf h0 = []"
    "stream h0 = render q @ rest"
    using head_ok_new assms by (simp_all add: h0_def newHeadReader_def stream_def)
  note mark = render_headerMark [OF assms(1), of rest]
  have "fst (read_head h0) = Inr (length (render q) - 4 + 4)"
    using read_head_prompt [OF h0(1) _ h0(2)] h0 mark assms(3)
    by (simp add: head_consts headerMark_def CRLF_def)
  then have res: "res = Inr (length (render q))" using rh mark by simp
  have st: "hr_buf h @ reader_data (hr_src h) = render q @ rest"
    and len: "length (render q) \<le> length (hr_buf h)"
    using read_head_facts [OF rh] res h0 by (auto simp: stream_def headerMark_def CRLF_def dest!: index_sub_split)
  then obtain rest' where "hr_buf h = render q @ rest'"
    by (metis append_eq_append_conv_if append_take_drop_id)
  with parse_request_render [OF assms(1,2), of env rest'] rh res show ?thesis
    by (intro exI [of _ "hr_buf h"] exI [of _ h])
      (auto simp: SniffHTTP_def h0_def [symmetric] Let_def split: sum.splits)
qed

section \<open>Properties\<close>

text \<open>Sniffing HTTP loses nothing: whatever the outcome, an error included, the bytes reported
  as consumed followed by what is still unread are exactly what the peer sent; and every buffer it
  used or gave back to the pool keeps a capacity between 4096 and twice the TLS limit, which
  bounds what it consumed.\<close>

theorem sniff_http_lossless:
  assumes "headBufSize \<le> pooled" "pooled < capBound"
  shows "case SniffHTTP env pooled r of (e, info, h) \<Rightarrow>
    reader_data r = hi_Consumed info @ reader_data (hr_src h)
    \<and> length (hi_Consumed info) < capBound
    \<and> list_all (\<lambda>c. headBufSize \<le> c \<and> c < capBound) (hr_cap h # hr_pool h)"
proof -
  obtain e info h where sn: "SniffHTTP env pooled r = (e, info, h)" by (metis prod_cases3)
  from SniffHTTP_state [OF this assms] sn show ?thesis by (auto simp: stream_def head_ok_def)
qed

theorem sniff_http_lossless_witness:
  "headBufSize \<le> 4096 \<and>
   (case SniffHTTP ascii_env 4096
       [(''GET / HTTP/1.1'' @ CRLF @ ''Ho'', None), (''st: a.example'', Some (ConnError ''reset''))]
    of (e, info, h) \<Rightarrow>
      reader_data [(''GET / HTTP/1.1'' @ CRLF @ ''Ho'', None), (''st: a.example'', Some (ConnError ''reset''))]
        = hi_Consumed info @ reader_data (hr_src h)
      \<and> length (hi_Consumed info) < capBound
      \<and> list_all (\<lambda>c. headBufSize \<le> c \<and> c < capBound) (hr_cap h # hr_pool h))"
  by (intro conjI sniff_http_lossless) (simp_all add: head_consts)

text \<open>C2: A request is routed by its first Host header, however the network cut it: for every
  well-formed request whose header fits the limit, delivered in any non-empty chunks and followed
  by any bytes, the sniffer reports the request's method and path and the normalised value of the
  first header named host in any case, the normaliser's error when that value is unusable, and
  \<open>ErrNoHost\<close> when there is none.\<close>

theorem sniff_http_finds_host:
  assumes "request_ok q" "\<not> is_h2c q" "length (render q) \<le> MaxHTTPHead"
    and "prompt r" "reader_data r = render q @ rest"
    and "headBufSize \<le> pooled" "pooled < capBound"
  shows "\<exists>consumed h. SniffHTTP env pooled r =
      (case request_host env q of Inl e \<Rightarrow> Some e | Inr host \<Rightarrow> None,
       \<lparr>hi_Host = (case request_host env q of Inl e \<Rightarrow> [] | Inr host \<Rightarrow> host),
        hi_Method = rq_method q, hi_Path = rq_path q, hi_Consumed = consumed\<rparr>, h)
    \<and> (\<exists>t. consumed = render q @ t)"
  by (rule SniffHTTP_request [OF assms])

definition sample_request :: request where
  "sample_request = \<lparr>rq_method = ''GET'', rq_path = ''/x'', rq_version = ''HTTP/1.1'',
     rq_headers = [(''Accept'', ''*''), (''HOST'', '' NAS.example.com:8080'')]\<rparr>"

theorem sniff_http_finds_host_witness:
  "request_host ascii_env sample_request = Inr ''nas.example.com'' \<and>
   (\<exists>consumed h. SniffHTTP ascii_env 4096 (byte_chunks (render sample_request)) =
      (None, \<lparr>hi_Host = ''nas.example.com'', hi_Method = ''GET'', hi_Path = ''/x'',
              hi_Consumed = consumed\<rparr>, h)
    \<and> (\<exists>t. consumed = render sample_request @ t))"
proof -
  have host: "request_host ascii_env sample_request = Inr ''nas.example.com''"
    by (simp add: request_host_def sample_request_def is_host_header_def asciiEqualFold_def trim_space_blank
        NormaliseHost_def name_eval)
  have ok: "request_ok sample_request" "\<not> is_h2c sample_request"
    "length (render sample_request) \<le> MaxHTTPHead"
    by (simp_all add: sample_request_def request_ok_def request_line_def is_h2c_def render_def
        header_line_def CRLF_def head_consts)
  show ?thesis
    using host sniff_http_finds_host [where pooled = 4096 and env = ascii_env and rest = "[]", OF ok prompt_byte_chunks]
    by (simp add: head_consts sample_request_def)
qed

end
