(* ===== verification/Vhost_Sniff_Tls.thy ===== *)
theory Vhost_Sniff_Tls
  imports Vhost_Sniff
begin

text \<open>
  Finding the server name of a TLS connection without terminating it:
  \<^verbatim>\<open>internal/tunnel/vhost/sniff_tls.go\<close>. The sniffer reads one record, walks the ClientHello in
  it with a bounds-checked cursor (\<open>byteReader\<close>) and takes the host name of the server name
  extension.
\<close>

section \<open>The cursor\<close>

definition recordTypeHandshake :: nat where "recordTypeHandshake = 0x16"
definition handshakeClientHello :: nat where "handshakeClientHello = 0x01"
definition extensionServerName :: nat where "extensionServerName = 0x0000"
definition sniTypeHostName :: nat where "sniTypeHostName = 0x00"
definition tlsRecordHeaderSize :: nat where "tlsRecordHeaderSize = 5"
definition tlsRandomSize :: nat where "tlsRandomSize = 32"

lemmas tls_consts = recordTypeHandshake_def handshakeClientHello_def extensionServerName_def
  sniTypeHostName_def tlsRecordHeaderSize_def tlsRandomSize_def

record byteReader =
  br_buf :: bytes
  br_pos :: nat

definition br_done :: "byteReader \<Rightarrow> bool" where
  "br_done r = (length (br_buf r) \<le> br_pos r)"

definition br_remaining :: "byteReader \<Rightarrow> nat" where
  "br_remaining r = length (br_buf r) - br_pos r"

definition br_skip :: "nat \<Rightarrow> byteReader \<Rightarrow> bytes option \<times> byteReader" where
  "br_skip n r =
     (if br_remaining r < n then (None, r)
      else (Some (take n (drop (br_pos r) (br_buf r))), r\<lparr>br_pos := br_pos r + n\<rparr>))"

definition br_u8 :: "byteReader \<Rightarrow> nat option \<times> byteReader" where
  "br_u8 r = (case br_skip 1 r of (b, r') \<Rightarrow> (map_option be_nat b, r'))"

definition br_u16 :: "byteReader \<Rightarrow> nat option \<times> byteReader" where
  "br_u16 r = (case br_skip 2 r of (b, r') \<Rightarrow> (map_option be_nat b, r'))"

definition br_u24 :: "byteReader \<Rightarrow> nat option \<times> byteReader" where
  "br_u24 r = (case br_skip 3 r of (b, r') \<Rightarrow> (map_option be_nat b, r'))"

definition br_vector8 :: "byteReader \<Rightarrow> bytes option \<times> byteReader" where
  "br_vector8 r = (case br_u8 r of (None, r') \<Rightarrow> (None, r') | (Some n, r') \<Rightarrow> br_skip n r')"

definition br_vector16 :: "byteReader \<Rightarrow> bytes option \<times> byteReader" where
  "br_vector16 r = (case br_u16 r of (None, r') \<Rightarrow> (None, r') | (Some n, r') \<Rightarrow> br_skip n r')"

definition br_new :: "bytes \<Rightarrow> byteReader" where
  "br_new b = \<lparr>br_buf = b, br_pos = 0\<rparr>"

section \<open>The ClientHello\<close>

datatype tls_error =
    TlsHead head_error
  | NotHandshake nat
  | EmptyRecord
  | ExpectedClientHello nat
  | TruncatedLength
  | TruncatedVersion
  | TruncatedRandom
  | TruncatedSessionID
  | TruncatedCipherSuites
  | TruncatedCompression
  | TruncatedExtensionType
  | TruncatedExtensionBody
  | TruncatedNameList
  | TruncatedNameType
  | TruncatedName
  | BadServerName string vhost_error

lemma br_skip_remaining:
  "br_skip n r = (Some b, r') \<Longrightarrow> br_remaining r' + n = br_remaining r"
  by (auto simp: br_skip_def br_remaining_def split: if_splits)

lemma br_skip_shrinks: "br_skip n r = (b, r') \<Longrightarrow> br_remaining r' \<le> br_remaining r"
  by (auto simp: br_skip_def br_remaining_def split: if_splits)

lemma br_vector16_shrinks: "br_vector16 r = (b, r') \<Longrightarrow> br_remaining r' \<le> br_remaining r"
  by (auto simp: br_vector16_def br_u16_def split: prod.splits option.splits
      dest!: br_skip_shrinks)

lemma br_u8_progress: "br_u8 r = (Some n, r') \<Longrightarrow> br_remaining r' < br_remaining r"
  by (auto simp: br_u8_def split: prod.splits dest!: br_skip_remaining)

lemma br_u16_progress: "br_u16 r = (Some n, r') \<Longrightarrow> br_remaining r' < br_remaining r"
  by (auto simp: br_u16_def split: prod.splits dest!: br_skip_remaining)

text \<open>The loop over the entries of the server name list.\<close>

function name_entries :: "byteReader \<Rightarrow> tls_error + string" where
  "name_entries entries =
     (if br_done entries then Inr []
      else case br_u8 entries of
        (None, _) \<Rightarrow> Inl TruncatedNameType
      | (Some nameType, entries1) \<Rightarrow>
          (case br_vector16 entries1 of
             (None, _) \<Rightarrow> Inl TruncatedName
           | (Some value, entries2) \<Rightarrow>
               if nameType = sniTypeHostName then Inr value else name_entries entries2))"
  by pat_completeness auto
termination
  by (relation "measure br_remaining")
    (auto dest!: sym [of _ "br_u8 _"] sym [of _ "br_vector16 _"] br_u8_progress br_vector16_shrinks)

text \<open>The loop over the extensions; the first server name extension decides.\<close>

function extensions_loop :: "byteReader \<Rightarrow> tls_error + string" where
  "extensions_loop ext =
     (if br_done ext then Inr []
      else case br_u16 ext of
        (None, _) \<Rightarrow> Inl TruncatedExtensionType
      | (Some extType, ext1) \<Rightarrow>
          (case br_vector16 ext1 of
             (None, _) \<Rightarrow> Inl TruncatedExtensionBody
           | (Some extData, ext2) \<Rightarrow>
               if extType \<noteq> extensionServerName then extensions_loop ext2
               else case br_vector16 (br_new extData) of
                      (None, _) \<Rightarrow> Inl TruncatedNameList
                    | (Some nlist, _) \<Rightarrow> name_entries (br_new nlist)))"
  by pat_completeness auto
termination
  by (relation "measure br_remaining")
    (auto dest!: sym [of _ "br_u16 _"] sym [of _ "br_vector16 _"] br_u16_progress br_vector16_shrinks)

declare name_entries.simps [simp del] extensions_loop.simps [simp del]

definition parseClientHello :: "bytes \<Rightarrow> tls_error + string" where
  "parseClientHello body =
     (let (msgType, r) = br_u8 (br_new body) in
      if msgType \<noteq> Some handshakeClientHello then
        Inl (ExpectedClientHello (case msgType of None \<Rightarrow> 0 | Some t \<Rightarrow> t))
      else case br_u24 r of (None, _) \<Rightarrow> Inl TruncatedLength | (Some _, r) \<Rightarrow>
      (case br_skip 2 r of (None, _) \<Rightarrow> Inl TruncatedVersion | (Some _, r) \<Rightarrow>
      (case br_skip tlsRandomSize r of (None, _) \<Rightarrow> Inl TruncatedRandom | (Some _, r) \<Rightarrow>
      (case br_vector8 r of (None, _) \<Rightarrow> Inl TruncatedSessionID | (Some _, r) \<Rightarrow>
      (case br_vector16 r of (None, _) \<Rightarrow> Inl TruncatedCipherSuites | (Some _, r) \<Rightarrow>
      (case br_vector8 r of (None, _) \<Rightarrow> Inl TruncatedCompression | (Some _, r) \<Rightarrow>
      (case br_vector16 r of (None, _) \<Rightarrow> Inr []
       | (Some extensions, _) \<Rightarrow> extensions_loop (br_new extensions))))))))"

record TLSInfo =
  ti_ServerName :: string
  ti_Consumed :: bytes

definition SniffTLS ::
  "text_env \<Rightarrow> nat \<Rightarrow> reader \<Rightarrow> tls_error option \<times> TLSInfo \<times> headReader" where
  "SniffTLS env pooled r =
     (case ensure tlsRecordHeaderSize (newHeadReader pooled r MaxTLSHead) of
        (Some err, h) \<Rightarrow> (Some (TlsHead err), \<lparr>ti_ServerName = [], ti_Consumed = hr_buf h\<rparr>, h)
      | (None, h) \<Rightarrow>
          let recordType = byte_nat (hr_buf h ! 0);
              recordLen = be_nat (take 2 (drop 3 (hr_buf h)));
              info = \<lparr>ti_ServerName = [], ti_Consumed = hr_buf h\<rparr> in
          if recordType \<noteq> recordTypeHandshake then (Some (NotHandshake recordType), info, h)
          else if recordLen = 0 then (Some EmptyRecord, info, h)
          else
            let total = tlsRecordHeaderSize + recordLen in
            case ensure total h of
              (Some err, h') \<Rightarrow>
                (Some (TlsHead err), \<lparr>ti_ServerName = [], ti_Consumed = hr_buf h'\<rparr>, h')
            | (None, h') \<Rightarrow>
                let info = \<lparr>ti_ServerName = [], ti_Consumed = hr_buf h'\<rparr> in
                case parseClientHello (drop tlsRecordHeaderSize (take total (hr_buf h'))) of
                  Inl e \<Rightarrow> (Some e, info, h')
                | Inr name \<Rightarrow>
                    if name = [] then (None, info, h')
                    else case NormaliseHost env name of
                           Inl e \<Rightarrow> (Some (BadServerName name e), info, h')
                         | Inr normalised \<Rightarrow> (None, info\<lparr>ti_ServerName := normalised\<rparr>, h'))"

section \<open>Reading what was written\<close>

text \<open>The bytes still ahead of a cursor; each read takes them from the front.\<close>

definition ahead :: "byteReader \<Rightarrow> bytes" where
  "ahead r = drop (br_pos r) (br_buf r)"

lemma ahead_new [simp]: "ahead (br_new b) = b"
  by (simp add: ahead_def br_new_def)

lemma br_done_ahead: "br_done r \<longleftrightarrow> ahead r = []"
  by (simp add: br_done_def ahead_def)

lemma br_skip_ahead:
  assumes "ahead r = x @ y" "length x = n"
  shows "\<exists>r'. br_skip n r = (Some x, r') \<and> ahead r' = y"
proof -
  have "n \<le> br_remaining r" using arg_cong [OF assms(1), of length] assms(2)
    by (simp add: ahead_def br_remaining_def)
  moreover have "take n (drop (br_pos r) (br_buf r)) = x"
    using assms by (simp add: ahead_def)
  moreover have "drop (br_pos r + n) (br_buf r) = y"
    using assms by (metis ahead_def append_eq_conv_conj drop_drop add.commute)
  ultimately show ?thesis by (simp add: br_skip_def ahead_def)
qed

definition vec8 :: "bytes \<Rightarrow> bytes" where
  "vec8 d = nat_byte (length d) # d"

definition vec16 :: "bytes \<Rightarrow> bytes" where
  "vec16 d = be16 (length d) @ d"

lemma br_u8_ahead: "ahead r = c # y \<Longrightarrow> \<exists>r'. br_u8 r = (Some (byte_nat c), r') \<and> ahead r' = y"
  using br_skip_ahead [of r "[c]" y 1] by (auto simp: br_u8_def be_nat_def)

lemma br_u16_ahead:
  "ahead r = be16 n @ y \<Longrightarrow> n < 2 ^ 16 \<Longrightarrow> \<exists>r'. br_u16 r = (Some n, r') \<and> ahead r' = y"
  using br_skip_ahead [of r "be16 n" y 2] be_nat_be16 [of n] by (auto simp: br_u16_def simp del: be_nat_be16)

lemma br_vector8_ahead:
  assumes "ahead r = vec8 d @ y" "length d < 2 ^ 8"
  shows "\<exists>r'. br_vector8 r = (Some d, r') \<and> ahead r' = y"
proof -
  obtain r1 where "br_u8 r = (Some (length d), r1)" "ahead r1 = d @ y"
    using br_u8_ahead [of r "nat_byte (length d)" "d @ y"] assms by (auto simp: vec8_def)
  with br_skip_ahead [of r1 d y] show ?thesis by (auto simp: br_vector8_def)
qed

lemma br_vector16_ahead:
  assumes "ahead r = vec16 d @ y" "length d < 2 ^ 16"
  shows "\<exists>r'. br_vector16 r = (Some d, r') \<and> ahead r' = y"
proof -
  obtain r1 where "br_u16 r = (Some (length d), r1)" "ahead r1 = d @ y"
    using br_u16_ahead [of r "length d" "d @ y"] assms by (auto simp: vec16_def)
  with br_skip_ahead [of r1 d y] show ?thesis by (auto simp: br_vector16_def)
qed

text \<open>A ClientHello as RFC 8446 lays it out.\<close>

record hello =
  ch_version :: bytes
  ch_random :: bytes
  ch_session :: bytes
  ch_ciphers :: bytes
  ch_compression :: bytes
  ch_extensions :: "(nat \<times> bytes) list option"

definition ext_bytes :: "(nat \<times> bytes) list \<Rightarrow> bytes" where
  "ext_bytes es = concat (map (\<lambda>(t, d). be16 t @ vec16 d) es)"

definition name_bytes :: "(nat \<times> bytes) list \<Rightarrow> bytes" where
  "name_bytes ns = concat (map (\<lambda>(t, d). nat_byte t # vec16 d) ns)"

definition hello_rest :: "hello \<Rightarrow> bytes" where
  "hello_rest c = ch_version c @ ch_random c @ vec8 (ch_session c) @ vec16 (ch_ciphers c)
     @ vec8 (ch_compression c)
     @ (case ch_extensions c of None \<Rightarrow> [] | Some es \<Rightarrow> vec16 (ext_bytes es))"

definition hello_bytes :: "hello \<Rightarrow> bytes" where
  "hello_bytes c = nat_byte 1 # nat_byte (length (hello_rest c) div 2 ^ 16)
     # be16 (length (hello_rest c)) @ hello_rest c"

definition record_bytes :: "bytes \<Rightarrow> bytes \<Rightarrow> bytes" where
  "record_bytes version body = nat_byte 0x16 # version @ be16 (length body) @ body"

definition hello_ok :: "hello \<Rightarrow> bool" where
  "hello_ok c \<longleftrightarrow> length (ch_version c) = 2 \<and> length (ch_random c) = 32
     \<and> length (ch_session c) < 2 ^ 8 \<and> length (ch_ciphers c) < 2 ^ 16
     \<and> length (ch_compression c) < 2 ^ 8
     \<and> (\<forall>es. ch_extensions c = Some es \<longrightarrow> length (ext_bytes es) < 2 ^ 16
            \<and> list_all (\<lambda>(t, d). t < 2 ^ 16 \<and> length d < 2 ^ 16) es)"

text \<open>The names offered: the list in the first server name extension.\<close>

definition offers :: "hello \<Rightarrow> (nat \<times> bytes) list \<Rightarrow> bool" where
  "offers c ns \<longleftrightarrow> length (name_bytes ns) < 2 ^ 16
     \<and> list_all (\<lambda>(t, d). t < 2 ^ 8 \<and> length d < 2 ^ 16) ns
     \<and> (case ch_extensions c of
          None \<Rightarrow> ns = []
        | Some es \<Rightarrow> (case map_of es 0 of None \<Rightarrow> ns = [] | Some d \<Rightarrow> d = vec16 (name_bytes ns)))"

definition offered_name :: "(nat \<times> bytes) list \<Rightarrow> string" where
  "offered_name ns = (case map_of ns 0 of None \<Rightarrow> [] | Some n \<Rightarrow> n)"

lemma name_entries_bytes:
  assumes "list_all (\<lambda>(t, d). t < 2 ^ 8 \<and> length d < 2 ^ 16) ns" "ahead r = name_bytes ns"
  shows "name_entries r = Inr (offered_name ns)"
  using assms
proof (induction ns arbitrary: r)
  case Nil
  then show ?case by (simp add: name_entries.simps [of r] br_done_ahead name_bytes_def offered_name_def)
next
  case (Cons e ns)
  obtain t d where e: "e = (t, d)" by (cases e)
  have ah: "ahead r = nat_byte t # (vec16 d @ name_bytes ns)"
    using Cons.prems e by (simp add: name_bytes_def)
  have td: "t < 256" "length d < 2 ^ 16" using Cons.prems e by simp_all
  obtain r1 where r1: "br_u8 r = (Some t, r1)" "ahead r1 = vec16 d @ name_bytes ns"
    using br_u8_ahead [OF ah] td by auto
  obtain r2 where r2: "br_vector16 r1 = (Some d, r2)" "ahead r2 = name_bytes ns"
    using br_vector16_ahead [OF r1(2) td(2)] by auto
  have "\<not> br_done r" using ah by (simp add: br_done_ahead)
  with Cons r1 r2 e show ?case
    by (simp add: name_entries.simps [of r] offered_name_def sniTypeHostName_def)
qed

lemma extensions_loop_bytes:
  assumes "list_all (\<lambda>(t, d). t < 2 ^ 16 \<and> length d < 2 ^ 16) es" "ahead r = ext_bytes es"
    and "length (name_bytes ns) < 2 ^ 16" "list_all (\<lambda>(t, d). t < 2 ^ 8 \<and> length d < 2 ^ 16) ns"
    and "case map_of es 0 of None \<Rightarrow> ns = [] | Some d \<Rightarrow> d = vec16 (name_bytes ns)"
  shows "extensions_loop r = Inr (offered_name ns)"
  using assms
proof (induction es arbitrary: r)
  case Nil
  then show ?case
    by (simp add: extensions_loop.simps [of r] br_done_ahead ext_bytes_def offered_name_def)
next
  case (Cons e es)
  obtain t d where e: "e = (t, d)" by (cases e)
  have ah: "ahead r = be16 t @ (vec16 d @ ext_bytes es)"
    using Cons.prems e by (simp add: ext_bytes_def)
  have td: "t < 2 ^ 16" "length d < 2 ^ 16" using Cons.prems e by simp_all
  obtain r1 where r1: "br_u16 r = (Some t, r1)" "ahead r1 = vec16 d @ ext_bytes es"
    using br_u16_ahead [OF ah td(1)] by auto
  obtain r2 where r2: "br_vector16 r1 = (Some d, r2)" "ahead r2 = ext_bytes es"
    using br_vector16_ahead [OF r1(2) td(2)] by auto
  have nd: "\<not> br_done r" using ah by (simp add: br_done_ahead be16_def)
  show ?case
  proof (cases "t = 0")
    case True
    then have "d = vec16 (name_bytes ns)" using Cons.prems e by simp
    then obtain r3 where "br_vector16 (br_new d) = (Some (name_bytes ns), r3)"
      using br_vector16_ahead [of "br_new d" "name_bytes ns" "[]"] Cons.prems by auto
    with True r1 r2 nd name_entries_bytes [of ns "br_new (name_bytes ns)"] Cons.prems show ?thesis
      by (simp add: extensions_loop.simps [of r] extensionServerName_def)
  next
    case False
    with Cons r1 r2 nd e show ?thesis
      by (simp add: extensions_loop.simps [of r] extensionServerName_def)
  qed
qed

lemma parseClientHello_bytes:
  assumes ok: "hello_ok c" and of: "offers c ns"
  shows "parseClientHello (hello_bytes c) = Inr (offered_name ns)"
proof -
  let ?n = "length (hello_rest c)"
  obtain r1 where r1: "br_u8 (br_new (hello_bytes c)) = (Some 1, r1)"
    "ahead r1 = (nat_byte (?n div 2 ^ 16) # be16 ?n) @ hello_rest c"
    using br_u8_ahead [of "br_new (hello_bytes c)" "nat_byte 1"] by (auto simp: hello_bytes_def)
  obtain n r2 where r2: "br_u24 r1 = (Some n, r2)" "ahead r2 = hello_rest c"
    using br_skip_ahead [OF r1(2), of 3] by (auto simp: br_u24_def)
  obtain r3 where r3: "br_skip 2 r2 = (Some (ch_version c), r3)"
    "ahead r3 = ch_random c @ vec8 (ch_session c) @ vec16 (ch_ciphers c) @ vec8 (ch_compression c)
      @ (case ch_extensions c of None \<Rightarrow> [] | Some es \<Rightarrow> vec16 (ext_bytes es))"
    using br_skip_ahead [of r2 "ch_version c" _ 2] r2 ok by (auto simp: hello_rest_def hello_ok_def)
  obtain r4 where r4: "br_skip tlsRandomSize r3 = (Some (ch_random c), r4)"
    "ahead r4 = vec8 (ch_session c) @ vec16 (ch_ciphers c) @ vec8 (ch_compression c)
      @ (case ch_extensions c of None \<Rightarrow> [] | Some es \<Rightarrow> vec16 (ext_bytes es))"
    using br_skip_ahead [OF r3(2), of tlsRandomSize] ok by (auto simp: hello_ok_def tlsRandomSize_def)
  obtain r5 where r5: "br_vector8 r4 = (Some (ch_session c), r5)"
    "ahead r5 = vec16 (ch_ciphers c) @ vec8 (ch_compression c)
      @ (case ch_extensions c of None \<Rightarrow> [] | Some es \<Rightarrow> vec16 (ext_bytes es))"
    using br_vector8_ahead [OF r4(2)] ok by (auto simp: hello_ok_def)
  obtain r6 where r6: "br_vector16 r5 = (Some (ch_ciphers c), r6)"
    "ahead r6 = vec8 (ch_compression c)
      @ (case ch_extensions c of None \<Rightarrow> [] | Some es \<Rightarrow> vec16 (ext_bytes es))"
    using br_vector16_ahead [OF r5(2)] ok by (auto simp: hello_ok_def)
  obtain r7 where r7: "br_vector8 r6 = (Some (ch_compression c), r7)"
    "ahead r7 = (case ch_extensions c of None \<Rightarrow> [] | Some es \<Rightarrow> vec16 (ext_bytes es)) @ []"
    using br_vector8_ahead [OF r6(2)] ok by (auto simp: hello_ok_def)
  note steps = parseClientHello_def Let_def r1(1) r2(1) r3(1) r4(1) r5(1) r6(1) r7(1)
  show ?thesis
  proof (cases "ch_extensions c")
    case None
    then have "br_remaining r7 = 0"
      using r7(2) by (simp add: ahead_def br_remaining_def)
    then have "br_vector16 r7 = (None, r7)"
      by (simp add: br_vector16_def br_u16_def br_skip_def)
    with None of show ?thesis
      by (simp add: steps handshakeClientHello_def offers_def offered_name_def)
  next
    case (Some es)
    then obtain r8 where "br_vector16 r7 = (Some (ext_bytes es), r8)"
      using br_vector16_ahead [of r7 "ext_bytes es" "[]"] r7(2) ok by (auto simp: hello_ok_def)
    with Some ok of extensions_loop_bytes [of es "br_new (ext_bytes es)" ns] show ?thesis
      by (simp add: steps handshakeClientHello_def hello_ok_def offers_def)
  qed
qed

section \<open>Properties\<close>

lemma SniffTLS_state:
  assumes "SniffTLS env pooled r = (e, info, h)" "headBufSize \<le> pooled" "pooled < capBound"
  shows "stream h = reader_data r \<and> head_ok h \<and> ti_Consumed info = hr_buf h"
proof -
  let ?h0 = "newHeadReader pooled r MaxTLSHead"
  obtain e1 h1 where en1: "ensure tlsRecordHeaderSize ?h0 = (e1, h1)" by force
  have "hr_max ?h0 = MaxTLSHead" by (simp add: newHeadReader_def)
  with ensure_facts [OF en1] head_ok_new [OF assms(2,3)]
  have h1: "stream h1 = reader_data r" "head_ok h1" "hr_max h1 = MaxTLSHead" by auto
  let ?total = "tlsRecordHeaderSize + be_nat (take 2 (drop 3 (hr_buf h1)))"
  obtain e2 h2 where en2: "ensure ?total h1 = (e2, h2)" by force
  from ensure_facts [OF en2] h1 have h2: "stream h2 = reader_data r" "head_ok h2" by auto
  have "h = h1 \<or> h = h2" "ti_Consumed info = hr_buf h"
    using assms(1) en1 en2
    by (auto simp: SniffTLS_def Let_def split: option.splits if_splits sum.splits)
  with h1 h2 show ?thesis by blast
qed

text \<open>Sniffing TLS loses nothing: whatever the outcome, the bytes reported as consumed
  followed by what is still unread are exactly what the peer sent, and the buffers stay within
  the bounds the pool keeps.\<close>

theorem sniff_tls_lossless:
  assumes "headBufSize \<le> pooled" "pooled < capBound"
  shows "case SniffTLS env pooled r of (e, info, h) \<Rightarrow>
    reader_data r = ti_Consumed info @ reader_data (hr_src h)
    \<and> length (ti_Consumed info) < capBound
    \<and> list_all (\<lambda>c. headBufSize \<le> c \<and> c < capBound) (hr_cap h # hr_pool h)"
proof -
  obtain e info h where sn: "SniffTLS env pooled r = (e, info, h)" by (metis prod_cases3)
  from SniffTLS_state [OF this assms] sn show ?thesis by (auto simp: stream_def head_ok_def)
qed

theorem sniff_tls_lossless_witness:
  "headBufSize \<le> 4096 \<and>
   (case SniffTLS ascii_env 4096 [(''GET / HTTP'', None)] of (e, info, h) \<Rightarrow>
      reader_data [(''GET / HTTP'', None)] = ti_Consumed info @ reader_data (hr_src h)
      \<and> length (ti_Consumed info) < capBound
      \<and> list_all (\<lambda>c. headBufSize \<le> c \<and> c < capBound) (hr_cap h # hr_pool h))"
  by (intro conjI sniff_tls_lossless) (simp_all add: head_consts)

text \<open>The two reads of \<open>SniffTLS\<close> on a clean connection that carries one whole record.\<close>

lemma SniffTLS_record:
  assumes "clean r" "reader_data r = record_bytes version body @ rest"
    and "length version = 2" "0 < length body" "length body \<le> 16384"
    and "headBufSize \<le> pooled" "pooled < capBound"
  shows "\<exists>h. SniffTLS env pooled r =
    (let info = \<lparr>ti_ServerName = [], ti_Consumed = hr_buf h\<rparr> in
     case parseClientHello body of
       Inl e \<Rightarrow> (Some e, info, h)
     | Inr name \<Rightarrow> if name = [] then (None, info, h)
         else case NormaliseHost env name of
                Inl e \<Rightarrow> (Some (BadServerName name e), info, h)
              | Inr n \<Rightarrow> (None, info\<lparr>ti_ServerName := n\<rparr>, h))"
proof -
  let ?h0 = "newHeadReader pooled r MaxTLSHead"
  let ?rec = "record_bytes version body"
  have rec: "length ?rec = 5 + length body" using assms(3) by (simp add: record_bytes_def)
  have h0: "hr_max ?h0 = MaxTLSHead" "clean (hr_src ?h0)" "stream ?h0 = ?rec @ rest"
    using assms by (simp_all add: newHeadReader_def stream_def)
  obtain h1 where e1: "ensure tlsRecordHeaderSize ?h0 = (None, h1)" "clean (hr_src h1)"
    using ensure_clean [of ?h0 tlsRecordHeaderSize] h0 rec
    by (auto simp: tls_consts head_consts)
  have s1: "stream h1 = ?rec @ rest" and l1: "5 \<le> length (hr_buf h1)" and m1: "hr_max h1 = MaxTLSHead"
    using ensure_facts(1-3) [OF e1(1)] h0 by (simp_all add: tlsRecordHeaderSize_def)
  have pre: "take 5 (hr_buf h1) = nat_byte 0x16 # version @ be16 (length body)"
  proof -
    have "take 5 (hr_buf h1) = take 5 (stream h1)" using l1 by (simp add: stream_def)
    then show ?thesis using s1 assms(3) by (simp add: record_bytes_def)
  qed
  have ty: "byte_nat (hr_buf h1 ! 0) = recordTypeHandshake"
    using arg_cong [OF pre, of "\<lambda>l. l ! 0"] by (simp add: recordTypeHandshake_def)
  have len: "be_nat (take 2 (drop 3 (hr_buf h1))) = length body"
  proof -
    have "take 2 (drop 3 (hr_buf h1)) = drop 3 (take 5 (hr_buf h1))" by (simp add: drop_take)
    also have "\<dots> = be16 (length body)" using pre assms(3) by (simp add: numeral_3_eq_3)
    finally show ?thesis using assms(5) be_nat_be16 [of "length body"] by simp
  qed
  obtain h2 where e2: "ensure (tlsRecordHeaderSize + length body) h1 = (None, h2)"
    using ensure_clean [OF e1(2), of "tlsRecordHeaderSize + length body"] s1 rec m1 assms(5)
    by (auto simp: tls_consts head_consts)
  have "stream h2 = ?rec @ rest" "5 + length body \<le> length (hr_buf h2)"
    using ensure_facts(1,3) [OF e2] s1 by (simp_all add: tlsRecordHeaderSize_def)
  then have "take (5 + length body) (hr_buf h2) = ?rec"
    using rec by (metis append_eq_append_conv_if append_take_drop_id length_take min.absorb2 stream_def take_append_le take_all_iff order_refl append_eq_conv_conj)
  then have body: "drop tlsRecordHeaderSize (take (tlsRecordHeaderSize + length body) (hr_buf h2)) = body"
    using assms(3) by (simp add: tlsRecordHeaderSize_def record_bytes_def)
  show ?thesis
    using e1 e2 ty len body assms(4)
    by (intro exI [of _ h2]) (simp add: SniffTLS_def Let_def split: sum.splits)
qed

text \<open>C3: A TLS connection is routed by the name its ClientHello offers, however the network cut
  it: for every well-formed ClientHello in one record, with any other extensions before or after
  the server name, the sniffer reports the first offered host name, normalised; the normaliser's
  error when it is unusable; and no name, without an error, when none is offered.\<close>

theorem sniff_tls_finds_name:
  assumes "hello_ok c" "offers c ns" "length (hello_bytes c) \<le> 16384"
    and "length version = 2" "clean r" "reader_data r = record_bytes version (hello_bytes c) @ rest"
    and "headBufSize \<le> pooled" "pooled < capBound"
  shows "\<exists>consumed h. SniffTLS env pooled r =
    (if offered_name ns = [] then (None, \<lparr>ti_ServerName = [], ti_Consumed = consumed\<rparr>, h)
     else case NormaliseHost env (offered_name ns) of
            Inl e \<Rightarrow> (Some (BadServerName (offered_name ns) e),
                      \<lparr>ti_ServerName = [], ti_Consumed = consumed\<rparr>, h)
          | Inr n \<Rightarrow> (None, \<lparr>ti_ServerName = n, ti_Consumed = consumed\<rparr>, h))"
proof -
  have "0 < length (hello_bytes c)" by (simp add: hello_bytes_def)
  from SniffTLS_record [OF assms(5,6,4) this assms(3,7,8), of env] obtain h where
    "SniffTLS env pooled r =
      (if offered_name ns = [] then (None, \<lparr>ti_ServerName = [], ti_Consumed = hr_buf h\<rparr>, h)
       else case NormaliseHost env (offered_name ns) of
              Inl e \<Rightarrow> (Some (BadServerName (offered_name ns) e),
                        \<lparr>ti_ServerName = [], ti_Consumed = hr_buf h\<rparr>, h)
            | Inr n \<Rightarrow> (None, \<lparr>ti_ServerName = n, ti_Consumed = hr_buf h\<rparr>, h))"
    by (auto simp: parseClientHello_bytes [OF assms(1,2)] Let_def cong: if_cong sum.case_cong)
  then show ?thesis by blast
qed

definition sample_hello :: hello where
  "sample_hello = \<lparr>ch_version = replicate 2 (CHR 0x03), ch_random = replicate 32 (CHR ''r''),
     ch_session = [], ch_ciphers = ''ab'', ch_compression = [CHR 0x00],
     ch_extensions = Some [(43, ''xyz''), (0, vec16 (name_bytes [(0, ''Nas.Example.com'')]))]\<rparr>"

theorem sniff_tls_finds_name_witness:
  "\<exists>consumed h. SniffTLS ascii_env 4096
      (byte_chunks (record_bytes ''vv'' (hello_bytes sample_hello) @ ''later'')) =
    (None, \<lparr>ti_ServerName = ''nas.example.com'', ti_Consumed = consumed\<rparr>, h)"
proof -
  have ok: "hello_ok sample_hello" "offers sample_hello [(0, ''Nas.Example.com'')]"
    "length (hello_bytes sample_hello) \<le> 16384"
    by (simp_all add: sample_hello_def hello_ok_def offers_def hello_bytes_def hello_rest_def
        ext_bytes_def name_bytes_def vec8_def vec16_def)
  have "NormaliseHost ascii_env ''Nas.Example.com'' = Inr ''nas.example.com''"
    by (simp add: NormaliseHost_def name_eval)
  then show ?thesis
    using sniff_tls_finds_name [OF ok, of "''vv''", OF _ byte_chunks_facts, where rest = "''later''" and pooled = 4096 and env = ascii_env]
    by (simp add: head_consts offered_name_def)
qed

end
