(* ===== verification/Proto_Message.thy ===== *)
theory Proto_Message
  imports Openfrp_Prelude
begin

text \<open>
  The control protocol's messages: \<^verbatim>\<open>internal/tunnel/protocol/message.go\<close>. Each Go struct is a
  record with its fields in the source's order; \<^verbatim>\<open>Message\<close> is the sum of them. A nil slice and
  an empty one are told apart only by the JSON encoder, where the field is always written: there
  \<^term>\<open>None\<close> is the nil slice. \<^verbatim>\<open>int\<close> and \<^verbatim>\<open>int64\<close> fields are \<^typ>\<open>int\<close>; \<open>int64_ok\<close>
  says that a value fits 64 bits, which is the range of both on the 64-bit targets.
\<close>

definition Version :: int where "Version = 1"

definition TypeLogin :: nat where "TypeLogin = 1"
definition TypeLoginResp :: nat where "TypeLoginResp = 2"
definition TypeNewProxy :: nat where "TypeNewProxy = 3"
definition TypeNewProxyResp :: nat where "TypeNewProxyResp = 4"
definition TypeCloseProxy :: nat where "TypeCloseProxy = 5"
definition TypeReqWorkConn :: nat where "TypeReqWorkConn = 6"
definition TypeNewWorkConn :: nat where "TypeNewWorkConn = 7"
definition TypeStartWorkConn :: nat where "TypeStartWorkConn = 8"
definition TypePing :: nat where "TypePing = 9"
definition TypePong :: nat where "TypePong = 10"
definition TypeCertPush :: nat where "TypeCertPush = 11"
definition TypeCertPushResp :: nat where "TypeCertPushResp = 12"
definition TypeHTTPChallenge :: nat where "TypeHTTPChallenge = 13"
definition TypeHTTPChallengeResp :: nat where "TypeHTTPChallengeResp = 14"
definition TypeNewMuxConn :: nat where "TypeNewMuxConn = 15"

lemmas type_codes = TypeLogin_def TypeLoginResp_def TypeNewProxy_def TypeNewProxyResp_def
  TypeCloseProxy_def TypeReqWorkConn_def TypeNewWorkConn_def TypeStartWorkConn_def TypePing_def
  TypePong_def TypeCertPush_def TypeCertPushResp_def TypeHTTPChallenge_def
  TypeHTTPChallengeResp_def TypeNewMuxConn_def

definition typeNames :: "(nat \<times> string) list" where
  "typeNames =
     [(TypeLogin, ''Login''), (TypeLoginResp, ''LoginResp''), (TypeNewProxy, ''NewProxy''),
      (TypeNewProxyResp, ''NewProxyResp''), (TypeCloseProxy, ''CloseProxy''),
      (TypeReqWorkConn, ''ReqWorkConn''), (TypeNewWorkConn, ''NewWorkConn''),
      (TypeStartWorkConn, ''StartWorkConn''), (TypePing, ''Ping''), (TypePong, ''Pong''),
      (TypeCertPush, ''CertPush''), (TypeCertPushResp, ''CertPushResp''),
      (TypeHTTPChallenge, ''HTTPChallenge''), (TypeHTTPChallengeResp, ''HTTPChallengeResp''),
      (TypeNewMuxConn, ''NewMuxConn'')]"

record Login =
  lg_Version :: int
  lg_ClientName :: string
  lg_Hostname :: string
  lg_OS :: string
  lg_Arch :: string
  lg_Timestamp :: int
  lg_AuthKey :: string
  lg_PoolCount :: int
  lg_RunID :: string

record LoginResp =
  lr_ObservedAddr :: string
  lr_Version :: int
  lr_RunID :: string
  lr_ServerVersion :: string
  lr_Error :: string

record ProxySpec =
  ps_Name :: string
  ps_Kind :: string
  ps_RemotePort :: int
  ps_Domains :: "string list"
  ps_TLSMode :: string
  ps_DownRate :: int
  ps_UpRate :: int
  ps_Quota :: int

record NewProxyResp =
  pr_Name :: string
  pr_RemotePort :: int
  pr_Error :: string

record NewWorkConn =
  wc_RunID :: string
  wc_Timestamp :: int
  wc_AuthKey :: string

record NewMuxConn =
  mc_RunID :: string
  mc_Timestamp :: int
  mc_AuthKey :: string

record StartWorkConn =
  sw_ProxyName :: string
  sw_SourceAddr :: string
  sw_Error :: string

record Pong =
  po_Timestamp :: int
  po_Error :: string

record CertPush =
  cp_Domains :: "string list option"
  cp_FullchainPEM :: "bytes option"
  cp_PrivateKeyPEM :: "bytes option"
  cp_NotAfter :: int

record HTTPChallenge =
  hc_Domain :: string
  hc_Token :: string
  hc_KeyAuth :: string
  hc_Remove :: bool

text \<open>A struct with a single field is the field: \<open>NewProxy\<close> carries its \<open>Proxy\<close>, \<open>CloseProxy\<close>
  its \<open>Name\<close>, \<open>ReqWorkConn\<close> its \<open>Count\<close>, \<open>Ping\<close> its \<open>Timestamp\<close>, \<open>CertPushResp\<close> and
  \<open>HTTPChallengeResp\<close> their \<open>Error\<close>.\<close>

datatype message =
    MLogin Login
  | MLoginResp LoginResp
  | MNewProxy ProxySpec
  | MNewProxyResp NewProxyResp
  | MCloseProxy string
  | MReqWorkConn int
  | MNewWorkConn NewWorkConn
  | MStartWorkConn StartWorkConn
  | MPing int
  | MPong Pong
  | MCertPush CertPush
  | MCertPushResp string
  | MHTTPChallenge HTTPChallenge
  | MHTTPChallengeResp string
  | MNewMuxConn NewMuxConn

fun message_type :: "message \<Rightarrow> nat" where
  "message_type (MLogin _) = TypeLogin"
| "message_type (MLoginResp _) = TypeLoginResp"
| "message_type (MNewProxy _) = TypeNewProxy"
| "message_type (MNewProxyResp _) = TypeNewProxyResp"
| "message_type (MCloseProxy _) = TypeCloseProxy"
| "message_type (MReqWorkConn _) = TypeReqWorkConn"
| "message_type (MNewWorkConn _) = TypeNewWorkConn"
| "message_type (MStartWorkConn _) = TypeStartWorkConn"
| "message_type (MPing _) = TypePing"
| "message_type (MPong _) = TypePong"
| "message_type (MCertPush _) = TypeCertPush"
| "message_type (MCertPushResp _) = TypeCertPushResp"
| "message_type (MHTTPChallenge _) = TypeHTTPChallenge"
| "message_type (MHTTPChallengeResp _) = TypeHTTPChallengeResp"
| "message_type (MNewMuxConn _) = TypeNewMuxConn"

text \<open>The zero value of each struct, as \<^verbatim>\<open>new\<close> gives it, by message type.\<close>

definition zeroSpec :: ProxySpec where
  "zeroSpec = \<lparr>ps_Name = [], ps_Kind = [], ps_RemotePort = 0, ps_Domains = [], ps_TLSMode = [],
     ps_DownRate = 0, ps_UpRate = 0, ps_Quota = 0\<rparr>"

definition factories :: "(nat \<times> message) list" where
  "factories =
     [(TypeLogin, MLogin \<lparr>lg_Version = 0, lg_ClientName = [], lg_Hostname = [], lg_OS = [],
         lg_Arch = [], lg_Timestamp = 0, lg_AuthKey = [], lg_PoolCount = 0, lg_RunID = []\<rparr>),
      (TypeLoginResp, MLoginResp \<lparr>lr_ObservedAddr = [], lr_Version = 0, lr_RunID = [],
         lr_ServerVersion = [], lr_Error = []\<rparr>),
      (TypeNewProxy, MNewProxy zeroSpec),
      (TypeNewProxyResp, MNewProxyResp \<lparr>pr_Name = [], pr_RemotePort = 0, pr_Error = []\<rparr>),
      (TypeCloseProxy, MCloseProxy []),
      (TypeReqWorkConn, MReqWorkConn 0),
      (TypeNewWorkConn, MNewWorkConn \<lparr>wc_RunID = [], wc_Timestamp = 0, wc_AuthKey = []\<rparr>),
      (TypeStartWorkConn, MStartWorkConn \<lparr>sw_ProxyName = [], sw_SourceAddr = [], sw_Error = []\<rparr>),
      (TypePing, MPing 0),
      (TypePong, MPong \<lparr>po_Timestamp = 0, po_Error = []\<rparr>),
      (TypeCertPush, MCertPush \<lparr>cp_Domains = None, cp_FullchainPEM = None, cp_PrivateKeyPEM = None,
         cp_NotAfter = 0\<rparr>),
      (TypeCertPushResp, MCertPushResp []),
      (TypeHTTPChallenge, MHTTPChallenge \<lparr>hc_Domain = [], hc_Token = [], hc_KeyAuth = [],
         hc_Remove = False\<rparr>),
      (TypeHTTPChallengeResp, MHTTPChallengeResp []),
      (TypeNewMuxConn, MNewMuxConn \<lparr>mc_RunID = [], mc_Timestamp = 0, mc_AuthKey = []\<rparr>)]"

text \<open>Both tables know exactly the fifteen types, and a factory makes a message of its type.\<close>

lemma type_range: "1 \<le> message_type m" "message_type m \<le> 15"
  by (cases m; simp add: type_codes)+

lemma factories_known: "(map_of factories t \<noteq> None) \<longleftrightarrow> 1 \<le> t \<and> t \<le> 15"
  by (simp add: factories_def type_codes) presburger

lemma factories_type: "map_of factories t = Some m \<Longrightarrow> message_type m = t"
  by (auto simp: factories_def type_codes split: if_splits)

lemma typeNames_known: "(map_of typeNames t \<noteq> None) \<longleftrightarrow> (map_of factories t \<noteq> None)"
  by (auto simp: factories_def typeNames_def)

end
