(* ===== verification/Go_Strconv.thy ===== *)
theory Go_Strconv
  imports Openfrp_Prelude
begin

text \<open>
  Numbers and bytes as text: what the repository uses of Go's \<^verbatim>\<open>strconv\<close> (decimal),
  \<^verbatim>\<open>encoding/hex\<close> and \<^verbatim>\<open>encoding/base64\<close>, each with the round trip that makes it usable.
\<close>

section \<open>Decimal\<close>

definition digit :: "nat \<Rightarrow> char" where
  "digit n = nat_byte (48 + n)"

definition is_digit :: "char \<Rightarrow> bool" where
  "is_digit c = (48 \<le> byte_nat c \<and> byte_nat c \<le> 57)"

definition digit_value :: "char \<Rightarrow> nat" where
  "digit_value c = byte_nat c - 48"

function nat_text :: "nat \<Rightarrow> string" where
  "nat_text n = (if n < 10 then [digit n] else nat_text (n div 10) @ [digit (n mod 10)])"
  by pat_completeness auto
termination by (relation "measure id") auto

declare nat_text.simps [simp del]

definition int_text :: "int \<Rightarrow> string" where
  "int_text i = (if i < 0 then CHR ''-'' # nat_text (nat (- i)) else nat_text (nat i))"

fun digits_value :: "nat \<Rightarrow> string \<Rightarrow> nat option" where
  "digits_value acc [] = Some acc"
| "digits_value acc (c # cs) =
     (if is_digit c then digits_value (acc * 10 + digit_value c) cs else None)"

definition parse_nat :: "string \<Rightarrow> nat option" where
  "parse_nat s = (if s = [] then None else digits_value 0 s)"

definition int64_ok :: "int \<Rightarrow> bool" where
  "int64_ok i \<longleftrightarrow> - (2 ^ 63) \<le> i \<and> i < 2 ^ 63"

text \<open>\<^verbatim>\<open>strconv.ParseInt(s, 10, 64)\<close> and, on 64-bit targets, \<^verbatim>\<open>strconv.Atoi\<close>.\<close>

definition parse_int64 :: "string \<Rightarrow> int option" where
  "parse_int64 s =
     (case (case s of
              [] \<Rightarrow> None
            | c # cs \<Rightarrow>
                if c = CHR ''-'' then map_option (\<lambda>n. - int n) (parse_nat cs)
                else if c = CHR ''+'' then map_option int (parse_nat cs)
                else map_option int (parse_nat (c # cs))) of
        None \<Rightarrow> None
      | Some i \<Rightarrow> if int64_ok i then Some i else None)"

lemma digit_facts [simp]:
  "n < 10 \<Longrightarrow> is_digit (digit n)" "n < 10 \<Longrightarrow> digit_value (digit n) = n"
  by (simp_all add: digit_def is_digit_def digit_value_def)

lemma digits_value_append:
  "digits_value acc (s @ t) = (case digits_value acc s of None \<Rightarrow> None | Some a \<Rightarrow> digits_value a t)"
  by (induction acc s rule: digits_value.induct) auto

lemma nat_text_nonempty [simp]: "nat_text n \<noteq> []"
  by (subst nat_text.simps) simp

lemma nat_text_digits: "list_all is_digit (nat_text n)"
proof (induction n rule: nat_text.induct)
  case (1 n)
  show ?case
  proof (cases "n < 10")
    case True
    then show ?thesis by (simp add: nat_text.simps [of n])
  next
    case False
    with 1 show ?thesis by (simp add: nat_text.simps [of n])
  qed
qed

lemma digits_value_nat_text: "digits_value 0 (nat_text n) = Some n"
proof (induction n rule: nat_text.induct)
  case (1 n)
  show ?case
  proof (cases "n < 10")
    case True
    then show ?thesis by (simp add: nat_text.simps [of n])
  next
    case False
    with 1 show ?thesis by (simp add: nat_text.simps [of n] digits_value_append)
  qed
qed

lemma parse_nat_text [simp]: "parse_nat (nat_text n) = Some n"
  by (simp add: parse_nat_def digits_value_nat_text)

lemma is_digit_not_sign: "is_digit c \<Longrightarrow> c \<noteq> CHR ''-'' \<and> c \<noteq> CHR ''+''"
  by (auto simp: is_digit_def byte_nat_def)

lemma nat_text_Cons: obtains c cs where "nat_text n = c # cs" "is_digit c"
  using nat_text_digits [of n] by (cases "nat_text n") auto

lemma parse_int64_text [simp]: "int64_ok i \<Longrightarrow> parse_int64 (int_text i) = Some i"
proof (cases "i < 0")
  case True
  assume "int64_ok i"
  with True show ?thesis by (simp add: parse_int64_def int_text_def)
next
  case False
  assume "int64_ok i"
  moreover obtain c cs where "nat_text (nat i) = c # cs" "is_digit c" by (rule nat_text_Cons)
  ultimately show ?thesis
    using False is_digit_not_sign [of c] parse_nat_text [of "nat i"]
    by (simp add: parse_int64_def int_text_def)
qed

section \<open>Hexadecimal\<close>

definition hexDigit :: "nat \<Rightarrow> char" where
  "hexDigit n = (if n < 10 then nat_byte (48 + n) else nat_byte (87 + n))"

definition hex_value :: "char \<Rightarrow> nat option" where
  "hex_value c = (let n = byte_nat c in
     if 48 \<le> n \<and> n \<le> 57 then Some (n - 48)
     else if 97 \<le> n \<and> n \<le> 102 then Some (n - 87)
     else if 65 \<le> n \<and> n \<le> 70 then Some (n - 55)
     else None)"

fun hex_encode :: "bytes \<Rightarrow> string" where
  "hex_encode [] = []"
| "hex_encode (b # bs) = hexDigit (byte_nat b div 16) # hexDigit (byte_nat b mod 16) # hex_encode bs"

lemma hex_value_hexDigit [simp]: "n < 16 \<Longrightarrow> hex_value (hexDigit n) = Some n"
  by (simp add: hexDigit_def hex_value_def Let_def)

lemma hex_encode_length [simp]: "length (hex_encode bs) = 2 * length bs"
  by (induction bs) simp_all

lemma hexDigit_inject: "m < 16 \<Longrightarrow> n < 16 \<Longrightarrow> hexDigit m = hexDigit n \<longleftrightarrow> m = n"
  by (metis hex_value_hexDigit option.inject)

lemma byte_split: "byte_nat b div 16 < 16" "byte_nat b mod 16 < 16"
  using byte_nat_less [of b] by (simp_all add: div_less_iff_less_mult del: byte_nat_less)

lemma hex_encode_inject: "hex_encode bs = hex_encode cs \<longleftrightarrow> bs = cs"
proof (induction bs arbitrary: cs)
  case Nil
  then show ?case by (cases cs) simp_all
next
  case (Cons b bs)
  show ?case
  proof (cases cs)
    case (Cons c cs')
    have "byte_nat b div 16 = byte_nat c div 16 \<and> byte_nat b mod 16 = byte_nat c mod 16 \<longleftrightarrow> b = c"
      by (metis byte_nat_inject div_mod_decomp)
    with Cons Cons.IH [of cs'] show ?thesis by (simp add: hexDigit_inject byte_split) blast
  qed simp
qed

section \<open>Base64\<close>

text \<open>\<^verbatim>\<open>base64.StdEncoding\<close>.\<close>

definition b64_digit :: "nat \<Rightarrow> char" where
  "b64_digit n = (if n < 26 then nat_byte (65 + n) else if n < 52 then nat_byte (71 + n)
     else if n < 62 then nat_byte (n - 4) else if n = 62 then CHR ''+'' else CHR ''/'')"

definition b64_value :: "char \<Rightarrow> nat option" where
  "b64_value c = (let n = byte_nat c in
     if 65 \<le> n \<and> n \<le> 90 then Some (n - 65)
     else if 97 \<le> n \<and> n \<le> 122 then Some (n - 71)
     else if 48 \<le> n \<and> n \<le> 57 then Some (n + 4)
     else if n = 43 then Some 62 else if n = 47 then Some 63 else None)"

fun b64_encode :: "bytes \<Rightarrow> string" where
  "b64_encode [] = []"
| "b64_encode [a] =
     [b64_digit (byte_nat a div 4), b64_digit (byte_nat a mod 4 * 16), CHR ''='', CHR ''='']"
| "b64_encode [a, b] =
     [b64_digit (byte_nat a div 4), b64_digit (byte_nat a mod 4 * 16 + byte_nat b div 16),
      b64_digit (byte_nat b mod 16 * 4), CHR ''='']"
| "b64_encode (a # b # c # rest) =
     b64_digit (byte_nat a div 4) # b64_digit (byte_nat a mod 4 * 16 + byte_nat b div 16)
     # b64_digit (byte_nat b mod 16 * 4 + byte_nat c div 64) # b64_digit (byte_nat c mod 64)
     # b64_encode rest"

text \<open>Decoding works on groups of four characters once the line breaks are gone; padding is
  allowed only in the last group, and the bits a padded group does not use are ignored.\<close>

fun b64_groups :: "string \<Rightarrow> bytes option" where
  "b64_groups [] = Some []"
| "b64_groups (p # q # r # s # rest) =
     (case (b64_value p, b64_value q) of
        (Some p', Some q') \<Rightarrow>
          if r = CHR ''='' then
            (if s = CHR ''='' \<and> rest = [] then Some [nat_byte (p' * 4 + q' div 16)] else None)
          else (case b64_value r of
             None \<Rightarrow> None
           | Some r' \<Rightarrow>
               if s = CHR ''='' then
                 (if rest = [] then
                    Some [nat_byte (p' * 4 + q' div 16), nat_byte (q' mod 16 * 16 + r' div 4)]
                  else None)
               else (case b64_value s of
                  None \<Rightarrow> None
                | Some s' \<Rightarrow> map_option
                    (\<lambda>bs. nat_byte (p' * 4 + q' div 16) # nat_byte (q' mod 16 * 16 + r' div 4)
                       # nat_byte (r' mod 4 * 64 + s') # bs)
                    (b64_groups rest)))
      | _ \<Rightarrow> None)"
| "b64_groups _ = None"

definition b64_decode :: "string \<Rightarrow> bytes option" where
  "b64_decode s = b64_groups (filter (\<lambda>c. c \<noteq> CHR 0x0A \<and> c \<noteq> CHR 0x0D) s)"

lemma byte_nat_b64_digit:
  "n < 64 \<Longrightarrow> byte_nat (b64_digit n) =
     (if n < 26 then 65 + n else if n < 52 then 71 + n else if n < 62 then n - 4
      else if n = 62 then 43 else 47)"
  by (simp add: b64_digit_def) (simp add: byte_nat_def)

lemma b64_value_digit [simp]: "n < 64 \<Longrightarrow> b64_value (b64_digit n) = Some n"
  by (simp add: b64_value_def Let_def byte_nat_b64_digit) arith

lemma b64_digit_plain: "n < 64 \<Longrightarrow> b64_digit n \<notin> {CHR ''='', CHR 0x0A, CHR 0x0D}"
proof
  assume n: "n < 64" and bad: "b64_digit n \<in> {CHR ''='', CHR 0x0A, CHR 0x0D}"
  have "b64_value (CHR ''='') = None" "b64_value (CHR 0x0A) = None" "b64_value (CHR 0x0D) = None"
    by (simp_all add: b64_value_def Let_def byte_nat_def)
  with b64_value_digit [OF n] bad show False by auto
qed

lemma byte_parts:
  "byte_nat a div 4 < 64" "byte_nat a mod 4 * 16 + byte_nat b div 16 < 64"
  "byte_nat b mod 16 * 4 + byte_nat c div 64 < 64" "byte_nat a mod 4 * 16 < 64"
  "byte_nat b mod 16 * 4 < 64" "byte_nat c mod 64 < 64"
  using byte_nat_less [of a] byte_nat_less [of b] byte_nat_less [of c]
  by (simp_all add: div_less_iff_less_mult del: byte_nat_less)

lemma b64_groups_encode: "b64_groups (b64_encode bs) = Some bs"
proof (induction bs rule: b64_encode.induct)
  case 1
  then show ?case by simp
next
  case (2 a)
  have "(byte_nat a div 4 * 4 + byte_nat a mod 4 * 16 div 16) = byte_nat a" by simp
  then show ?case by (simp add: byte_parts)
next
  case (3 a b)
  let ?q = "byte_nat a mod 4 * 16 + byte_nat b div 16"
  have q: "?q div 16 = byte_nat a mod 4" "?q mod 16 = byte_nat b div 16"
    using byte_split [of b] by (simp_all add: div_add1_eq)
  have "byte_nat a div 4 * 4 + ?q div 16 = byte_nat a"
    "?q mod 16 * 16 + byte_nat b mod 16 * 4 div 4 = byte_nat b"
    unfolding q by simp_all
  then show ?case
    using b64_digit_plain [of "byte_nat b mod 16 * 4"] by (simp add: byte_parts)
next
  case (4 a b c rest)
  let ?q = "byte_nat a mod 4 * 16 + byte_nat b div 16"
  let ?r = "byte_nat b mod 16 * 4 + byte_nat c div 64"
  have c4: "byte_nat c div 64 < 4"
    using byte_nat_less [of c] by (simp add: div_less_iff_less_mult del: byte_nat_less)
  have q: "?q div 16 = byte_nat a mod 4" "?q mod 16 = byte_nat b div 16"
    using byte_split [of b] by (simp_all add: div_add1_eq)
  have r: "?r div 4 = byte_nat b mod 16" "?r mod 4 = byte_nat c div 64"
    using c4 by (simp_all add: div_add1_eq)
  have "byte_nat a div 4 * 4 + ?q div 16 = byte_nat a"
    "?q mod 16 * 16 + ?r div 4 = byte_nat b" "?r mod 4 * 64 + byte_nat c mod 64 = byte_nat c"
    unfolding q r by simp_all
  then show ?case
    using 4 b64_digit_plain [of ?r] b64_digit_plain [of "byte_nat c mod 64"]
    by (simp add: byte_parts)
qed

lemma b64_encode_plain: "\<forall>c \<in> set (b64_encode bs). c \<noteq> CHR 0x0A \<and> c \<noteq> CHR 0x0D"
  by (induction bs rule: b64_encode.induct)
    (use b64_digit_plain byte_parts in \<open>auto simp del: One_nat_def\<close>)

lemma b64_decode_encode [simp]: "b64_decode (b64_encode bs) = Some bs"
proof -
  have "filter (\<lambda>c. c \<noteq> CHR 0x0A \<and> c \<noteq> CHR 0x0D) (b64_encode bs) = b64_encode bs"
    using b64_encode_plain [of bs] by (simp add: filter_id_conv)
  then show ?thesis by (simp add: b64_decode_def b64_groups_encode)
qed

end
