(* ===== verification/Go_Json.thy ===== *)
theory Go_Json
  imports Go_Strings Go_Strconv
begin

text \<open>
  Go's \<^verbatim>\<open>encoding/json\<close>, as the control protocol uses it. Encoding follows
  \<^verbatim>\<open>json.Marshal\<close>: compact text, HTML characters and the line separators U+2028 and U+2029
  escaped, invalid UTF-8 replaced by U+FFFD. Decoding follows \<^verbatim>\<open>json.Unmarshal\<close>: the scanner's
  grammar with its nesting limit of 10000, and the unquoting of strings with surrogate pairs.
  A number is kept as its literal, since its meaning depends on the field it is stored in.
\<close>

section \<open>UTF-8\<close>

definition cont :: "char \<Rightarrow> bool" where
  "cont c = (0x80 \<le> byte_nat c \<and> byte_nat c \<le> 0xBF)"

text \<open>The width of the rune at the front of a byte sequence, 0 when it is not valid UTF-8.\<close>

definition follow :: "nat \<Rightarrow> bytes \<Rightarrow> bool" where
  "follow k r = (k \<le> length r \<and> list_all cont (take k r))"

fun rune_width :: "bytes \<Rightarrow> nat" where
  "rune_width [] = 0"
| "rune_width (a # r) =
     (let n = byte_nat a in
      if n < 0x80 then 1
      else if 0xC2 \<le> n \<and> n \<le> 0xDF \<and> follow 1 r then 2
      else if 0xE0 \<le> n \<and> n \<le> 0xEF \<and> follow 2 r
              \<and> (n = 0xE0 \<longrightarrow> 0xA0 \<le> byte_nat (hd r)) \<and> (n = 0xED \<longrightarrow> byte_nat (hd r) \<le> 0x9F) then 3
      else if 0xF0 \<le> n \<and> n \<le> 0xF4 \<and> follow 3 r
              \<and> (n = 0xF0 \<longrightarrow> 0x90 \<le> byte_nat (hd r)) \<and> (n = 0xF4 \<longrightarrow> byte_nat (hd r) \<le> 0x8F) then 4
      else 0)"

definition replacement :: bytes where
  "replacement = [CHR 0xEF, CHR 0xBF, CHR 0xBD]"

definition is_surrogate :: "nat \<Rightarrow> bool" where
  "is_surrogate n = (0xD800 \<le> n \<and> n < 0xE000)"

definition encode_rune :: "nat \<Rightarrow> bytes" where
  "encode_rune n =
     (if n < 0x80 then [nat_byte n]
      else if n < 0x800 then [nat_byte (0xC0 + n div 64), nat_byte (0x80 + n mod 64)]
      else if is_surrogate n \<or> 0x10FFFF < n then replacement
      else if n < 0x10000 then
        [nat_byte (0xE0 + n div 4096), nat_byte (0x80 + n div 64 mod 64), nat_byte (0x80 + n mod 64)]
      else [nat_byte (0xF0 + n div 262144), nat_byte (0x80 + n div 4096 mod 64),
            nat_byte (0x80 + n div 64 mod 64), nat_byte (0x80 + n mod 64)])"

lemma follow_append: "follow k r \<Longrightarrow> follow k (r @ t)"
  by (simp add: follow_def)

lemma follow_take: "follow k r \<Longrightarrow> follow k (take k r)"
  by (simp add: follow_def)

lemma follow_hd: "follow k r \<Longrightarrow> 0 < k \<Longrightarrow> hd (r @ t) = hd r \<and> hd (take k r) = hd r"
  by (cases r) (auto simp: follow_def)

lemma rune_width_le: "rune_width s \<le> length s"
  by (cases s) (auto simp: Let_def follow_def)

lemma rune_width_append: "rune_width s \<noteq> 0 \<Longrightarrow> rune_width (s @ t) = rune_width s"
  by (cases s) (simp_all add: Let_def follow_append follow_hd split: if_splits)

lemma rune_width_take: "rune_width s \<noteq> 0 \<Longrightarrow> rune_width (take (rune_width s) s) = rune_width s"
  by (cases s) (simp_all add: Let_def follow_take follow_hd eval_nat_numeral split: if_splits)

lemma rune_width_ascii: "byte_nat c < 0x80 \<longleftrightarrow> rune_width (c # s) = 1"
  by (simp add: Let_def)

declare rune_width.simps(2) [simp del]

section \<open>Strings\<close>

definition escape_ascii :: "char \<Rightarrow> bytes" where
  "escape_ascii c =
     (if c = CHR 0x22 \<or> c = CHR 0x5C then [CHR 0x5C, c]
      else if c = CHR 0x08 then [CHR 0x5C, CHR ''b'']
      else if c = CHR 0x0C then [CHR 0x5C, CHR ''f'']
      else if c = CHR 0x0A then [CHR 0x5C, CHR ''n'']
      else if c = CHR 0x0D then [CHR 0x5C, CHR ''r'']
      else if c = CHR 0x09 then [CHR 0x5C, CHR ''t'']
      else if byte_nat c < 0x20 \<or> c = CHR ''<'' \<or> c = CHR ''>'' \<or> c = CHR ''&'' then
        [CHR 0x5C, CHR ''u'', CHR ''0'', CHR ''0'', hexDigit (byte_nat c div 16), hexDigit (byte_nat c mod 16)]
      else [c])"

definition lineSep :: bytes where "lineSep = [CHR 0xE2, CHR 0x80, CHR 0xA8]"
definition paraSep :: bytes where "paraSep = [CHR 0xE2, CHR 0x80, CHR 0xA9]"

function quote_body :: "bytes \<Rightarrow> bytes" where
  "quote_body s =
     (if s = [] then []
      else if rune_width s = 0 then CHR 0x5C # ''ufffd'' @ quote_body (tl s)
      else if rune_width s = 1 then escape_ascii (hd s) @ quote_body (tl s)
      else (let r = take (rune_width s) s in
            if r = lineSep then CHR 0x5C # ''u2028''
            else if r = paraSep then CHR 0x5C # ''u2029'' else r)
           @ quote_body (drop (rune_width s) s))"
  by pat_completeness auto
termination by (relation "measure length") auto

declare quote_body.simps [simp del]

lemma quote_body_ascii:
  "quote_body [] = []" "byte_nat c < 0x80 \<Longrightarrow> quote_body (c # s) = escape_ascii c @ quote_body s"
  using rune_width_ascii [of c s] by (simp_all add: quote_body.simps [of "[]"] quote_body.simps [of "c # s"])

definition hex4 :: "bytes \<Rightarrow> (nat \<times> bytes) option" where
  "hex4 s = (case s of
      a # b # c # d # r \<Rightarrow>
        (case (hex_value a, hex_value b, hex_value c, hex_value d) of
           (Some a', Some b', Some c', Some d') \<Rightarrow> Some (((a' * 16 + b') * 16 + c') * 16 + d', r)
         | _ \<Rightarrow> None)
    | _ \<Rightarrow> None)"

definition simple_escape :: "char \<Rightarrow> char option" where
  "simple_escape e =
     (if e = CHR 0x22 \<or> e = CHR 0x5C \<or> e = CHR ''/'' then Some e
      else if e = CHR ''b'' then Some (CHR 0x08)
      else if e = CHR ''f'' then Some (CHR 0x0C)
      else if e = CHR ''n'' then Some (CHR 0x0A)
      else if e = CHR ''r'' then Some (CHR 0x0D)
      else if e = CHR ''t'' then Some (CHR 0x09)
      else None)"

text \<open>The second half of a surrogate pair, when it follows.\<close>

definition low_surrogate :: "nat \<Rightarrow> bytes \<Rightarrow> (nat \<times> bytes) option" where
  "low_surrogate u s = (case s of
      x # y # r \<Rightarrow>
        if x = CHR 0x5C \<and> y = CHR ''u'' then
          (case hex4 r of
             None \<Rightarrow> None
           | Some (v, r') \<Rightarrow>
               if u < 0xDC00 \<and> 0xDC00 \<le> v \<and> v < 0xE000
               then Some ((u - 0xD800) * 1024 + (v - 0xDC00) + 0x10000, r') else None)
        else None
    | _ \<Rightarrow> None)"

definition prepend :: "'a list \<Rightarrow> ('a list \<times> 'b) option \<Rightarrow> ('a list \<times> 'b) option" where
  "prepend p r = map_option (\<lambda>(t, b). (p @ t, b)) r"

lemma prepend_simps [simp]:
  "prepend p None = None" "prepend p (Some (t, b)) = Some (p @ t, b)"
  by (simp_all add: prepend_def)

lemma hex4_length: "hex4 s = Some (n, r) \<Longrightarrow> length s = length r + 4"
  by (auto simp: hex4_def split: list.splits option.splits)

lemma low_surrogate_length: "low_surrogate u s = Some (n, r) \<Longrightarrow> length r < length s"
  by (auto simp: low_surrogate_def split: list.splits option.splits if_splits dest!: hex4_length)

text \<open>One unit of a string: what it stands for and what follows it. \<open>escape_step\<close> is the part
  after a backslash.\<close>

definition escape_step :: "bytes \<Rightarrow> (bytes \<times> bytes) option" where
  "escape_step s = (case s of
      [] \<Rightarrow> None
    | e # r \<Rightarrow>
        (case simple_escape e of
           Some b \<Rightarrow> Some ([b], r)
         | None \<Rightarrow>
             if e \<noteq> CHR ''u'' then None
             else (case hex4 r of
                None \<Rightarrow> None
              | Some (u, r2) \<Rightarrow>
                  if is_surrogate u then
                    (case low_surrogate u r2 of
                       Some (rune, r3) \<Rightarrow> Some (encode_rune rune, r3)
                     | None \<Rightarrow> Some (replacement, r2))
                  else Some (encode_rune u, r2))))"

definition str_step :: "bytes \<Rightarrow> (bytes \<times> bytes) option" where
  "str_step s = (case s of
      [] \<Rightarrow> None
    | c # r \<Rightarrow>
        if byte_nat c < 0x20 then None
        else if c = CHR 0x5C then escape_step r
        else if rune_width s = 0 then Some (replacement, r)
        else Some (take (rune_width s) s, drop (rune_width s) s))"

lemma escape_step_length: "escape_step s = Some (p, r) \<Longrightarrow> length r < length s"
  by (auto simp: escape_step_def split: list.splits option.splits if_splits
      dest!: hex4_length low_surrogate_length)

lemma str_step_length: "str_step s = Some (p, r) \<Longrightarrow> length r < length s"
  by (auto simp: str_step_def split: list.splits if_splits dest!: escape_step_length)

text \<open>The rest of a string after its opening quote.\<close>

function parse_str :: "bytes \<Rightarrow> (bytes \<times> bytes) option" where
  "parse_str s =
     (if s \<noteq> [] \<and> hd s = CHR 0x22 then Some ([], tl s)
      else case str_step s of
             None \<Rightarrow> None
           | Some (p, r) \<Rightarrow> prepend p (parse_str r))"
  by pat_completeness auto
termination
  by (relation "measure length") (auto dest: str_step_length)

declare parse_str.simps [simp del]

lemma parse_str_length: "parse_str s = Some (t, r) \<Longrightarrow> length r < length s"
proof (induction s arbitrary: t rule: parse_str.induct)
  case (1 s)
  show ?case
  proof (cases "s \<noteq> [] \<and> hd s = CHR 0x22")
    case True
    with "1.prems" have "tl s = r" by (subst (asm) parse_str.simps) simp
    with True show ?thesis by (cases s) auto
  next
    case False
    with "1.prems" obtain p r1 where st: "str_step s = Some (p, r1)"
      by (auto simp: parse_str.simps [of s] split: option.splits)
    with "1.prems" False obtain t1 where "parse_str r1 = Some (t1, r)"
      by (cases "parse_str r1") (auto simp: parse_str.simps [of s])
    with "1.IH" [OF False st refl] str_step_length [OF st] show ?thesis by fastforce
  qed
qed

lemma parse_str_step:
  "str_step s = Some (p, r) \<Longrightarrow> hd s \<noteq> CHR 0x22 \<Longrightarrow> parse_str s = prepend p (parse_str r)"
  by (simp add: parse_str.simps [of s])

subsection \<open>A valid string survives quoting\<close>

function valid_utf8 :: "bytes \<Rightarrow> bool" where
  "valid_utf8 s =
     (if s = [] then True else if rune_width s = 0 then False
      else valid_utf8 (drop (rune_width s) s))"
  by pat_completeness auto
termination by (relation "measure length") auto

declare valid_utf8.simps [simp del]

lemma valid_utf8_ascii: "list_all is_ascii s \<Longrightarrow> valid_utf8 s"
proof (induction s)
  case Nil
  then show ?case by (simp add: valid_utf8.simps [of "[]"])
next
  case (Cons c s)
  then have "rune_width (c # s) = 1"
    using rune_width_ascii [of c s] by (simp add: is_ascii_def)
  with Cons show ?case by (simp add: valid_utf8.simps [of "c # s"])
qed

lemma parse_str_plain:
  assumes "c \<noteq> CHR 0x22" "0x20 \<le> byte_nat c" "c \<noteq> CHR 0x5C" "byte_nat c < 0x80"
  shows "parse_str (c # t) = prepend [c] (parse_str t)"
proof -
  have "rune_width (c # t) = 1" using assms(4) rune_width_ascii by blast
  with assms show ?thesis by (intro parse_str_step) (simp_all add: str_step_def)
qed

lemma parse_str_simple:
  "simple_escape e = Some b \<Longrightarrow> parse_str (CHR 0x5C # e # t) = prepend [b] (parse_str t)"
  by (intro parse_str_step) (simp_all add: str_step_def escape_step_def byte_nat_def)

lemma parse_str_hex:
  assumes "hex4 h = Some (u, [])" "\<not> is_surrogate u" "length h = 4"
  shows "parse_str (CHR 0x5C # CHR ''u'' # h @ t) = prepend (encode_rune u) (parse_str t)"
proof -
  have "hex4 (h @ t) = Some (u, t)"
    using assms by (auto simp: hex4_def split: list.splits option.splits)
  moreover have "simple_escape CHR ''u'' = None" by (simp add: simple_escape_def)
  ultimately show ?thesis
    using assms(2) by (intro parse_str_step) (simp_all add: str_step_def escape_step_def byte_nat_def)
qed

lemma hex4_byte:
  "hex4 [CHR ''0'', CHR ''0'', hexDigit (byte_nat c div 16), hexDigit (byte_nat c mod 16)]
    = Some (byte_nat c, [])"
proof -
  have "hex_value CHR ''0'' = Some 0" by (simp add: hex_value_def byte_nat_def)
  then show ?thesis by (simp add: hex4_def byte_split)
qed

lemma parse_str_escape:
  assumes "byte_nat c < 0x80"
  shows "parse_str (escape_ascii c @ t) = prepend [c] (parse_str t)"
proof (cases "c = CHR 0x22 \<or> c = CHR 0x5C \<or> c = CHR 0x08 \<or> c = CHR 0x0C \<or> c = CHR 0x0A
    \<or> c = CHR 0x0D \<or> c = CHR 0x09")
  case True
  then show ?thesis
    by (elim disjE) (simp_all add: escape_ascii_def parse_str_simple simple_escape_def)
next
  case short: False
  show ?thesis
  proof (cases "byte_nat c < 0x20 \<or> c = CHR ''<'' \<or> c = CHR ''>'' \<or> c = CHR ''&''")
    case True
    with short have "escape_ascii c = CHR 0x5C # CHR ''u'' #
        [CHR ''0'', CHR ''0'', hexDigit (byte_nat c div 16), hexDigit (byte_nat c mod 16)]"
      by (simp add: escape_ascii_def)
    moreover have "\<not> is_surrogate (byte_nat c)" "encode_rune (byte_nat c) = [c]"
      using assms by (simp_all add: is_surrogate_def encode_rune_def)
    ultimately show ?thesis using parse_str_hex [OF hex4_byte, of c t] by simp
  next
    case False
    with short have "escape_ascii c = [c]" by (simp add: escape_ascii_def)
    with False short assms show ?thesis by (simp add: parse_str_plain)
  qed
qed

lemma parse_str_wide:
  assumes "rune_width s = w" "1 < w"
  shows "parse_str (take w s @ t) = prepend (take w s) (parse_str t)"
proof -
  have w: "rune_width (take w s) = w" "length (take w s) = w"
    using rune_width_take [of s] rune_width_le [of s] assms by auto
  obtain c r where c: "take w s = c # r" using w assms(2) by (cases "take w s") auto
  have rw: "rune_width ((c # r) @ t) = w"
    using rune_width_append [of "take w s" t] w assms c by simp
  have "\<not> byte_nat c < 0x80"
    using rune_width_ascii [of c r] w c assms(2) by auto
  then have ne: "c \<noteq> CHR 0x22" "c \<noteq> CHR 0x5C" "\<not> byte_nat c < 0x20" by (auto simp: byte_nat_def)
  have lr: "length (c # r) = w" using w(2) unfolding c .
  have "take w (c # r @ t) = c # r" "drop w (c # r @ t) = t" by (simp_all flip: lr)
  with rw ne assms(2) have "str_step ((c # r) @ t) = Some (c # r, t)" by (simp add: str_step_def)
  from parse_str_step [OF this] ne show ?thesis unfolding c by simp
qed

lemma parse_str_quote_end [simp]: "parse_str (CHR 0x22 # t) = Some ([], t)"
  by (subst parse_str.simps) simp

lemma separators:
  "parse_str (CHR 0x5C # ''u2028'' @ t) = prepend lineSep (parse_str t)"
  "parse_str (CHR 0x5C # ''u2029'' @ t) = prepend paraSep (parse_str t)"
proof -
  have "hex4 ''2028'' = Some (0x2028, [])" "hex4 ''2029'' = Some (0x2029, [])"
    by (simp_all add: hex4_def hex_value_def byte_nat_def)
  moreover have "encode_rune 0x2028 = lineSep" "encode_rune 0x2029 = paraSep"
    by (simp_all add: encode_rune_def is_surrogate_def lineSep_def paraSep_def nat_byte_def char_of_def bit_0)
  ultimately show "parse_str (CHR 0x5C # ''u2028'' @ t) = prepend lineSep (parse_str t)"
    "parse_str (CHR 0x5C # ''u2029'' @ t) = prepend paraSep (parse_str t)"
    using parse_str_hex [of "''2028''" "0x2028" t] parse_str_hex [of "''2029''" "0x2029" t]
    by (simp_all add: is_surrogate_def)
qed

lemma prepend_Nil [simp]: "prepend [] r = r"
  by (cases r) auto

lemma prepend_prepend [simp]: "prepend p (prepend q r) = prepend (p @ q) r"
  by (cases r) auto

lemma parse_str_quote_body:
  "valid_utf8 s \<Longrightarrow> parse_str (quote_body s @ t) = prepend s (parse_str t)"
proof (induction s rule: quote_body.induct)
  case (1 s)
  show ?case
  proof (cases "s = []")
    case True
    then show ?thesis by (cases "parse_str t") (simp_all add: quote_body.simps [of "[]"])
  next
    case False
    let ?w = "rune_width s"
    from "1.prems" False have w: "?w \<noteq> 0" and v: "valid_utf8 (drop ?w s)"
      by (simp_all add: valid_utf8.simps [of s] split: if_splits)
    show ?thesis
    proof (cases "?w = 1")
      case True
      obtain c r where s: "s = c # r" using False by (cases s) auto
      with True have c: "byte_nat c < 0x80" by (simp only: rune_width_ascii [of c r])
      have ih: "parse_str (quote_body r @ t) = prepend r (parse_str t)"
        using "1.IH"(2) [OF False w True] v True by (simp add: s)
      have "quote_body s = escape_ascii c @ quote_body r"
        using True by (subst quote_body.simps) (simp add: s)
      then show ?thesis by (simp add: parse_str_escape [OF c] ih) (simp add: s)
    next
      case wide: False
      with w have w1: "1 < ?w" by simp
      have ih: "parse_str (quote_body (drop ?w s) @ t) = prepend (drop ?w s) (parse_str t)"
        using "1.IH"(3) [OF False w] wide v by simp
      let ?r = "take ?w s" and ?rest = "quote_body (drop ?w s) @ t"
      have q: "quote_body s = (if ?r = lineSep then CHR 0x5C # ''u2028''
          else if ?r = paraSep then CHR 0x5C # ''u2029'' else ?r) @ quote_body (drop ?w s)"
        using False w wide by (subst quote_body.simps) (simp add: Let_def)
      have "parse_str (quote_body s @ t) = prepend ?r (parse_str ?rest)"
        using separators [of ?rest] parse_str_wide [OF refl w1, of ?rest] by (simp add: q)
      then show ?thesis by (simp add: ih)
    qed
  qed
qed

section \<open>Values\<close>

datatype json =
    JNull
  | JBool bool
  | JNum string
  | JStr string
  | JArr "json list"
  | JObj "(string \<times> json) list"

subsection \<open>Encoding\<close>

definition quoted :: "bytes \<Rightarrow> bytes" where
  "quoted s = CHR 0x22 # quote_body s @ [CHR 0x22]"

fun json_text :: "json \<Rightarrow> bytes" where
  "json_text JNull = ''null''"
| "json_text (JBool b) = (if b then ''true'' else ''false'')"
| "json_text (JNum l) = l"
| "json_text (JStr s) = quoted s"
| "json_text (JArr js) = CHR ''['' # join_with CHR '','' (map json_text js) @ '']''"
| "json_text (JObj ms) =
     CHR ''{'' # join_with CHR '','' (map (\<lambda>m. quoted (fst m) @ '':'' @ json_text (snd m)) ms) @ ''}''"

subsection \<open>Decoding\<close>

definition is_ws :: "char \<Rightarrow> bool" where
  "is_ws c = (c = CHR 0x20 \<or> c = CHR 0x09 \<or> c = CHR 0x0A \<or> c = CHR 0x0D)"

definition skip_ws :: "bytes \<Rightarrow> bytes" where
  "skip_ws s = dropWhile is_ws s"

text \<open>A number literal: an optional minus sign, an integer part without leading zeros, an optional
  fraction, an optional exponent. \<open>digits1\<close> wants at least one digit.\<close>

definition digits1 :: "bytes \<Rightarrow> (string \<times> bytes) option" where
  "digits1 s = (if takeWhile is_digit s = [] then None
                else Some (takeWhile is_digit s, dropWhile is_digit s))"

definition scan_sign :: "bytes \<Rightarrow> string \<times> bytes" where
  "scan_sign s = (case s of c # r \<Rightarrow> if c = CHR ''-'' then ([c], r) else ([], s) | [] \<Rightarrow> ([], s))"

definition scan_int :: "bytes \<Rightarrow> (string \<times> bytes) option" where
  "scan_int s = (case s of
      c # r \<Rightarrow> if c = CHR ''0'' then Some ([c], r) else digits1 s
    | [] \<Rightarrow> None)"

definition scan_frac :: "bytes \<Rightarrow> (string \<times> bytes) option" where
  "scan_frac s = (case s of
      c # r \<Rightarrow> if c = CHR ''.'' then prepend [c] (digits1 r) else Some ([], s)
    | [] \<Rightarrow> Some ([], s))"

definition scan_exp :: "bytes \<Rightarrow> (string \<times> bytes) option" where
  "scan_exp s = (case s of
      c # r \<Rightarrow>
        if c = CHR ''e'' \<or> c = CHR ''E'' then
          (case r of
             d # r' \<Rightarrow> if d = CHR ''+'' \<or> d = CHR ''-'' then prepend [c, d] (digits1 r')
                        else prepend [c] (digits1 r)
           | [] \<Rightarrow> None)
        else Some ([], s)
    | [] \<Rightarrow> Some ([], s))"

definition parse_num :: "bytes \<Rightarrow> (string \<times> bytes) option" where
  "parse_num s =
     (let (sign, s1) = scan_sign s in
      case scan_int s1 of None \<Rightarrow> None | Some (ip, s2) \<Rightarrow>
      (case scan_frac s2 of None \<Rightarrow> None | Some (fp, s3) \<Rightarrow>
      (case scan_exp s3 of None \<Rightarrow> None | Some (ep, s4) \<Rightarrow> Some (sign @ ip @ fp @ ep, s4))))"

definition parse_word :: "bytes \<Rightarrow> json \<Rightarrow> bytes \<Rightarrow> (json \<times> bytes) option" where
  "parse_word w v s = (if has_prefix w s then Some (v, drop (length w) s) else None)"

lemma skip_ws_length: "length (skip_ws s) \<le> length s"
  by (simp add: skip_ws_def length_dropWhile_le)

lemma skip_ws_Cons_length: "skip_ws s = c # r \<Longrightarrow> length r < length s"
  using skip_ws_length [of s] by simp

text \<open>\<open>d\<close> is how much deeper containers may nest. Each call works on a shorter text; where that
  depends on what was read before, the length is tested; the test only states to the termination
  proof what reading a value does.\<close>

function (sequential)
  parse_value :: "nat \<Rightarrow> bytes \<Rightarrow> (json \<times> bytes) option" and
  parse_elems :: "nat \<Rightarrow> bytes \<Rightarrow> (json list \<times> bytes) option" and
  parse_members :: "nat \<Rightarrow> bytes \<Rightarrow> ((string \<times> json) list \<times> bytes) option"
where
  "parse_value d s = (case skip_ws s of
      [] \<Rightarrow> None
    | c # r \<Rightarrow>
        if c = CHR 0x22 then map_option (\<lambda>(t, r'). (JStr t, r')) (parse_str r)
        else if c = CHR ''n'' then parse_word ''null'' JNull (c # r)
        else if c = CHR ''t'' then parse_word ''true'' (JBool True) (c # r)
        else if c = CHR ''f'' then parse_word ''false'' (JBool False) (c # r)
        else if c = CHR ''['' then
          (if d = 0 then None
           else if take 1 (skip_ws r) = '']'' then Some (JArr [], drop 1 (skip_ws r))
           else map_option (\<lambda>(js, r'). (JArr js, r')) (parse_elems (d - 1) r))
        else if c = CHR ''{'' then
          (if d = 0 then None
           else if take 1 (skip_ws r) = ''}'' then Some (JObj [], drop 1 (skip_ws r))
           else map_option (\<lambda>(ms, r'). (JObj ms, r')) (parse_members (d - 1) r))
        else map_option (\<lambda>(l, r'). (JNum l, r')) (parse_num (c # r)))"
| "parse_elems d s = (case parse_value d s of
      None \<Rightarrow> None
    | Some (v, r) \<Rightarrow> (case skip_ws r of
         [] \<Rightarrow> None
       | c # r' \<Rightarrow>
           if c = CHR '']'' then Some ([v], r')
           else if c = CHR '','' \<and> length r' < length s then prepend [v] (parse_elems d r')
           else None))"
| "parse_members d s = (case skip_ws s of
      [] \<Rightarrow> None
    | q # r \<Rightarrow>
        if q \<noteq> CHR 0x22 then None
        else (case parse_str r of
           None \<Rightarrow> None
         | Some (k, r1) \<Rightarrow>
             if take 1 (skip_ws r1) \<noteq> '':'' then None
             else (case parse_value d (drop 1 (skip_ws r1)) of
                None \<Rightarrow> None
              | Some (v, r2) \<Rightarrow> (case skip_ws r2 of
                   [] \<Rightarrow> None
                 | c # r' \<Rightarrow>
                     if c = CHR ''}'' then Some ([(k, v)], r')
                     else if c = CHR '','' \<and> length r' < length s then prepend [(k, v)] (parse_members d r')
                     else None))))"
  by pat_completeness auto

termination
proof (relation "measure (case_sum (\<lambda>(d, s). 2 * length s)
    (case_sum (\<lambda>(d, s). 2 * length s + 1) (\<lambda>(d, s). 2 * length s + 1)))", goal_cases)
  case (6 d s q r x k r1)
  have "length (drop 1 (skip_ws r1)) \<le> length r1" using skip_ws_length [of r1] by simp
  then show ?case
    using 6 parse_str_length [of r k r1] skip_ws_Cons_length [of s q r] by simp
qed (auto dest!: skip_ws_Cons_length)

declare parse_value.simps [simp del] parse_elems.simps [simp del] parse_members.simps [simp del]

definition maxNestingDepth :: nat where "maxNestingDepth = 10000"

definition parse_document :: "bytes \<Rightarrow> json option" where
  "parse_document s = (case parse_value maxNestingDepth s of
      None \<Rightarrow> None
    | Some (v, r) \<Rightarrow> if skip_ws r = [] then Some v else None)"

subsection \<open>What was encoded decodes to itself\<close>

text \<open>Values the encoder writes for the protocol's structs: valid UTF-8, integer literals, and at
  most \<open>d\<close> levels of containers.\<close>

fun json_fits :: "nat \<Rightarrow> json \<Rightarrow> bool" where
  "json_fits d JNull = True"
| "json_fits d (JBool b) = True"
| "json_fits d (JNum l) = (\<exists>i. l = int_text i)"
| "json_fits d (JStr s) = valid_utf8 s"
| "json_fits d (JArr js) = (0 < d \<and> (\<forall>j \<in> set js. json_fits (d - 1) j))"
| "json_fits d (JObj ms) = (0 < d \<and> (\<forall>m \<in> set ms. valid_utf8 (fst m) \<and> json_fits (d - 1) (snd m)))"

definition num_end :: "bytes \<Rightarrow> bool" where
  "num_end rest = (rest = [] \<or> hd rest \<in> {CHR '','', CHR '']'', CHR ''}''})"

lemma nat_text_head: "0 < n \<Longrightarrow> hd (nat_text n) \<noteq> CHR ''0''"
proof (induction n rule: nat_text.induct)
  case (1 n)
  show ?case
  proof (cases "n < 10")
    case True
    then have "byte_nat (hd (nat_text n)) = 48 + n" by (simp add: nat_text.simps [of n] digit_def)
    with "1.prems" show ?thesis by (auto simp: byte_nat_def)
  next
    case False
    with 1 show ?thesis by (simp add: nat_text.simps [of n] div_greater_zero_iff)
  qed
qed

lemma digits1_stop:
  assumes "list_all is_digit s" "s \<noteq> []" "num_end rest"
  shows "digits1 (s @ rest) = Some (s, rest)"
proof -
  have "rest = [] \<or> \<not> is_digit (hd rest)"
    using assms(3) by (auto simp: num_end_def is_digit_def byte_nat_def)
  then have "takeWhile is_digit (s @ rest) = s" "dropWhile is_digit (s @ rest) = rest"
    using assms(1) by (cases rest; simp add: list_all_iff takeWhile_append dropWhile_append)+
  with assms(2) show ?thesis by (simp add: digits1_def)
qed

lemma num_end_scan: "num_end rest \<Longrightarrow> scan_frac rest = Some ([], rest) \<and> scan_exp rest = Some ([], rest)"
  by (cases rest) (auto simp: num_end_def scan_frac_def scan_exp_def)

lemma scan_int_nat_text: "num_end rest \<Longrightarrow> scan_int (nat_text n @ rest) = Some (nat_text n, rest)"
proof -
  assume end': "num_end rest"
  show ?thesis
  proof (cases "n = 0")
    case True
    then show ?thesis
      by (simp add: nat_text.simps [of 0] scan_int_def digit_def nat_byte_def char_of_def bit_0)
  next
    case False
    obtain c cs where c: "nat_text n = c # cs" by (rule nat_text_Cons)
    with nat_text_head [of n] False have "c \<noteq> CHR ''0''" by simp
    with digits1_stop [OF nat_text_digits [of n] nat_text_nonempty end'] c show ?thesis
      by (simp add: scan_int_def)
  qed
qed

lemma parse_num_int_text: "num_end rest \<Longrightarrow> parse_num (int_text i @ rest) = Some (int_text i, rest)"
proof -
  assume end': "num_end rest"
  have sc: "scan_sign (nat_text n @ rest) = ([], nat_text n @ rest)" for n
    by (rule nat_text_Cons [of n]) (simp add: scan_sign_def is_digit_not_sign)
  show ?thesis
    using num_end_scan [OF end'] scan_int_nat_text [OF end']
    by (simp add: parse_num_def int_text_def sc) (simp add: scan_sign_def)
qed

lemma skip_ws_id [simp]: "\<not> is_ws c \<Longrightarrow> skip_ws (c # r) = c # r"
  by (simp add: skip_ws_def)

lemma int_text_head: "\<exists>c r. int_text i = c # r \<and> (is_digit c \<or> c = CHR ''-'')"
  using nat_text_Cons [of "nat i"] by (auto simp: int_text_def) metis

definition starts_value :: "char \<Rightarrow> bool" where
  "starts_value c = (\<not> is_ws c \<and> c \<noteq> CHR '']'' \<and> c \<noteq> CHR ''}'')"

lemma digit_starts: "is_digit c \<or> c = CHR ''-'' \<Longrightarrow> starts_value c
    \<and> c \<noteq> CHR 0x22 \<and> c \<noteq> CHR ''n'' \<and> c \<noteq> CHR ''t'' \<and> c \<noteq> CHR ''f'' \<and> c \<noteq> CHR ''['' \<and> c \<noteq> CHR ''{''"
  by (auto simp: starts_value_def is_ws_def is_digit_def byte_nat_def)

lemma json_text_head:
  assumes "json_fits d v"
  obtains c r where "json_text v = c # r" "starts_value c"
proof (cases v)
  case (JNum l)
  with assms int_text_head digit_starts that show thesis by fastforce
next
  case (JBool b)
  with that show thesis by (cases b) (auto simp: starts_value_def is_ws_def)
qed (use that in \<open>auto simp: starts_value_def is_ws_def quoted_def\<close>)

lemma parse_str_quoted: "valid_utf8 s \<Longrightarrow> parse_str (quote_body s @ CHR 0x22 # t) = Some (s, t)"
  by (simp add: parse_str_quote_body)

lemma parse_elems_text:
  assumes "\<And>j rest. j \<in> set js \<Longrightarrow> num_end rest \<Longrightarrow> parse_value d (json_text j @ rest) = Some (j, rest)"
    and "js \<noteq> []"
  shows "parse_elems d (join_with CHR '','' (map json_text js) @ CHR '']'' # rest) = Some (js, rest)"
  using assms
proof (induction js)
  case Nil
  then show ?case by simp
next
  case (Cons j js)
  show ?case
  proof (cases "js = []")
    case True
    have "parse_value d (json_text j @ CHR '']'' # rest) = Some (j, CHR '']'' # rest)"
      using Cons.prems by (simp add: num_end_def)
    with True show ?thesis by (simp add: parse_elems.simps [of d "_ @ _"] is_ws_def)
  next
    case False
    let ?r = "join_with CHR '','' (map json_text js) @ CHR '']'' # rest"
    have "parse_value d (json_text j @ CHR '','' # ?r) = Some (j, CHR '','' # ?r)"
      using Cons.prems by (simp add: num_end_def)
    moreover have "parse_elems d ?r = Some (js, rest)" using Cons False by simp
    ultimately show ?thesis
      using False by (simp add: parse_elems.simps [of d "json_text j @ _"] join_with_Cons is_ws_def)
  qed
qed

abbreviation member_text :: "string \<times> json \<Rightarrow> bytes" where
  "member_text m \<equiv> quoted (fst m) @ '':'' @ json_text (snd m)"

lemma parse_members_text:
  assumes "\<And>m rest. m \<in> set ms \<Longrightarrow> num_end rest \<Longrightarrow>
      parse_value d (json_text (snd m) @ rest) = Some (snd m, rest)"
    and "\<forall>m \<in> set ms. valid_utf8 (fst m)" and "ms \<noteq> []"
  shows "parse_members d (join_with CHR '','' (map member_text ms) @ CHR ''}'' # rest) = Some (ms, rest)"
  using assms
proof (induction ms)
  case Nil
  then show ?case by simp
next
  case (Cons m ms)
  obtain k v where m: "m = (k, v)" by (cases m)
  have step: "parse_members d (member_text m @ t) =
      (case parse_value d (json_text v @ t) of
         None \<Rightarrow> None
       | Some (v, r2) \<Rightarrow> (case skip_ws r2 of
            [] \<Rightarrow> None
          | c # r' \<Rightarrow>
              if c = CHR ''}'' then Some ([(k, v)], r')
              else if c = CHR '','' \<and> length r' < length (member_text m @ t)
              then prepend [(k, v)] (parse_members d r') else None))" for t
    using Cons.prems(2) m
    by (subst parse_members.simps) (simp add: quoted_def is_ws_def parse_str_quoted)
  show ?case
  proof (cases "ms = []")
    case True
    have "parse_value d (json_text v @ CHR ''}'' # rest) = Some (v, CHR ''}'' # rest)"
      using Cons.prems(1) [of m] m by (simp add: num_end_def)
    with True m step [of "CHR ''}'' # rest"] show ?thesis by (simp add: is_ws_def)
  next
    case False
    let ?r = "join_with CHR '','' (map member_text ms) @ CHR ''}'' # rest"
    have "parse_value d (json_text v @ CHR '','' # ?r) = Some (v, CHR '','' # ?r)"
      using Cons.prems(1) [of m] m by (simp add: num_end_def)
    moreover have "parse_members d ?r = Some (ms, rest)" using Cons False by simp
    ultimately show ?thesis
      using False m step [of "CHR '','' # ?r"] by (simp add: join_with_Cons is_ws_def)
  qed
qed

lemma join_head:
  assumes "ps \<noteq> []" "hd ps = c # r"
  shows "\<exists>r'. join_with b ps @ t = c # r'"
  using assms by (cases ps; cases "tl ps") (auto simp: join_with_Cons)

lemma parse_value_text:
  "json_fits d v \<Longrightarrow> num_end rest \<Longrightarrow> parse_value d (json_text v @ rest) = Some (v, rest)"
proof (induction v arbitrary: d rest)
  case JNull
  then show ?case by (simp add: parse_value.simps [of d] parse_word_def has_prefix_def is_ws_def)
next
  case (JBool b)
  then show ?case
    by (cases b) (simp_all add: parse_value.simps [of d] parse_word_def has_prefix_def is_ws_def)
next
  case (JNum l)
  then obtain i where l: "l = int_text i" by auto
  obtain c r where c: "int_text i = c # r" "is_digit c \<or> c = CHR ''-''" using int_text_head by blast
  from digit_starts [OF c(2)] parse_num_int_text [OF JNum.prems(2), of i] c(1) l show ?case
    by (simp add: parse_value.simps [of d] starts_value_def)
next
  case (JStr s)
  then show ?case
    by (simp add: parse_value.simps [of d] quoted_def is_ws_def parse_str_quoted)
next
  case (JArr js)
  show ?case
  proof (cases "js = []")
    case True
    with JArr show ?thesis by (simp add: parse_value.simps [of d] is_ws_def)
  next
    case False
    let ?t = "join_with CHR '','' (map json_text js) @ CHR '']'' # rest"
    have fits: "json_fits (d - 1) (hd js)" using JArr.prems False by (cases js) auto
    then obtain c r where c: "json_text (hd js) = c # r" "starts_value c" by (rule json_text_head)
    then obtain r' where "?t = c # r'" using join_head [of "map json_text js" c r] False
      by (auto simp: hd_map)
    with c(2) have "take 1 (skip_ws ?t) \<noteq> '']''" by (simp add: starts_value_def)
    moreover have "parse_elems (d - 1) ?t = Some (js, rest)"
      using JArr False by (intro parse_elems_text) auto
    ultimately show ?thesis
      using JArr.prems by (simp add: parse_value.simps [of d] is_ws_def)
  qed
next
  case (JObj ms)
  show ?case
  proof (cases "ms = []")
    case True
    with JObj show ?thesis by (simp add: parse_value.simps [of d] is_ws_def)
  next
    case False
    let ?t = "join_with CHR '','' (map member_text ms) @ CHR ''}'' # rest"
    have hd: "hd (map member_text ms)
        = CHR 0x22 # quote_body (fst (hd ms)) @ CHR 0x22 # CHR '':'' # json_text (snd (hd ms))"
      using False by (simp add: hd_map quoted_def)
    obtain r' where "?t = CHR 0x22 # r'"
      using join_head [OF _ hd, of "CHR '',''" "CHR ''}'' # rest"] False by blast
    then have "take 1 (skip_ws ?t) \<noteq> ''}''" by (simp add: is_ws_def)
    moreover have "parse_members (d - 1) ?t = Some (ms, rest)"
    proof (intro parse_members_text ballI)
      show "parse_value (d - 1) (json_text (snd m) @ rest') = Some (snd m, rest')"
        if "m \<in> set ms" "num_end rest'" for m rest'
        using JObj.IH [of m "snd m"] JObj.prems that by (auto simp: snds.simps)
    qed (use JObj.prems False in auto)
    ultimately show ?thesis
      using JObj.prems by (simp add: parse_value.simps [of d] is_ws_def)
  qed
qed

lemma parse_document_text: "json_fits maxNestingDepth v \<Longrightarrow> parse_document (json_text v) = Some v"
  using parse_value_text [of maxNestingDepth v "[]"] by (simp add: parse_document_def num_end_def skip_ws_def)

end
