(* ===== verification/Proto_Json.thy ===== *)
theory Proto_Json
  imports Proto_Message Go_Json
begin

text \<open>
  The wire form of the messages: what \<^verbatim>\<open>json.Marshal\<close> and \<^verbatim>\<open>json.Unmarshal\<close> do with the struct
  tags of \<^verbatim>\<open>internal/tunnel/protocol/message.go\<close>. A field is written in the struct's order, unless
  its tag says \<^verbatim>\<open>omitempty\<close> and it holds the zero value. When reading, a key is matched to a
  field exactly or, failing that, up to case; unknown keys are skipped, \<^verbatim>\<open>null\<close> leaves a scalar
  as it is, and a value of the wrong type is an error. A repeated key is read into the value the
  first one left.
\<close>

section \<open>Fields\<close>

type_synonym 'r field = "string \<times> (json \<Rightarrow> 'r \<Rightarrow> 'r option)"

definition dec_string :: "json \<Rightarrow> string \<Rightarrow> string option" where
  "dec_string j old = (case j of JNull \<Rightarrow> Some old | JStr s \<Rightarrow> Some s | _ \<Rightarrow> None)"

definition dec_int :: "json \<Rightarrow> int \<Rightarrow> int option" where
  "dec_int j old = (case j of JNull \<Rightarrow> Some old | JNum l \<Rightarrow> parse_int64 l | _ \<Rightarrow> None)"

definition dec_bool :: "json \<Rightarrow> bool \<Rightarrow> bool option" where
  "dec_bool j old = (case j of JNull \<Rightarrow> Some old | JBool b \<Rightarrow> Some b | _ \<Rightarrow> None)"

definition dec_byte :: "json \<Rightarrow> char \<Rightarrow> char option" where
  "dec_byte j old = (case j of
      JNull \<Rightarrow> Some old
    | JNum l \<Rightarrow> (case parse_nat l of None \<Rightarrow> None | Some n \<Rightarrow> if n < 256 then Some (nat_byte n) else None)
    | _ \<Rightarrow> None)"

text \<open>The elements of an array, each read over the element the slice already had there.\<close>

fun dec_elems :: "(json \<Rightarrow> 'a \<Rightarrow> 'a option) \<Rightarrow> 'a \<Rightarrow> json list \<Rightarrow> 'a list \<Rightarrow> 'a list option" where
  "dec_elems dec z [] old = Some []"
| "dec_elems dec z (j # js) old =
     (case dec j (case old of [] \<Rightarrow> z | x # _ \<Rightarrow> x) of
        None \<Rightarrow> None
      | Some v \<Rightarrow> map_option (Cons v) (dec_elems dec z js (tl old)))"

definition dec_strings :: "json \<Rightarrow> string list option \<Rightarrow> string list option option" where
  "dec_strings j old = (case j of
      JNull \<Rightarrow> Some None
    | JArr js \<Rightarrow> map_option Some (dec_elems dec_string [] js (case old of None \<Rightarrow> [] | Some xs \<Rightarrow> xs))
    | _ \<Rightarrow> None)"

definition dec_bytes :: "json \<Rightarrow> bytes option \<Rightarrow> bytes option option" where
  "dec_bytes j old = (case j of
      JNull \<Rightarrow> Some None
    | JStr s \<Rightarrow> map_option Some (b64_decode s)
    | JArr js \<Rightarrow> map_option Some (dec_elems dec_byte (nat_byte 0) js (case old of None \<Rightarrow> [] | Some xs \<Rightarrow> xs))
    | _ \<Rightarrow> None)"

text \<open>Key folding: ASCII letters, and the two other runes that fold to one, the Kelvin sign and
  the long s.\<close>

fun fold_name :: "string \<Rightarrow> string" where
  "fold_name [] = []"
| "fold_name (a # r) =
     (if take 3 (a # r) = [CHR 0xE2, CHR 0x84, CHR 0xAA] then CHR ''k'' # fold_name (drop 2 r)
      else if take 2 (a # r) = [CHR 0xC5, CHR 0xBF] then CHR ''s'' # fold_name (drop 1 r)
      else lower_char a # fold_name r)"

definition find_field :: "'r field list \<Rightarrow> string \<Rightarrow> (json \<Rightarrow> 'r \<Rightarrow> 'r option) option" where
  "find_field fs k = (case map_of fs k of
      Some f \<Rightarrow> Some f
    | None \<Rightarrow> map_option snd (find (\<lambda>f. fold_name (fst f) = fold_name k) fs))"

fun decode_fields :: "'r field list \<Rightarrow> (string \<times> json) list \<Rightarrow> 'r \<Rightarrow> 'r option" where
  "decode_fields fs [] r = Some r"
| "decode_fields fs ((k, v) # ms) r =
     (case find_field fs k of
        None \<Rightarrow> decode_fields fs ms r
      | Some f \<Rightarrow> (case f v r of None \<Rightarrow> None | Some r' \<Rightarrow> decode_fields fs ms r'))"

definition decode_struct :: "'r field list \<Rightarrow> json \<Rightarrow> 'r \<Rightarrow> 'r option" where
  "decode_struct fs j r = (case j of JNull \<Rightarrow> Some r | JObj ms \<Rightarrow> decode_fields fs ms r | _ \<Rightarrow> None)"

text \<open>A field of a record, by its selector, its update and how its type is read.\<close>

definition fld :: "(json \<Rightarrow> 'a \<Rightarrow> 'a option) \<Rightarrow> ('r \<Rightarrow> 'a) \<Rightarrow> (('a \<Rightarrow> 'a) \<Rightarrow> 'r \<Rightarrow> 'r) \<Rightarrow> json \<Rightarrow> 'r \<Rightarrow> 'r option" where
  "fld dec get upd j r = map_option (\<lambda>v. upd (\<lambda>_. v) r) (dec j (get r))"

definition jint :: "int \<Rightarrow> json" where
  "jint i = JNum (int_text i)"

definition jstrings :: "string list option \<Rightarrow> json" where
  "jstrings xs = (case xs of None \<Rightarrow> JNull | Some ss \<Rightarrow> JArr (map JStr ss))"

definition jbytes :: "bytes option \<Rightarrow> json" where
  "jbytes b = (case b of None \<Rightarrow> JNull | Some bs \<Rightarrow> JStr (b64_encode bs))"

text \<open>A member that is always written, and one that is left out when it is the zero value \<open>z\<close>.\<close>

definition always :: "string \<Rightarrow> json \<Rightarrow> (string \<times> json) list" where
  "always k j = [(k, j)]"

definition omitempty :: "'a \<Rightarrow> ('a \<Rightarrow> json) \<Rightarrow> string \<Rightarrow> 'a \<Rightarrow> (string \<times> json) list" where
  "omitempty z enc k v = (if v = z then [] else [(k, enc v)])"

section \<open>The structs\<close>

definition login_members :: "Login \<Rightarrow> (string \<times> json) list" where
  "login_members m = always ''version'' (jint (lg_Version m))
     @ omitempty [] JStr ''client_name'' (lg_ClientName m)
     @ omitempty [] JStr ''hostname'' (lg_Hostname m)
     @ omitempty [] JStr ''os'' (lg_OS m)
     @ omitempty [] JStr ''arch'' (lg_Arch m)
     @ always ''timestamp'' (jint (lg_Timestamp m))
     @ omitempty [] JStr ''auth_key'' (lg_AuthKey m)
     @ omitempty 0 jint ''pool_count'' (lg_PoolCount m)
     @ omitempty [] JStr ''run_id'' (lg_RunID m)"

definition login_fields :: "Login field list" where
  "login_fields =
     [(''version'', fld dec_int lg_Version lg_Version_update),
      (''client_name'', fld dec_string lg_ClientName lg_ClientName_update),
      (''hostname'', fld dec_string lg_Hostname lg_Hostname_update),
      (''os'', fld dec_string lg_OS lg_OS_update),
      (''arch'', fld dec_string lg_Arch lg_Arch_update),
      (''timestamp'', fld dec_int lg_Timestamp lg_Timestamp_update),
      (''auth_key'', fld dec_string lg_AuthKey lg_AuthKey_update),
      (''pool_count'', fld dec_int lg_PoolCount lg_PoolCount_update),
      (''run_id'', fld dec_string lg_RunID lg_RunID_update)]"

definition loginResp_members :: "LoginResp \<Rightarrow> (string \<times> json) list" where
  "loginResp_members m = omitempty [] JStr ''observed_addr'' (lr_ObservedAddr m)
     @ always ''version'' (jint (lr_Version m))
     @ omitempty [] JStr ''run_id'' (lr_RunID m)
     @ omitempty [] JStr ''server_version'' (lr_ServerVersion m)
     @ omitempty [] JStr ''error'' (lr_Error m)"

definition loginResp_fields :: "LoginResp field list" where
  "loginResp_fields =
     [(''observed_addr'', fld dec_string lr_ObservedAddr lr_ObservedAddr_update),
      (''version'', fld dec_int lr_Version lr_Version_update),
      (''run_id'', fld dec_string lr_RunID lr_RunID_update),
      (''server_version'', fld dec_string lr_ServerVersion lr_ServerVersion_update),
      (''error'', fld dec_string lr_Error lr_Error_update)]"

text \<open>\<^verbatim>\<open>ProxySpec.Domains\<close> is a plain list in the model: nil and empty are written alike.\<close>

definition dec_domains :: "json \<Rightarrow> string list \<Rightarrow> string list option" where
  "dec_domains j old = map_option (\<lambda>x. case x of None \<Rightarrow> [] | Some xs \<Rightarrow> xs) (dec_strings j (Some old))"

definition jdomains :: "string list \<Rightarrow> json" where
  "jdomains ss = jstrings (Some ss)"

definition spec_members :: "ProxySpec \<Rightarrow> (string \<times> json) list" where
  "spec_members m = always ''name'' (JStr (ps_Name m))
     @ always ''kind'' (JStr (ps_Kind m))
     @ omitempty 0 jint ''remote_port'' (ps_RemotePort m)
     @ omitempty [] jdomains ''domains'' (ps_Domains m)
     @ omitempty [] JStr ''tls_mode'' (ps_TLSMode m)
     @ omitempty 0 jint ''down_rate'' (ps_DownRate m)
     @ omitempty 0 jint ''up_rate'' (ps_UpRate m)
     @ omitempty 0 jint ''quota'' (ps_Quota m)"

definition spec_fields :: "ProxySpec field list" where
  "spec_fields =
     [(''name'', fld dec_string ps_Name ps_Name_update),
      (''kind'', fld dec_string ps_Kind ps_Kind_update),
      (''remote_port'', fld dec_int ps_RemotePort ps_RemotePort_update),
      (''domains'', fld dec_domains ps_Domains ps_Domains_update),
      (''tls_mode'', fld dec_string ps_TLSMode ps_TLSMode_update),
      (''down_rate'', fld dec_int ps_DownRate ps_DownRate_update),
      (''up_rate'', fld dec_int ps_UpRate ps_UpRate_update),
      (''quota'', fld dec_int ps_Quota ps_Quota_update)]"

definition newProxyResp_members :: "NewProxyResp \<Rightarrow> (string \<times> json) list" where
  "newProxyResp_members m = always ''name'' (JStr (pr_Name m))
     @ omitempty 0 jint ''remote_port'' (pr_RemotePort m)
     @ omitempty [] JStr ''error'' (pr_Error m)"

definition newProxyResp_fields :: "NewProxyResp field list" where
  "newProxyResp_fields =
     [(''name'', fld dec_string pr_Name pr_Name_update),
      (''remote_port'', fld dec_int pr_RemotePort pr_RemotePort_update),
      (''error'', fld dec_string pr_Error pr_Error_update)]"

definition newWorkConn_members :: "NewWorkConn \<Rightarrow> (string \<times> json) list" where
  "newWorkConn_members m = always ''run_id'' (JStr (wc_RunID m))
     @ always ''timestamp'' (jint (wc_Timestamp m))
     @ omitempty [] JStr ''auth_key'' (wc_AuthKey m)"

definition newWorkConn_fields :: "NewWorkConn field list" where
  "newWorkConn_fields =
     [(''run_id'', fld dec_string wc_RunID wc_RunID_update),
      (''timestamp'', fld dec_int wc_Timestamp wc_Timestamp_update),
      (''auth_key'', fld dec_string wc_AuthKey wc_AuthKey_update)]"

definition newMuxConn_members :: "NewMuxConn \<Rightarrow> (string \<times> json) list" where
  "newMuxConn_members m = always ''run_id'' (JStr (mc_RunID m))
     @ always ''timestamp'' (jint (mc_Timestamp m))
     @ omitempty [] JStr ''auth_key'' (mc_AuthKey m)"

definition newMuxConn_fields :: "NewMuxConn field list" where
  "newMuxConn_fields =
     [(''run_id'', fld dec_string mc_RunID mc_RunID_update),
      (''timestamp'', fld dec_int mc_Timestamp mc_Timestamp_update),
      (''auth_key'', fld dec_string mc_AuthKey mc_AuthKey_update)]"

definition startWorkConn_members :: "StartWorkConn \<Rightarrow> (string \<times> json) list" where
  "startWorkConn_members m = always ''proxy_name'' (JStr (sw_ProxyName m))
     @ omitempty [] JStr ''source_addr'' (sw_SourceAddr m)
     @ omitempty [] JStr ''error'' (sw_Error m)"

definition startWorkConn_fields :: "StartWorkConn field list" where
  "startWorkConn_fields =
     [(''proxy_name'', fld dec_string sw_ProxyName sw_ProxyName_update),
      (''source_addr'', fld dec_string sw_SourceAddr sw_SourceAddr_update),
      (''error'', fld dec_string sw_Error sw_Error_update)]"

definition pong_members :: "Pong \<Rightarrow> (string \<times> json) list" where
  "pong_members m = always ''timestamp'' (jint (po_Timestamp m))
     @ omitempty [] JStr ''error'' (po_Error m)"

definition pong_fields :: "Pong field list" where
  "pong_fields =
     [(''timestamp'', fld dec_int po_Timestamp po_Timestamp_update),
      (''error'', fld dec_string po_Error po_Error_update)]"

definition certPush_members :: "CertPush \<Rightarrow> (string \<times> json) list" where
  "certPush_members m = always ''domains'' (jstrings (cp_Domains m))
     @ always ''fullchain_pem'' (jbytes (cp_FullchainPEM m))
     @ always ''private_key_pem'' (jbytes (cp_PrivateKeyPEM m))
     @ omitempty 0 jint ''not_after'' (cp_NotAfter m)"

definition certPush_fields :: "CertPush field list" where
  "certPush_fields =
     [(''domains'', fld dec_strings cp_Domains cp_Domains_update),
      (''fullchain_pem'', fld dec_bytes cp_FullchainPEM cp_FullchainPEM_update),
      (''private_key_pem'', fld dec_bytes cp_PrivateKeyPEM cp_PrivateKeyPEM_update),
      (''not_after'', fld dec_int cp_NotAfter cp_NotAfter_update)]"

definition httpChallenge_members :: "HTTPChallenge \<Rightarrow> (string \<times> json) list" where
  "httpChallenge_members m = always ''domain'' (JStr (hc_Domain m))
     @ always ''token'' (JStr (hc_Token m))
     @ always ''key_auth'' (JStr (hc_KeyAuth m))
     @ omitempty False JBool ''remove'' (hc_Remove m)"

definition httpChallenge_fields :: "HTTPChallenge field list" where
  "httpChallenge_fields =
     [(''domain'', fld dec_string hc_Domain hc_Domain_update),
      (''token'', fld dec_string hc_Token hc_Token_update),
      (''key_auth'', fld dec_string hc_KeyAuth hc_KeyAuth_update),
      (''remove'', fld dec_bool hc_Remove hc_Remove_update)]"

fun message_members :: "message \<Rightarrow> (string \<times> json) list" where
  "message_members (MLogin m) = login_members m"
| "message_members (MLoginResp m) = loginResp_members m"
| "message_members (MNewProxy m) = always ''proxy'' (JObj (spec_members m))"
| "message_members (MNewProxyResp m) = newProxyResp_members m"
| "message_members (MCloseProxy n) = always ''name'' (JStr n)"
| "message_members (MReqWorkConn n) = omitempty 0 jint ''count'' n"
| "message_members (MNewWorkConn m) = newWorkConn_members m"
| "message_members (MStartWorkConn m) = startWorkConn_members m"
| "message_members (MPing ts) = always ''timestamp'' (jint ts)"
| "message_members (MPong m) = pong_members m"
| "message_members (MCertPush m) = certPush_members m"
| "message_members (MCertPushResp e) = omitempty [] JStr ''error'' e"
| "message_members (MHTTPChallenge m) = httpChallenge_members m"
| "message_members (MHTTPChallengeResp e) = omitempty [] JStr ''error'' e"
| "message_members (MNewMuxConn m) = newMuxConn_members m"

definition json_Marshal :: "message \<Rightarrow> bytes" where
  "json_Marshal m = json_text (JObj (message_members m))"

text \<open>Reading into the value a factory made.\<close>

fun decode_into :: "json \<Rightarrow> message \<Rightarrow> message option" where
  "decode_into j (MLogin m) = map_option MLogin (decode_struct login_fields j m)"
| "decode_into j (MLoginResp m) = map_option MLoginResp (decode_struct loginResp_fields j m)"
| "decode_into j (MNewProxy m) =
     map_option MNewProxy (decode_struct [(''proxy'', decode_struct spec_fields)] j m)"
| "decode_into j (MNewProxyResp m) = map_option MNewProxyResp (decode_struct newProxyResp_fields j m)"
| "decode_into j (MCloseProxy n) = map_option MCloseProxy (decode_struct [(''name'', dec_string)] j n)"
| "decode_into j (MReqWorkConn n) = map_option MReqWorkConn (decode_struct [(''count'', dec_int)] j n)"
| "decode_into j (MNewWorkConn m) = map_option MNewWorkConn (decode_struct newWorkConn_fields j m)"
| "decode_into j (MStartWorkConn m) = map_option MStartWorkConn (decode_struct startWorkConn_fields j m)"
| "decode_into j (MPing ts) = map_option MPing (decode_struct [(''timestamp'', dec_int)] j ts)"
| "decode_into j (MPong m) = map_option MPong (decode_struct pong_fields j m)"
| "decode_into j (MCertPush m) = map_option MCertPush (decode_struct certPush_fields j m)"
| "decode_into j (MCertPushResp e) = map_option MCertPushResp (decode_struct [(''error'', dec_string)] j e)"
| "decode_into j (MHTTPChallenge m) = map_option MHTTPChallenge (decode_struct httpChallenge_fields j m)"
| "decode_into j (MHTTPChallengeResp e) =
     map_option MHTTPChallengeResp (decode_struct [(''error'', dec_string)] j e)"
| "decode_into j (MNewMuxConn m) = map_option MNewMuxConn (decode_struct newMuxConn_fields j m)"

definition json_Unmarshal :: "bytes \<Rightarrow> message \<Rightarrow> message option" where
  "json_Unmarshal payload z = (case parse_document payload of None \<Rightarrow> None | Some j \<Rightarrow> decode_into j z)"

section \<open>Round trip\<close>

lemma dec_simps [simp]:
  "dec_string (JStr s) x = Some s" "dec_bool (JBool b) c = Some b"
  "int64_ok i \<Longrightarrow> dec_int (jint i) j = Some i"
  by (simp_all add: dec_string_def dec_bool_def dec_int_def jint_def)

lemma dec_elems_strings [simp]: "dec_elems dec_string z (map JStr ss) old = Some ss"
  by (induction ss arbitrary: old) simp_all

lemma dec_list_simps [simp]:
  "dec_strings (jstrings xs) x = Some xs" "dec_domains (jdomains ss) ts = Some ss"
  "dec_bytes (jbytes b) y = Some b"
  by (cases xs; cases b; simp add: dec_strings_def jstrings_def dec_domains_def jdomains_def
      dec_bytes_def jbytes_def)+

lemma decode_fields_append:
  "decode_fields fs (ms @ ns) r =
    (case decode_fields fs ms r of None \<Rightarrow> None | Some r' \<Rightarrow> decode_fields fs ns r')"
  by (induction fs ms r rule: decode_fields.induct) (auto split: option.splits)

lemma decode_seq:
  "decode_fields fs ms r = Some r1 \<Longrightarrow> decode_fields fs ns r1 = Some r2 \<Longrightarrow> decode_fields fs (ms @ ns) r = Some r2"
  by (simp add: decode_fields_append)

lemma decode_always:
  "find_field fs k = Some (fld dec get upd) \<Longrightarrow> dec j (get r) = Some v \<Longrightarrow>
   decode_fields fs (always k j) r = Some (upd (\<lambda>_. v) r)"
  by (simp add: always_def fld_def)

lemma decode_omitempty:
  "find_field fs k = Some (fld dec get upd) \<Longrightarrow> upd (\<lambda>_. z) r = r \<Longrightarrow> dec (enc v) (get r) = Some v \<Longrightarrow>
   decode_fields fs (omitempty z enc k v) r = Some (upd (\<lambda>_. v) r)"
  by (simp add: omitempty_def fld_def)

lemma decode_result: "decode_fields fs ms r = Some r' \<Longrightarrow> r' = m \<Longrightarrow> decode_fields fs ms r = Some m"
  by simp

lemmas decode_rules = decode_seq decode_always decode_omitempty

text \<open>Messages that survive the trip: strings are valid UTF-8 and numbers fit 64 bits.\<close>

definition spec_ok :: "ProxySpec \<Rightarrow> bool" where
  "spec_ok m \<longleftrightarrow> list_all valid_utf8 ([ps_Name m, ps_Kind m, ps_TLSMode m] @ ps_Domains m)
     \<and> list_all int64_ok [ps_RemotePort m, ps_DownRate m, ps_UpRate m, ps_Quota m]"

fun message_ok :: "message \<Rightarrow> bool" where
  "message_ok (MLogin m) \<longleftrightarrow> list_all int64_ok [lg_Version m, lg_Timestamp m, lg_PoolCount m]
     \<and> list_all valid_utf8 [lg_ClientName m, lg_Hostname m, lg_OS m, lg_Arch m, lg_AuthKey m, lg_RunID m]"
| "message_ok (MLoginResp m) \<longleftrightarrow> int64_ok (lr_Version m)
     \<and> list_all valid_utf8 [lr_ObservedAddr m, lr_RunID m, lr_ServerVersion m, lr_Error m]"
| "message_ok (MNewProxy m) \<longleftrightarrow> spec_ok m"
| "message_ok (MNewProxyResp m) \<longleftrightarrow> int64_ok (pr_RemotePort m) \<and> list_all valid_utf8 [pr_Name m, pr_Error m]"
| "message_ok (MCloseProxy n) \<longleftrightarrow> valid_utf8 n"
| "message_ok (MReqWorkConn n) \<longleftrightarrow> int64_ok n"
| "message_ok (MNewWorkConn m) \<longleftrightarrow> int64_ok (wc_Timestamp m) \<and> list_all valid_utf8 [wc_RunID m, wc_AuthKey m]"
| "message_ok (MStartWorkConn m) \<longleftrightarrow> list_all valid_utf8 [sw_ProxyName m, sw_SourceAddr m, sw_Error m]"
| "message_ok (MPing ts) \<longleftrightarrow> int64_ok ts"
| "message_ok (MPong m) \<longleftrightarrow> int64_ok (po_Timestamp m) \<and> valid_utf8 (po_Error m)"
| "message_ok (MCertPush m) \<longleftrightarrow> int64_ok (cp_NotAfter m)
     \<and> (case cp_Domains m of None \<Rightarrow> True | Some ss \<Rightarrow> list_all valid_utf8 ss)"
| "message_ok (MCertPushResp e) \<longleftrightarrow> valid_utf8 e"
| "message_ok (MHTTPChallenge m) \<longleftrightarrow> list_all valid_utf8 [hc_Domain m, hc_Token m, hc_KeyAuth m]"
| "message_ok (MHTTPChallengeResp e) \<longleftrightarrow> valid_utf8 e"
| "message_ok (MNewMuxConn m) \<longleftrightarrow> int64_ok (mc_Timestamp m) \<and> list_all valid_utf8 [mc_RunID m, mc_AuthKey m]"

subsection \<open>Decoding the members\<close>

lemma spec_roundtrip:
  assumes "spec_ok m"
  shows "decode_fields spec_fields (spec_members m) zeroSpec = Some m"
  unfolding spec_members_def
  by (rule decode_result, (rule decode_rules
      | simp add: find_field_def spec_fields_def zeroSpec_def assms [unfolded spec_ok_def, simplified])+)

text \<open>A struct of one field is its field: \<open>fld\<close> with the identity selector.\<close>

lemma fld_self: "dec = fld dec id (\<lambda>f. f)"
  by (rule ext)+ (simp add: fld_def option.map_ident)

lemma decode_always_self:
  "find_field fs k = Some dec \<Longrightarrow> dec j r = Some v \<Longrightarrow> decode_fields fs (always k j) r = Some v"
  by (simp add: always_def)

lemma decode_omitempty_self:
  "find_field fs k = Some dec \<Longrightarrow> dec (enc v) z = Some v \<Longrightarrow> decode_fields fs (omitempty z enc k v) z = Some v"
  by (simp add: omitempty_def)

lemmas field_tables = login_fields_def loginResp_fields_def spec_fields_def newProxyResp_fields_def
  newWorkConn_fields_def newMuxConn_fields_def startWorkConn_fields_def pong_fields_def
  certPush_fields_def httpChallenge_fields_def

lemmas member_tables = login_members_def loginResp_members_def newProxyResp_members_def
  newWorkConn_members_def newMuxConn_members_def startWorkConn_members_def pong_members_def
  certPush_members_def httpChallenge_members_def

text \<open>Per struct, the members decoded over a zero value give the struct back.\<close>

lemma login_roundtrip:
  "message_ok (MLogin lg) \<Longrightarrow> decode_fields login_fields (login_members lg)
     \<lparr>lg_Version = 0, lg_ClientName = [], lg_Hostname = [], lg_OS = [], lg_Arch = [],
      lg_Timestamp = 0, lg_AuthKey = [], lg_PoolCount = 0, lg_RunID = []\<rparr> = Some lg"
  unfolding login_members_def
  by (rule decode_result, (rule decode_rules | simp add: find_field_def login_fields_def)+)

lemma loginResp_roundtrip:
  "message_ok (MLoginResp lr) \<Longrightarrow> decode_fields loginResp_fields (loginResp_members lr)
     \<lparr>lr_ObservedAddr = [], lr_Version = 0, lr_RunID = [], lr_ServerVersion = [], lr_Error = []\<rparr> = Some lr"
  unfolding loginResp_members_def
  by (rule decode_result, (rule decode_rules | simp add: find_field_def loginResp_fields_def)+)

lemma newProxyResp_roundtrip:
  "message_ok (MNewProxyResp pr) \<Longrightarrow> decode_fields newProxyResp_fields (newProxyResp_members pr)
     \<lparr>pr_Name = [], pr_RemotePort = 0, pr_Error = []\<rparr> = Some pr"
  unfolding newProxyResp_members_def
  by (rule decode_result, (rule decode_rules | simp add: find_field_def newProxyResp_fields_def)+)

lemma newWorkConn_roundtrip:
  "message_ok (MNewWorkConn wc) \<Longrightarrow> decode_fields newWorkConn_fields (newWorkConn_members wc)
     \<lparr>wc_RunID = [], wc_Timestamp = 0, wc_AuthKey = []\<rparr> = Some wc"
  unfolding newWorkConn_members_def
  by (rule decode_result, (rule decode_rules | simp add: find_field_def newWorkConn_fields_def)+)

lemma newMuxConn_roundtrip:
  "message_ok (MNewMuxConn mc) \<Longrightarrow> decode_fields newMuxConn_fields (newMuxConn_members mc)
     \<lparr>mc_RunID = [], mc_Timestamp = 0, mc_AuthKey = []\<rparr> = Some mc"
  unfolding newMuxConn_members_def
  by (rule decode_result, (rule decode_rules | simp add: find_field_def newMuxConn_fields_def)+)

lemma startWorkConn_roundtrip:
  "message_ok (MStartWorkConn sw) \<Longrightarrow> decode_fields startWorkConn_fields (startWorkConn_members sw)
     \<lparr>sw_ProxyName = [], sw_SourceAddr = [], sw_Error = []\<rparr> = Some sw"
  unfolding startWorkConn_members_def
  by (rule decode_result, (rule decode_rules | simp add: find_field_def startWorkConn_fields_def)+)

lemma pong_roundtrip:
  "message_ok (MPong po) \<Longrightarrow> decode_fields pong_fields (pong_members po)
     \<lparr>po_Timestamp = 0, po_Error = []\<rparr> = Some po"
  unfolding pong_members_def
  by (rule decode_result, (rule decode_rules | simp add: find_field_def pong_fields_def)+)

lemma certPush_roundtrip:
  "message_ok (MCertPush cp) \<Longrightarrow> decode_fields certPush_fields (certPush_members cp)
     \<lparr>cp_Domains = None, cp_FullchainPEM = None, cp_PrivateKeyPEM = None, cp_NotAfter = 0\<rparr> = Some cp"
  unfolding certPush_members_def
  by (rule decode_result, (rule decode_rules | simp add: find_field_def certPush_fields_def)+)

lemma httpChallenge_roundtrip:
  "message_ok (MHTTPChallenge hc) \<Longrightarrow> decode_fields httpChallenge_fields (httpChallenge_members hc)
     \<lparr>hc_Domain = [], hc_Token = [], hc_KeyAuth = [], hc_Remove = False\<rparr> = Some hc"
  unfolding httpChallenge_members_def
  by (rule decode_result, (rule decode_rules | simp add: find_field_def httpChallenge_fields_def)+)

lemmas struct_roundtrips = login_roundtrip loginResp_roundtrip newProxyResp_roundtrip newWorkConn_roundtrip newMuxConn_roundtrip startWorkConn_roundtrip pong_roundtrip certPush_roundtrip httpChallenge_roundtrip

lemma decode_members:
  assumes "message_ok m" "map_of factories (message_type m) = Some z"
  shows "decode_into (JObj (message_members m)) z = Some m"
proof (cases m)
  case (MNewProxy p)
  with assms have "z = MNewProxy zeroSpec" by (simp add: factories_def type_codes)
  with MNewProxy assms spec_roundtrip [of p] show ?thesis
    by (simp add: decode_struct_def always_def find_field_def)
qed (use assms in \<open>auto simp: factories_def type_codes decode_struct_def struct_roundtrips find_field_def
      intro!: decode_always_self decode_omitempty_self\<close>)

subsection \<open>The text of a message parses\<close>

lemma fits_simps [simp]:
  "json_fits d (jint i)" "json_fits d (JStr s) = valid_utf8 s" "json_fits d (JBool b)"
  by (auto simp: jint_def)

lemma b64_ascii: "n < 64 \<Longrightarrow> is_ascii (b64_digit n)"
  by (simp add: is_ascii_def byte_nat_b64_digit) arith

lemma b64_encode_ascii: "list_all is_ascii (b64_encode bs)"
  by (induction bs rule: b64_encode.induct) (simp_all add: b64_ascii byte_parts, simp_all add: is_ascii_def byte_nat_def)

lemma fits_lists [simp]:
  "0 < d \<Longrightarrow> json_fits d (jstrings xs) = (case xs of None \<Rightarrow> True | Some ss \<Rightarrow> list_all valid_utf8 ss)"
  "0 < d \<Longrightarrow> json_fits d (jdomains ss) = list_all valid_utf8 ss"
  "json_fits d (jbytes b)"
  using valid_utf8_ascii [OF b64_encode_ascii]
  by (auto simp: jstrings_def jdomains_def jbytes_def list_all_iff split: option.splits)

definition member_ok :: "nat \<Rightarrow> string \<times> json \<Rightarrow> bool" where
  "member_ok d m \<longleftrightarrow> valid_utf8 (fst m) \<and> json_fits d (snd m)"

lemma member_ok_simps [simp]:
  "list_all (member_ok d) (always k j) \<longleftrightarrow> valid_utf8 k \<and> json_fits d j"
  "list_all (member_ok d) (omitempty z enc k v) \<longleftrightarrow> (v \<noteq> z \<longrightarrow> valid_utf8 k \<and> json_fits d (enc v))"
  by (auto simp: always_def omitempty_def member_ok_def)

lemma fits_obj: "json_fits d (JObj ms) \<longleftrightarrow> 0 < d \<and> list_all (member_ok (d - 1)) ms"
  by (auto simp: member_ok_def list_all_iff)

lemma spec_fits: "spec_ok p \<Longrightarrow> 0 < d \<Longrightarrow> list_all (member_ok d) (spec_members p)"
  by (simp add: spec_members_def spec_ok_def valid_utf8_ascii is_ascii_def byte_nat_def)

lemma message_fits:
  assumes "message_ok m"
  shows "list_all (member_ok 2) (message_members m)"
proof (cases m)
  case (MNewProxy p)
  with assms spec_fits [of p 1] show ?thesis
    by (simp add: fits_obj valid_utf8_ascii is_ascii_def byte_nat_def del: json_fits.simps)
qed (use assms in \<open>simp_all add: member_tables valid_utf8_ascii is_ascii_def byte_nat_def\<close>)

lemma json_fits_mono: "json_fits d v \<Longrightarrow> d \<le> e \<Longrightarrow> json_fits e v"
proof (induction v arbitrary: d e)
  case (JArr js)
  have "json_fits (e - 1) j" if "j \<in> set js" for j
    using JArr.IH [OF that, of "d - 1" "e - 1"] JArr.prems that by auto
  with JArr.prems show ?case by auto
next
  case (JObj ms)
  have "json_fits (e - 1) (snd m)" if "m \<in> set ms" for m
    using JObj.IH [of m "snd m" "d - 1" "e - 1"] JObj.prems that by (auto simp: snds.simps)
  with JObj.prems show ?case by auto
qed auto

lemma message_roundtrip:
  assumes "message_ok m" "map_of factories (message_type m) = Some z"
  shows "json_Unmarshal (json_Marshal m) z = Some m"
proof -
  have "json_fits 3 (JObj (message_members m))"
    using message_fits [OF assms(1)] by (simp add: fits_obj del: json_fits.simps)
  then have "json_fits maxNestingDepth (JObj (message_members m))"
    by (rule json_fits_mono) (simp add: maxNestingDepth_def)
  with decode_members [OF assms] show ?thesis
    by (simp add: json_Unmarshal_def json_Marshal_def parse_document_text del: json_text.simps json_fits.simps)
qed

end
