(* ===== verification/Proto_Codec.thy ===== *)
theory Proto_Codec
  imports Proto_Json Go_IO
begin

text \<open>
  Framing of the control protocol: \<^verbatim>\<open>internal/tunnel/protocol/codec.go\<close>. A frame is one byte of
  type, four bytes of big-endian length and the JSON payload. A writer is the bytes that reached
  the connection and the scripted outcomes of its next \<^verbatim>\<open>Write\<close> calls: \<^term>\<open>None\<close> (or nothing
  left in the script) succeeds, \<^term>\<open>Some (k, e)\<close> fails with \<open>e\<close> after \<open>k\<close> bytes.
  The \<^verbatim>\<open>bufio.Reader\<close> of a \<^verbatim>\<open>Codec\<close> hands out the bytes of the connection unchanged and in
  order, so it is the reader itself; the lock around \<^verbatim>\<open>Codec.Write\<close> makes one frame one
  \<^verbatim>\<open>Write\<close>. Deadlines are left out.
\<close>

section \<open>Operations\<close>

record writer =
  w_out :: bytes
  w_script :: "(nat \<times> io_error) option list"

definition write_bytes :: "writer \<Rightarrow> bytes \<Rightarrow> io_error option \<times> writer" where
  "write_bytes w b = (case w_script w of
      [] \<Rightarrow> (None, w\<lparr>w_out := w_out w @ b\<rparr>)
    | None # rest \<Rightarrow> (None, \<lparr>w_out = w_out w @ b, w_script = rest\<rparr>)
    | Some (k, e) # rest \<Rightarrow> (Some e, \<lparr>w_out = w_out w @ take k b, w_script = rest\<rparr>))"

definition headerSize :: nat where "headerSize = 5"
definition MaxMessageSize :: nat where "MaxMessageSize = 256 * 1024"

datatype codec_error =
    CleanEOF
  | HeaderError io_error
  | MessageTooLarge nat nat
  | DiscardError nat
  | UnknownType nat
  | PayloadError nat io_error
  | DecodeError nat
  | UnexpectedMessage nat nat
  | EncodeTooLarge nat nat
  | WriteError nat io_error

definition encode :: "message \<Rightarrow> codec_error + bytes" where
  "encode m =
     (let payload = json_Marshal m in
      if MaxMessageSize < length payload then Inl (EncodeTooLarge (message_type m) (length payload))
      else Inr (nat_byte (message_type m) # be32 (length payload) @ payload))"

definition WriteMessage :: "writer \<Rightarrow> message \<Rightarrow> codec_error option \<times> writer" where
  "WriteMessage w m = (case encode m of
      Inl e \<Rightarrow> (Some e, w)
    | Inr frame \<Rightarrow> (case write_bytes w frame of
         (Some e, w') \<Rightarrow> (Some (WriteError (message_type m) e), w')
       | (None, w') \<Rightarrow> (None, w')))"

definition decodeBody :: "reader \<Rightarrow> bytes \<Rightarrow> (codec_error + message) \<times> reader" where
  "decodeBody r hdr =
     (let msgType = byte_nat (hdr ! 0); len = be_nat (drop 1 hdr) in
      if MaxMessageSize < len then (Inl (MessageTooLarge msgType len), r)
      else case map_of factories msgType of
        None \<Rightarrow> (case read_full len r of
           (_, Some _, r') \<Rightarrow> (Inl (DiscardError msgType), r')
         | (_, None, r') \<Rightarrow> (Inl (UnknownType msgType), r'))
      | Some z \<Rightarrow> (case read_full len r of
           (_, Some e, r') \<Rightarrow> (Inl (PayloadError msgType e), r')
         | (payload, None, r') \<Rightarrow> (case json_Unmarshal payload z of
              None \<Rightarrow> (Inl (DecodeError msgType), r')
            | Some m \<Rightarrow> (Inr m, r'))))"

definition ReadMessage :: "reader \<Rightarrow> (codec_error + message) \<times> reader" where
  "ReadMessage r = (case read_full headerSize r of
      (_, Some e, r') \<Rightarrow> (Inl (if e = EOF then CleanEOF else HeaderError e), r')
    | (hdr, None, r') \<Rightarrow> decodeBody r' hdr)"

definition ReadMessageExpect :: "reader \<Rightarrow> nat \<Rightarrow> (codec_error + message) \<times> reader" where
  "ReadMessageExpect r want = (case ReadMessage r of
      (Inl e, r') \<Rightarrow> (Inl e, r')
    | (Inr m, r') \<Rightarrow> if message_type m \<noteq> want then (Inl (UnexpectedMessage (message_type m) want), r')
                     else (Inr m, r'))"

record Codec =
  cd_r :: reader
  cd_w :: writer

definition NewCodec :: "reader \<Rightarrow> writer \<Rightarrow> Codec" where
  "NewCodec r w = \<lparr>cd_r = r, cd_w = w\<rparr>"

definition Codec_Write :: "Codec \<Rightarrow> message \<Rightarrow> codec_error option \<times> Codec" where
  "Codec_Write c m = (case encode m of
      Inl e \<Rightarrow> (Some e, c)
    | Inr frame \<Rightarrow> (case write_bytes (cd_w c) frame of
         (Some e, w') \<Rightarrow> (Some (WriteError (message_type m) e), c\<lparr>cd_w := w'\<rparr>)
       | (None, w') \<Rightarrow> (None, c\<lparr>cd_w := w'\<rparr>)))"

definition Codec_Read :: "Codec \<Rightarrow> (codec_error + message) \<times> Codec" where
  "Codec_Read c = (case read_full headerSize (cd_r c) of
      (_, Some e, r') \<Rightarrow> (Inl (if e = EOF then CleanEOF else HeaderError e), c\<lparr>cd_r := r'\<rparr>)
    | (hdr, None, r') \<Rightarrow> (case decodeBody r' hdr of (res, r'') \<Rightarrow> (res, c\<lparr>cd_r := r''\<rparr>)))"

definition Codec_ReadExpect :: "Codec \<Rightarrow> nat \<Rightarrow> (codec_error + message) \<times> Codec" where
  "Codec_ReadExpect c want = (case Codec_Read c of
      (Inl e, c') \<Rightarrow> (Inl e, c')
    | (Inr m, c') \<Rightarrow> if message_type m \<noteq> want then (Inl (UnexpectedMessage (message_type m) want), c')
                     else (Inr m, c'))"

section \<open>Reading a frame\<close>

definition frame_bytes :: "nat \<Rightarrow> bytes \<Rightarrow> bytes" where
  "frame_bytes t payload = nat_byte t # be32 (length payload) @ payload"

lemma encode_ok: "encode m = Inr f \<longleftrightarrow> length (json_Marshal m) \<le> MaxMessageSize
    \<and> f = frame_bytes (message_type m) (json_Marshal m)"
  by (auto simp: encode_def Let_def frame_bytes_def)

text \<open>On a clean connection the header of a frame is read whole and the body starts right after
  it.\<close>

lemma read_header:
  assumes "clean r" "reader_data r = (nat_byte t # be32 n) @ rest" "t < 256" "n < 2 ^ 32"
  obtains r' where "ReadMessage r = decodeBody r' (nat_byte t # be32 n)" "clean r'" "reader_data r' = rest"
proof -
  obtain r' where "read_full 5 r = (take 5 (reader_data r), None, r')" "clean r'"
    "reader_data r' = drop 5 (reader_data r)"
    using clean_read_full [OF assms(1), of 5] assms(2) by auto
  with assms(2) show thesis
    by (intro that [of r']) (simp_all add: ReadMessage_def headerSize_def)
qed

lemma decodeBody_header:
  assumes "t < 256" "n < 2 ^ 32"
  shows "decodeBody r (nat_byte t # be32 n) =
    (if MaxMessageSize < n then (Inl (MessageTooLarge t n), r)
      else case map_of factories t of
        None \<Rightarrow> (case read_full n r of
           (_, Some _, r') \<Rightarrow> (Inl (DiscardError t), r')
         | (_, None, r') \<Rightarrow> (Inl (UnknownType t), r'))
      | Some z \<Rightarrow> (case read_full n r of
           (_, Some e, r') \<Rightarrow> (Inl (PayloadError t e), r')
         | (payload, None, r') \<Rightarrow> (case json_Unmarshal payload z of
              None \<Rightarrow> (Inl (DecodeError t), r')
            | Some m \<Rightarrow> (Inr m, r'))))"
  using assms be_nat_be32 [of n] by (simp add: decodeBody_def Let_def)

text \<open>A whole frame within the size limit is consumed exactly, whatever it holds.\<close>

lemma ReadMessage_frame:
  assumes "clean r" "reader_data r = frame_bytes t payload @ rest" "t < 256"
    and "length payload \<le> MaxMessageSize"
  obtains r' where "clean r'" "reader_data r' = rest"
    "ReadMessage r =
      (case map_of factories t of
         None \<Rightarrow> Inl (UnknownType t)
       | Some z \<Rightarrow> (case json_Unmarshal payload z of None \<Rightarrow> Inl (DecodeError t) | Some m \<Rightarrow> Inr m), r')"
proof -
  have n: "length payload < 2 ^ 32" using assms(4) by (simp add: MaxMessageSize_def)
  obtain r1 where r1: "ReadMessage r = decodeBody r1 (nat_byte t # be32 (length payload))" "clean r1"
    "reader_data r1 = payload @ rest"
    using read_header [OF assms(1) _ assms(3) n, of "payload @ rest"] assms(2)
    by (auto simp: frame_bytes_def)
  obtain r2 where r2: "read_full (length payload) r1 = (payload, None, r2)" "clean r2" "reader_data r2 = rest"
    using clean_read_full [OF r1(2), of "length payload"] r1(3) by auto
  show thesis
    using that [OF r2(2,3)] r1(1) r2(1) assms(4) n assms(3)
    by (simp add: decodeBody_header split: option.splits)
qed

lemma message_type_byte: "message_type m < 256"
  using type_range(2) [of m] by simp

lemma factory_exists: obtains z where "map_of factories (message_type m) = Some z"
  using type_range [of m] factories_known [of "message_type m"] by auto

lemma ReadMessage_encoded:
  assumes "message_ok m" "encode m = Inr f" "clean r" "reader_data r = f @ rest"
  obtains r' where "ReadMessage r = (Inr m, r')" "clean r'" "reader_data r' = rest"
proof -
  obtain z where z: "map_of factories (message_type m) = Some z" by (rule factory_exists)
  note rt = message_roundtrip [OF assms(1) z]
  from assms(2) have "length (json_Marshal m) \<le> MaxMessageSize"
    "f = frame_bytes (message_type m) (json_Marshal m)" by (simp_all add: encode_ok)
  with ReadMessage_frame [OF assms(3) _ message_type_byte [of m], of "json_Marshal m" rest] assms(4)
  obtain r' where "clean r'" "reader_data r' = rest"
    "ReadMessage r =
      (case map_of factories (message_type m) of
         None \<Rightarrow> Inl (UnknownType (message_type m))
       | Some z \<Rightarrow> (case json_Unmarshal (json_Marshal m) z of
            None \<Rightarrow> Inl (DecodeError (message_type m)) | Some m \<Rightarrow> Inr m), r')"
    by metis
  with z rt show thesis by (intro that) simp_all
qed

text \<open>The codec reads and writes like the free functions.\<close>

lemma Codec_Read_ReadMessage:
  "Codec_Read c = (case ReadMessage (cd_r c) of (res, r') \<Rightarrow> (res, c\<lparr>cd_r := r'\<rparr>))"
  by (simp add: Codec_Read_def ReadMessage_def split: prod.splits option.splits)

lemma Codec_Write_WriteMessage:
  "Codec_Write c m = (case WriteMessage (cd_w c) m of (e, w') \<Rightarrow> (e, c\<lparr>cd_w := w'\<rparr>))"
  by (simp add: Codec_Write_def WriteMessage_def split: sum.splits prod.splits option.splits)

section \<open>Properties\<close>

text \<open>Writing several messages, and reading as many.\<close>

fun write_all :: "Codec \<Rightarrow> message list \<Rightarrow> codec_error option \<times> Codec" where
  "write_all c [] = (None, c)"
| "write_all c (m # ms) = (case Codec_Write c m of (Some e, c') \<Rightarrow> (Some e, c') | (None, c') \<Rightarrow> write_all c' ms)"

fun read_all :: "Codec \<Rightarrow> nat \<Rightarrow> (codec_error + message) list \<times> Codec" where
  "read_all c 0 = ([], c)"
| "read_all c (Suc n) = (case Codec_Read c of (res, c') \<Rightarrow> (case read_all c' n of (rs, c'') \<Rightarrow> (res # rs, c'')))"

lemma write_all_frames:
  assumes "list_all (\<lambda>m. is_ok (encode m)) ms" "w_script (cd_w c) = []"
  shows "write_all c ms = (None, c\<lparr>cd_w := \<lparr>w_out = w_out (cd_w c) @ concat (map (\<lambda>m. projr (encode m)) ms), w_script = []\<rparr>\<rparr>)"
  using assms
proof (induction ms arbitrary: c)
  case Nil
  then show ?case by simp
next
  case (Cons m ms)
  then obtain f where f: "encode m = Inr f" by (cases "encode m") auto
  have "Codec_Write c m = (None, c\<lparr>cd_w := \<lparr>w_out = w_out (cd_w c) @ f, w_script = []\<rparr>\<rparr>)"
    using f Cons.prems(2) by (simp add: Codec_Write_def write_bytes_def)
  with Cons f show ?case by simp
qed

lemma read_all_frames:
  assumes "list_all message_ok ms" "list_all (\<lambda>m. is_ok (encode m)) ms"
    and "clean (cd_r c)" "reader_data (cd_r c) = concat (map (\<lambda>m. projr (encode m)) ms) @ rest"
  shows "fst (read_all c (length ms)) = map Inr ms
    \<and> reader_data (cd_r (snd (read_all c (length ms)))) = rest"
  using assms
proof (induction ms arbitrary: c)
  case Nil
  then show ?case by simp
next
  case (Cons m ms)
  then obtain f where f: "encode m = Inr f" by (cases "encode m") auto
  obtain r' where r': "ReadMessage (cd_r c) = (Inr m, r')" "clean r'"
    "reader_data r' = concat (map (\<lambda>m. projr (encode m)) ms) @ rest"
    using ReadMessage_encoded [of m f "cd_r c" "concat (map (\<lambda>m. projr (encode m)) ms) @ rest"]
      Cons.prems f by auto
  have "fst (read_all (c\<lparr>cd_r := r'\<rparr>) (length ms)) = map Inr ms
      \<and> reader_data (cd_r (snd (read_all (c\<lparr>cd_r := r'\<rparr>) (length ms)))) = rest"
    using Cons.IH [of "c\<lparr>cd_r := r'\<rparr>"] Cons.prems r' by simp
  with r' show ?case by (auto simp: Codec_Read_ReadMessage split: prod.splits)
qed

text \<open>C12: The control channel carries messages faithfully. Whatever messages one side writes, as long
  as each is encodable, the other side reads the same messages in the same order, however the
  network cuts the stream into chunks, and stops exactly where the last frame ends.\<close>

theorem codec_roundtrip:
  assumes "list_all message_ok ms" "list_all (\<lambda>m. is_ok (encode m)) ms"
    and "w_script (cd_w c) = []" "w_out (cd_w c) = []"
    and "clean (cd_r d)" "reader_data (cd_r d) = w_out (cd_w (snd (write_all c ms))) @ rest"
  shows "fst (write_all c ms) = None
    \<and> fst (read_all d (length ms)) = map Inr ms
    \<and> reader_data (cd_r (snd (read_all d (length ms)))) = rest"
  using write_all_frames [OF assms(2,3)] read_all_frames [OF assms(1,2,5)] assms(4,6) by simp

definition sample_messages :: "message list" where
  "sample_messages = [MPing 5, MCloseProxy ''web'']"

theorem codec_roundtrip_witness:
  "let c = NewCodec [] \<lparr>w_out = [], w_script = []\<rparr>;
       sent = w_out (cd_w (snd (write_all c sample_messages)));
       d = NewCodec (byte_chunks (sent @ ''x'')) \<lparr>w_out = [], w_script = []\<rparr> in
   fst (write_all c sample_messages) = None
   \<and> fst (read_all d (length sample_messages)) = map Inr sample_messages
   \<and> reader_data (cd_r (snd (read_all d (length sample_messages)))) = ''x''"
proof -
  have ok: "list_all message_ok sample_messages" "list_all (\<lambda>m. is_ok (encode m)) sample_messages"
    by (simp_all add: sample_messages_def int64_ok_def valid_utf8_ascii is_ascii_def byte_nat_def
        encode_def Let_def json_Marshal_def always_def quoted_def quote_body_ascii escape_ascii_def
        jint_def int_text_def nat_text.simps MaxMessageSize_def)
  show ?thesis
    unfolding Let_def by (rule codec_roundtrip [OF ok]) (simp_all add: NewCodec_def)
qed

text \<open>An unknown message type never desynchronises the stream: the frame is skipped whole and
  reported, a payload of a known type that does not decode is skipped whole too, and a frame that
  announces more than the maximum is refused before any of its body is read or buffered.\<close>

theorem codec_keeps_framing:
  assumes "clean r" "t < 256" "length payload < 2 ^ 32"
    and "reader_data r = frame_bytes t payload @ rest"
  shows "\<exists>res r'. ReadMessage r = (res, r') \<and>
    (if MaxMessageSize < length payload
     then res = Inl (MessageTooLarge t (length payload)) \<and> reader_data r' = payload @ rest
     else reader_data r' = rest \<and>
       (case map_of factories t of
          None \<Rightarrow> res = Inl (UnknownType t)
        | Some z \<Rightarrow> res = (case json_Unmarshal payload z of
            None \<Rightarrow> Inl (DecodeError t) | Some m \<Rightarrow> Inr m)))"
proof (cases "MaxMessageSize < length payload")
  case True
  obtain r' where "ReadMessage r = decodeBody r' (nat_byte t # be32 (length payload))"
    "reader_data r' = payload @ rest"
    using read_header [OF assms(1) _ assms(2,3), of "payload @ rest"] assms(4)
    by (auto simp: frame_bytes_def)
  with True decodeBody_header [OF assms(2,3), of r'] show ?thesis by simp
next
  case False
  then obtain r' where "reader_data r' = rest"
    "ReadMessage r =
      (case map_of factories t of
         None \<Rightarrow> Inl (UnknownType t)
       | Some z \<Rightarrow> (case json_Unmarshal payload z of None \<Rightarrow> Inl (DecodeError t) | Some m \<Rightarrow> Inr m), r')"
    using ReadMessage_frame [OF assms(1,4,2)] by (metis not_less)
  with False show ?thesis by (simp split: option.splits)
qed

theorem codec_keeps_framing_witness:
  "\<exists>res r'. ReadMessage (byte_chunks (frame_bytes 77 ''later version'' @ ''next'')) = (res, r')
    \<and> res = Inl (UnknownType 77) \<and> reader_data r' = ''next''"
proof -
  have "map_of factories 77 = None" by (simp add: factories_def type_codes)
  then show ?thesis
    using codec_keeps_framing [OF byte_chunks_facts(1) _ _ byte_chunks_facts(2), of 77 "''later version''" "''next''"]
    by (simp add: MaxMessageSize_def)
qed

end
