(* ===== verification/Go_Sha256.thy ===== *)
theory Go_Sha256
  imports Openfrp_Prelude
begin

text \<open>
  Go's \<^verbatim>\<open>crypto/sha256\<close> and \<^verbatim>\<open>crypto/hmac\<close>, as the authentication of the control protocol uses
  them (FIPS 180-4 and RFC 2104), on 32-bit words.
\<close>

unbundle bit_operations_syntax

definition sha_k :: "u32 list" where
  "sha_k =
     [1116352408, 1899447441, 3049323471, 3921009573, 961987163, 1508970993, 2453635748,
      2870763221, 3624381080, 310598401, 607225278, 1426881987, 1925078388, 2162078206,
      2614888103, 3248222580, 3835390401, 4022224774, 264347078, 604807628, 770255983,
      1249150122, 1555081692, 1996064986, 2554220882, 2821834349, 2952996808, 3210313671,
      3336571891, 3584528711, 113926993, 338241895, 666307205, 773529912, 1294757372, 1396182291,
      1695183700, 1986661051, 2177026350, 2456956037, 2730485921, 2820302411, 3259730800,
      3345764771, 3516065817, 3600352804, 4094571909, 275423344, 430227734, 506948616, 659060556,
      883997877, 958139571, 1322822218, 1537002063, 1747873779, 1955562222, 2024104815,
      2227730452, 2361852424, 2428436474, 2756734187, 3204031479, 3329325298]"

definition sha_init :: "u32 list" where
  "sha_init =
     [1779033703, 3144134277, 1013904242, 2773480762, 1359893119, 2600822924, 528734635,
      1541459225]"

definition rotr :: "nat \<Rightarrow> u32 \<Rightarrow> u32" where
  "rotr n x = (drop_bit n x) OR (push_bit (32 - n) x)"

definition word_bytes :: "u32 \<Rightarrow> bytes" where
  "word_bytes w = be32 (unat w)"

definition bytes_word :: "bytes \<Rightarrow> u32" where
  "bytes_word b = of_nat (be_nat b)"

fun words_of :: "bytes \<Rightarrow> u32 list" where
  "words_of (a # b # c # d # r) = bytes_word [a, b, c, d] # words_of r"
| "words_of _ = []"

text \<open>The message schedule: \<open>ws\<close> holds the words so far, latest first.\<close>

fun schedule :: "nat \<Rightarrow> u32 list \<Rightarrow> u32 list" where
  "schedule 0 ws = rev ws"
| "schedule (Suc n) ws =
     (let w2 = ws ! 1; w7 = ws ! 6; w15 = ws ! 14; w16 = ws ! 15;
          s0 = rotr 7 w15 XOR rotr 18 w15 XOR drop_bit 3 w15;
          s1 = rotr 17 w2 XOR rotr 19 w2 XOR drop_bit 10 w2
      in schedule n ((w16 + s0 + w7 + s1) # ws))"

fun sha_round :: "u32 list \<Rightarrow> u32 \<times> u32 \<Rightarrow> u32 list" where
  "sha_round [a, b, c, d, e, f, g, h] (k, w) =
     (let s1 = rotr 6 e XOR rotr 11 e XOR rotr 25 e;
          ch = (e AND f) XOR (NOT e AND g);
          t1 = h + s1 + ch + k + w;
          s0 = rotr 2 a XOR rotr 13 a XOR rotr 22 a;
          maj = (a AND b) XOR (a AND c) XOR (b AND c);
          t2 = s0 + maj
      in [t1 + t2, a, b, c, d + t1, e, f, g])"
| "sha_round st _ = st"

definition sha_block :: "u32 list \<Rightarrow> bytes \<Rightarrow> u32 list" where
  "sha_block st block =
     map2 (+) st (foldl sha_round st (zip sha_k (schedule 48 (rev (words_of block)))))"

fun sha_blocks :: "nat \<Rightarrow> u32 list \<Rightarrow> bytes \<Rightarrow> u32 list" where
  "sha_blocks 0 st b = st"
| "sha_blocks (Suc n) st b = sha_blocks n (sha_block st (take 64 b)) (drop 64 b)"

definition sha_pad :: "bytes \<Rightarrow> bytes" where
  "sha_pad m = m @ nat_byte 0x80 # replicate ((119 - length m mod 64) mod 64) (nat_byte 0)
     @ be32 (8 * length m div 2 ^ 32) @ be32 (8 * length m)"

definition sha256 :: "bytes \<Rightarrow> bytes" where
  "sha256 m = (let p = sha_pad m in concat (map word_bytes (sha_blocks (length p div 64) sha_init p)))"

definition xor_byte :: "nat \<Rightarrow> char \<Rightarrow> char" where
  "xor_byte k c = nat_byte (k XOR byte_nat c)"

definition hmac_sha256 :: "bytes \<Rightarrow> bytes \<Rightarrow> bytes" where
  "hmac_sha256 key msg =
     (let k0 = (if 64 < length key then sha256 key else key);
          k = k0 @ replicate (64 - length k0) (nat_byte 0)
      in sha256 (map (xor_byte 0x5c) k @ sha256 (map (xor_byte 0x36) k @ msg)))"

lemma sha_pad_blocks: "length (sha_pad m) mod 64 = 0"
proof -
  define q k where "q = length m div 64" and "k = length m mod 64"
  have m: "length m = 64 * q + k" "k < 64" by (simp_all add: q_def k_def)
  have "(119 - k) mod 64 = (if k \<le> 55 then 55 - k else 119 - k)"
    using m(2) by (auto simp: mod_if)
  then have "length m + 1 + (119 - k) mod 64 + 8 = 64 * (if k \<le> 55 then q + 1 else q + 2)"
    using m by auto
  moreover have "length (sha_pad m) = length m + 1 + (119 - k) mod 64 + 8"
    by (simp add: sha_pad_def flip: k_def)
  ultimately have "length (sha_pad m) = 64 * (if k \<le> 55 then q + 1 else q + 2)" by simp
  then show ?thesis by (simp only: mod_mult_self1_is_0)
qed

lemma length_sha_round [simp]: "length (sha_round st kw) = length st"
  by (cases "(st, kw)" rule: sha_round.cases) (simp_all add: Let_def)

lemma length_sha_rounds: "length (foldl sha_round st kws) = length st"
  by (induction kws arbitrary: st) simp_all

lemma length_sha_blocks: "length (sha_blocks n st b) = length st"
  by (induction n arbitrary: st b) (simp_all add: sha_block_def length_sha_rounds)

text \<open>A digest is 32 bytes.\<close>

lemma length_sha256: "length (sha256 m) = 32"
proof -
  have "length (concat (map word_bytes ws)) = 4 * length ws" for ws
    by (induction ws) (simp_all add: word_bytes_def)
  then show ?thesis by (simp add: sha256_def Let_def length_sha_blocks sha_init_def)
qed

lemma length_hmac: "length (hmac_sha256 k m) = 32"
  by (simp add: hmac_sha256_def Let_def length_sha256)

end
