(* ===== verification/Go_Time.thy ===== *)
theory Go_Time
  imports Go_Strconv
begin

text \<open>
  What the repository uses of Go's \<^verbatim>\<open>time\<close>: instants as seconds since the year 1 with
  nanoseconds, and durations, which are 64-bit counts of nanoseconds. A difference that does not
  fit saturates at the ends of the range, and negating the smallest duration wraps around to
  itself.
\<close>

definition i64_wrap :: "int \<Rightarrow> int" where
  "i64_wrap x = (x + 2 ^ 63) mod 2 ^ 64 - 2 ^ 63"

lemma i64_wrap_id: "int64_ok x \<Longrightarrow> i64_wrap x = x"
  by (simp add: i64_wrap_def int64_ok_def)

lemma i64_wrap_ok: "int64_ok (i64_wrap x)"
  using pos_mod_bound [of "2 ^ 64" "x + 2 ^ 63"] pos_mod_sign [of "2 ^ 64" "x + 2 ^ 63"]
  by (simp add: i64_wrap_def int64_ok_def)

record go_time =
  gt_sec :: int
  gt_nsec :: int

definition Second :: int where "Second = 1000000000"
definition Minute :: int where "Minute = 60 * Second"
definition Hour :: int where "Hour = 60 * Minute"
definition minDuration :: int where "minDuration = - (2 ^ 63)"
definition maxDuration :: int where "maxDuration = 2 ^ 63 - 1"

definition unixToInternal :: int where "unixToInternal = 62135596800"

text \<open>\<^verbatim>\<open>time.Unix(sec, 0)\<close>.\<close>

definition time_Unix :: "int \<Rightarrow> go_time" where
  "time_Unix sec = \<lparr>gt_sec = i64_wrap (sec + unixToInternal), gt_nsec = 0\<rparr>"

definition time_nanos :: "go_time \<Rightarrow> int" where
  "time_nanos t = gt_sec t * Second + gt_nsec t"

definition time_Sub :: "go_time \<Rightarrow> go_time \<Rightarrow> int" where
  "time_Sub t u =
     (let d = time_nanos t - time_nanos u in
      if int64_ok d then d else if d < 0 then minDuration else maxDuration)"

definition time_Before :: "go_time \<Rightarrow> go_time \<Rightarrow> bool" where
  "time_Before t u = (time_nanos t < time_nanos u)"

definition time_After :: "go_time \<Rightarrow> go_time \<Rightarrow> bool" where
  "time_After t u = (time_nanos u < time_nanos t)"

definition neg_duration :: "int \<Rightarrow> int" where
  "neg_duration d = i64_wrap (- d)"

lemma neg_minDuration: "neg_duration minDuration = minDuration"
  by (simp add: neg_duration_def minDuration_def i64_wrap_def)

lemma neg_duration_ok: "int64_ok d \<Longrightarrow> d \<noteq> minDuration \<Longrightarrow> neg_duration d = - d"
  unfolding neg_duration_def by (rule i64_wrap_id) (auto simp: int64_ok_def minDuration_def)

lemma time_Sub_exact: "int64_ok (time_nanos t - time_nanos u) \<Longrightarrow> time_Sub t u = time_nanos t - time_nanos u"
  by (simp add: time_Sub_def)

lemma time_Sub_far: "time_nanos t - time_nanos u \<le> minDuration \<Longrightarrow> time_Sub t u = minDuration"
  by (auto simp: time_Sub_def Let_def int64_ok_def minDuration_def)

definition time_Add :: "go_time \<Rightarrow> int \<Rightarrow> go_time" where
  "time_Add t d = \<lparr>gt_sec = gt_sec t + (gt_nsec t + d) div Second, gt_nsec = (gt_nsec t + d) mod Second\<rparr>"

lemma time_nanos_Add [simp]: "time_nanos (time_Add t d) = time_nanos t + d"
  using div_mult_mod_eq [of "gt_nsec t + d" Second]
  by (simp add: time_nanos_def time_Add_def distrib_right)

end
