(* ===== verification/Proto_Handshake.thy ===== *)
theory Proto_Handshake
  imports Proto_Codec Go_Sha256 Go_Time
begin

text \<open>
  Opening a connection: authentication and versions
  (\<^verbatim>\<open>internal/tunnel/protocol/handshake.go\<close>) and the preamble
  (\<^verbatim>\<open>internal/tunnel/protocol/preamble.go\<close>). What \<^verbatim>\<open>crypto/rand\<close> returns is an argument of
  \<open>NewRunID\<close>; the current time is an argument of \<open>VerifyAuth\<close>, as in the source.
\<close>

section \<open>Authentication\<close>

definition DefaultAuthSkew :: int where "DefaultAuthSkew = 15 * Minute"

definition AuthKey :: "string \<Rightarrow> int \<Rightarrow> string" where
  "AuthKey token timestamp = hex_encode (hmac_sha256 token (int_text timestamp))"

datatype auth_error = ErrAuthFailed

definition VerifyAuth :: "string \<Rightarrow> string \<Rightarrow> int \<Rightarrow> go_time \<Rightarrow> int \<Rightarrow> auth_error option" where
  "VerifyAuth token presented timestamp now skew0 =
     (if token = [] then None
      else
        let skew = (if skew0 \<le> 0 then DefaultAuthSkew else skew0);
            drift0 = time_Sub now (time_Unix timestamp);
            drift = (if drift0 < 0 then neg_duration drift0 else drift0) in
        if skew < drift then Some ErrAuthFailed
        else if AuthKey token timestamp \<noteq> presented then Some ErrAuthFailed
        else None)"

datatype version_error = ErrVersionMismatch int

definition CheckVersion :: "int \<Rightarrow> version_error option" where
  "CheckVersion peer = (if peer \<noteq> Version then Some (ErrVersionMismatch peer) else None)"

definition NewRunID :: "bytes option \<Rightarrow> string option" where
  "NewRunID random = map_option hex_encode random"

section \<open>The preamble\<close>

definition Magic :: bytes where "Magic = ''OFRP''"

definition ModePlain :: nat where "ModePlain = 1"
definition ModeMux :: nat where "ModeMux = 2"

definition modeNames :: "(nat \<times> string) list" where
  "modeNames = [(ModePlain, ''plain''), (ModeMux, ''mux'')]"

definition Mode_String :: "nat \<Rightarrow> string" where
  "Mode_String m = (case map_of modeNames m of Some n \<Rightarrow> n | None \<Rightarrow> ''Mode('' @ nat_text m @ '')'')"

definition Mode_Valid :: "nat \<Rightarrow> bool" where
  "Mode_Valid m = (map_of modeNames m \<noteq> None)"

definition preambleSize :: nat where "preambleSize = length Magic + 2"

record Preamble =
  pa_Version :: nat
  pa_Mode :: nat

definition preamble_bytes :: "Preamble \<Rightarrow> bytes" where
  "preamble_bytes p = Magic @ [nat_byte (pa_Version p), nat_byte (pa_Mode p)]"

definition WriteGreeting :: "writer \<Rightarrow> Preamble \<Rightarrow> message \<Rightarrow> codec_error option \<times> writer" where
  "WriteGreeting w p m = (case encode m of
      Inl e \<Rightarrow> (Some e, w)
    | Inr frame \<Rightarrow> (case write_bytes w (preamble_bytes p @ frame) of
         (Some e, w') \<Rightarrow> (Some (WriteError (message_type m) e), w')
       | (None, w') \<Rightarrow> (None, w')))"

definition WritePreamble :: "writer \<Rightarrow> Preamble \<Rightarrow> io_error option \<times> writer" where
  "WritePreamble w p = write_bytes w (preamble_bytes p)"

datatype preamble_error =
    PreambleRead io_error
  | BadMagic bytes
  | PreambleVersion version_error
  | UnknownMode nat

definition ReadPreamble :: "reader \<Rightarrow> (preamble_error + Preamble) \<times> reader" where
  "ReadPreamble r = (case read_full preambleSize r of
      (_, Some e, r') \<Rightarrow> (Inl (PreambleRead e), r')
    | (buf, None, r') \<Rightarrow>
        if take (length Magic) buf \<noteq> Magic then (Inl (BadMagic (take (length Magic) buf)), r')
        else
          let p = \<lparr>pa_Version = byte_nat (buf ! length Magic),
                   pa_Mode = byte_nat (buf ! (length Magic + 1))\<rparr> in
          case CheckVersion (int (pa_Version p)) of
            Some e \<Rightarrow> (Inl (PreambleVersion e), r')
          | None \<Rightarrow> if \<not> Mode_Valid (pa_Mode p) then (Inl (UnknownMode (pa_Mode p)), r')
                    else (Inr p, r'))"

section \<open>Facts\<close>

lemma length_AuthKey: "length (AuthKey token ts) = 64"
  by (simp add: AuthKey_def length_hmac)

lemma NewRunID_length: "length b = 16 \<Longrightarrow> NewRunID (Some b) = Some s \<Longrightarrow> length s = 32"
  by (auto simp: NewRunID_def)

text \<open>The age of a timestamp at an instant, in nanoseconds.\<close>

definition age :: "go_time \<Rightarrow> int \<Rightarrow> int" where
  "age now timestamp = time_nanos now - time_nanos (time_Unix timestamp)"

lemma ReadPreamble_whole:
  assumes "clean r" "reader_data r = Magic @ [nat_byte v, nat_byte m] @ rest" "v < 256" "m < 256"
  obtains r' where "clean r'" "reader_data r' = rest"
    "ReadPreamble r = ((if int v \<noteq> Version then Inl (PreambleVersion (ErrVersionMismatch (int v)))
        else if \<not> Mode_Valid m then Inl (UnknownMode m)
        else Inr \<lparr>pa_Version = v, pa_Mode = m\<rparr>), r')"
proof -
  have size: "preambleSize = 6" by (simp add: preambleSize_def Magic_def)
  obtain r' where rd: "read_full 6 r = (take 6 (reader_data r), None, r')" "clean r'"
    "reader_data r' = drop 6 (reader_data r)"
    using clean_read_full [OF assms(1), of 6] assms(2) by (auto simp: Magic_def)
  with assms show thesis
    by (intro that [of r'])
      (simp_all add: ReadPreamble_def size Magic_def CheckVersion_def Let_def)
qed

section \<open>Properties\<close>


definition sample_now :: go_time where
  "sample_now = \<lparr>gt_sec = unixToInternal + 1700000000, gt_nsec = 5\<rparr>"


text \<open>A timestamp more than 292 years in the future is never stale: the difference saturates
  at the smallest duration, negating it wraps to itself, and a negative drift is below every
  skew. Whoever holds a key for such a timestamp can replay it for ever.\<close>

theorem verify_auth_far_future:
  assumes "age now timestamp \<le> minDuration"
  shows "VerifyAuth token presented timestamp now skew = None \<longleftrightarrow>
    token = [] \<or> presented = AuthKey token timestamp"
proof -
  have "time_Sub now (time_Unix timestamp) = minDuration"
    using assms by (simp add: age_def time_Sub_far)
  moreover have "minDuration < DefaultAuthSkew" "minDuration < 0"
    by (simp_all add: minDuration_def DefaultAuthSkew_def Minute_def Second_def)
  ultimately show ?thesis by (auto simp: VerifyAuth_def Let_def neg_minDuration)
qed

theorem verify_auth_far_future_witness:
  "VerifyAuth ''secret'' (AuthKey ''secret'' 20000000000) 20000000000 sample_now 1 = None"
proof -
  have "age sample_now 20000000000 \<le> minDuration"
    by (simp add: age_def time_nanos_def time_Unix_def sample_now_def unixToInternal_def Second_def
        i64_wrap_def minDuration_def)
  from verify_auth_far_future [OF this] show ?thesis by simp
qed

text \<open>What a client opens a connection with is what the server reads: after a greeting the
  preamble comes back with its mode, then the message, and the connection stands right behind it,
  whatever the chunks; and a preamble of another version or an unknown mode is refused.\<close>

theorem greeting_roundtrip:
  assumes "message_ok m" "is_ok (encode m)" "pa_Version p < 256" "pa_Mode p < 256"
    and "clean r" "reader_data r = w_out (snd (WriteGreeting \<lparr>w_out = [], w_script = []\<rparr> p m)) @ rest"
  shows "\<exists>r1. ReadPreamble r =
      ((if int (pa_Version p) \<noteq> Version
        then Inl (PreambleVersion (ErrVersionMismatch (int (pa_Version p))))
        else if pa_Mode p \<noteq> ModePlain \<and> pa_Mode p \<noteq> ModeMux then Inl (UnknownMode (pa_Mode p))
        else Inr p), r1)
    \<and> (\<exists>r2. ReadMessage r1 = (Inr m, r2) \<and> reader_data r2 = rest)"
proof -
  obtain f where f: "encode m = Inr f" using assms(2) by (cases "encode m") auto
  have data: "reader_data r = Magic @ [nat_byte (pa_Version p), nat_byte (pa_Mode p)] @ (f @ rest)"
    using assms(6) f by (simp add: WriteGreeting_def write_bytes_def preamble_bytes_def)
  have mode: "Mode_Valid (pa_Mode p) \<longleftrightarrow> pa_Mode p = ModePlain \<or> pa_Mode p = ModeMux"
    by (auto simp: Mode_Valid_def modeNames_def)
  obtain r1 where r1: "clean r1" "reader_data r1 = f @ rest" and eq: "ReadPreamble r =
      ((if int (pa_Version p) \<noteq> Version
        then Inl (PreambleVersion (ErrVersionMismatch (int (pa_Version p))))
        else if \<not> Mode_Valid (pa_Mode p) then Inl (UnknownMode (pa_Mode p))
        else Inr \<lparr>pa_Version = pa_Version p, pa_Mode = pa_Mode p\<rparr>), r1)"
    using ReadPreamble_whole [OF assms(5) data assms(3,4)] by metis
  obtain r2 where "ReadMessage r1 = (Inr m, r2)" "reader_data r2 = rest"
    using ReadMessage_encoded [OF assms(1) f r1] by metis
  with eq show ?thesis by (auto simp: mode)
qed

theorem greeting_roundtrip_witness:
  "\<exists>r1. ReadPreamble (byte_chunks (w_out (snd (WriteGreeting \<lparr>w_out = [], w_script = []\<rparr>
      \<lparr>pa_Version = 1, pa_Mode = 1\<rparr> (MPing 7))) @ ''tail''))
    = (Inr \<lparr>pa_Version = 1, pa_Mode = 1\<rparr>, r1)
    \<and> (\<exists>r2. ReadMessage r1 = (Inr (MPing 7), r2) \<and> reader_data r2 = ''tail'')"
proof -
  have ok: "message_ok (MPing 7)" "is_ok (encode (MPing 7))"
    by (simp_all add: int64_ok_def encode_def Let_def json_Marshal_def always_def quoted_def
        quote_body_ascii escape_ascii_def byte_nat_def jint_def int_text_def nat_text.simps
        MaxMessageSize_def)
  show ?thesis
    using greeting_roundtrip [OF ok _ _ byte_chunks_facts(1) byte_chunks_facts(2),
        of "\<lparr>pa_Version = 1, pa_Mode = 1\<rparr>" "''tail''"]
    by (simp add: Version_def ModePlain_def)
qed

end
