(* ===== verification/Proto_Udp.thy ===== *)
theory Proto_Udp
  imports Proto_Codec
begin

text \<open>
  Datagrams over a stream: \<^verbatim>\<open>internal/tunnel/protocol/udp.go\<close>. A frame is two bytes of payload
  length, one byte of address length, the address and the payload. \<open>ReadUDPPacketInto\<close> reads into
  a caller's buffer and returns slices of it; \<open>ReadUDPPacket\<close> allocates. The buffer of the first is
  given by its length, the slices by their contents.
\<close>

section \<open>Operations\<close>

definition udpHeaderSize :: nat where "udpHeaderSize = 3"
definition MaxUDPPayload :: nat where "MaxUDPPayload = 65507"
definition maxUDPAddr :: nat where "maxUDPAddr = 255"
definition MaxUDPFrame :: nat where "MaxUDPFrame = udpHeaderSize + maxUDPAddr + MaxUDPPayload"

lemmas udp_consts = udpHeaderSize_def MaxUDPPayload_def maxUDPAddr_def MaxUDPFrame_def

record UDPPacket =
  up_Addr :: string
  up_Payload :: bytes

datatype udp_error =
    PayloadTooLong nat
  | AddrTooLong nat
  | UdpWrite io_error
  | ScratchTooSmall nat
  | UdpEOF
  | UdpHeader io_error
  | ClaimsTooMuch nat
  | UdpBody io_error

definition AppendUDPPacket :: "bytes \<Rightarrow> string \<Rightarrow> bytes \<Rightarrow> udp_error option \<times> bytes" where
  "AppendUDPPacket dst addr payload =
     (if MaxUDPPayload < length payload then (Some (PayloadTooLong (length payload)), dst)
      else if maxUDPAddr < length addr then (Some (AddrTooLong (length addr)), dst)
      else (None, dst @ (be16 (length payload) @ [nat_byte (length addr)]) @ addr @ payload))"

definition WriteUDPPacket :: "writer \<Rightarrow> UDPPacket \<Rightarrow> udp_error option \<times> writer" where
  "WriteUDPPacket w packet = (case AppendUDPPacket [] (up_Addr packet) (up_Payload packet) of
      (Some e, _) \<Rightarrow> (Some e, w)
    | (None, frame) \<Rightarrow> (case write_bytes w frame of
         (Some e, w') \<Rightarrow> (Some (UdpWrite e), w')
       | (None, w') \<Rightarrow> (None, w')))"

definition ReadUDPPacketInto :: "nat \<Rightarrow> reader \<Rightarrow> (udp_error + bytes \<times> bytes) \<times> reader" where
  "ReadUDPPacketInto scratch r =
     (if scratch < MaxUDPFrame then (Inl (ScratchTooSmall scratch), r)
      else case read_full udpHeaderSize r of
        (_, Some e, r1) \<Rightarrow> (Inl (if e = EOF then UdpEOF else UdpHeader e), r1)
      | (hdr, None, r1) \<Rightarrow>
          let payloadLen = be_nat (take 2 hdr); addrLen = byte_nat (hdr ! 2) in
          if MaxUDPPayload < payloadLen then (Inl (ClaimsTooMuch payloadLen), r1)
          else case read_full (addrLen + payloadLen) r1 of
            (_, Some e, r2) \<Rightarrow> (Inl (UdpBody e), r2)
          | (body, None, r2) \<Rightarrow> (Inr (take addrLen body, drop addrLen body), r2))"

definition ReadUDPPacket :: "reader \<Rightarrow> (udp_error + UDPPacket) \<times> reader" where
  "ReadUDPPacket r = (case read_full udpHeaderSize r of
      (_, Some e, r1) \<Rightarrow> (Inl (if e = EOF then UdpEOF else UdpHeader e), r1)
    | (hdr, None, r1) \<Rightarrow>
        let payloadLen = be_nat (take 2 hdr); addrLen = byte_nat (hdr ! 2) in
        if MaxUDPPayload < payloadLen then (Inl (ClaimsTooMuch payloadLen), r1)
        else case (if 0 < addrLen then read_full addrLen r1 else ([], None, r1)) of
          (_, Some e, r2) \<Rightarrow> (Inl (UdpBody e), r2)
        | (addr, None, r2) \<Rightarrow>
            (case (if 0 < payloadLen then read_full payloadLen r2 else ([], None, r2)) of
               (_, Some e, r3) \<Rightarrow> (Inl (UdpBody e), r3)
             | (payload, None, r3) \<Rightarrow> (Inr \<lparr>up_Addr = addr, up_Payload = payload\<rparr>, r3)))"

section \<open>Reading what was appended\<close>

definition udp_frame :: "string \<Rightarrow> bytes \<Rightarrow> bytes" where
  "udp_frame addr payload = be16 (length payload) @ [nat_byte (length addr)] @ addr @ payload"

definition udp_ok :: "string \<Rightarrow> bytes \<Rightarrow> bool" where
  "udp_ok addr payload \<longleftrightarrow> length payload \<le> MaxUDPPayload \<and> length addr \<le> maxUDPAddr"

lemma AppendUDPPacket_ok:
  "udp_ok addr payload \<Longrightarrow> AppendUDPPacket dst addr payload = (None, dst @ udp_frame addr payload)"
  by (simp add: AppendUDPPacket_def udp_ok_def udp_frame_def)

lemma udp_header:
  assumes "clean r" "reader_data r = udp_frame addr payload @ rest" "udp_ok addr payload"
  obtains r1 where "read_full udpHeaderSize r = (be16 (length payload) @ [nat_byte (length addr)], None, r1)"
    "clean r1" "reader_data r1 = addr @ payload @ rest"
    "be_nat (take 2 (be16 (length payload) @ [nat_byte (length addr)])) = length payload"
    "byte_nat ((be16 (length payload) @ [nat_byte (length addr)]) ! 2) = length addr"
proof -
  obtain r1 where r1: "read_full 3 r = (take 3 (reader_data r), None, r1)" "clean r1"
    "reader_data r1 = drop 3 (reader_data r)"
    using clean_read_full [OF assms(1), of 3] assms(2) by (auto simp: udp_frame_def)
  have "be_nat (be16 (length payload)) = length payload"
    using assms(3) by (intro be_nat_be16) (simp add: udp_ok_def udp_consts)
  then show thesis
    using r1 assms(2,3)
    by (intro that [of r1]) (simp_all add: udp_frame_def udp_ok_def udp_consts nth_append)
qed

lemma ReadUDPPacketInto_frame:
  assumes "clean r" "reader_data r = udp_frame addr payload @ rest" "udp_ok addr payload"
    and "MaxUDPFrame \<le> scratch"
  obtains r' where "ReadUDPPacketInto scratch r = (Inr (addr, payload), r')" "clean r'" "reader_data r' = rest"
proof -
  obtain r1 where r1: "read_full udpHeaderSize r = (be16 (length payload) @ [nat_byte (length addr)], None, r1)"
    "clean r1" "reader_data r1 = addr @ payload @ rest"
    "be_nat (take 2 (be16 (length payload) @ [nat_byte (length addr)])) = length payload"
    "byte_nat ((be16 (length payload) @ [nat_byte (length addr)]) ! 2) = length addr"
    using udp_header [OF assms(1-3)] by blast
  obtain r2 where "read_full (length addr + length payload) r1 = (addr @ payload, None, r2)" "clean r2"
    "reader_data r2 = rest"
    using clean_read_full [OF r1(2), of "length addr + length payload"] r1(3) by auto
  with r1 assms(3,4) show thesis
    by (intro that [of r2]) (simp_all add: ReadUDPPacketInto_def Let_def udp_ok_def)
qed

lemma ReadUDPPacket_frame:
  assumes "clean r" "reader_data r = udp_frame addr payload @ rest" "udp_ok addr payload"
  obtains r' where "ReadUDPPacket r = (Inr \<lparr>up_Addr = addr, up_Payload = payload\<rparr>, r')"
    "clean r'" "reader_data r' = rest"
proof -
  obtain r1 where r1: "read_full udpHeaderSize r = (be16 (length payload) @ [nat_byte (length addr)], None, r1)"
    "clean r1" "reader_data r1 = addr @ payload @ rest"
    "be_nat (take 2 (be16 (length payload) @ [nat_byte (length addr)])) = length payload"
    "byte_nat ((be16 (length payload) @ [nat_byte (length addr)]) ! 2) = length addr"
    using udp_header [OF assms] by blast
  obtain r2 where r2: "read_full (length addr) r1 = (addr, None, r2)" "clean r2"
    "reader_data r2 = payload @ rest"
    using clean_read_full [OF r1(2), of "length addr"] r1(3) by auto
  obtain r3 where "read_full (length payload) r2 = (payload, None, r3)" "clean r3" "reader_data r3 = rest"
    using clean_read_full [OF r2(2), of "length payload"] r2(3) by auto
  with r1 r2 assms(3) show thesis
    by (intro that) (simp_all add: ReadUDPPacket_def Let_def udp_ok_def read_full_if del: length_greater_0_conv)
qed

section \<open>Properties\<close>

text \<open>A run of datagrams framed one after the other, and reading them back.\<close>

fun append_all :: "bytes \<Rightarrow> (string \<times> bytes) list \<Rightarrow> bytes" where
  "append_all dst [] = dst"
| "append_all dst ((a, p) # ps) = append_all (snd (AppendUDPPacket dst a p)) ps"

fun read_packets :: "nat \<Rightarrow> reader \<Rightarrow> nat \<Rightarrow> (udp_error + bytes \<times> bytes) list \<times> reader" where
  "read_packets scratch r 0 = ([], r)"
| "read_packets scratch r (Suc n) = (case ReadUDPPacketInto scratch r of
     (res, r') \<Rightarrow> (case read_packets scratch r' n of (rs, r'') \<Rightarrow> (res # rs, r'')))"

lemma append_all_frames:
  "list_all (\<lambda>(a, p). udp_ok a p) ps \<Longrightarrow> append_all dst ps = dst @ concat (map (\<lambda>(a, p). udp_frame a p) ps)"
  by (induction dst ps rule: append_all.induct) (simp_all add: AppendUDPPacket_ok)

text \<open>Datagrams keep their boundaries across the tunnel's byte stream: whatever packets are
  framed one after the other, each with a source address of up to 255 bytes and a payload of up to
  65507, reading returns the same packets in the same order and stops behind the last, however
  the stream is cut; the allocating reader returns the same as the buffered one.\<close>

theorem udp_stream_roundtrip:
  assumes "list_all (\<lambda>(a, p). udp_ok a p) ps" "MaxUDPFrame \<le> scratch"
    and "clean r" "reader_data r = append_all [] ps @ rest"
  shows "fst (read_packets scratch r (length ps)) = map Inr ps
    \<and> reader_data (snd (read_packets scratch r (length ps))) = rest
    \<and> (\<forall>a p qs. ps = (a, p) # qs \<longrightarrow> fst (ReadUDPPacket r) = Inr \<lparr>up_Addr = a, up_Payload = p\<rparr>)"
proof -
  have "fst (read_packets scratch r (length ps)) = map Inr ps
      \<and> reader_data (snd (read_packets scratch r (length ps))) = rest"
    if "list_all (\<lambda>(a, p). udp_ok a p) ps" "clean r"
      "reader_data r = concat (map (\<lambda>(a, p). udp_frame a p) ps) @ rest" for r
    using that
  proof (induction ps arbitrary: r)
    case Nil
    then show ?case by simp
  next
    case (Cons q ps)
    obtain a p where q: "q = (a, p)" by (cases q)
    obtain r' where r': "ReadUDPPacketInto scratch r = (Inr (a, p), r')" "clean r'"
      "reader_data r' = concat (map (\<lambda>(a, p). udp_frame a p) ps) @ rest"
      using ReadUDPPacketInto_frame [of r a p "concat (map (\<lambda>(a, p). udp_frame a p) ps) @ rest"]
        Cons.prems q assms(2) by auto
    with Cons.IH [OF _ r'(2,3)] Cons.prems q show ?case by (auto split: prod.splits)
  qed
  moreover have "fst (ReadUDPPacket r) = Inr \<lparr>up_Addr = a, up_Payload = p\<rparr>" if "ps = (a, p) # qs" for a p qs
  proof -
    have "reader_data r = udp_frame a p @ concat (map (\<lambda>(a, p). udp_frame a p) qs) @ rest"
      using append_all_frames [OF assms(1), of "[]"] assms(4) that by simp
    moreover have "udp_ok a p" using assms(1) that by simp
    ultimately obtain r' where "ReadUDPPacket r = (Inr \<lparr>up_Addr = a, up_Payload = p\<rparr>, r')"
      using ReadUDPPacket_frame [OF assms(3)] by metis
    then show ?thesis by simp
  qed
  ultimately show ?thesis using assms append_all_frames [OF assms(1)] by auto
qed

theorem udp_stream_roundtrip_witness:
  "let ps = [(''1.2.3.4:5'', ''query''), ([], [])] in
   fst (read_packets MaxUDPFrame (byte_chunks (append_all [] ps @ ''z'')) (length ps)) = map Inr ps
   \<and> reader_data (snd (read_packets MaxUDPFrame (byte_chunks (append_all [] ps @ ''z'')) (length ps))) = ''z''"
  unfolding Let_def
  using udp_stream_roundtrip [of "[(''1.2.3.4:5'', ''query''), ([], [])]" MaxUDPFrame
      "byte_chunks (append_all [] [(''1.2.3.4:5'', ''query''), ([], [])] @ ''z'')" "''z''"]
  by (simp only: byte_chunks_facts list.pred_inject case_prod_conv)
    (simp add: udp_ok_def udp_consts)

text \<open>A frame never makes the reader overrun its buffer: an oversized packet is refused when it
  is framed, leaving the buffer as it was; a header that claims more than the maximum payload is
  refused before the body is read; and everything else fits the largest frame.\<close>

theorem udp_bounds:
  shows "(fst (AppendUDPPacket dst addr payload) = None \<longleftrightarrow> udp_ok addr payload)
    \<and> (\<not> udp_ok addr payload \<longrightarrow> snd (AppendUDPPacket dst addr payload) = dst)
    \<and> (udp_ok addr payload \<longrightarrow>
        length (snd (AppendUDPPacket dst addr payload)) \<le> length dst + MaxUDPFrame)
    \<and> (\<forall>a p. fst (ReadUDPPacketInto scratch r) = Inr (a, p) \<longrightarrow>
        MaxUDPFrame \<le> scratch \<and> udp_ok a p \<and> udpHeaderSize + length a + length p \<le> scratch)"
proof -
  have "MaxUDPFrame \<le> scratch \<and> udp_ok a p \<and> udpHeaderSize + length a + length p \<le> scratch"
    if read: "fst (ReadUDPPacketInto scratch r) = Inr (a, p)" for a p
  proof -
    from read obtain hdr r1 body r2 where "MaxUDPFrame \<le> scratch"
      and "read_full udpHeaderSize r = (hdr, None, r1)"
      and pl: "be_nat (take 2 hdr) \<le> MaxUDPPayload"
      and body: "read_full (byte_nat (hdr ! 2) + be_nat (take 2 hdr)) r1 = (body, None, r2)"
      and ap: "a = take (byte_nat (hdr ! 2)) body" "p = drop (byte_nat (hdr ! 2)) body"
      by (auto simp: ReadUDPPacketInto_def Let_def not_less split: if_splits prod.splits option.splits)
    moreover have "length body = byte_nat (hdr ! 2) + be_nat (take 2 hdr)"
      by (rule read_full_length [OF body])
    moreover have "byte_nat (hdr ! 2) \<le> 255" using byte_nat_less [of "hdr ! 2"] by (simp del: byte_nat_less)
    ultimately show ?thesis by (auto simp: udp_ok_def udp_consts)
  qed
  then show ?thesis
    by (auto simp: AppendUDPPacket_def udp_ok_def udp_consts)
qed

theorem udp_bounds_witness:
  "fst (AppendUDPPacket [] (replicate 256 CHR ''a'') []) \<noteq> None
   \<and> snd (AppendUDPPacket ''kept'' (replicate 256 CHR ''a'') []) = ''kept''"
  using udp_bounds [of "[]" "replicate 256 CHR ''a''" "[]"] udp_bounds [of "''kept''" "replicate 256 CHR ''a''" "[]"]
  by (simp add: udp_ok_def udp_consts)

end
