(* ===== verification/Srv_Challenge.thy ===== *)
theory Srv_Challenge
  imports Go_Strings Go_Time Proto_Codec
begin

text \<open>
  The ACME challenges a server answers for its clients:
  \<^verbatim>\<open>internal/tunnel/server/challenge.go\<close>. Each method runs under the store's lock, so it is one
  step on the map from tokens to challenges; the current time is an argument.
\<close>

section \<open>Operations\<close>

definition challengePrefix :: string where "challengePrefix = ''/.well-known/acme-challenge/''"
definition challengeTTL :: int where "challengeTTL = Hour"

record challenge =
  ch_keyAuth :: string
  ch_domain :: string
  ch_runID :: string
  ch_deadline :: go_time

type_synonym challenge_store = "(string, challenge) gomap"

definition NewChallengeStore :: challenge_store where
  "NewChallengeStore = []"

datatype challenge_error = ChallengeIncomplete | UnusableToken string

definition expireLocked :: "go_time \<Rightarrow> challenge_store \<Rightarrow> challenge_store" where
  "expireLocked now s = filter (\<lambda>(token, existing). \<not> time_After now (ch_deadline existing)) s"

definition Challenge_Publish ::
  "go_time \<Rightarrow> challenge_store \<Rightarrow> string \<Rightarrow> string \<Rightarrow> string \<Rightarrow> string \<Rightarrow> challenge_error option \<times> challenge_store" where
  "Challenge_Publish now s runID domain token keyAuth =
     (if token = [] \<or> keyAuth = [] then (Some ChallengeIncomplete, s)
      else if contains_any token [CHR ''/'', CHR ''?'', CHR ''#'', CHR 0x5C, CHR '' ''] then (Some (UnusableToken token), s)
      else (None, AList.update token
        \<lparr>ch_keyAuth = keyAuth, ch_domain = domain, ch_runID = runID, ch_deadline = time_Add now challengeTTL\<rparr>
        (expireLocked now s)))"

definition Challenge_Withdraw :: "challenge_store \<Rightarrow> string \<Rightarrow> string \<Rightarrow> challenge_store" where
  "Challenge_Withdraw s runID token = (case map_of s token of
      Some existing \<Rightarrow> if ch_runID existing = runID then AList.delete token s else s
    | None \<Rightarrow> s)"

definition Challenge_Answer :: "go_time \<Rightarrow> challenge_store \<Rightarrow> string \<Rightarrow> string option" where
  "Challenge_Answer now s path =
     (if \<not> has_prefix challengePrefix path then None
      else
        let token = trim_prefix challengePrefix path in
        if token = [] \<or> contains token ''/'' then None
        else case map_of s token of
               None \<Rightarrow> None
             | Some found \<Rightarrow> if time_After now (ch_deadline found) then None else Some (ch_keyAuth found))"

definition Challenge_Len :: "challenge_store \<Rightarrow> nat" where
  "Challenge_Len s = length s"

definition answer_text :: "string \<Rightarrow> bytes" where
  "answer_text keyAuth =
     ''HTTP/1.1 200 OK'' @ [CHR 0x0D, CHR 0x0A] @ ''Content-Type: text/plain'' @ [CHR 0x0D, CHR 0x0A]
     @ ''Content-Length: '' @ nat_text (length keyAuth) @ [CHR 0x0D, CHR 0x0A]
     @ ''Connection: close'' @ [CHR 0x0D, CHR 0x0A, CHR 0x0D, CHR 0x0A] @ keyAuth"

definition answerChallenge :: "writer \<Rightarrow> string \<Rightarrow> writer" where
  "answerChallenge w keyAuth = snd (write_bytes w (answer_text keyAuth))"

section \<open>Properties\<close>

lemma map_of_expire:
  assumes "gomap_ok s"
  shows "map_of (expireLocked now s) t =
    (case map_of s t of None \<Rightarrow> None | Some c \<Rightarrow> if time_After now (ch_deadline c) then None else Some c)"
  using map_of_filter_gomap [OF assms, of "\<lambda>(token, existing). \<not> time_After now (ch_deadline existing)" t]
  by (simp add: expireLocked_def split: option.splits)

lemma challenge_ok [inv_intros]:
  assumes "gomap_ok s"
  shows "gomap_ok (expireLocked now s)" "gomap_ok (snd (Challenge_Publish now s runID domain token keyAuth))"
    "gomap_ok (Challenge_Withdraw s runID token)"
  using assms by (auto simp: expireLocked_def Challenge_Publish_def Challenge_Withdraw_def split: option.splits)

lemma Answer_path:
  "Challenge_Answer now s (challengePrefix @ token) =
    (if token = [] \<or> CHR ''/'' \<in> set token then None
     else case map_of s token of None \<Rightarrow> None
       | Some c \<Rightarrow> if time_After now (ch_deadline c) then None else Some (ch_keyAuth c))"
  by (simp add: Challenge_Answer_def Let_def contains_single)

lemma Publish_ok:
  "fst (Challenge_Publish now s runID domain token keyAuth) = None \<longleftrightarrow>
    token \<noteq> [] \<and> keyAuth \<noteq> [] \<and> (\<forall>c \<in> set token. c \<notin> {CHR ''/'', CHR ''?'', CHR ''#'', CHR 0x5C, CHR '' ''})"
  by (auto simp: Challenge_Publish_def contains_any_iff)

text \<open>A published challenge is answered until an hour has passed or its own client withdraws it:
  right after a successful publish the token's path gives its key authorisation, at every instant
  up to the deadline and not after it; the answers to other tokens are unchanged as long as they had
  not expired; and a withdrawal by another client removes nothing, one by the owner ends the
  answer. A refused publish changes nothing.\<close>

theorem challenge_lifecycle:
  assumes "gomap_ok s"
    and "Challenge_Publish now s runID domain token keyAuth = (err, s')"
  shows "if err = None then
      (\<forall>at. Challenge_Answer at s' (challengePrefix @ token) =
         (if time_nanos at \<le> time_nanos now + Hour then Some keyAuth else None))
      \<and> (\<forall>at t. t \<noteq> token \<and> time_nanos now \<le> time_nanos at \<longrightarrow>
           Challenge_Answer at s' (challengePrefix @ t) = Challenge_Answer at s (challengePrefix @ t))
      \<and> (\<forall>at t other. other \<noteq> runID \<longrightarrow>
           Challenge_Answer at (Challenge_Withdraw s' other token) (challengePrefix @ t)
             = Challenge_Answer at s' (challengePrefix @ t))
      \<and> (\<forall>at. Challenge_Answer at (Challenge_Withdraw s' runID token) (challengePrefix @ token) = None)
    else s' = s"
proof (cases "err = None")
  case True
  with assms(2) Publish_ok [of now s runID domain token keyAuth]
  have tok: "token \<noteq> []" "CHR ''/'' \<notin> set token" by auto
  let ?c = "\<lparr>ch_keyAuth = keyAuth, ch_domain = domain, ch_runID = runID, ch_deadline = time_Add now challengeTTL\<rparr>"
  have s': "s' = AList.update token ?c (expireLocked now s)"
    using assms(2) True by (auto simp: Challenge_Publish_def split: if_splits)
  have other: "Challenge_Answer at s' (challengePrefix @ t) = Challenge_Answer at s (challengePrefix @ t)"
    if "t \<noteq> token" "time_nanos now \<le> time_nanos at" for at t
    using that by (auto simp: Answer_path s' map_of_expire [OF assms(1)] time_After_def split: option.splits)
  show ?thesis
    using True tok other
    by (auto simp: Answer_path s' Challenge_Withdraw_def time_After_def challengeTTL_def not_less)
next
  case False
  with assms(2) show ?thesis by (auto simp: Challenge_Publish_def split: if_splits)
qed

theorem challenge_lifecycle_witness:
  "let s = snd (Challenge_Publish (time_Unix 100) NewChallengeStore ''run'' ''a.example'' ''tok'' ''tok.key'') in
   Challenge_Answer (time_Unix 3000) s (challengePrefix @ ''tok'') = Some ''tok.key''
   \<and> Challenge_Answer (time_Unix 3000) (Challenge_Withdraw s ''other'' ''tok'') (challengePrefix @ ''tok'') = Some ''tok.key''"
proof -
  have pub: "fst (Challenge_Publish (time_Unix 100) NewChallengeStore ''run'' ''a.example'' ''tok'' ''tok.key'') = None"
    by (simp add: Publish_ok)
  have t: "time_nanos (time_Unix 3000) \<le> time_nanos (time_Unix 100) + Hour"
    by (simp add: time_nanos_def time_Unix_def i64_wrap_def unixToInternal_def Hour_def Minute_def Second_def)
  show ?thesis
    using challenge_lifecycle [of NewChallengeStore "time_Unix 100" "''run''" "''a.example''" "''tok''" "''tok.key''"]
      pub t by (cases "Challenge_Publish (time_Unix 100) NewChallengeStore ''run'' ''a.example'' ''tok'' ''tok.key''")
      (auto simp: NewChallengeStore_def)
qed

end
