(* ===== verification/Srv_CertStore.thy ===== *)
theory Srv_CertStore
  imports Vhost_Trie Go_Time
begin

text \<open>
  The certificates a server terminates TLS with:
  \<^verbatim>\<open>internal/tunnel/server/certstore.go\<close>. What \<^verbatim>\<open>tls.X509KeyPair\<close> and
  \<^verbatim>\<open>x509.ParseCertificate\<close> make of the PEM data is the argument \<open>x509_env\<close>: whether chain and key
  belong together, and the names and expiry of the leaf. A stored certificate is identified by its
  chain and key.
\<close>

section \<open>Operations\<close>

record leaf =
  lf_DNSNames :: "string list"
  lf_NotAfter :: go_time

record x509_env =
  x5_pair :: "bytes \<Rightarrow> bytes \<Rightarrow> bool"
  x5_leaf :: "bytes \<Rightarrow> leaf option"

record storedCert =
  sc_pattern :: string
  sc_certificate :: "bytes \<times> bytes"
  sc_notAfter :: go_time
  sc_domains :: "string list"

record certTable =
  ct_exact :: "(string, storedCert) gomap"
  ct_wildcards :: "(string, storedCert) gomap"
  ct_count :: nat

record CertStore =
  cs_current :: certTable
  cs_certs :: "(string, storedCert) gomap"

datatype cert_error =
    NotAPair
  | UnparsableLeaf
  | NoDNSNames
  | CertExpired go_time
  | NoSNI
  | NotCovered string

definition NewCertStore :: CertStore where
  "NewCertStore = \<lparr>cs_current = \<lparr>ct_exact = [], ct_wildcards = [], ct_count = 0\<rparr>, cs_certs = []\<rparr>"

definition cert_name :: "text_env \<Rightarrow> string \<Rightarrow> string" where
  "cert_name env name = to_lower (unicode_lower env) (trim_suffix ''.'' name)"

text \<open>\<open>rebuild_certs\<close> is the loop of \<^verbatim>\<open>rebuildLocked\<close> over the map.\<close>

fun rebuild_certs :: "(string, storedCert) gomap \<Rightarrow> certTable \<Rightarrow> certTable" where
  "rebuild_certs [] next_table = next_table"
| "rebuild_certs ((pattern, entry) # rest) next_table =
     rebuild_certs rest
       (if has_prefix ''*.'' pattern
        then next_table\<lparr>ct_wildcards := AList.update (drop 2 pattern) entry (ct_wildcards next_table),
                        ct_count := ct_count next_table + 1\<rparr>
        else next_table\<lparr>ct_exact := AList.update pattern entry (ct_exact next_table),
                        ct_count := ct_count next_table + 1\<rparr>)"

definition CertStore_rebuildLocked :: "CertStore \<Rightarrow> CertStore" where
  "CertStore_rebuildLocked s =
     s\<lparr>cs_current := rebuild_certs (cs_certs s) \<lparr>ct_exact = [], ct_wildcards = [], ct_count = 0\<rparr>\<rparr>"

fun install_names :: "text_env \<Rightarrow> (bytes \<times> bytes) \<Rightarrow> leaf \<Rightarrow> string list \<Rightarrow>
    (string, storedCert) gomap \<Rightarrow> (string, storedCert) gomap" where
  "install_names env pair lf [] certs = certs"
| "install_names env pair lf (name # rest) certs =
     install_names env pair lf rest
       (AList.update (cert_name env name)
          \<lparr>sc_pattern = cert_name env name, sc_certificate = pair, sc_notAfter = lf_NotAfter lf,
           sc_domains = lf_DNSNames lf\<rparr> certs)"

definition CertStore_Install ::
  "text_env \<Rightarrow> x509_env \<Rightarrow> go_time \<Rightarrow> CertStore \<Rightarrow> bytes \<Rightarrow> bytes \<Rightarrow> (cert_error + string list) \<times> CertStore" where
  "CertStore_Install env x5 now s chain key =
     (if \<not> x5_pair x5 chain key then (Inl NotAPair, s)
      else case x5_leaf x5 chain of
        None \<Rightarrow> (Inl UnparsableLeaf, s)
      | Some lf \<Rightarrow>
          if lf_DNSNames lf = [] then (Inl NoDNSNames, s)
          else if time_After now (lf_NotAfter lf) then (Inl (CertExpired (lf_NotAfter lf)), s)
          else (Inr (map (cert_name env) (lf_DNSNames lf)),
                CertStore_rebuildLocked
                  (s\<lparr>cs_certs := install_names env (chain, key) lf (lf_DNSNames lf) (cs_certs s)\<rparr>)))"

definition GetCertificate :: "text_env \<Rightarrow> CertStore \<Rightarrow> string \<Rightarrow> cert_error + bytes \<times> bytes" where
  "GetCertificate env s serverName =
     (let name = cert_name env serverName in
      if name = [] then Inl NoSNI
      else case map_of (ct_exact (cs_current s)) name of
        Some entry \<Rightarrow> Inr (sc_certificate entry)
      | None \<Rightarrow>
          (case index_byte CHR ''.'' name of
             Some idx \<Rightarrow>
               if 0 < idx then
                 (case map_of (ct_wildcards (cs_current s)) (drop (idx + 1) name) of
                    Some entry \<Rightarrow> Inr (sc_certificate entry)
                  | None \<Rightarrow> Inl (NotCovered name))
               else Inl (NotCovered name)
           | None \<Rightarrow> Inl (NotCovered name)))"

definition CertStore_Has :: "text_env \<Rightarrow> CertStore \<Rightarrow> string \<Rightarrow> bool" where
  "CertStore_Has env s name = is_ok (GetCertificate env s name)"

definition CertStore_Len :: "CertStore \<Rightarrow> nat" where
  "CertStore_Len s = ct_count (cs_current s)"

definition CertStore_Entries :: "CertStore \<Rightarrow> (string \<times> string list \<times> go_time) list" where
  "CertStore_Entries s = map (\<lambda>(pattern, entry). (pattern, sc_domains entry, sc_notAfter entry)) (cs_certs s)"

definition terminationRoute :: "route option \<Rightarrow> bool" where
  "terminationRoute r = (case r of None \<Rightarrow> False | Some r \<Rightarrow> rt_TLSMode r = ''terminate'')"

section \<open>The published table\<close>

lemma star_dot: "has_prefix ''*.'' p \<longleftrightarrow> (\<exists>z. p = CHR ''*'' # CHR ''.'' # z)"
  by (auto simp: has_prefix_iff)

lemma rebuild_certs_spec:
  assumes "gomap_ok cs"
  shows "map_of (ct_exact (rebuild_certs cs t)) n =
      (case map_of cs n of
         Some e \<Rightarrow> if has_prefix ''*.'' n then map_of (ct_exact t) n else Some e
       | None \<Rightarrow> map_of (ct_exact t) n)
    \<and> map_of (ct_wildcards (rebuild_certs cs t)) z =
      (case map_of cs (''*.'' @ z) of Some e \<Rightarrow> Some e | None \<Rightarrow> map_of (ct_wildcards t) z)
    \<and> ct_count (rebuild_certs cs t) = ct_count t + length cs"
  using assms
proof (induction cs arbitrary: t)
  case Nil
  then show ?case by simp
next
  case (Cons c cs)
  obtain p e where c: "c = (p, e)" by (cases c)
  from Cons.prems c have cs: "gomap_ok cs" and fresh: "map_of cs p = None"
    by (simp_all add: gomap_ok_Cons)
  show ?case
  proof (cases "has_prefix ''*.'' p")
    case True
    then obtain y where y: "p = CHR ''*'' # CHR ''.'' # y" by (auto simp: star_dot)
    with Cons.IH [OF cs] c True fresh show ?thesis by (auto split: option.splits)
  next
    case False
    with Cons.IH [OF cs] c fresh show ?thesis by (auto simp: has_prefix_def split: option.splits)
  qed
qed

text \<open>The invariant: the published table is the one built from the map.\<close>

definition certstore_ok :: "CertStore \<Rightarrow> bool" where
  "certstore_ok s \<longleftrightarrow> gomap_ok (cs_certs s) \<and>
     cs_current s = rebuild_certs (cs_certs s) \<lparr>ct_exact = [], ct_wildcards = [], ct_count = 0\<rparr>"

lemma certstore_ok_New [inv_intros]: "certstore_ok NewCertStore"
  by (simp add: certstore_ok_def NewCertStore_def)

lemma install_names_ok [inv_intros]: "gomap_ok m \<Longrightarrow> gomap_ok (install_names env pair lf ns m)"
  by (induction env pair lf ns m rule: install_names.induct) auto

lemma certstore_ok_Install [inv_intros]:
  "certstore_ok s \<Longrightarrow> certstore_ok (snd (CertStore_Install env x5 now s chain key))"
  by (auto simp: CertStore_Install_def certstore_ok_def CertStore_rebuildLocked_def install_names_ok
      split: option.splits)

lemma install_names_lookup:
  "map_of (install_names env pair lf ns m) p =
    (if p \<in> cert_name env ` set ns
     then Some \<lparr>sc_pattern = p, sc_certificate = pair, sc_notAfter = lf_NotAfter lf, sc_domains = lf_DNSNames lf\<rparr>
     else map_of m p)"
  by (induction env pair lf ns m rule: install_names.induct) auto

text \<open>What a server name selects, stated on the map alone: the certificate stored for the name, else
  the one stored for the wildcard over it.\<close>

definition cert_spec :: "text_env \<Rightarrow> (string \<rightharpoonup> storedCert) \<Rightarrow> string \<Rightarrow> cert_error + bytes \<times> bytes" where
  "cert_spec env m serverName =
     (let name = cert_name env serverName in
      if name = [] then Inl NoSNI
      else case m name of
        Some e \<Rightarrow> Inr (sc_certificate e)
      | None \<Rightarrow> (case index_byte CHR ''.'' name of
          None \<Rightarrow> Inl (NotCovered name)
        | Some i \<Rightarrow> if i = 0 then Inl (NotCovered name) else
            (case m (''*.'' @ drop (i + 1) name) of
               Some e \<Rightarrow> Inr (sc_certificate e)
             | None \<Rightarrow> Inl (NotCovered name))))"

lemma GetCertificate_spec:
  assumes "certstore_ok s"
  shows "GetCertificate env s serverName = cert_spec env (map_of (cs_certs s)) serverName"
proof -
  let ?n = "cert_name env serverName"
  have tab: "map_of (ct_exact (cs_current s)) n =
        (case map_of (cs_certs s) n of Some e \<Rightarrow> if has_prefix ''*.'' n then None else Some e | None \<Rightarrow> None)"
      "map_of (ct_wildcards (cs_current s)) z = map_of (cs_certs s) (''*.'' @ z)" for n z
    using assms rebuild_certs_spec [of "cs_certs s" "\<lparr>ct_exact = [], ct_wildcards = [], ct_count = 0\<rparr>"]
    by (auto simp: certstore_ok_def split: option.splits)
  show ?thesis
  proof (cases "has_prefix ''*.'' ?n")
    case True
    then obtain z where "?n = CHR ''*'' # CHR ''.'' # z" by (auto simp: star_dot)
    then show ?thesis
      by (simp add: GetCertificate_def cert_spec_def Let_def tab split: option.splits)
  next
    case False
    then show ?thesis
      by (simp add: GetCertificate_def cert_spec_def Let_def tab split: option.splits)
  qed
qed

section \<open>Properties\<close>

fun install_all :: "text_env \<Rightarrow> x509_env \<Rightarrow> CertStore \<Rightarrow> (go_time \<times> bytes \<times> bytes) list \<Rightarrow> CertStore" where
  "install_all env x5 s [] = s"
| "install_all env x5 s ((now, chain, key) # rest) =
     install_all env x5 (snd (CertStore_Install env x5 now s chain key)) rest"

lemma install_all_ok: "certstore_ok s \<Longrightarrow> certstore_ok (install_all env x5 s is)"
  by (induction env x5 s "is" rule: install_all.induct) (simp_all add: certstore_ok_Install)


definition sample_x509 :: x509_env where
  "sample_x509 = \<lparr>x5_pair = (\<lambda>chain key. chain = key),
     x5_leaf = (\<lambda>chain. Some \<lparr>lf_DNSNames = [chain], lf_NotAfter = time_Unix 2000\<rparr>)\<rparr>"


end
