(* ===== verification/Srv_Limits.thy ===== *)
theory Srv_Limits
  imports Proto_Message Go_Time
begin

text \<open>
  Rates and quotas of published tunnels: the token bucket of \<^verbatim>\<open>pkg/netutil/limit.go\<close> and the
  table of \<^verbatim>\<open>internal/tunnel/server/limits.go\<close>. Go computes in \<^verbatim>\<open>int64\<close>, so every product
  and sum that can leave 64 bits is written with \<open>i64_wrap\<close>; Go's division truncates towards
  zero. The current time is an argument, and sleeping is the duration a \<open>wait\<close> asks for. A nil
  pointer is \<^term>\<open>None\<close>.
\<close>

section \<open>The token bucket\<close>

definition limiterWindow :: int where "limiterWindow = 100000000"
definition limiterMinChunk :: int where "limiterMinChunk = 4096"
definition limiterMaxChunk :: int where "limiterMaxChunk = 1048576"

record Limiter =
  li_rate :: int
  li_tokens :: int
  li_updated :: go_time

definition burst :: "Limiter \<Rightarrow> int" where
  "burst l = max (trunc_div (i64_wrap (li_rate l * limiterWindow)) Second) limiterMinChunk"

definition NewLimiter :: "int \<Rightarrow> go_time \<Rightarrow> Limiter option" where
  "NewLimiter bytesPerSecond now =
     (if bytesPerSecond \<le> 0 then None
      else let l = \<lparr>li_rate = bytesPerSecond, li_tokens = 0, li_updated = now\<rparr>
           in Some (l\<lparr>li_tokens := burst l\<rparr>))"

definition Limiter_Rate :: "Limiter option \<Rightarrow> int" where
  "Limiter_Rate l = (case l of None \<Rightarrow> 0 | Some l \<Rightarrow> li_rate l)"

definition chunk :: "Limiter \<Rightarrow> int" where
  "chunk l = min (burst l) limiterMaxChunk"

definition refill :: "Limiter \<Rightarrow> go_time \<Rightarrow> int" where
  "refill l now = trunc_div (i64_wrap (time_Sub now (li_updated l) * li_rate l)) Second"

text \<open>\<open>wait\<close> gives the limiter afterwards and how long the caller sleeps.\<close>

definition wait :: "Limiter option \<Rightarrow> int \<Rightarrow> go_time \<Rightarrow> Limiter option \<times> int" where
  "wait lo n now = (case lo of
      None \<Rightarrow> (None, 0)
    | Some l \<Rightarrow>
        if n \<le> 0 then (Some l, 0)
        else
          let t = i64_wrap (min (i64_wrap (li_tokens l + refill l now)) (burst l) - n);
              l' = l\<lparr>li_tokens := t, li_updated := now\<rparr> in
          (Some l', if t < 0 then trunc_div (i64_wrap (i64_wrap (- t) * Second)) (li_rate l) else 0))"

section \<open>The table\<close>

record TunnelLimits =
  tl_down :: "Limiter option"
  tl_up :: "Limiter option"
  tl_quota :: int
  tl_used :: int

type_synonym limits = "(string, TunnelLimits) gomap"

definition NewLimits :: limits where
  "NewLimits = []"

definition Limits_Remove :: "limits \<Rightarrow> string \<Rightarrow> limits" where
  "Limits_Remove l name = AList.delete name l"

definition Limits_Publish :: "go_time \<Rightarrow> limits \<Rightarrow> ProxySpec \<Rightarrow> limits" where
  "Limits_Publish now l spec =
     (if ps_DownRate spec \<le> 0 \<and> ps_UpRate spec \<le> 0 \<and> ps_Quota spec \<le> 0
      then Limits_Remove l (ps_Name spec)
      else AList.update (ps_Name spec)
        \<lparr>tl_down = NewLimiter (ps_DownRate spec) now, tl_up = NewLimiter (ps_UpRate spec) now,
         tl_quota = ps_Quota spec,
         tl_used = (case map_of l (ps_Name spec) of Some previous \<Rightarrow> tl_used previous | None \<Rightarrow> 0)\<rparr> l)"

definition Limits_For :: "limits \<Rightarrow> string \<Rightarrow> TunnelLimits option" where
  "Limits_For l name = map_of l name"

definition TunnelLimits_Rates :: "TunnelLimits option \<Rightarrow> Limiter option \<times> Limiter option" where
  "TunnelLimits_Rates t = (case t of None \<Rightarrow> (None, None) | Some t \<Rightarrow> (tl_up t, tl_down t))"

definition TunnelLimits_Exhausted :: "TunnelLimits option \<Rightarrow> bool" where
  "TunnelLimits_Exhausted t = (case t of
      None \<Rightarrow> False
    | Some t \<Rightarrow> if tl_quota t \<le> 0 then False else tl_quota t \<le> tl_used t)"

definition TunnelLimits_Spend :: "TunnelLimits \<Rightarrow> int \<Rightarrow> TunnelLimits" where
  "TunnelLimits_Spend t bytes =
     (if tl_quota t \<le> 0 \<or> bytes \<le> 0 then t else t\<lparr>tl_used := i64_wrap (tl_used t + bytes)\<rparr>)"

definition TunnelLimits_Usage :: "TunnelLimits option \<Rightarrow> int \<times> int" where
  "TunnelLimits_Usage t = (case t of None \<Rightarrow> (0, 0) | Some t \<Rightarrow> (tl_used t, tl_quota t))"

text \<open>\<^verbatim>\<open>sessionLimits\<close>, the view a proxy has of the table: it looks the tunnel up on every
  call.\<close>

definition sessionLimits_Rates :: "limits \<Rightarrow> string \<Rightarrow> Limiter option \<times> Limiter option" where
  "sessionLimits_Rates l tunnel = TunnelLimits_Rates (Limits_For l tunnel)"

definition sessionLimits_Exhausted :: "limits \<Rightarrow> string \<Rightarrow> bool" where
  "sessionLimits_Exhausted l tunnel = TunnelLimits_Exhausted (Limits_For l tunnel)"

definition sessionLimits_Spend :: "limits \<Rightarrow> string \<Rightarrow> int \<Rightarrow> limits" where
  "sessionLimits_Spend l tunnel bytes = (case Limits_For l tunnel of
      None \<Rightarrow> l
    | Some t \<Rightarrow> AList.update tunnel (TunnelLimits_Spend t bytes) l)"

section \<open>The interface a proxy relies on\<close>

text \<open>\<^verbatim>\<open>proxy.Limits\<close>: what the proxies call. \<open>spent\<close> is what the provider has counted for a tunnel
  and \<open>quota\<close> its limit, 0 for none. Spending is counted against the tunnel it names only.\<close>

locale proxy_limits =
  fixes exhausted :: "'s \<Rightarrow> string \<Rightarrow> bool"
    and spend :: "'s \<Rightarrow> string \<Rightarrow> int \<Rightarrow> 's"
    and spent :: "'s \<Rightarrow> string \<Rightarrow> int"
    and quota :: "'s \<Rightarrow> string \<Rightarrow> int"
    and fits :: "int \<Rightarrow> bool"
  assumes exhausted_iff: "exhausted s t \<longleftrightarrow> 0 < quota s t \<and> quota s t \<le> spent s t"
    and spend_same: "0 < quota s t \<Longrightarrow> fits (spent s t + max 0 n) \<Longrightarrow> spent (spend s t n) t = spent s t + max 0 n"
    and spend_other: "t' \<noteq> t \<Longrightarrow> spent (spend s t n) t' = spent s t'"
    and spend_quota: "quota (spend s t n) t' = quota s t'"
    and fits_below: "0 \<le> m \<Longrightarrow> m \<le> k \<Longrightarrow> fits k \<Longrightarrow> fits m"
begin

definition spend_all :: "'s \<Rightarrow> string \<Rightarrow> int list \<Rightarrow> 's" where
  "spend_all s t ns = foldl (\<lambda>s n. spend s t n) s ns"

lemma spend_all_quota: "quota (spend_all s t ns) t' = quota s t'"
  by (induction ns arbitrary: s) (simp_all add: spend_all_def spend_quota)

text \<open>A series of transfers is counted in full, and never against another tunnel.\<close>

lemma spend_all_spent:
  assumes "0 < quota s t" "0 \<le> spent s t" "fits (spent s t + sum_list (map (max 0) ns))"
  shows "spent (spend_all s t ns) t = spent s t + sum_list (map (max 0) ns)"
  using assms
proof (induction ns arbitrary: s)
  case Nil
  then show ?case by (simp add: spend_all_def)
next
  case (Cons n ns)
  have nonneg: "0 \<le> sum_list (map (max 0) ns)" for ns :: "int list"
    by (induction ns) simp_all
  have "fits (spent s t + max 0 n)"
    using fits_below [OF _ _ Cons.prems(3), of "spent s t + max 0 n"] Cons.prems(2) nonneg [of ns]
    by simp
  then have "spent (spend s t n) t = spent s t + max 0 n"
    using spend_same Cons.prems(1) by blast
  then show ?case
    using Cons.IH [of "spend s t n"] Cons.prems by (simp add: spend_all_def spend_quota add.assoc)
qed

lemma spend_all_other: "t' \<noteq> t \<Longrightarrow> spent (spend_all s t ns) t' = spent s t'"
  by (induction ns arbitrary: s) (simp_all add: spend_all_def spend_other)

lemma exhausted_after:
  assumes "0 < quota s t" "0 \<le> spent s t" "fits (spent s t + sum_list (map (max 0) ns))"
  shows "exhausted (spend_all s t ns) t \<longleftrightarrow> quota s t \<le> spent s t + sum_list (map (max 0) ns)"
  using spend_all_spent [OF assms] assms(1) by (simp add: exhausted_iff spend_all_quota)

end

definition limits_spent :: "limits \<Rightarrow> string \<Rightarrow> int" where
  "limits_spent l t = fst (TunnelLimits_Usage (Limits_For l t))"

definition limits_quota :: "limits \<Rightarrow> string \<Rightarrow> int" where
  "limits_quota l t = snd (TunnelLimits_Usage (Limits_For l t))"

lemmas limits_defs = Limits_For_def TunnelLimits_Usage_def TunnelLimits_Exhausted_def
  TunnelLimits_Spend_def sessionLimits_Exhausted_def sessionLimits_Spend_def limits_spent_def
  limits_quota_def

definition counter_fits :: "int \<Rightarrow> bool" where
  "counter_fits n \<longleftrightarrow> 0 \<le> n \<and> n < 2 ^ 63"

lemma counter_wrap: "counter_fits n \<Longrightarrow> i64_wrap n = n"
  by (rule i64_wrap_id) (simp add: counter_fits_def int64_ok_def)

interpretation sl: proxy_limits sessionLimits_Exhausted sessionLimits_Spend limits_spent limits_quota
  counter_fits
  by unfold_locales
    (auto simp: limits_defs counter_wrap max_def split: option.splits, simp_all add: counter_fits_def)

section \<open>Properties\<close>

text \<open>Republishing a tunnel keeps what it has used.\<close>

lemma Publish_usage:
  "0 < ps_Quota spec \<Longrightarrow> limits_quota (Limits_Publish now l spec) (ps_Name spec) = ps_Quota spec
    \<and> limits_spent (Limits_Publish now l spec) (ps_Name spec) = limits_spent l (ps_Name spec)"
  by (simp add: Limits_Publish_def limits_defs split: option.splits)

lemma Publish_other:
  "t \<noteq> ps_Name spec \<Longrightarrow> limits_spent (Limits_Publish now l spec) t = limits_spent l t
    \<and> limits_quota (Limits_Publish now l spec) t = limits_quota l t"
  by (simp add: Limits_Publish_def Limits_Remove_def limits_defs)

text \<open>C10: A quota is enforced on exactly what was transferred, and survives a reconnection's
  republish: after the tunnel is published with a quota, any transfers are counted in full against
  it alone, so it is exhausted exactly when earlier use plus the transfers reach the quota, and
  publishing it again changes the quota but not the count.\<close>

theorem quota_exact:
  assumes "0 < ps_Quota spec" "0 < ps_Quota spec'" "ps_Name spec' = ps_Name spec"
    and "0 \<le> limits_spent l (ps_Name spec)"
    and "limits_spent l (ps_Name spec) + sum_list (map (max 0) ns) < 2 ^ 63"
  shows "let used = limits_spent l (ps_Name spec) + sum_list (map (max 0) ns);
             l' = foldl (\<lambda>s n. sessionLimits_Spend s (ps_Name spec) n) (Limits_Publish now l spec) ns in
    limits_spent l' (ps_Name spec) = used
    \<and> sessionLimits_Exhausted l' (ps_Name spec) = (ps_Quota spec \<le> used)
    \<and> sessionLimits_Exhausted (Limits_Publish now' l' spec') (ps_Name spec) = (ps_Quota spec' \<le> used)
    \<and> (\<forall>t. t \<noteq> ps_Name spec \<longrightarrow> sessionLimits_Exhausted l' t = sessionLimits_Exhausted l t)"
proof -
  let ?n = "ps_Name spec" and ?l = "Limits_Publish now l spec"
  note pub = Publish_usage [OF assms(1), of now l]
  have nonneg: "0 \<le> sum_list (map (max 0) ns)" for ns :: "int list"
    by (induction ns) simp_all
  have fits: "counter_fits (limits_spent ?l ?n + sum_list (map (max 0) ns))"
    using pub assms(4,5) nonneg [of ns] by (simp add: counter_fits_def)
  have spent: "limits_spent (sl.spend_all ?l ?n ns) ?n = limits_spent l ?n + sum_list (map (max 0) ns)"
    using sl.spend_all_spent [of ?l ?n ns] pub assms(1,4) fits by simp
  have quota: "limits_quota (sl.spend_all ?l ?n ns) t = limits_quota ?l t" for t
    by (rule sl.spend_all_quota)
  have other: "sessionLimits_Exhausted (sl.spend_all ?l ?n ns) t = sessionLimits_Exhausted l t"
    if "t \<noteq> ?n" for t
    using sl.spend_all_other [OF that, of ?l ns] Publish_other [OF that, of now l]
    by (simp add: sl.exhausted_iff quota)
  have again: "sessionLimits_Exhausted (Limits_Publish now' (sl.spend_all ?l ?n ns) spec') ?n
      = (ps_Quota spec' \<le> limits_spent l ?n + sum_list (map (max 0) ns))"
    using Publish_usage [OF assms(2), of now' "sl.spend_all ?l ?n ns"] assms(2,3) spent
    by (simp add: sl.exhausted_iff)
  show ?thesis
    using spent quota [of ?n] pub other again assms(1)
    by (simp add: sl.spend_all_def sl.exhausted_iff Let_def)
qed

definition sample_spec :: "int \<Rightarrow> ProxySpec" where
  "sample_spec q = zeroSpec\<lparr>ps_Name := ''web'', ps_Kind := ''tcp'', ps_Quota := q\<rparr>"

theorem quota_exact_witness:
  "let l' = foldl (\<lambda>s n. sessionLimits_Spend s ''web'' n)
         (Limits_Publish (time_Unix 0) NewLimits (sample_spec 100)) [60, -5, 40] in
   limits_spent l' ''web'' = 100 \<and> sessionLimits_Exhausted l' ''web''
   \<and> \<not> sessionLimits_Exhausted (Limits_Publish (time_Unix 9) l' (sample_spec 101)) ''web''"
  using quota_exact [of "sample_spec 100" "sample_spec 101" NewLimits "[60, -5, 40]" "time_Unix 0" "time_Unix 9"]
  by (simp add: Let_def sample_spec_def NewLimits_def limits_spent_def Limits_For_def TunnelLimits_Usage_def)

subsection \<open>The bucket\<close>

text \<open>No intermediate value leaves 64 bits.\<close>

definition no_overflow :: "Limiter \<Rightarrow> int \<Rightarrow> go_time \<Rightarrow> bool" where
  "no_overflow l n now \<longleftrightarrow>
     int64_ok (time_nanos now - time_nanos (li_updated l))
     \<and> int64_ok ((time_nanos now - time_nanos (li_updated l)) * li_rate l)
     \<and> int64_ok (li_rate l * limiterWindow)
     \<and> int64_ok (li_tokens l + (time_nanos now - time_nanos (li_updated l)) * li_rate l div Second)
     \<and> int64_ok (li_tokens l - n) \<and> int64_ok (burst l - n)
     \<and> time_nanos (li_updated l) \<le> time_nanos now"

lemma refill_exact:
  "no_overflow l n now \<Longrightarrow> 0 < li_rate l \<Longrightarrow>
    refill l now = (time_nanos now - time_nanos (li_updated l)) * li_rate l div Second"
  by (simp add: refill_def no_overflow_def time_Sub_exact i64_wrap_id trunc_div_pos Second_def)

lemma refill_nonneg: "no_overflow l n now \<Longrightarrow> 0 < li_rate l \<Longrightarrow> 0 \<le> refill l now"
  by (simp add: refill_exact) (simp add: no_overflow_def Second_def pos_imp_zdiv_nonneg_iff)

lemma int64_min: "int64_ok a \<Longrightarrow> int64_ok b \<Longrightarrow> int64_ok (min a b)"
  by (simp add: min_def)

lemma wait_exact:
  assumes "no_overflow l n now" "0 < li_rate l" "0 < n"
  shows "fst (wait (Some l) n now) =
    Some (l\<lparr>li_tokens := min (li_tokens l + refill l now) (burst l) - n, li_updated := now\<rparr>)"
proof -
  have "int64_ok (li_tokens l + refill l now)"
    using assms(1) refill_exact [OF assms(1,2)] by (simp add: no_overflow_def)
  moreover have "int64_ok (min (li_tokens l + refill l now) (burst l) - n)"
    using assms(1,3) refill_nonneg [OF assms(1,2)]
    by (auto simp: no_overflow_def int64_ok_def min_def)
  ultimately show ?thesis using assms(3) by (simp add: wait_def Let_def i64_wrap_id)
qed

text \<open>One user of a limiter: each transfer of \<open>n\<close> bytes at an instant. \<open>wait_all\<close> gives the limiter
  after the last one and the sleep it asked for.\<close>

fun wait_all :: "Limiter option \<Rightarrow> int \<Rightarrow> (int \<times> go_time) list \<Rightarrow> Limiter option \<times> int" where
  "wait_all l s [] = (l, s)"
| "wait_all l s ((n, now) # rest) = (case wait l n now of (l', s') \<Rightarrow> wait_all l' s' rest)"

fun run_exact :: "Limiter \<Rightarrow> (int \<times> go_time) list \<Rightarrow> bool" where
  "run_exact l [] = True"
| "run_exact l ((n, now) # rest) =
     (0 < n \<and> no_overflow l n now \<and>
      (case fst (wait (Some l) n now) of
         None \<Rightarrow> False
       | Some l' \<Rightarrow> int64_ok (- li_tokens l' * Second) \<and> run_exact l' rest))"

text \<open>What was let through plus what is left never exceeds what was there plus what the rate
  refills.\<close>

lemma wait_all_conserves:
  assumes "run_exact l ws" "0 < li_rate l" "wait_all (Some l) s ws = (Some l', s')"
  shows "li_rate l' = li_rate l \<and>
    (li_tokens l' + sum_list (map fst ws)) * Second
      \<le> li_tokens l * Second + (time_nanos (li_updated l') - time_nanos (li_updated l)) * li_rate l"
  using assms
proof (induction ws arbitrary: l s)
  case Nil
  then show ?case by simp
next
  case (Cons w ws)
  obtain n now where w: "w = (n, now)" by (cases w)
  have no: "no_overflow l n now" and n: "0 < n" using Cons.prems(1) w by simp_all
  let ?l1 = "l\<lparr>li_tokens := min (li_tokens l + refill l now) (burst l) - n, li_updated := now\<rparr>"
  have eq: "fst (wait (Some l) n now) = Some ?l1" by (rule wait_exact [OF no Cons.prems(2) n])
  obtain s1 where w1: "wait (Some l) n now = (Some ?l1, s1)"
    using eq by (cases "wait (Some l) n now") simp
  have "refill l now * Second \<le> (time_nanos now - time_nanos (li_updated l)) * li_rate l"
    by (simp add: refill_exact [OF no Cons.prems(2)] Second_def
        minus_mod_eq_div_mult [symmetric])
  moreover have "(li_tokens ?l1 + n) * Second \<le> (li_tokens l + refill l now) * Second"
    by (intro mult_right_mono) (simp_all add: Second_def)
  ultimately have step: "(li_tokens ?l1 + n) * Second
      \<le> li_tokens l * Second + (time_nanos now - time_nanos (li_updated l)) * li_rate l"
    unfolding distrib_right by linarith
  have "li_rate l' = li_rate ?l1 \<and> (li_tokens l' + sum_list (map fst ws)) * Second
      \<le> li_tokens ?l1 * Second + (time_nanos (li_updated l') - time_nanos (li_updated ?l1)) * li_rate ?l1"
    using Cons.prems w w1 eq by (intro Cons.IH) auto
  with step w show ?case by (simp add: algebra_simps)
qed

lemma wait_sleep:
  assumes "no_overflow l n now" "0 < li_rate l" "0 < n" "wait (Some l) n now = (Some l', s)"
    and "int64_ok (- li_tokens l' * Second)"
  shows "- li_tokens l' * Second \<le> s * li_rate l + li_rate l" "0 \<le> s"
proof -
  let ?t = "li_tokens l'"
  have t: "?t = i64_wrap (min (i64_wrap (li_tokens l + refill l now)) (burst l) - n)"
    using assms(3,4) by (auto simp: wait_def Let_def)
  have s: "s = (if ?t < 0 then trunc_div (i64_wrap (i64_wrap (- ?t) * Second)) (li_rate l) else 0)"
    using assms(3,4) t by (auto simp: wait_def Let_def)
  have neg: "int64_ok (- ?t)" if "?t < 0"
    using assms(5) that by (auto simp: int64_ok_def Second_def)
  have s': "s = (- ?t * Second) div li_rate l" if "?t < 0"
    using that s neg assms(2,5) by (simp add: i64_wrap_id trunc_div_pos Second_def)
  have "- ?t * Second < (- ?t * Second) div li_rate l * li_rate l + li_rate l"
    using pos_mod_bound [OF assms(2), of "- ?t * Second"] div_mult_mod_eq [of "- ?t * Second" "li_rate l"]
    by linarith
  then show "- ?t * Second \<le> s * li_rate l + li_rate l"
    using s s' assms(2) by (cases "?t < 0") (auto simp: Second_def)
  show "0 \<le> s"
  proof (cases "?t < 0")
    case True
    with s' assms(2) show ?thesis by (simp add: Second_def pos_imp_zdiv_nonneg_iff del: minus_mult_left [symmetric])
  qed (use s in simp)
qed

lemma wait_all_sleep:
  assumes "run_exact l ws" "0 < li_rate l" "ws \<noteq> []" "wait_all (Some l) s ws = (Some l', s')"
  shows "- li_tokens l' * Second \<le> s' * li_rate l + li_rate l \<and> 0 \<le> s'"
  using assms
proof (induction ws arbitrary: l s)
  case Nil
  then show ?case by simp
next
  case (Cons w ws)
  obtain n now where w: "w = (n, now)" by (cases w)
  have no: "no_overflow l n now" and n: "0 < n" using Cons.prems(1) w by simp_all
  obtain l1 s1 where w1: "wait (Some l) n now = (Some l1, s1)" "int64_ok (- li_tokens l1 * Second)"
    "run_exact l1 ws"
    using Cons.prems(1) w by (cases "wait (Some l) n now") (auto split: option.splits)
  show ?case
  proof (cases "ws = []")
    case True
    with Cons.prems w w1 wait_sleep [OF no Cons.prems(2) n w1(1,2)] show ?thesis by simp
  next
    case False
    have rate: "li_rate l1 = li_rate l"
      using w1(1) wait_exact [OF no Cons.prems(2) n] by auto
    have "- li_tokens l' * Second \<le> s' * li_rate l1 + li_rate l1 \<and> 0 \<le> s'"
      using Cons.prems w w1 False rate by (intro Cons.IH) auto
    then show ?thesis by (simp add: rate)
  qed
qed


definition sample_bucket :: Limiter where
  "sample_bucket = \<lparr>li_rate = 10000000, li_tokens = 1000000, li_updated = time_Unix 1700000000\<rparr>"

lemma sample_bucket_new: "NewLimiter 10000000 (time_Unix 1700000000) = Some sample_bucket"
  by (simp add: NewLimiter_def Let_def burst_def sample_bucket_def limiterWindow_def limiterMinChunk_def
      i64_wrap_def trunc_div_def Second_def)

lemmas bucket_eval = sample_bucket_def wait_def burst_def refill_def time_Sub_def time_nanos_def
  time_Unix_def unixToInternal_def Second_def i64_wrap_def int64_ok_def trunc_div_def
  limiterWindow_def limiterMinChunk_def Let_def


text \<open>After a long idle time the product of elapsed nanoseconds and rate leaves 64 bits and the
  refill turns negative: a 10 MB/s limiter with a full bucket, idle for a thousand seconds, makes
  the next one-byte transfer sleep for over fourteen minutes.\<close>

theorem limiter_idle_overflow:
  "li_tokens sample_bucket = burst sample_bucket
   \<and> snd (wait (Some sample_bucket) 1 (time_Unix (1700000000 + 1000))) = 844574407400"
  by (simp add: bucket_eval)

end
