(* ===== verification/Srv_Stats.thy ===== *)
theory Srv_Stats
  imports Go_Time "HOL-Library.Multiset"
begin

text \<open>
  Traffic counters: \<^verbatim>\<open>internal/stats/stats.go\<close>. Each counter is an \<^verbatim>\<open>atomic.Int64\<close>, so adding
  wraps; the clock is an argument (seconds). \<^verbatim>\<open>For\<close> creates the counters of a name it has not
  seen, also when it is only asked for a snapshot.
\<close>

section \<open>Operations\<close>

record Counters =
  ct_BytesIn :: int
  ct_BytesOut :: int
  ct_Connections :: int
  ct_Active :: int
  ct_Spliced :: int
  ct_Buffered :: int
  ct_lastSeen :: int

definition zeroCounters :: Counters where
  "zeroCounters = \<lparr>ct_BytesIn = 0, ct_BytesOut = 0, ct_Connections = 0, ct_Active = 0, ct_Spliced = 0,
     ct_Buffered = 0, ct_lastSeen = 0\<rparr>"

record Snapshot =
  sn_Name :: string
  sn_BytesIn :: int
  sn_BytesOut :: int
  sn_Connections :: int
  sn_Active :: int
  sn_Spliced :: int
  sn_Buffered :: int
  sn_LastSeen :: "go_time option"

type_synonym stats = "(string, Counters) gomap"

definition NewStats :: stats where "NewStats = []"

definition Stats_For :: "stats \<Rightarrow> string \<Rightarrow> Counters \<times> stats" where
  "Stats_For r name = (case map_of r name of
      Some c \<Rightarrow> (c, r)
    | None \<Rightarrow> (zeroCounters, AList.update name zeroCounters r))"

text \<open>Changing the counters of a name in place.\<close>

definition with_counters :: "stats \<Rightarrow> string \<Rightarrow> (Counters \<Rightarrow> Counters) \<Rightarrow> stats" where
  "with_counters r name f = (case Stats_For r name of (c, r') \<Rightarrow> AList.update name (f c) r')"

definition RecordProgress :: "int \<Rightarrow> stats \<Rightarrow> string \<Rightarrow> int \<Rightarrow> int \<Rightarrow> stats" where
  "RecordProgress now r name in' out =
     (if in' = 0 \<and> out = 0 then r
      else with_counters r name (\<lambda>c. c\<lparr>ct_BytesIn := i64_wrap (ct_BytesIn c + in'),
        ct_BytesOut := i64_wrap (ct_BytesOut c + out), ct_lastSeen := now\<rparr>))"

definition RecordClose :: "int \<Rightarrow> stats \<Rightarrow> string \<Rightarrow> bool \<Rightarrow> stats" where
  "RecordClose now r name spliced =
     with_counters r name (\<lambda>c.
       let c = c\<lparr>ct_Connections := i64_wrap (ct_Connections c + 1), ct_lastSeen := now\<rparr> in
       if spliced then c\<lparr>ct_Spliced := i64_wrap (ct_Spliced c + 1)\<rparr>
       else c\<lparr>ct_Buffered := i64_wrap (ct_Buffered c + 1)\<rparr>)"

definition RecordTransfer :: "int \<Rightarrow> stats \<Rightarrow> string \<Rightarrow> int \<Rightarrow> int \<Rightarrow> bool \<Rightarrow> stats" where
  "RecordTransfer now r name in' out spliced = RecordClose now (RecordProgress now r name in' out) name spliced"

definition Stats_Open :: "stats \<Rightarrow> string \<Rightarrow> stats" where
  "Stats_Open r name = with_counters r name (\<lambda>c. c\<lparr>ct_Active := i64_wrap (ct_Active c + 1)\<rparr>)"

definition Stats_Close :: "stats \<Rightarrow> string \<Rightarrow> stats" where
  "Stats_Close r name = with_counters r name (\<lambda>c. c\<lparr>ct_Active := i64_wrap (ct_Active c - 1)\<rparr>)"

definition snapshotOf :: "string \<Rightarrow> Counters \<Rightarrow> Snapshot" where
  "snapshotOf name c =
     \<lparr>sn_Name = name, sn_BytesIn = ct_BytesIn c, sn_BytesOut = ct_BytesOut c,
      sn_Connections = ct_Connections c, sn_Active = (if ct_Active c < 0 then 0 else ct_Active c),
      sn_Spliced = ct_Spliced c, sn_Buffered = ct_Buffered c,
      sn_LastSeen = (if 0 < ct_lastSeen c then Some (time_Unix (ct_lastSeen c)) else None)\<rparr>"

definition Stats_Snapshot :: "stats \<Rightarrow> string \<Rightarrow> Snapshot \<times> stats" where
  "Stats_Snapshot r name = (case Stats_For r name of (c, r') \<Rightarrow> (snapshotOf name c, r'))"

definition Stats_All :: "stats \<Rightarrow> Snapshot list" where
  "Stats_All r = sort_key sn_Name (map (\<lambda>(name, c). snapshotOf name c) r)"

fun add_snapshots :: "Snapshot \<Rightarrow> Snapshot list \<Rightarrow> Snapshot" where
  "add_snapshots acc [] = acc"
| "add_snapshots acc (item # rest) =
     add_snapshots
       (acc\<lparr>sn_BytesIn := i64_wrap (sn_BytesIn acc + sn_BytesIn item),
              sn_BytesOut := i64_wrap (sn_BytesOut acc + sn_BytesOut item),
              sn_Connections := i64_wrap (sn_Connections acc + sn_Connections item),
              sn_Active := i64_wrap (sn_Active acc + sn_Active item),
              sn_Spliced := i64_wrap (sn_Spliced acc + sn_Spliced item),
              sn_Buffered := i64_wrap (sn_Buffered acc + sn_Buffered item)\<rparr>) rest"

definition Stats_Total :: "stats \<Rightarrow> Snapshot" where
  "Stats_Total r = add_snapshots
     \<lparr>sn_Name = ''total'', sn_BytesIn = 0, sn_BytesOut = 0, sn_Connections = 0, sn_Active = 0,
      sn_Spliced = 0, sn_Buffered = 0, sn_LastSeen = None\<rparr> (Stats_All r)"

definition Stats_Forget :: "stats \<Rightarrow> string \<Rightarrow> stats" where
  "Stats_Forget r name = AList.delete name r"

section \<open>The interface a proxy relies on\<close>

text \<open>\<^verbatim>\<open>proxy.Recorder\<close>: progress is added to the counters of the named tunnel and to no other's.
  Counters are read modulo their width.\<close>

lemma i64_wrap_add [simp]: "i64_wrap (i64_wrap a + b) = i64_wrap (a + b)"
proof -
  have "(a + 2 ^ 63) mod 2 ^ 64 - 2 ^ 63 + b + 2 ^ 63 = (a + 2 ^ 63) mod 2 ^ 64 + b" by simp
  moreover have "((a + 2 ^ 63) mod 2 ^ 64 + b) mod 2 ^ 64 = (a + b + 2 ^ 63) mod 2 ^ 64"
    unfolding mod_add_left_eq by (simp add: ac_simps)
  ultimately show ?thesis by (simp only: i64_wrap_def)
qed

locale recorder =
  fixes progress :: "'s \<Rightarrow> string \<Rightarrow> int \<Rightarrow> int \<Rightarrow> 's"
    and finish :: "'s \<Rightarrow> string \<Rightarrow> bool \<Rightarrow> 's"
    and bytes_in :: "'s \<Rightarrow> string \<Rightarrow> int"
    and bytes_out :: "'s \<Rightarrow> string \<Rightarrow> int"
    and connections :: "'s \<Rightarrow> string \<Rightarrow> int"
  assumes progress_same: "bytes_in (progress s t i o') t = i64_wrap (bytes_in s t + i)"
      "bytes_out (progress s t i o') t = i64_wrap (bytes_out s t + o')"
      "connections (progress s t i o') t = connections s t"
    and progress_other: "t' \<noteq> t \<Longrightarrow> bytes_in (progress s t i o') t' = bytes_in s t'
      \<and> bytes_out (progress s t i o') t' = bytes_out s t' \<and> connections (progress s t i o') t' = connections s t'"
    and finish_same: "bytes_in (finish s t b) t = bytes_in s t" "bytes_out (finish s t b) t = bytes_out s t"
      "connections (finish s t b) t = i64_wrap (connections s t + 1)"
    and finish_other: "t' \<noteq> t \<Longrightarrow> bytes_in (finish s t b) t' = bytes_in s t'
      \<and> bytes_out (finish s t b) t' = bytes_out s t' \<and> connections (finish s t b) t' = connections s t'"
    and counters_range: "int64_ok (bytes_in s t)" "int64_ok (bytes_out s t)"
begin

definition record_all :: "'s \<Rightarrow> string \<Rightarrow> (int \<times> int) list \<Rightarrow> 's" where
  "record_all s t ps = foldl (\<lambda>s (i, o'). progress s t i o') s ps"

definition record_conn :: "'s \<Rightarrow> string \<Rightarrow> (int \<times> int) list \<Rightarrow> bool \<Rightarrow> 's" where
  "record_conn s t ps b = finish (record_all s t ps) t b"

lemma record_all_same:
  "bytes_in (record_all s t ps) t = i64_wrap (bytes_in s t + sum_list (map fst ps))
   \<and> bytes_out (record_all s t ps) t = i64_wrap (bytes_out s t + sum_list (map snd ps))
   \<and> connections (record_all s t ps) t = connections s t"
proof (induction ps arbitrary: s)
  case Nil
  then show ?case by (simp add: record_all_def counters_range i64_wrap_id)
next
  case (Cons p ps)
  obtain i o' where p: "p = (i, o')" by (cases p)
  from Cons.IH [of "progress s t i o'"] p show ?case
    by (simp add: record_all_def progress_same add.assoc)
qed

lemma record_all_other:
  "t' \<noteq> t \<Longrightarrow> bytes_in (record_all s t ps) t' = bytes_in s t' \<and> bytes_out (record_all s t ps) t' = bytes_out s t'
    \<and> connections (record_all s t ps) t' = connections s t'"
  by (induction ps arbitrary: s) (auto simp: record_all_def progress_other)

text \<open>A connection is counted once, with all it carried, and only for its own tunnel.\<close>

lemma record_conn_counts:
  "bytes_in (record_conn s t ps b) t = i64_wrap (bytes_in s t + sum_list (map fst ps))
   \<and> bytes_out (record_conn s t ps b) t = i64_wrap (bytes_out s t + sum_list (map snd ps))
   \<and> connections (record_conn s t ps b) t = i64_wrap (connections s t + 1)
   \<and> (\<forall>t'. t' \<noteq> t \<longrightarrow> bytes_in (record_conn s t ps b) t' = bytes_in s t'
        \<and> connections (record_conn s t ps b) t' = connections s t')"
  using record_all_same [of s t ps] record_all_other [of _ t s ps]
  by (auto simp: record_conn_def finish_same finish_other)

end

definition counters_of :: "stats \<Rightarrow> string \<Rightarrow> Counters" where
  "counters_of r name = (case map_of r name of Some c \<Rightarrow> c | None \<Rightarrow> zeroCounters)"

lemma counters_with:
  "counters_of (with_counters r name f) n = (if n = name then f (counters_of r name) else counters_of r n)"
  by (auto simp: counters_of_def with_counters_def Stats_For_def split: option.splits prod.splits)

definition stats_in :: "stats \<Rightarrow> string \<Rightarrow> int" where
  "stats_in r name = i64_wrap (ct_BytesIn (counters_of r name))"

definition stats_out :: "stats \<Rightarrow> string \<Rightarrow> int" where
  "stats_out r name = i64_wrap (ct_BytesOut (counters_of r name))"

definition stats_conns :: "stats \<Rightarrow> string \<Rightarrow> int" where
  "stats_conns r name = i64_wrap (ct_Connections (counters_of r name))"

lemma i64_wrap_idem [simp]: "i64_wrap (i64_wrap x) = i64_wrap x"
  by (simp add: i64_wrap_id i64_wrap_ok)

interpretation st: recorder "\<lambda>s t i o'. RecordProgress now s t i o'" "\<lambda>s t b. RecordClose now s t b"
  stats_in stats_out stats_conns for now
  by unfold_locales
    (auto simp: RecordProgress_def RecordClose_def stats_in_def stats_out_def stats_conns_def
      counters_with i64_wrap_ok Let_def)

text \<open>The total is the sum of what the tunnels counted.\<close>

lemma add_snapshots_in:
  "int64_ok (sn_BytesIn acc) \<Longrightarrow>
   sn_BytesIn (add_snapshots acc xs) = i64_wrap (sn_BytesIn acc + sum_list (map sn_BytesIn xs))"
  by (induction acc xs rule: add_snapshots.induct) (simp_all add: i64_wrap_id i64_wrap_ok add.assoc)

lemma Stats_Total_in: "sn_BytesIn (Stats_Total r) = i64_wrap (sum_list (map (ct_BytesIn \<circ> snd) r))"
proof -
  have "mset (map sn_BytesIn (Stats_All r)) = mset (map sn_BytesIn (map (\<lambda>(name, c). snapshotOf name c) r))"
    unfolding Stats_All_def mset_map mset_sort ..
  also have "map sn_BytesIn (map (\<lambda>(name, c). snapshotOf name c) r) = map (ct_BytesIn \<circ> snd) r"
    by (auto simp: snapshotOf_def)
  finally have "mset (map sn_BytesIn (Stats_All r)) = mset (map (ct_BytesIn \<circ> snd) r)" .
  then have "sum_list (map sn_BytesIn (Stats_All r)) = sum_list (map (ct_BytesIn \<circ> snd) r)"
    by (metis sum_mset_sum_list)
  then show ?thesis
    by (simp add: Stats_Total_def add_snapshots_in int64_ok_def)
qed

end
