(* ===== verification/Srv_Proxy.thy ===== *)
theory Srv_Proxy
  imports Vhost_Router Srv_Limits Srv_Stats "HOL-Library.Multiset"
begin

text \<open>
  The proxies a server publishes for its clients: \<^verbatim>\<open>internal/tunnel/server/proxy\<close> (\<^verbatim>\<open>proxy.go\<close>,
  \<^verbatim>\<open>tcp.go\<close>, \<^verbatim>\<open>udp.go\<close>, \<^verbatim>\<open>vhost.go\<close>) and the copy loop of \<^verbatim>\<open>pkg/netutil/splice.go\<close>. Opening
  a socket is the operating system's decision, so its outcome is an argument of the operation;
  \<open>open\<close> lists the sockets that are open. The three interfaces a proxy is handed (routes, limits,
  recorder) are the locales of the theories that provide them; the first is stated here.
\<close>

section \<open>The registry of kinds\<close>

record tcpProxy =
  tp_name :: string
  tp_bindAddr :: string
  tp_port :: int
  tp_acceptLoops :: int
  tp_reusePort :: bool
  tp_listener :: "nat option"
  tp_closed :: bool

record udpProxy =
  ux_name :: string
  ux_bindAddr :: string
  ux_port :: int
  ux_conn :: "nat option"
  ux_closed :: bool

datatype scheme = SchemeHTTP | SchemeHTTPS

record vhostProxy =
  vp_name :: string
  vp_runID :: string
  vp_scheme :: scheme
  vp_domains :: "string list"
  vp_tlsMode :: string
  vp_port :: int
  vp_registered :: bool

datatype proxy = PTcp tcpProxy | PUdp udpProxy | PVhost vhostProxy

datatype proxy_error =
    UnsupportedKind string
  | NoSource string
  | PortOutOfRange string int
  | NeedsDomain string scheme
  | NoVhostListener string scheme
  | BadDomain string vhost_error
  | ListenFailed string
  | UnexpectedAddress string
  | SocketClosed
  | RouteRefused vhost_error

record proxy_opts =
  op_Spec :: ProxySpec
  op_Source :: bool
  op_RunID :: string
  op_BindAddr :: string
  op_AcceptLoops :: int
  op_ReusePort :: bool
  op_Routes :: bool
  op_VhostHTTPPort :: int
  op_VhostHTTPSPort :: int

type_synonym factory = "text_env \<Rightarrow> proxy_opts \<Rightarrow> proxy_error + proxy"

definition newTCPProxy :: factory where
  "newTCPProxy env opts =
     (let spec = op_Spec opts in
      if ps_RemotePort spec < 0 \<or> 65535 < ps_RemotePort spec
      then Inl (PortOutOfRange (ps_Name spec) (ps_RemotePort spec))
      else Inr (PTcp \<lparr>tp_name = ps_Name spec,
        tp_bindAddr = (if op_BindAddr opts = [] then ''0.0.0.0'' else op_BindAddr opts),
        tp_port = ps_RemotePort spec, tp_acceptLoops = op_AcceptLoops opts,
        tp_reusePort = op_ReusePort opts, tp_listener = None, tp_closed = False\<rparr>))"

definition newUDPProxy :: factory where
  "newUDPProxy env opts =
     (let spec = op_Spec opts in
      if ps_RemotePort spec < 0 \<or> 65535 < ps_RemotePort spec
      then Inl (PortOutOfRange (ps_Name spec) (ps_RemotePort spec))
      else Inr (PUdp \<lparr>ux_name = ps_Name spec,
        ux_bindAddr = (if op_BindAddr opts = [] then ''0.0.0.0'' else op_BindAddr opts),
        ux_port = ps_RemotePort spec, ux_conn = None, ux_closed = False\<rparr>))"

fun first_bad_domain :: "text_env \<Rightarrow> string list \<Rightarrow> vhost_error option" where
  "first_bad_domain env [] = None"
| "first_bad_domain env (d # ds) =
     (case ParsePattern env d of Inl e \<Rightarrow> Some e | Inr _ \<Rightarrow> first_bad_domain env ds)"

definition newVhostProxy :: "scheme \<Rightarrow> factory" where
  "newVhostProxy sch env opts =
     (let spec = op_Spec opts in
      if ps_Domains spec = [] then Inl (NeedsDomain (ps_Name spec) sch)
      else if \<not> op_Routes opts then Inl (NoVhostListener (ps_Name spec) sch)
      else case first_bad_domain env (ps_Domains spec) of
        Some e \<Rightarrow> Inl (BadDomain (ps_Name spec) e)
      | None \<Rightarrow> Inr (PVhost \<lparr>vp_name = ps_Name spec, vp_runID = op_RunID opts, vp_scheme = sch,
          vp_domains = ps_Domains spec, vp_tlsMode = ps_TLSMode spec,
          vp_port = (if sch = SchemeHTTPS then op_VhostHTTPSPort opts else op_VhostHTTPPort opts),
          vp_registered = False\<rparr>))"

text \<open>\<open>Register\<close> panics, \<^term>\<open>None\<close>, when a kind is registered twice.\<close>

definition Register :: "string \<Rightarrow> factory \<Rightarrow> (string, factory) gomap \<Rightarrow> (string, factory) gomap option" where
  "Register kind f reg = (if map_of reg kind \<noteq> None then None else Some (AList.update kind f reg))"

definition registry :: "(string, factory) gomap" where
  "registry = [(''tcp'', newTCPProxy), (''udp'', newUDPProxy), (''http'', newVhostProxy SchemeHTTP),
     (''https'', newVhostProxy SchemeHTTPS)]"

definition proxy_New :: "text_env \<Rightarrow> proxy_opts \<Rightarrow> proxy_error + proxy" where
  "proxy_New env opts = (case map_of registry (ps_Kind (op_Spec opts)) of
      None \<Rightarrow> Inl (UnsupportedKind (ps_Kind (op_Spec opts)))
    | Some f \<Rightarrow> if \<not> op_Source opts then Inl (NoSource (ps_Name (op_Spec opts))) else f env opts)"

definition Kinds :: "string list" where
  "Kinds = sort (map fst registry)"

section \<open>Binding and closing\<close>

text \<open>What \<^verbatim>\<open>netutil.Listen\<close> or \<^verbatim>\<open>net.ListenUDP\<close> answers: an error, or a new socket with the port
  it got (\<^term>\<open>None\<close> when its address is not a TCP one).\<close>

datatype listen_outcome = ListenError string | Listening nat "int option"

definition tcp_Listen :: "listen_outcome \<Rightarrow> nat list \<Rightarrow> tcpProxy \<Rightarrow> proxy_error option \<times> tcpProxy \<times> nat list" where
  "tcp_Listen out opened p = (case out of
      ListenError e \<Rightarrow> (Some (ListenFailed e), p, opened)
    | Listening ln None \<Rightarrow> (Some (UnexpectedAddress (tp_name p)), p, opened)
    | Listening ln (Some port) \<Rightarrow>
        if tp_closed p then (Some SocketClosed, p, opened)
        else (None, p\<lparr>tp_listener := Some ln, tp_port := port\<rparr>, ln # opened))"

definition tcp_Close :: "nat list \<Rightarrow> tcpProxy \<Rightarrow> tcpProxy \<times> nat list" where
  "tcp_Close opened p = (case tp_listener p of
      None \<Rightarrow> (p\<lparr>tp_closed := True\<rparr>, opened)
    | Some ln \<Rightarrow> (p\<lparr>tp_closed := True, tp_listener := None\<rparr>, removeAll ln opened))"

definition udp_Listen :: "listen_outcome \<Rightarrow> nat list \<Rightarrow> udpProxy \<Rightarrow> proxy_error option \<times> udpProxy \<times> nat list" where
  "udp_Listen out opened p = (case out of
      ListenError e \<Rightarrow> (Some (ListenFailed e), p, opened)
    | Listening c port \<Rightarrow>
        if ux_closed p then (Some SocketClosed, p, opened)
        else (None, p\<lparr>ux_conn := Some c, ux_port := (case port of None \<Rightarrow> 0 | Some n \<Rightarrow> n)\<rparr>, c # opened))"

definition udp_Close :: "nat list \<Rightarrow> udpProxy \<Rightarrow> udpProxy \<times> nat list" where
  "udp_Close opened p = (case ux_conn p of
      None \<Rightarrow> (p\<lparr>ux_closed := True\<rparr>, opened)
    | Some c \<Rightarrow> (p\<lparr>ux_closed := True, ux_conn := None\<rparr>, removeAll c opened))"

definition vhost_Listen :: "text_env \<Rightarrow> router \<Rightarrow> vhostProxy \<Rightarrow> proxy_error option \<times> vhostProxy \<times> router" where
  "vhost_Listen env r p =
     (case Router_Add env r (vp_domains p)
        \<lparr>rt_Pattern = [], rt_RunID = vp_runID p, rt_ProxyName = vp_name p, rt_TLSMode = vp_tlsMode p\<rparr> of
        (r', Some e) \<Rightarrow> (Some (RouteRefused e), p, r')
      | (r', None) \<Rightarrow> (None, p\<lparr>vp_registered := True\<rparr>, r'))"

definition vhost_Close :: "text_env \<Rightarrow> router \<Rightarrow> vhostProxy \<Rightarrow> vhostProxy \<times> router" where
  "vhost_Close env r p =
     (if vp_registered p then (p\<lparr>vp_registered := False\<rparr>, Router_Remove env r (vp_runID p) (vp_name p))
      else (p, r))"

text \<open>The parts of the server a proxy touches: the routes and the open sockets.\<close>

record bindings =
  bd_router :: router
  bd_open :: "nat list"

definition proxy_Bind :: "text_env \<Rightarrow> listen_outcome \<Rightarrow> bindings \<Rightarrow> proxy \<Rightarrow> proxy_error option \<times> proxy \<times> bindings" where
  "proxy_Bind env out b p = (case p of
      PTcp t \<Rightarrow> (case tcp_Listen out (bd_open b) t of (e, t', os) \<Rightarrow> (e, PTcp t', b\<lparr>bd_open := os\<rparr>))
    | PUdp u \<Rightarrow> (case udp_Listen out (bd_open b) u of (e, u', os) \<Rightarrow> (e, PUdp u', b\<lparr>bd_open := os\<rparr>))
    | PVhost v \<Rightarrow> (case vhost_Listen env (bd_router b) v of (e, v', r) \<Rightarrow> (e, PVhost v', b\<lparr>bd_router := r\<rparr>)))"

definition proxy_Close :: "text_env \<Rightarrow> bindings \<Rightarrow> proxy \<Rightarrow> proxy \<times> bindings" where
  "proxy_Close env b p = (case p of
      PTcp t \<Rightarrow> (case tcp_Close (bd_open b) t of (t', os) \<Rightarrow> (PTcp t', b\<lparr>bd_open := os\<rparr>))
    | PUdp u \<Rightarrow> (case udp_Close (bd_open b) u of (u', os) \<Rightarrow> (PUdp u', b\<lparr>bd_open := os\<rparr>))
    | PVhost v \<Rightarrow> (case vhost_Close env (bd_router b) v of (v', r) \<Rightarrow> (PVhost v', b\<lparr>bd_router := r\<rparr>)))"

fun proxy_RemotePort :: "proxy \<Rightarrow> int" where
  "proxy_RemotePort (PTcp t) = tp_port t"
| "proxy_RemotePort (PUdp u) = ux_port u"
| "proxy_RemotePort (PVhost v) = vp_port v"

fun proxy_Name :: "proxy \<Rightarrow> string" where
  "proxy_Name (PTcp t) = tp_name t"
| "proxy_Name (PUdp u) = ux_name u"
| "proxy_Name (PVhost v) = vp_name v"

section \<open>Routes as an interface\<close>

text \<open>\<^verbatim>\<open>proxy.RouteRegistrar\<close>: claiming patterns for an owner, all or none, and releasing what an
  owner or a client holds. \<open>claims\<close> is who holds which pattern.\<close>

locale route_registrar =
  fixes add :: "'r \<Rightarrow> string list \<Rightarrow> route \<Rightarrow> 'r \<times> vhost_error option"
    and remove :: "'r \<Rightarrow> string \<Rightarrow> string \<Rightarrow> 'r"
    and remove_client :: "'r \<Rightarrow> string \<Rightarrow> 'r"
    and claims :: "'r \<Rightarrow> string \<rightharpoonup> route"
    and ok :: "'r \<Rightarrow> bool"
    and good :: "string list \<Rightarrow> bool"
    and texts :: "string list \<Rightarrow> string set"
  assumes add_ok: "ok r \<Longrightarrow> good ds \<Longrightarrow> add r ds rt = (r', None) \<Longrightarrow>
      ok r' \<and> (\<forall>k \<in> texts ds. claims r k = None)
      \<and> claims r' = (\<lambda>k. if k \<in> texts ds then Some (rt\<lparr>rt_Pattern := k\<rparr>) else claims r k)"
    and add_error: "ok r \<Longrightarrow> good ds \<Longrightarrow> add r ds rt = (r', Some e) \<Longrightarrow> r' = r"
    and remove_ok: "ok r \<Longrightarrow> ok (remove r runID name)
      \<and> claims (remove r runID name) = (\<lambda>k. case claims r k of None \<Rightarrow> None
          | Some rt \<Rightarrow> if rt_RunID rt = runID \<and> rt_ProxyName rt = name then None else Some rt)"
    and remove_client_ok: "ok r \<Longrightarrow> ok (remove_client r runID)
      \<and> claims (remove_client r runID) = (\<lambda>k. case claims r k of None \<Rightarrow> None
          | Some rt \<Rightarrow> if rt_RunID rt = runID then None else Some rt)"
begin

definition holds_none :: "'r \<Rightarrow> string \<Rightarrow> string \<Rightarrow> bool" where
  "holds_none r runID name \<longleftrightarrow> (\<forall>k rt. claims r k = Some rt \<longrightarrow> \<not> (rt_RunID rt = runID \<and> rt_ProxyName rt = name))"

text \<open>Releasing a claim gives back exactly what was claimed.\<close>

lemma claim_release:
  assumes "ok r" "good ds" "holds_none r (rt_RunID rt) (rt_ProxyName rt)" "add r ds rt = (r', None)"
  shows "ok (remove r' (rt_RunID rt) (rt_ProxyName rt))
    \<and> claims (remove r' (rt_RunID rt) (rt_ProxyName rt)) = claims r"
proof -
  from add_ok [OF assms(1,2,4)] have ok': "ok r'" and free: "\<forall>k \<in> texts ds. claims r k = None"
    and cl: "claims r' = (\<lambda>k. if k \<in> texts ds then Some (rt\<lparr>rt_Pattern := k\<rparr>) else claims r k)" by auto
  have "claims (remove r' (rt_RunID rt) (rt_ProxyName rt)) k = claims r k" for k
    using remove_ok [OF ok', of "rt_RunID rt" "rt_ProxyName rt"] cl free assms(3)
    by (auto simp: holds_none_def split: option.splits)
  then show ?thesis using remove_ok [OF ok'] by blast
qed

lemma removed_holds_none: "ok r \<Longrightarrow> holds_none (remove r runID name) runID name"
  using remove_ok by (auto simp: holds_none_def split: option.splits if_splits)

lemma client_holds_none: "ok r \<Longrightarrow> holds_none (remove_client r runID) runID name"
  using remove_client_ok by (auto simp: holds_none_def split: option.splits if_splits)

end

interpretation rr: route_registrar "Router_Add env" "Router_Remove env" "Router_RemoveClient env"
  "\<lambda>r. map_of (routes r)" "router_ok env" "domains_stable env" "pattern_texts env" for env
proof unfold_locales
  fix r ds rt r' e runID name
  assume ok: "router_ok env r"
  then have rok: "routes_ok env (routes r)" by (simp add: router_ok_def)
  show "router_ok env (Router_Remove env r runID name) \<and> map_of (routes (Router_Remove env r runID name)) =
      (\<lambda>k. case map_of (routes r) k of None \<Rightarrow> None
        | Some rt \<Rightarrow> if rt_RunID rt = runID \<and> rt_ProxyName rt = name then None else Some rt)"
    using Router_Remove_ok [OF rok] by auto
  show "router_ok env (Router_RemoveClient env r runID) \<and> map_of (routes (Router_RemoveClient env r runID)) =
      (\<lambda>k. case map_of (routes r) k of None \<Rightarrow> None
        | Some rt \<Rightarrow> if rt_RunID rt = runID then None else Some rt)"
    using Router_RemoveClient_ok [OF rok] by auto
  assume good: "domains_stable env ds"
  show "r' = r" if "Router_Add env r ds rt = (r', Some e)"
    using Router_Add_error [OF rok good that] .
  show "router_ok env r' \<and> (\<forall>k \<in> pattern_texts env ds. map_of (routes r) k = None) \<and>
      map_of (routes r') = (\<lambda>k. if k \<in> pattern_texts env ds then Some (rt\<lparr>rt_Pattern := k\<rparr>) else map_of (routes r) k)"
    if "Router_Add env r ds rt = (r', None)"
    using Router_Add_ok [OF rok good that] by blast
qed

section \<open>Relaying a connection\<close>

text \<open>One \<^verbatim>\<open>ReadFrom\<close> or \<^verbatim>\<open>CopyBuffered\<close> of at most a chunk: how many bytes moved, and how it
  ended.\<close>

datatype copy_outcome = Copied int | TimedOut int | Failed int string

fun moved :: "copy_outcome \<Rightarrow> int" where
  "moved (Copied n) = n" | "moved (TimedOut n) = n" | "moved (Failed n e) = n"

datatype copy_status = CopyEOF | CopyFailed string | StillOpen

definition trackedChunk :: int where "trackedChunk = 2 ^ 30"

text \<open>The loop of \<^verbatim>\<open>copyStream\<close> over the outcomes the connection produces, each at its instant;
  \<open>ps\<close> are the progress calls so far. A finite list that ends without a final outcome is a
  connection still open.\<close>

fun copy_loop :: "bool \<Rightarrow> int \<Rightarrow> Limiter option \<Rightarrow> int \<Rightarrow> int list \<Rightarrow> (copy_outcome \<times> go_time) list \<Rightarrow>
    copy_status \<times> int \<times> int list \<times> Limiter option" where
  "copy_loop tracked ch l acc ps [] = (StillOpen, acc, ps, l)"
| "copy_loop tracked ch l acc ps ((out, now) # rest) =
     (let n = moved out;
          acc' = i64_wrap (acc + n);
          l' = fst (wait l n now);
          ps' = (if tracked \<and> 0 < n then ps @ [n] else ps) in
      case out of
        Failed _ e \<Rightarrow> (CopyFailed e, acc', ps', l')
      | TimedOut _ \<Rightarrow> if tracked then copy_loop tracked ch l' acc' ps' rest
                       else (CopyFailed ''timeout'', acc', ps', l')
      | Copied _ \<Rightarrow> if n < ch then (CopyEOF, acc', ps', l') else copy_loop tracked ch l' acc' ps' rest)"

definition copyStream :: "bool \<Rightarrow> Limiter option \<Rightarrow> (copy_outcome \<times> go_time) list \<Rightarrow>
    copy_status \<times> int \<times> int list \<times> Limiter option" where
  "copyStream tracked l outs =
     (if l = None \<and> \<not> tracked then
        (case outs of
           [] \<Rightarrow> (StillOpen, 0, [], l)
         | (Copied n, _) # _ \<Rightarrow> (CopyEOF, n, [], l)
         | (TimedOut n, _) # _ \<Rightarrow> (CopyFailed ''timeout'', n, [], l)
         | (Failed n e, _) # _ \<Rightarrow> (CopyFailed e, n, [], l))
      else copy_loop tracked (case l of None \<Rightarrow> trackedChunk | Some l \<Rightarrow> chunk l) l 0 [] outs)"

text \<open>While the total stays within \<^verbatim>\<open>int64\<close>, and beyond it up to the wrap, it is the sum of the
  progress calls: a direction never reports less or more than it moved.\<close>

lemma copy_loop_progress:
  assumes "copy_loop True ch l acc ps outs = (st, total', ps', l')" "acc = i64_wrap (sum_list ps)"
    and "list_all (\<lambda>(o', _). 0 \<le> moved o') outs"
  shows "total' = i64_wrap (sum_list ps')"
  using assms
proof (induction outs arbitrary: l acc ps)
  case Nil
  then show ?case by auto
next
  case (Cons o' outs)
  obtain out now where o': "o' = (out, now)" by (cases o')
  have n: "0 \<le> moved out" and rest: "list_all (\<lambda>(o', _). 0 \<le> moved o') outs"
    using Cons.prems(3) o' by simp_all
  define qs where "qs = (if 0 < moved out then ps @ [moved out] else ps)"
  define acc' where "acc' = i64_wrap (acc + moved out)"
  define l1 where "l1 = fst (wait l (moved out) now)"
  have inv: "acc' = i64_wrap (sum_list qs)"
    using Cons.prems(2) n by (cases "0 < moved out") (simp_all add: qs_def acc'_def)
  have ih: "total' = i64_wrap (sum_list ps')"
    if "copy_loop True ch l1 acc' qs outs = (st, total', ps', l')"
    using Cons.IH [OF that inv rest] .
  have step: "copy_loop True ch l acc ps (o' # outs) = (case out of
        Failed _ e \<Rightarrow> (CopyFailed e, acc', qs, l1)
      | TimedOut _ \<Rightarrow> copy_loop True ch l1 acc' qs outs
      | Copied _ \<Rightarrow> if moved out < ch then (CopyEOF, acc', qs, l1) else copy_loop True ch l1 acc' qs outs)"
    unfolding o' copy_loop.simps Let_def qs_def acc'_def l1_def by (simp only: simp_thms if_True)
  note eq = Cons.prems(1) [unfolded step]
  show ?case
  proof (cases out)
    case (Copied k)
    show ?thesis
    proof (cases "moved out < ch")
      case True
      with Copied eq inv show ?thesis by auto
    next
      case False
      with Copied eq show ?thesis by (intro ih) simp
    qed
  next
    case (TimedOut k)
    with eq show ?thesis by (intro ih) simp
  next
    case (Failed k e)
    with eq inv show ?thesis by auto
  qed
qed

text \<open>A visitor's connection: refused when the quota is spent, dropped when no work connection is to
  be had, relayed otherwise. \<open>progress\<close> are the calls of the relay's callback.\<close>

record accounting =
  ac_limits :: limits
  ac_stats :: stats

datatype handle_result = QuotaSpent | NoWorkConn | Relayed "Limiter option" "Limiter option"

definition tcp_progress :: "int \<Rightarrow> string \<Rightarrow> accounting \<Rightarrow> int \<times> int \<Rightarrow> accounting" where
  "tcp_progress now name a p =
     \<lparr>ac_limits = sessionLimits_Spend (ac_limits a) name (fst p + snd p),
      ac_stats = RecordProgress now (ac_stats a) name (fst p) (snd p)\<rparr>"

definition tcp_handle ::
  "int \<Rightarrow> string \<Rightarrow> bool \<Rightarrow> (int \<times> int) list \<Rightarrow> bool \<Rightarrow> accounting \<Rightarrow> handle_result \<times> accounting" where
  "tcp_handle now name work progress spliced a =
     (if sessionLimits_Exhausted (ac_limits a) name then (QuotaSpent, a)
      else if \<not> work then (NoWorkConn, a)
      else
        let a' = foldl (tcp_progress now name) a progress;
            (toClient, toVisitor) = sessionLimits_Rates (ac_limits a) name in
        (Relayed toClient toVisitor, a'\<lparr>ac_stats := RecordClose now (ac_stats a') name spliced\<rparr>))"

lemma tcp_progress_fold:
  "foldl (tcp_progress now name) a ps =
    \<lparr>ac_limits = sl.spend_all (ac_limits a) name (map (\<lambda>p. fst p + snd p) ps),
     ac_stats = st.record_all now (ac_stats a) name ps\<rparr>"
  by (induction ps arbitrary: a)
    (simp_all add: tcp_progress_def sl.spend_all_def st.record_all_def case_prod_beta)

section \<open>Properties\<close>

text \<open>Only positive counts are reported.\<close>

lemma copy_loop_positive:
  "\<forall>n \<in> set ps. 0 < n \<Longrightarrow> copy_loop True ch l acc ps outs = (st, total', ps', l') \<Longrightarrow> \<forall>n \<in> set ps'. 0 < n"
proof (induction outs arbitrary: l acc ps)
  case Nil
  then show ?case by simp
next
  case (Cons o' outs)
  obtain out now where o': "o' = (out, now)" by (cases o')
  define qs where "qs = (if 0 < moved out then ps @ [moved out] else ps)"
  have qs: "\<forall>n \<in> set qs. 0 < n" using Cons.prems(1) by (auto simp: qs_def)
  have "copy_loop True ch l acc ps (o' # outs) = (let acc' = i64_wrap (acc + moved out);
      l1 = fst (wait l (moved out) now) in case out of
        Failed _ e \<Rightarrow> (CopyFailed e, acc', qs, l1)
      | TimedOut _ \<Rightarrow> copy_loop True ch l1 acc' qs outs
      | Copied _ \<Rightarrow> if moved out < ch then (CopyEOF, acc', qs, l1) else copy_loop True ch l1 acc' qs outs)"
    unfolding o' copy_loop.simps Let_def qs_def by (simp only: simp_thms if_True)
  note eq = Cons.prems(2) [unfolded this Let_def]
  show ?case
  proof (cases out)
    case (Copied k)
    with eq qs Cons.IH [OF qs] show ?thesis by (auto split: if_splits)
  next
    case (TimedOut k)
    with eq Cons.IH [OF qs] show ?thesis by auto
  next
    case (Failed k e)
    with eq qs show ?thesis by auto
  qed
qed

text \<open>One direction of a relay that reports its progress.\<close>

lemma copyStream_tracked:
  assumes "copyStream True l outs = (st, n, ps, l')" "list_all (\<lambda>(o', _). 0 \<le> moved o') outs"
  shows "n = i64_wrap (sum_list ps) \<and> (\<forall>k \<in> set ps. 0 < k)"
proof -
  let ?ch = "case l of None \<Rightarrow> trackedChunk | Some l \<Rightarrow> chunk l"
  have loop: "copy_loop True ?ch l 0 [] outs = (st, n, ps, l')"
    using assms(1) by (simp add: copyStream_def)
  have "(0::int) = i64_wrap (sum_list [])" by (simp add: i64_wrap_def)
  from copy_loop_progress [OF loop this assms(2)] copy_loop_positive [OF _ loop] show ?thesis by simp
qed

text \<open>The two directions of a relay report through the same callback, in any interleaving.\<close>

definition relay_progress :: "int list \<Rightarrow> int list \<Rightarrow> (int \<times> int) list \<Rightarrow> bool" where
  "relay_progress toClient toVisitor ps \<longleftrightarrow>
     ps \<in> shuffles (map (\<lambda>n. (n, 0)) toClient) (map (\<lambda>n. (0, n)) toVisitor)"

lemma relay_progress_sums:
  assumes "relay_progress xs ys ps" "\<forall>n \<in> set xs. 0 < n" "\<forall>n \<in> set ys. 0 < n"
  shows "sum_list (map fst ps) = sum_list xs \<and> sum_list (map snd ps) = sum_list ys
    \<and> sum_list (map (max 0 \<circ> (\<lambda>p. fst p + snd p)) ps) = sum_list xs + sum_list ys"
proof -
  have ms: "mset ps = mset (map (\<lambda>n. (n, 0)) xs) + mset (map (\<lambda>n. (0, n)) ys)"
    using assms(1) unfolding relay_progress_def by (rule mset_shuffles)
  have sum: "sum_list (map f ps) = sum_list (map (\<lambda>n. f (n, 0)) xs) + sum_list (map (\<lambda>n. f (0, n)) ys)"
    for f :: "int \<times> int \<Rightarrow> int"
  proof -
    have "sum_list (map f ps) = \<Sum>\<^sub># (image_mset f (mset ps))"
      by (metis mset_map sum_mset_sum_list)
    then show ?thesis by (simp add: ms image_mset.compositionality comp_def flip: sum_mset_sum_list)
  qed
  have "map (\<lambda>n. max 0 n) xs = xs" "map (\<lambda>n. max 0 n) ys = ys"
    using assms(2,3) by (auto intro!: map_idI simp: max_def)
  then show ?thesis using sum [of fst] sum [of snd] sum [of "max 0 \<circ> (\<lambda>p. fst p + snd p)"]
    by (simp add: comp_def)
qed


definition sample_accounting :: accounting where
  "sample_accounting = \<lparr>ac_limits = Limits_Publish (time_Unix 0) NewLimits (sample_spec 100), ac_stats = NewStats\<rparr>"


text \<open>A proxy as \<open>New\<close> makes it, before it is bound.\<close>

fun unbound :: "proxy \<Rightarrow> bool" where
  "unbound (PTcp t) \<longleftrightarrow> tp_listener t = None \<and> \<not> tp_closed t"
| "unbound (PUdp u) \<longleftrightarrow> ux_conn u = None \<and> \<not> ux_closed u"
| "unbound (PVhost v) \<longleftrightarrow> \<not> vp_registered v"

lemma New_unbound: "proxy_New env opts = Inr p \<Longrightarrow> unbound p"
  by (auto simp: proxy_New_def registry_def newTCPProxy_def newUDPProxy_def newVhostProxy_def Let_def
      split: if_splits option.splits)

text \<open>What a host proxy needs from the routes: its domains survive being parsed again, and it holds
  nothing yet.\<close>

fun claimable :: "text_env \<Rightarrow> router \<Rightarrow> proxy \<Rightarrow> bool" where
  "claimable env r (PVhost v) \<longleftrightarrow> domains_stable env (vp_domains v) \<and> rr.holds_none r (vp_runID v) (vp_name v)"
| "claimable env r p \<longleftrightarrow> True"

fun new_socket :: "listen_outcome \<Rightarrow> nat list \<Rightarrow> bool" where
  "new_socket (Listening s port) opened \<longleftrightarrow> s \<notin> set opened"
| "new_socket (ListenError e) opened \<longleftrightarrow> True"

lemma vhost_bind_close:
  assumes "router_ok env r" "claimable env r (PVhost v)" "\<not> vp_registered v"
    and "vhost_Listen env r v = (e, v', r')" "vhost_Close env r' v' = (v'', r'')"
  shows "router_ok env r'' \<and> map_of (routes r'') = map_of (routes r) \<and> v'' = v \<and> (e \<noteq> None \<longrightarrow> r' = r)"
proof -
  let ?rt = "\<lparr>rt_Pattern = [], rt_RunID = vp_runID v, rt_ProxyName = vp_name v, rt_TLSMode = vp_tlsMode v\<rparr>"
  obtain q x where add: "Router_Add env r (vp_domains v) ?rt = (q, x)" by fastforce
  have stable: "domains_stable env (vp_domains v)" and none: "rr.holds_none r (rt_RunID ?rt) (rt_ProxyName ?rt)"
    using assms(2) by simp_all
  show ?thesis
  proof (cases x)
    case None
    then have r': "r' = q" and v': "v' = v\<lparr>vp_registered := True\<rparr>" and e: "e = None"
      using assms(4) add by (auto simp: vhost_Listen_def)
    have "r'' = Router_Remove env q (rt_RunID ?rt) (rt_ProxyName ?rt)" "v'' = v"
      using assms(3,5) r' v' by (auto simp: vhost_Close_def)
    with rr.claim_release [OF assms(1) stable none] add None e show ?thesis by auto
  next
    case (Some err)
    then have "r' = q" "v' = v" using assms(4) add by (auto simp: vhost_Listen_def)
    moreover have "q = r" using rr.add_error [OF assms(1) stable] add Some by blast
    ultimately show ?thesis using assms(1,3,5) by (auto simp: vhost_Close_def)
  qed
qed

lemma socket_bind_close:
  assumes "unbound p" "new_socket out (bd_open b)" "\<And>v. p \<noteq> PVhost v"
    and "proxy_Bind env out b p = (e, p', b')" "proxy_Close env b' p' = (p'', b'')"
  shows "b'' = b \<and> fst (proxy_Bind env out' b'' p'') \<noteq> None \<and> snd (snd (proxy_Bind env out' b'' p'')) = b''"
proof (cases p)
  case (PTcp t)
  with assms show ?thesis
    by (cases out; cases out')
      (auto simp: proxy_Bind_def proxy_Close_def tcp_Listen_def tcp_Close_def split: option.splits if_splits)
next
  case (PUdp u)
  with assms show ?thesis
    by (cases out; cases out')
      (auto simp: proxy_Bind_def proxy_Close_def udp_Listen_def udp_Close_def split: option.splits if_splits)
next
  case (PVhost v)
  with assms(3) show ?thesis by blast
qed

text \<open>Closing a proxy gives back everything binding it took, whether binding succeeded or
  failed half way: the open sockets are those of before and every host is routed as before. A port
  proxy that has been closed never listens again, so a bind that loses the race against the close
  leaks nothing.\<close>

theorem proxy_bind_close_restores:
  assumes "unbound p" "new_socket out (bd_open b)" "router_ok env (bd_router b)" "claimable env (bd_router b) p"
  shows "case proxy_Bind env out b p of (e, p', b') \<Rightarrow> case proxy_Close env b' p' of (p'', b'') \<Rightarrow>
    bd_open b'' = bd_open b
    \<and> (\<forall>host. Router_Lookup env (bd_router b'') host = Router_Lookup env (bd_router b) host)
    \<and> ((\<exists>v. p = PVhost v) \<or> fst (proxy_Bind env out' b'' p'') \<noteq> None \<and> snd (snd (proxy_Bind env out' b'' p'')) = b'')"
proof -
  obtain e p' b' where bind: "proxy_Bind env out b p = (e, p', b')" by (metis prod_cases3)
  obtain p'' b'' where close: "proxy_Close env b' p' = (p'', b'')" by fastforce
  show ?thesis
  proof (cases "\<exists>v. p = PVhost v")
    case True
    then obtain v where p: "p = PVhost v" by blast
    obtain v' r' where l: "vhost_Listen env (bd_router b) v = (e, v', r')" and b': "b' = b\<lparr>bd_router := r'\<rparr>"
        and p': "p' = PVhost v'"
      using bind p by (auto simp: proxy_Bind_def split: prod.splits)
    obtain v'' r'' where c: "vhost_Close env r' v' = (v'', r'')" by fastforce
    have b'': "b'' = b\<lparr>bd_router := r''\<rparr>" using close b' p' c by (auto simp: proxy_Close_def)
    have "\<not> vp_registered v" using assms(1) p by simp
    from vhost_bind_close [OF assms(3) _ this l c] assms(4) p
    have ok: "router_ok env r''" "map_of (routes r'') = map_of (routes (bd_router b))" by auto
    have "Router_Lookup env r'' host = Router_Lookup env (bd_router b) host" for host
      using Router_Lookup_spec [OF ok(1)] Router_Lookup_spec [OF assms(3)] ok(2) by simp
    then show ?thesis using bind close b'' p by simp
  next
    case False
    have "b'' = b \<and> fst (proxy_Bind env out' b'' p'') \<noteq> None \<and> snd (snd (proxy_Bind env out' b'' p'')) = b''"
      using socket_bind_close [OF assms(1,2) _ bind close] False by blast
    then show ?thesis by (auto simp: bind close)
  qed
qed

definition sample_vhost :: proxy where
  "sample_vhost = PVhost \<lparr>vp_name = ''nas'', vp_runID = ''A'', vp_scheme = SchemeHTTPS,
     vp_domains = [''nas.example.com''], vp_tlsMode = ''none'', vp_port = 443, vp_registered = False\<rparr>"

theorem proxy_bind_close_restores_witness:
  "case proxy_Bind ascii_env (ListenError []) \<lparr>bd_router = NewRouter, bd_open = [3]\<rparr> sample_vhost of (e, p', b') \<Rightarrow>
    case proxy_Close ascii_env b' p' of (p'', b'') \<Rightarrow> bd_open b'' = [3]
    \<and> Router_Lookup ascii_env (bd_router b'') ''nas.example.com'' = Router_Lookup ascii_env NewRouter ''nas.example.com''"
proof -
  have c: "claimable ascii_env NewRouter sample_vhost"
    by (simp add: sample_vhost_def domains_stable_def pattern_stable_def parse_nas rr.holds_none_def NewRouter_def)
  have "unbound sample_vhost" by (simp add: sample_vhost_def)
  from proxy_bind_close_restores [OF this, of "ListenError []" "\<lparr>bd_router = NewRouter, bd_open = [3]\<rparr>" ascii_env]
  show ?thesis using router_ok_NewRouter c by (simp add: case_prod_beta)
qed

end
