(* ===== verification/Srv_Pool.thy ===== *)
theory Srv_Pool
  imports Openfrp_Prelude "HOL-Library.Multiset"
begin

text \<open>
  The work connections of a client's session, the pool half of
  \<^verbatim>\<open>internal/tunnel/server/session.go\<close>: the bounded channel of idle connections, the counters that
  decide how many more to ask for, and the multiplexed carriers used when the pool is empty.
  Connections, carriers and streams are numbers; \<open>po_closed\<close> is the log of the \<^verbatim>\<open>Close\<close> calls.
  Whether a write to a connection succeeds and whether a carrier opens a stream is up to the peer,
  an argument of the operations. Counters of connections are far below 64 bits and kept as
  integers.
\<close>

section \<open>State\<close>

datatype link = WorkConn nat | Stream nat | Carrier nat

record pool =
  po_capacity :: nat
  po_workConns :: "nat list"
  po_target :: int
  po_inFlight :: int
  po_arrivals :: int
  po_refill :: int
  po_misses :: int
  po_overflow :: "nat list"
  po_overflowNext :: nat
  po_pending :: int
  po_kick :: bool
  po_done :: bool
  po_closed :: "link list"

definition newPool :: "int \<Rightarrow> int \<Rightarrow> pool" where
  "newPool maxPool target =
     \<lparr>po_capacity = (if maxPool < 1 then 1 else nat maxPool), po_workConns = [], po_target = target,
      po_inFlight = 0, po_arrivals = 0, po_refill = target, po_misses = 0, po_overflow = [],
      po_overflowNext = 0, po_pending = 0, po_kick = False, po_done = False, po_closed = []\<rparr>"

definition close_conn :: "link \<Rightarrow> pool \<Rightarrow> pool" where
  "close_conn c s = s\<lparr>po_closed := po_closed s @ [c]\<rparr>"

section \<open>Operations\<close>

text \<open>When the session is closed and the channel has room, \<^verbatim>\<open>select\<close> may take either case: \<open>pick_done\<close>
  is its choice.\<close>

definition AddWorkConn :: "bool \<Rightarrow> nat \<Rightarrow> pool \<Rightarrow> pool" where
  "AddWorkConn pick_done c s =
     (let s1 = s\<lparr>po_inFlight := (if po_inFlight s - 1 < 0 then 0 else po_inFlight s - 1),
                 po_arrivals := po_arrivals s + 1\<rparr> in
      if po_done s \<and> (pick_done \<or> po_capacity s \<le> length (po_workConns s)) then close_conn (WorkConn c) s1
      else if length (po_workConns s) < po_capacity s
      then s1\<lparr>po_workConns := po_workConns s @ [c]\<rparr>
      else close_conn (WorkConn c) s1)"

fun takePooled :: "pool \<Rightarrow> nat option \<times> pool" where
  "takePooled s = (case po_workConns s of [] \<Rightarrow> (None, s) | c # cs \<Rightarrow> (Some c, s\<lparr>po_workConns := cs\<rparr>))"

definition requestWorkConns :: "int \<Rightarrow> pool \<Rightarrow> pool" where
  "requestWorkConns n s = (if n \<le> 0 then s else s\<lparr>po_pending := po_pending s + n, po_kick := True\<rparr>)"

text \<open>One turn of \<^verbatim>\<open>workConnRequester\<close>, woken by a kick: the count it asks the client for, if any.\<close>

definition workConnRequester :: "pool \<Rightarrow> int option \<times> pool" where
  "workConnRequester s =
     (if po_done s \<or> \<not> po_kick s then (None, s)
      else
        let s1 = s\<lparr>po_kick := False, po_pending := 0\<rparr>; n = po_pending s in
        if n \<le> 0 then (None, s1)
        else (Some (if int (po_capacity s) < n then int (po_capacity s) else n), s1))"

definition HasOverflow :: "pool \<Rightarrow> bool" where
  "HasOverflow s \<longleftrightarrow> 0 < length (po_overflow s)"

definition topUpPool :: "pool \<Rightarrow> pool" where
  "topUpPool s =
     (let pooled = int (length (po_workConns s));
          deficit = po_refill s - pooled - po_inFlight s in
      if deficit \<le> 0 then s
      else
        let room = int (po_capacity s) - pooled - po_inFlight s;
            deficit' = (if room < deficit then room else deficit) in
        if deficit' \<le> 0 then s
        else requestWorkConns deficit' (s\<lparr>po_inFlight := po_inFlight s + deficit'\<rparr>))"

definition replenishPool :: "pool \<Rightarrow> pool" where
  "replenishPool s = (if HasOverflow s then s else topUpPool s)"

definition adjustRefillTarget :: "bool \<Rightarrow> pool \<Rightarrow> pool" where
  "adjustRefillTarget stalled s =
     (let target = po_refill s; misses = po_misses s; s1 = s\<lparr>po_misses := 0\<rparr> in
      if stalled then
        let lowered = max (trunc_div target 2) (po_target s) in
        if lowered \<noteq> target then s1\<lparr>po_refill := lowered\<rparr> else s1
      else if 0 < misses \<and> target < int (po_capacity s) then s1\<lparr>po_refill := target + 1\<rparr>
      else s1)"

text \<open>The two tickers of \<^verbatim>\<open>tendPool\<close>, with the arrivals seen at the last tick.\<close>

definition tend_refill :: "int \<times> pool \<Rightarrow> int \<times> pool" where
  "tend_refill st = (case st of (lastArrivals, s) \<Rightarrow>
     if \<not> HasOverflow s then (lastArrivals, s)
     else
       let stalled = (po_arrivals s = lastArrivals \<and> 0 < po_inFlight s);
           s1 = (if stalled then s\<lparr>po_inFlight := 0\<rparr> else s) in
       (po_arrivals s, topUpPool (adjustRefillTarget stalled s1)))"

definition tend_sweep :: "int \<times> pool \<Rightarrow> int \<times> pool" where
  "tend_sweep st = (case st of (lastArrivals, s) \<Rightarrow>
     if HasOverflow s then (lastArrivals, s)
     else
       (po_arrivals s,
        if po_arrivals s = lastArrivals \<and> 0 < po_inFlight s then s\<lparr>po_inFlight := 0\<rparr> else s))"

section \<open>Carriers\<close>

definition maxOverflowCarriers :: nat where "maxOverflowCarriers = 8"

definition SetOverflow :: "nat \<Rightarrow> pool \<Rightarrow> pool" where
  "SetOverflow source s =
     (if maxOverflowCarriers \<le> length (po_overflow s) then close_conn (Carrier source) s
      else s\<lparr>po_overflow := po_overflow s @ [source]\<rparr>)"

text \<open>\<^verbatim>\<open>dropOverflow\<close> keeps the other carriers in the array it found them in, \<open>arr\<close>, which a caller
  iterating over the same slice sees change.\<close>

definition dropOverflow :: "nat \<Rightarrow> nat list \<Rightarrow> pool \<Rightarrow> nat list \<times> pool" where
  "dropOverflow failed arr s =
     (let kept = filter (\<lambda>source. source \<noteq> failed) (po_overflow s) in
      (kept @ drop (length kept) arr, close_conn (Carrier failed) (s\<lparr>po_overflow := kept\<rparr>)))"

datatype open_result = Opened nat | OpenFailed | OpenDeadline

record peer =
  pr_start :: "link \<Rightarrow> bool"
  pr_open :: "nat \<Rightarrow> nat \<Rightarrow> open_result"

text \<open>The loop over \<open>carriers\<close>, whose elements are read from the array at each turn; \<open>pr_open\<close> is asked
  with the turn and the carrier.\<close>

fun overflow_loop :: "peer \<Rightarrow> nat \<Rightarrow> nat \<Rightarrow> nat \<Rightarrow> nat list \<Rightarrow> pool \<Rightarrow> nat option \<times> pool" where
  "overflow_loop peer start attempt 0 arr s = (None, s)"
| "overflow_loop peer start attempt (Suc left) arr s =
     (let source = arr ! ((start + attempt) mod length arr) in
      case pr_open peer attempt source of
        OpenDeadline \<Rightarrow> (None, s)
      | OpenFailed \<Rightarrow>
          (case dropOverflow source arr s of (arr', s') \<Rightarrow> overflow_loop peer start (Suc attempt) left arr' s')
      | Opened stream \<Rightarrow>
          if pr_start peer (Stream stream) then (Some stream, s)
          else (case dropOverflow source arr (close_conn (Stream stream) s) of
            (arr', s') \<Rightarrow> overflow_loop peer start (Suc attempt) left arr' s'))"

definition overflowConn :: "peer \<Rightarrow> pool \<Rightarrow> nat option \<times> pool" where
  "overflowConn peer s =
     (if po_overflow s = [] then (None, s)
      else overflow_loop peer (po_overflowNext s) 0 (length (po_overflow s)) (po_overflow s)
        (s\<lparr>po_overflowNext := po_overflowNext s + 1\<rparr>))"

section \<open>Taking a connection\<close>

datatype wait_pick = PickConn | PickCancelled | PickDone | PickTimeout

datatype pool_error = SessionClosed | WaitCancelled | WaitTimedOut | StartFailed

text \<open>The first loop of \<^verbatim>\<open>GetWorkConn\<close>: pooled connections are tried in turn, the dead ones closed.\<close>

function take_live :: "peer \<Rightarrow> pool \<Rightarrow> nat option \<times> pool" where
  "take_live peer s =
     (case takePooled s of
        (None, s1) \<Rightarrow> (None, s1)
      | (Some c, s1) \<Rightarrow> if pr_start peer (WorkConn c) then (Some c, s1) else take_live peer (close_conn (WorkConn c) s1))"
  by pat_completeness auto

termination
  by (relation "measure (\<lambda>(peer, s). length (po_workConns s))")
    (auto simp: close_conn_def split: list.splits)

text \<open>\<^verbatim>\<open>GetWorkConn\<close> up to the point where it would block in \<^verbatim>\<open>waitWorkConn\<close>: \<^term>\<open>Some\<close> of its
  result when it returns without waiting, \<^term>\<open>None\<close> when it waits. Other goroutines run
  while it waits; \<open>GetWorkConn_end\<close> is the rest, \<open>pick\<close> being the ready case that \<^verbatim>\<open>select\<close> takes (the timer
  is always ready in the end). Either way the pool is replenished on return.\<close>

definition GetWorkConn_begin :: "peer \<Rightarrow> pool \<Rightarrow> (pool_error + link) option \<times> pool" where
  "GetWorkConn_begin peer s =
     (case take_live peer s of
        (Some c, s1) \<Rightarrow> (Some (Inr (WorkConn c)), replenishPool s1)
      | (None, s1) \<Rightarrow>
          (case overflowConn peer (s1\<lparr>po_misses := po_misses s1 + 1\<rparr>) of
             (Some stream, s2) \<Rightarrow> (Some (Inr (Stream stream)), replenishPool s2)
           | (None, s2) \<Rightarrow>
               if po_done s2 then (Some (Inl SessionClosed), replenishPool s2)
               else (None, requestWorkConns 1 (s2\<lparr>po_inFlight := po_inFlight s2 + 1\<rparr>))))"

definition GetWorkConn_end :: "peer \<Rightarrow> wait_pick \<Rightarrow> pool \<Rightarrow> (pool_error + link) \<times> pool" where
  "GetWorkConn_end peer pick s =
     (let (result, s') =
        (case pick of
           PickConn \<Rightarrow> (case takePooled s of
               (Some c, s1) \<Rightarrow> if pr_start peer (WorkConn c) then (Inr (WorkConn c), s1)
                  else (Inl StartFailed, close_conn (WorkConn c) s1)
             | (None, s1) \<Rightarrow> (Inl WaitTimedOut, s1))
         | PickCancelled \<Rightarrow> (Inl WaitCancelled, s)
         | PickDone \<Rightarrow> (Inl (if po_done s then SessionClosed else WaitTimedOut), s)
         | PickTimeout \<Rightarrow> (Inl WaitTimedOut, s))
      in (result, replenishPool s'))"

definition GetWorkConn :: "peer \<Rightarrow> (pool \<Rightarrow> pool) \<Rightarrow> wait_pick \<Rightarrow> pool \<Rightarrow> (pool_error + link) \<times> pool" where
  "GetWorkConn peer meanwhile pick s =
     (case GetWorkConn_begin peer s of
        (Some result, s') \<Rightarrow> (result, s')
      | (None, s') \<Rightarrow> GetWorkConn_end peer pick (meanwhile s'))"

text \<open>\<^verbatim>\<open>DrainPool\<close>, and the draining that ends \<^verbatim>\<open>Close\<close>.\<close>

function DrainPool :: "nat \<Rightarrow> pool \<Rightarrow> nat \<times> pool" where
  "DrainPool drained s =
     (case takePooled s of
        (None, s1) \<Rightarrow> (drained, s1)
      | (Some c, s1) \<Rightarrow> DrainPool (drained + 1) (close_conn (WorkConn c) s1))"
  by pat_completeness auto

termination
  by (relation "measure (\<lambda>(drained, s). length (po_workConns s))")
    (auto simp: close_conn_def split: list.splits)

declare take_live.simps [simp del] DrainPool.simps [simp del]

text \<open>The pool's part of \<^verbatim>\<open>Session.Close\<close>: the carriers are closed, then the pooled connections.\<close>

definition close_pool :: "pool \<Rightarrow> pool" where
  "close_pool s =
     (if po_done s then s
      else snd (DrainPool 0 (foldl (\<lambda>s source. close_conn (Carrier source) s)
        (s\<lparr>po_done := True, po_overflow := []\<rparr>) (po_overflow s))))"

section \<open>Every connection is somewhere\<close>

fun closed_work :: "link list \<Rightarrow> nat list" where
  "closed_work [] = []"
| "closed_work (WorkConn c # ls) = c # closed_work ls"
| "closed_work (Stream c # ls) = closed_work ls"
| "closed_work (Carrier c # ls) = closed_work ls"

lemma closed_work_append [simp]: "closed_work (ks @ ls) = closed_work ks @ closed_work ls"
  by (induction ks rule: closed_work.induct) simp_all

lemma closed_work_map [simp]:
  "closed_work (map WorkConn cs) = cs" "closed_work (map Stream cs) = []" "closed_work (map Carrier cs) = []"
  by (induction cs) simp_all

text \<open>The connections the session still answers for: pooled or closed.\<close>

definition held :: "pool \<Rightarrow> nat multiset" where
  "held s = mset (po_workConns s) + mset (closed_work (po_closed s))"

definition pool_ok :: "pool \<Rightarrow> bool" where
  "pool_ok s \<longleftrightarrow> 1 \<le> po_capacity s \<and> length (po_workConns s) \<le> po_capacity s \<and> 0 \<le> po_inFlight s
     \<and> po_target s \<le> po_refill s \<and> po_refill s \<le> max (po_target s) (int (po_capacity s))
     \<and> length (po_overflow s) \<le> maxOverflowCarriers \<and> 0 \<le> po_misses s \<and> 0 \<le> po_pending s
     \<and> (0 < po_pending s \<longrightarrow> po_kick s)"

text \<open>What an operation leaves as it was.\<close>

definition same_limits :: "pool \<Rightarrow> pool \<Rightarrow> bool" where
  "same_limits s s' \<longleftrightarrow> po_capacity s' = po_capacity s \<and> po_target s' = po_target s"

lemma newPool_ok: "pool_ok (newPool m t)"
  by (auto simp: pool_ok_def newPool_def)

lemma held_simps [simp]:
  "held (close_conn (WorkConn c) s) = add_mset c (held s)"
  "held (close_conn (Stream c) s) = held s" "held (close_conn (Carrier c) s) = held s"
  by (simp_all add: held_def close_conn_def)

lemma close_conn_ok [simp]: "pool_ok (close_conn l s) = pool_ok s"
  by (simp add: close_conn_def pool_ok_def)

lemma close_conn_fields [simp]:
  "po_workConns (close_conn l s) = po_workConns s" "po_overflow (close_conn l s) = po_overflow s"
  "po_done (close_conn l s) = po_done s" "po_closed (close_conn l s) = po_closed s @ [l]"
  "po_capacity (close_conn l s) = po_capacity s" "po_target (close_conn l s) = po_target s"
  by (simp_all add: close_conn_def)

lemma request_ok: "pool_ok s \<Longrightarrow> pool_ok (requestWorkConns n s) \<and> held (requestWorkConns n s) = held s"
  by (auto simp: requestWorkConns_def pool_ok_def held_def)

lemma AddWorkConn_ok: "pool_ok s \<Longrightarrow> pool_ok (AddWorkConn d c s) \<and> held (AddWorkConn d c s) = add_mset c (held s)"
  by (auto simp: AddWorkConn_def Let_def pool_ok_def held_def close_conn_def)

lemma take_live_list:
  "po_workConns s = cs \<Longrightarrow> take_live peer s = (case dropWhile (\<lambda>c. \<not> pr_start peer (WorkConn c)) cs of
       [] \<Rightarrow> (None, s\<lparr>po_workConns := [], po_closed := po_closed s @ map WorkConn cs\<rparr>)
     | c # rest \<Rightarrow> (Some c, s\<lparr>po_workConns := rest, po_closed := po_closed s @
         map WorkConn (takeWhile (\<lambda>c. \<not> pr_start peer (WorkConn c)) cs)\<rparr>))"
proof (induction cs arbitrary: s)
  case Nil
  then show ?case by (simp add: take_live.simps [of peer s])
next
  case (Cons c cs)
  let ?s = "close_conn (WorkConn c) (s\<lparr>po_workConns := cs\<rparr>)"
  show ?case
  proof (cases "pr_start peer (WorkConn c)")
    case True
    with Cons.prems show ?thesis by (simp add: take_live.simps [of peer s])
  next
    case False
    have step: "take_live peer s = take_live peer ?s"
      using Cons.prems False by (simp add: take_live.simps [of peer s])
    have "po_workConns ?s = cs" by simp
    note ih = Cons.IH [OF this]
    show ?thesis unfolding step ih using False
      by (cases "dropWhile (\<lambda>c. \<not> pr_start peer (WorkConn c)) cs")
        (simp_all add: close_conn_def del: dropWhile_eq_Nil_conv)
  qed
qed

lemmas take_live_spec = take_live_list [OF refl]

lemma take_live_ok:
  assumes "pool_ok s" "take_live peer s = (r, s')"
  shows "pool_ok s' \<and> held s = held s' + mset (case r of None \<Rightarrow> [] | Some c \<Rightarrow> [c])
    \<and> (\<forall>c. r = Some c \<longrightarrow> pr_start peer (WorkConn c))"
proof -
  let ?dead = "\<lambda>c. \<not> pr_start peer (WorkConn c)" and ?cs = "po_workConns s"
  show ?thesis
  proof (cases "dropWhile ?dead ?cs")
    case Nil
    then have "take_live peer s = (None, s\<lparr>po_workConns := [], po_closed := po_closed s @ map WorkConn ?cs\<rparr>)"
      unfolding take_live_spec Nil by simp
    then show ?thesis using assms by (auto simp: pool_ok_def held_def)
  next
    case (Cons c rest)
    have split: "?cs = takeWhile ?dead ?cs @ c # rest" by (metis Cons takeWhile_dropWhile_id)
    then have "mset ?cs = mset (takeWhile ?dead ?cs) + add_mset c (mset rest)" by (metis mset.simps(2) mset_append)
    moreover have "length rest \<le> length ?cs" using split by (metis length_append length_Cons le_SucI le_add2 add_Suc_right)
    moreover have "\<not> ?dead c" using Cons by (metis dropWhile_eq_Cons_conv)
    moreover have "take_live peer s = (Some c, s\<lparr>po_workConns := rest,
        po_closed := po_closed s @ map WorkConn (takeWhile ?dead ?cs)\<rparr>)"
      unfolding take_live_spec Cons by simp
    ultimately show ?thesis using assms by (auto simp: pool_ok_def held_def)
  qed
qed

lemma DrainPool_spec:
  "DrainPool n s = (n + length (po_workConns s),
     s\<lparr>po_workConns := [], po_closed := po_closed s @ map WorkConn (po_workConns s)\<rparr>)"
proof (induction n s rule: DrainPool.induct)
  case (1 n s)
  then show ?case by (cases "po_workConns s") (simp_all add: DrainPool.simps [of n s] close_conn_def)
qed

lemma topUpPool_spec:
  "topUpPool s = (let want = min (po_refill s) (int (po_capacity s)) - int (length (po_workConns s)) - po_inFlight s in
     if want \<le> 0 then s else requestWorkConns want (s\<lparr>po_inFlight := po_inFlight s + want\<rparr>))"
  by (auto simp: topUpPool_def Let_def min_def)

lemma topUpPool_ok: "pool_ok s \<Longrightarrow> pool_ok (topUpPool s) \<and> held (topUpPool s) = held s"
  unfolding topUpPool_spec Let_def
  by (auto simp: requestWorkConns_def pool_ok_def held_def)

lemma replenishPool_ok: "pool_ok s \<Longrightarrow> pool_ok (replenishPool s) \<and> held (replenishPool s) = held s"
  by (simp add: replenishPool_def topUpPool_ok)

lemma half_bound: "max (trunc_div t 2) p \<le> max p (max t 0)"
proof (cases "0 \<le> t")
  case True
  then have "trunc_div t 2 = t div 2" by (simp add: trunc_div_pos)
  moreover have "t div 2 \<le> t" using True by presburger
  ultimately show ?thesis using True by (simp add: max_def)
next
  case False
  then have "trunc_div t 2 \<le> 0" by (simp add: trunc_div_def)
  then show ?thesis by (simp add: max_def)
qed

lemma adjust_ok: "pool_ok s \<Longrightarrow> pool_ok (adjustRefillTarget b s) \<and> held (adjustRefillTarget b s) = held s"
proof -
  assume ok: "pool_ok s"
  have "max (trunc_div (po_refill s) 2) (po_target s) \<le> max (po_target s) (int (po_capacity s))"
    using half_bound [of "po_refill s" "po_target s"] ok by (auto simp: pool_ok_def)
  with ok show ?thesis by (auto simp: adjustRefillTarget_def Let_def pool_ok_def held_def)
qed

lemma in_flight_reset_ok: "pool_ok s \<Longrightarrow> pool_ok (s\<lparr>po_inFlight := 0\<rparr>) \<and> held (s\<lparr>po_inFlight := 0\<rparr>) = held s"
  by (simp add: pool_ok_def held_def)

lemma tend_ok:
  assumes "pool_ok s"
  shows "pool_ok (snd (tend_refill (n, s))) \<and> held (snd (tend_refill (n, s))) = held s
    \<and> pool_ok (snd (tend_sweep (n, s))) \<and> held (snd (tend_sweep (n, s))) = held s"
  using assms in_flight_reset_ok [OF assms] topUpPool_ok adjust_ok
  by (simp add: tend_refill_def tend_sweep_def Let_def)

lemma dropOverflow_ok:
  assumes "pool_ok s" "dropOverflow c arr s = (arr', s')"
  shows "pool_ok s' \<and> held s' = held s"
  using assms order_trans [OF length_filter_le]
  by (auto simp: dropOverflow_def Let_def close_conn_def pool_ok_def held_def)

lemma overflow_loop_ok:
  assumes "pool_ok s" "overflow_loop peer start k n arr s = (r, s')"
  shows "pool_ok s' \<and> held s' = held s \<and> (\<forall>c. r = Some c \<longrightarrow> pr_start peer (Stream c))"
  using assms
proof (induction peer start k n arr s rule: overflow_loop.induct)
  case (2 peer start k n arr s)
  let ?src = "arr ! ((start + k) mod length arr)"
  show ?case
  proof (cases "pr_open peer k ?src")
    case (Opened st)
    show ?thesis
    proof (cases "pr_start peer (Stream st)")
      case True
      with Opened 2(3,4) show ?thesis by auto
    next
      case False
      obtain arr' t where d: "dropOverflow ?src arr (close_conn (Stream st) s) = (arr', t)" by fastforce
      have t: "pool_ok t" "held t = held s" using dropOverflow_ok [OF _ d] 2(3) by simp_all
      from 2(1) [OF refl Opened False d [symmetric] t(1)] 2(4) Opened False d t show ?thesis by simp
    qed
  next
    case OpenFailed
    obtain arr' t where d: "dropOverflow ?src arr s = (arr', t)" by fastforce
    have t: "pool_ok t" "held t = held s" using dropOverflow_ok [OF _ d] 2(3) by simp_all
    from 2(2) [OF refl OpenFailed d [symmetric] t(1)] 2(4) OpenFailed d t show ?thesis by simp
  next
    case OpenDeadline
    with 2(3,4) show ?thesis by simp
  qed
qed simp

lemma overflowConn_ok:
  assumes "pool_ok s" "overflowConn peer s = (r, s')"
  shows "pool_ok s' \<and> held s' = held s \<and> (\<forall>c. r = Some c \<longrightarrow> pr_start peer (Stream c))"
proof (cases "po_overflow s = []")
  case True
  with assms show ?thesis by (simp add: overflowConn_def)
next
  case False
  let ?s = "s\<lparr>po_overflowNext := po_overflowNext s + 1\<rparr>"
  have "pool_ok ?s" "held ?s = held s" using assms(1) by (simp_all add: pool_ok_def held_def)
  moreover have "overflow_loop peer (po_overflowNext s) 0 (length (po_overflow s)) (po_overflow s) ?s = (r, s')"
    using assms(2) False by (simp add: overflowConn_def)
  ultimately show ?thesis using overflow_loop_ok by metis
qed

text \<open>The connections a result hands to the caller.\<close>

fun handed_work :: "(pool_error + link) option \<Rightarrow> nat list" where
  "handed_work (Some (Inr l)) = closed_work [l]"
| "handed_work r = []"

fun answers :: "peer \<Rightarrow> (pool_error + link) option \<Rightarrow> bool" where
  "answers peer (Some (Inr l)) \<longleftrightarrow> pr_start peer l"
| "answers peer r \<longleftrightarrow> True"

lemma begin_ok:
  assumes "pool_ok s" "GetWorkConn_begin peer s = (r, s')"
  shows "pool_ok s' \<and> held s = held s' + mset (handed_work r) \<and> answers peer r"
proof -
  obtain x s1 where tl: "take_live peer s = (x, s1)" by fastforce
  note t = take_live_ok [OF assms(1) tl]
  show ?thesis
  proof (cases x)
    case (Some c)
    with t assms(2) tl replenishPool_ok [of s1] show ?thesis by (auto simp: GetWorkConn_begin_def)
  next
    case None
    let ?s1 = "s1\<lparr>po_misses := po_misses s1 + 1\<rparr>"
    obtain y s2 where ov: "overflowConn peer ?s1 = (y, s2)" by fastforce
    have m: "pool_ok ?s1" "held ?s1 = held s1" using t by (auto simp: pool_ok_def held_def)
    note o = overflowConn_ok [OF m(1) ov]
    show ?thesis
    proof (cases y)
      case (Some st)
      with None t m o assms(2) tl ov replenishPool_ok [of s2] show ?thesis by (auto simp: GetWorkConn_begin_def)
    next
      case None': None
      let ?s3 = "s2\<lparr>po_inFlight := po_inFlight s2 + 1\<rparr>"
      have w: "pool_ok ?s3" "held ?s3 = held s2" using o by (auto simp: pool_ok_def held_def)
      from None None' t m o assms(2) tl ov replenishPool_ok [of s2] request_ok [OF w(1), of 1] w show ?thesis
        by (auto simp: GetWorkConn_begin_def split: if_splits)
    qed
  qed
qed

lemma takePooled_ok:
  "pool_ok s \<Longrightarrow> takePooled s = (Some c, s') \<Longrightarrow> pool_ok s' \<and> held s = add_mset c (held s')"
  by (auto simp: pool_ok_def held_def split: list.splits)

lemma end_ok:
  assumes "pool_ok s" "GetWorkConn_end peer pick s = (r, s')"
  shows "pool_ok s' \<and> held s = held s' + mset (handed_work (Some r)) \<and> answers peer (Some r)"
proof (cases "pick = PickConn \<and> po_workConns s \<noteq> []")
  case True
  then obtain c s1 where tp: "takePooled s = (Some c, s1)" by (cases "po_workConns s") auto
  note t = takePooled_ok [OF assms(1) tp]
  show ?thesis
    using True t assms(2) tp replenishPool_ok [of s1] replenishPool_ok [of "close_conn (WorkConn c) s1"]
    by (auto simp: GetWorkConn_end_def simp del: takePooled.simps split: if_splits)
next
  case False
  then show ?thesis
    using assms replenishPool_ok [OF assms(1)]
    by (cases pick) (auto simp: GetWorkConn_end_def split: list.splits)
qed

text \<open>Carriers are closed one after the other.\<close>

lemma close_carriers:
  "foldl (\<lambda>s source. close_conn (Carrier source) s) s cs = s\<lparr>po_closed := po_closed s @ map Carrier cs\<rparr>"
  by (induction cs arbitrary: s) (simp_all add: close_conn_def)

lemma close_pool_spec:
  "close_pool s = (if po_done s then s else
     s\<lparr>po_done := True, po_overflow := [], po_workConns := [],
       po_closed := po_closed s @ map Carrier (po_overflow s) @ map WorkConn (po_workConns s)\<rparr>)"
  by (simp add: close_pool_def close_carriers DrainPool_spec)

lemma close_pool_ok: "pool_ok s \<Longrightarrow> pool_ok (close_pool s) \<and> held (close_pool s) = held s"
  by (simp add: close_pool_spec pool_ok_def held_def)

lemma drain_ok: "pool_ok s \<Longrightarrow> pool_ok (snd (DrainPool n s)) \<and> held (snd (DrainPool n s)) = held s"
  by (simp add: DrainPool_spec pool_ok_def held_def)

lemma requester_ok:
  "pool_ok s \<Longrightarrow> workConnRequester s = (r, s') \<Longrightarrow> pool_ok s' \<and> held s' = held s
    \<and> (\<forall>n. r = Some n \<longrightarrow> 1 \<le> n \<and> n \<le> int (po_capacity s))"
  by (auto simp: workConnRequester_def Let_def pool_ok_def held_def split: if_splits)

section \<open>Sequences of operations\<close>

text \<open>What the goroutines of a server do to the pool, in any order: connections attached, visitors
  served (a visitor that waits is two operations with anything in between), the two tickers and the
  requester of the session, carriers attached, the pool drained and the session closed.\<close>

datatype pool_op =
    OpAttach bool nat
  | OpServe peer
  | OpWake peer wait_pick
  | OpRefill int
  | OpSweep int
  | OpRequest
  | OpCarrier nat
  | OpDrain
  | OpClose

fun pool_step :: "pool_op \<Rightarrow> pool \<Rightarrow> nat list \<times> pool" where
  "pool_step (OpAttach d c) s = ([], AddWorkConn d c s)"
| "pool_step (OpServe peer) s = (case GetWorkConn_begin peer s of (r, s') \<Rightarrow> (handed_work r, s'))"
| "pool_step (OpWake peer pick) s = (case GetWorkConn_end peer pick s of (r, s') \<Rightarrow> (handed_work (Some r), s'))"
| "pool_step (OpRefill n) s = ([], snd (tend_refill (n, s)))"
| "pool_step (OpSweep n) s = ([], snd (tend_sweep (n, s)))"
| "pool_step OpRequest s = ([], snd (workConnRequester s))"
| "pool_step (OpCarrier c) s = ([], SetOverflow c s)"
| "pool_step OpDrain s = ([], snd (DrainPool 0 s))"
| "pool_step OpClose s = ([], close_pool s)"

fun pool_run :: "pool_op list \<Rightarrow> pool \<Rightarrow> nat list \<times> pool" where
  "pool_run [] s = ([], s)"
| "pool_run (x # xs) s = (case pool_step x s of (h, s') \<Rightarrow> case pool_run xs s' of (hs, s'') \<Rightarrow> (h @ hs, s''))"

fun attached :: "pool_op list \<Rightarrow> nat list" where
  "attached [] = []"
| "attached (OpAttach d c # xs) = c # attached xs"
| "attached (x # xs) = attached xs"

lemma pool_step_ok:
  assumes "pool_ok s" "pool_step x s = (h, s')"
  shows "pool_ok s' \<and> mset h + held s' = held s + mset (attached [x])"
proof (cases x)
  case (OpAttach d c)
  with assms AddWorkConn_ok [of s d c] show ?thesis by auto
next
  case (OpServe peer)
  with assms begin_ok [of s peer] show ?thesis by (cases "GetWorkConn_begin peer s") auto
next
  case (OpWake peer pick)
  with assms end_ok [of s peer pick] show ?thesis by (cases "GetWorkConn_end peer pick s") auto
next
  case (OpRefill n)
  with assms tend_ok [of s n] show ?thesis by auto
next
  case (OpSweep n)
  with assms tend_ok [of s n] show ?thesis by auto
next
  case OpRequest
  with assms requester_ok [of s] show ?thesis by (cases "workConnRequester s") auto
next
  case (OpCarrier c)
  with assms show ?thesis
    by (cases "maxOverflowCarriers \<le> length (po_overflow s)")
      (auto simp: SetOverflow_def pool_ok_def held_def close_conn_def)
next
  case OpDrain
  with assms drain_ok [of s 0] show ?thesis by auto
next
  case OpClose
  with assms close_pool_ok [of s] show ?thesis by auto
qed

lemma attached_Cons: "attached (x # xs) = attached [x] @ attached xs"
  by (cases x) simp_all

lemma pool_run_ok:
  "pool_ok s \<Longrightarrow> pool_run xs s = (h, s') \<Longrightarrow> pool_ok s' \<and> mset h + held s' = held s + mset (attached xs)"
proof (induction xs arbitrary: s h s')
  case Nil
  then show ?case by simp
next
  case (Cons x xs)
  obtain h1 s1 where step: "pool_step x s = (h1, s1)" by fastforce
  obtain hs s2 where run: "pool_run xs s1 = (hs, s2)" by fastforce
  have "h = h1 @ hs" "s' = s2" using Cons.prems(2) step run by auto
  with pool_step_ok [OF Cons.prems(1) step] Cons.IH [OF _ run] attached_Cons [of x xs] show ?case
    by (simp add: ac_simps)
qed

text \<open>Only a close marks the session closed.\<close>

lemma open_requester [simp]: "po_done (snd (workConnRequester s)) = po_done s"
  by (simp add: workConnRequester_def Let_def)

lemma open_request [simp]: "po_done (requestWorkConns n s) = po_done s"
  by (simp add: requestWorkConns_def)

lemma open_topUp [simp]: "po_done (topUpPool s) = po_done s"
  by (simp add: topUpPool_def Let_def)

lemma open_replenish [simp]: "po_done (replenishPool s) = po_done s"
  by (simp add: replenishPool_def)

lemma open_take_live: "take_live peer s = (r, s') \<Longrightarrow> po_done s' = po_done s"
  by (cases "dropWhile (\<lambda>c. \<not> pr_start peer (WorkConn c)) (po_workConns s)")
    (auto simp: take_live_spec simp del: dropWhile_eq_Nil_conv)

lemma open_loop: "po_done (snd (overflow_loop peer start k n arr s)) = po_done s"
  by (induction peer start k n arr s rule: overflow_loop.induct)
    (auto simp: Let_def dropOverflow_def split: open_result.splits)

lemma open_step: "x \<noteq> OpClose \<Longrightarrow> po_done (snd (pool_step x s)) = po_done s"
proof (cases x)
  case (OpServe peer)
  obtain r t where tl: "take_live peer s = (r, t)" by fastforce
  then show ?thesis using OpServe open_take_live [OF tl] open_loop
    by (auto simp: GetWorkConn_begin_def overflowConn_def split: option.splits prod.splits)
      (metis snd_conv pool.select_convs pool.update_convs pool.surjective)+
qed (auto simp: AddWorkConn_def GetWorkConn_end_def Let_def tend_refill_def tend_sweep_def adjustRefillTarget_def
      SetOverflow_def DrainPool_spec split: wait_pick.splits list.splits)

section \<open>Properties\<close>

text \<open>C4: No work connection is ever lost or handed out twice. After any operations of any goroutines
  on a new session, in any order, every connection a client attached is in exactly one place: handed
  to one visitor, waiting in the pool, or closed; the pool never holds more than its capacity, the
  refill target stays between the one the client asked for and the capacity, and there are at most
  eight carriers.\<close>

theorem work_conns_conserved:
  "case pool_run ops (newPool maxPool target) of (handed, s) \<Rightarrow>
     mset handed + mset (po_workConns s) + mset (closed_work (po_closed s)) = mset (attached ops)
     \<and> length (po_workConns s) \<le> po_capacity s \<and> 0 \<le> po_inFlight s
     \<and> po_target s \<le> po_refill s \<and> po_refill s \<le> max (po_target s) (int (po_capacity s))
     \<and> length (po_overflow s) \<le> 8"
proof -
  obtain h s where run: "pool_run ops (newPool maxPool target) = (h, s)" by fastforce
  have "held (newPool maxPool target) = {#}" by (simp add: held_def newPool_def)
  with pool_run_ok [OF newPool_ok run] run show ?thesis
    by (simp add: pool_ok_def held_def maxOverflowCarriers_def add.assoc)
qed

text \<open>A visitor gets the oldest pooled connection that is still alive: the dead ones ahead of it
  are closed and never handed out, the ones behind it stay pooled in order, and no carrier is opened
  and nobody waits.\<close>

theorem work_conn_selection:
  assumes "po_workConns s = dead @ c # rest" "\<forall>d \<in> set dead. \<not> pr_start peer (WorkConn d)"
    and "pr_start peer (WorkConn c)"
  shows "case GetWorkConn peer meanwhile pick s of (r, s') \<Rightarrow>
    r = Inr (WorkConn c) \<and> po_workConns s' = rest \<and> po_closed s' = po_closed s @ map WorkConn dead
    \<and> po_overflow s' = po_overflow s \<and> po_overflowNext s' = po_overflowNext s \<and> po_misses s' = po_misses s"
proof -
  let ?d = "\<lambda>c. \<not> pr_start peer (WorkConn c)"
  have drop: "dropWhile ?d (dead @ c # rest) = c # rest" "takeWhile ?d (dead @ c # rest) = dead"
    using assms(2,3) by (simp_all add: dropWhile_append2 takeWhile_append2)
  have "take_live peer s = (Some c, s\<lparr>po_workConns := rest, po_closed := po_closed s @ map WorkConn dead\<rparr>)"
    unfolding take_live_spec assms(1) drop by simp
  then show ?thesis
    by (simp add: GetWorkConn_def GetWorkConn_begin_def replenishPool_def topUpPool_def requestWorkConns_def Let_def)
qed

definition sample_peer :: peer where
  "sample_peer = \<lparr>pr_start = (\<lambda>l. l \<noteq> WorkConn 1), pr_open = (\<lambda>k c. OpenFailed)\<rparr>"

definition sample_pool :: pool where
  "sample_pool = (newPool 4 3)\<lparr>po_workConns := [1, 2, 3]\<rparr>"

theorem work_conn_selection_witness:
  "fst (GetWorkConn sample_peer id PickTimeout sample_pool) = Inr (WorkConn 2)
   \<and> po_closed (snd (GetWorkConn sample_peer id PickTimeout sample_pool)) = [WorkConn 1]"
  using work_conn_selection [of sample_pool "[1]" 2 "[3]" sample_peer id PickTimeout]
  by (simp add: case_prod_beta) (simp add: sample_pool_def sample_peer_def newPool_def)

text \<open>The client is asked for exactly the connections that are missing. Without carriers, once
  every earlier request has gone out, a replenish followed by the requester asks for what brings the
  pooled and the requested connections to the refill target, capped by the capacity, and for nothing
  when they already reach it; afterwards another replenish asks for nothing more.\<close>

theorem replenish_requests_deficit:
  assumes "pool_ok s" "\<not> HasOverflow s" "\<not> po_done s" "po_pending s = 0" "\<not> po_kick s"
  shows "let missing = min (po_refill s) (int (po_capacity s)) - int (length (po_workConns s)) - po_inFlight s;
             (asked, s') = workConnRequester (replenishPool s) in
    asked = (if missing \<le> 0 then None else Some missing)
    \<and> po_inFlight s' = po_inFlight s + max 0 missing
    \<and> workConnRequester (replenishPool s') = (None, s')"
proof -
  define missing where "missing = min (po_refill s) (int (po_capacity s)) - int (length (po_workConns s)) - po_inFlight s"
  have small: "missing \<le> int (po_capacity s)" using assms(1) by (auto simp: missing_def pool_ok_def)
  have r: "replenishPool t = (if min (po_refill t) (int (po_capacity t)) - int (length (po_workConns t)) - po_inFlight t \<le> 0
      then t else requestWorkConns (min (po_refill t) (int (po_capacity t)) - int (length (po_workConns t)) - po_inFlight t)
        (t\<lparr>po_inFlight := min (po_refill t) (int (po_capacity t)) - int (length (po_workConns t))\<rparr>))"
    if "\<not> HasOverflow t" for t
    using that by (simp add: replenishPool_def topUpPool_spec Let_def)
  show ?thesis
  proof (cases "missing \<le> 0")
    case True
    then have "replenishPool s = s" using r [OF assms(2)] by (simp add: missing_def)
    moreover have "workConnRequester s = (None, s)" using assms(5) by (simp add: workConnRequester_def)
    ultimately show ?thesis using True by (simp add: missing_def)
  next
    case False
    let ?s = "s\<lparr>po_inFlight := po_inFlight s + missing, po_pending := 0, po_kick := False\<rparr>"
    have "replenishPool s = s\<lparr>po_inFlight := po_inFlight s + missing, po_pending := missing, po_kick := True\<rparr>"
      using r [OF assms(2)] False assms(4) by (simp add: missing_def requestWorkConns_def)
    then have req: "workConnRequester (replenishPool s) = (Some missing, ?s)"
      using False small assms(3) by (simp add: workConnRequester_def Let_def)
    have "replenishPool ?s = ?s"
      using r [of ?s] assms(2) by (simp add: HasOverflow_def missing_def)
    moreover have "workConnRequester ?s = (None, ?s)" by (simp add: workConnRequester_def)
    ultimately show ?thesis using req False unfolding Let_def missing_def [symmetric] by simp
  qed
qed

theorem replenish_requests_deficit_witness:
  "fst (workConnRequester (replenishPool ((newPool 4 3)\<lparr>po_workConns := [7]\<rparr>))) = Some 2"
proof -
  have "pool_ok ((newPool 4 3)\<lparr>po_workConns := [7]\<rparr>)" by (simp add: pool_ok_def newPool_def)
  from replenish_requests_deficit [OF this] show ?thesis
    by (simp add: HasOverflow_def newPool_def Let_def case_prod_beta)
qed

lemma two_carriers:
  assumes "distinct xs" and "length xs \<le> 2" and "c \<in> set xs" and "xs ! (n mod length xs) \<noteq> c"
  obtains d where "xs = [c, d] \<and> n mod 2 = 1 \<or> xs = [d, c] \<and> n mod 2 = 0" "xs ! (n mod length xs) = d" "d \<noteq> c"
proof -
  consider "xs = [c]" | d where "xs = [c, d]" "d \<noteq> c" | d where "xs = [d, c]" "d \<noteq> c"
    using assms(1-3) by (cases xs; cases "tl xs") auto
  then show thesis
  proof cases
    case 1
    with assms(4) show thesis by simp
  next
    case (2 d)
    then have "xs ! (n mod length xs) = [c, d] ! (n mod 2)" by (simp add: numeral_2_eq_2)
    with assms(4) 2 that [of d] show thesis
      by (cases "n mod 2 = 0") (simp_all add: not_mod_2_eq_0_eq_1 del: One_nat_def)
  next
    case (3 d)
    then have "xs ! (n mod length xs) = [d, c] ! (n mod 2)" by (simp add: numeral_2_eq_2)
    with assms(4) 3 that [of d] show thesis
      by (cases "n mod 2 = 0") (simp_all add: not_mod_2_eq_0_eq_1 del: One_nat_def)
  qed
qed

lemma second_carrier:
  assumes "po_overflow s = [c, d] \<and> po_overflowNext s mod 2 = 1 \<or> po_overflow s = [d, c] \<and> po_overflowNext s mod 2 = 0"
    and "d \<noteq> c" and "f d = OpenFailed \<or> (\<exists>r. f d = Opened r \<and> \<not> pr_start peer (Stream r))"
    and "\<And>k c. pr_open peer k c = f c" and "f c = Opened st" and "pr_start peer (Stream st)"
  shows "fst (overflowConn peer s) = Some st"
proof -
  let ?n = "po_overflowNext s"
  consider "po_overflow s = [c, d]" "?n mod Suc (Suc 0) = Suc 0" "Suc ?n mod Suc (Suc 0) = 0"
    | "po_overflow s = [d, c]" "?n mod Suc (Suc 0) = 0" "Suc ?n mod Suc (Suc 0) = Suc 0"
  proof -
    have "m mod 2 = 1 \<Longrightarrow> Suc m mod 2 = 0" "m mod 2 = 0 \<Longrightarrow> Suc m mod 2 = 1" for m :: nat
      by presburger+
    note two_mod = this [of ?n, unfolded numeral_2_eq_2 One_nat_def]
    note cases = assms(1) [unfolded numeral_2_eq_2 One_nat_def]
    from cases show thesis using two_mod that by (elim disjE conjE) metis+
  qed
  then show ?thesis
  proof cases
    case 1
    show ?thesis unfolding overflowConn_def 1(1)
      using assms(2,3,5,6) 1 by (auto simp: assms(4) dropOverflow_def Let_def)
  next
    case 2
    show ?thesis unfolding overflowConn_def 2(1)
      using assms(2,3,5,6) 2 by (auto simp: assms(4) dropOverflow_def Let_def)
  qed
qed


definition two_carriers :: pool where
  "two_carriers = (newPool 4 3)\<lparr>po_overflow := [10, 11], po_overflowNext := 5\<rparr>"

definition carrier_open :: "nat \<Rightarrow> open_result" where
  "carrier_open c = (if c = 10 then Opened 99 else OpenFailed)"


text \<open>With three carriers it can: dropping a failed one compacts the array the loop is reading,
  so the next carrier slides into the place already tried. Two of three fail, the live one is never
  tried, and the visitor gets nothing.\<close>

definition three_carriers :: pool where
  "three_carriers = (newPool 4 3)\<lparr>po_overflow := [11, 10, 12]\<rparr>"

theorem overflow_skips_live_carrier:
  "case overflowConn \<lparr>pr_start = (\<lambda>l. True), pr_open = (\<lambda>k. carrier_open)\<rparr> three_carriers of (r, s) \<Rightarrow>
     r = None \<and> po_overflow s = [10] \<and> carrier_open 10 = Opened 99
     \<and> po_closed s = [Carrier 11, Carrier 12, Carrier 12]"
proof -
  let ?p = "\<lparr>pr_start = (\<lambda>l. True), pr_open = (\<lambda>k. carrier_open)\<rparr>"
  have o: "po_overflow three_carriers = [11, 10, 12]" "po_overflowNext three_carriers = 0" "po_closed three_carriers = []"
    by (simp_all add: three_carriers_def newPool_def)
  have c: "carrier_open 10 = Opened 99" "carrier_open 11 = OpenFailed" "carrier_open 12 = OpenFailed"
    by (simp_all add: carrier_open_def)
  have n: "length [11::nat, 10, 12] = Suc (Suc (Suc 0))" "Suc 0 mod Suc (Suc (Suc 0)) = Suc 0"
      "Suc (Suc 0) mod Suc (Suc (Suc 0)) = Suc (Suc 0)" by simp_all
  show ?thesis
    unfolding overflowConn_def o n(1)
    by (simp add: o c n dropOverflow_def close_conn_def)
qed

end
