(* ===== verification/Srv_Session.thy ===== *)
theory Srv_Session
  imports Srv_Proxy Srv_Pool
begin

text \<open>
  A client's session, the rest of \<^verbatim>\<open>internal/tunnel/server/session.go\<close>: the proxies it has published,
  their limits, and the closing of everything. Routes and sockets are shared by all sessions, so
  they are passed along as \<open>bindings\<close>.
\<close>

section \<open>State and operations\<close>

record session_opts =
  so_RunID :: string
  so_Name :: string
  so_PoolTarget :: int
  so_MaxPool :: int
  so_BindAddr :: string
  so_AcceptLoops :: int
  so_ReusePort :: bool
  so_Routes :: bool
  so_VhostHTTPPort :: int
  so_VhostHTTPSPort :: int

record session =
  se_opts :: session_opts
  se_pool :: pool
  se_proxies :: "(string, proxy) gomap"
  se_limits :: limits
  se_ctrlOpen :: bool

definition newSession :: "session_opts \<Rightarrow> session" where
  "newSession opts = \<lparr>se_opts = opts, se_pool = newPool (so_MaxPool opts) (so_PoolTarget opts),
     se_proxies = [], se_limits = NewLimits, se_ctrlOpen = True\<rparr>"

datatype session_error = AlreadyPublished string | NotPublished string | ProxyRefused proxy_error

definition options_of :: "session \<Rightarrow> ProxySpec \<Rightarrow> proxy_opts" where
  "options_of s spec =
     (let o' = se_opts s in
      \<lparr>op_Spec = spec, op_Source = True, op_RunID = so_RunID o', op_BindAddr = so_BindAddr o',
       op_AcceptLoops = so_AcceptLoops o', op_ReusePort = so_ReusePort o', op_Routes = so_Routes o',
       op_VhostHTTPPort = so_VhostHTTPPort o', op_VhostHTTPSPort = so_VhostHTTPSPort o'\<rparr>)"

text \<open>\<^verbatim>\<open>AddProxy\<close> does not hold its lock while it binds. \<open>AddProxy_bind\<close> is the part before it takes
  the lock again and \<open>AddProxy_publish\<close> the rest; \<open>meanwhile\<close> is what other goroutines do in between.\<close>

definition AddProxy_bind :: "text_env \<Rightarrow> go_time \<Rightarrow> listen_outcome \<Rightarrow> ProxySpec \<Rightarrow> session \<times> bindings \<Rightarrow>
    (session_error + proxy) \<times> session \<times> bindings" where
  "AddProxy_bind env now out spec st =
     (let (s, b) = st in
      if map_of (se_proxies s) (ps_Name spec) \<noteq> None then (Inl (AlreadyPublished (ps_Name spec)), s, b)
      else
        let s1 = s\<lparr>se_limits := Limits_Publish now (se_limits s) spec\<rparr> in
        case proxy_New env (options_of s spec) of
          Inl e \<Rightarrow> (Inl (ProxyRefused e), s1, b)
        | Inr p \<Rightarrow>
            (case proxy_Bind env out b p of
               (Some e, p', b') \<Rightarrow> (Inl (ProxyRefused e), s1, b')
             | (None, p', b') \<Rightarrow> (Inr p', s1, b')))"

definition AddProxy_publish :: "text_env \<Rightarrow> ProxySpec \<Rightarrow> proxy \<Rightarrow> session \<times> bindings \<Rightarrow>
    (session_error + int) \<times> session \<times> bindings" where
  "AddProxy_publish env spec p st =
     (let (s, b) = st in
      if map_of (se_proxies s) (ps_Name spec) \<noteq> None
      then (Inl (AlreadyPublished (ps_Name spec)), s, snd (proxy_Close env b p))
      else (Inr (proxy_RemotePort p), s\<lparr>se_proxies := AList.update (ps_Name spec) p (se_proxies s)\<rparr>, b))"

definition AddProxy :: "text_env \<Rightarrow> go_time \<Rightarrow> listen_outcome \<Rightarrow> (session \<times> bindings \<Rightarrow> session \<times> bindings) \<Rightarrow>
    ProxySpec \<Rightarrow> session \<times> bindings \<Rightarrow> (session_error + int) \<times> session \<times> bindings" where
  "AddProxy env now out meanwhile spec st =
     (case AddProxy_bind env now out spec st of
        (Inl e, st') \<Rightarrow> (Inl e, st')
      | (Inr p, st') \<Rightarrow> AddProxy_publish env spec p (meanwhile st'))"

definition RemoveProxy :: "text_env \<Rightarrow> string \<Rightarrow> session \<times> bindings \<Rightarrow> session_error option \<times> session \<times> bindings" where
  "RemoveProxy env name st =
     (let (s, b) = st in
      case map_of (se_proxies s) name of
        None \<Rightarrow> (Some (NotPublished name), s, b)
      | Some p \<Rightarrow>
          (None, s\<lparr>se_proxies := AList.delete name (se_proxies s), se_limits := Limits_Remove (se_limits s) name\<rparr>,
           snd (proxy_Close env b p)))"

definition ProxyPort :: "session \<Rightarrow> string \<Rightarrow> int option" where
  "ProxyPort s name = map_option proxy_RemotePort (map_of (se_proxies s) name)"

definition ProxyNames :: "session \<Rightarrow> string list" where
  "ProxyNames s = map fst (se_proxies s)"

text \<open>The loop over the running proxies in \<^verbatim>\<open>Close\<close>; what \<open>Close\<close> does once.\<close>

fun close_proxies :: "text_env \<Rightarrow> (string \<times> proxy) list \<Rightarrow> bindings \<Rightarrow> bindings" where
  "close_proxies env [] b = b"
| "close_proxies env ((n, p) # ps) b = close_proxies env ps (snd (proxy_Close env b p))"

definition Session_Close :: "text_env \<Rightarrow> session \<times> bindings \<Rightarrow> session \<times> bindings" where
  "Session_Close env st =
     (let (s, b) = st in
      if po_done (se_pool s) then (s, b)
      else
        let b1 = (if so_Routes (se_opts s)
                  then b\<lparr>bd_router := Router_RemoveClient env (bd_router b) (so_RunID (se_opts s))\<rparr> else b) in
        (s\<lparr>se_pool := close_pool (se_pool s), se_proxies := [], se_ctrlOpen := False\<rparr>,
         close_proxies env (se_proxies s) b1))"

definition SpendTraffic :: "TunnelLimits \<Rightarrow> int \<Rightarrow> TunnelLimits" where
  "SpendTraffic tunnel n = TunnelLimits_Spend tunnel n"

definition Session_TunnelLimits :: "session \<Rightarrow> string \<Rightarrow> TunnelLimits option" where
  "Session_TunnelLimits s name = Limits_For (se_limits s) name"

section \<open>What a session holds\<close>

fun sockets :: "proxy \<Rightarrow> nat list" where
  "sockets (PTcp t) = (case tp_listener t of None \<Rightarrow> [] | Some l \<Rightarrow> [l])"
| "sockets (PUdp u) = (case ux_conn u of None \<Rightarrow> [] | Some c \<Rightarrow> [c])"
| "sockets (PVhost v) = []"

definition held_sockets :: "session \<Rightarrow> nat list" where
  "held_sockets s = concat (map (sockets \<circ> snd) (se_proxies s))"

text \<open>The routes of the other clients.\<close>

definition others :: "string \<Rightarrow> router \<Rightarrow> string \<rightharpoonup> route" where
  "others runID r = (\<lambda>k. case map_of (routes r) k of None \<Rightarrow> None
     | Some rt \<Rightarrow> if rt_RunID rt = runID then None else Some rt)"

fun owned_by :: "string \<Rightarrow> proxy \<Rightarrow> bool" where
  "owned_by runID (PVhost v) \<longleftrightarrow> vp_runID v = runID"
| "owned_by runID p \<longleftrightarrow> True"

definition session_ok :: "text_env \<Rightarrow> nat set \<Rightarrow> session \<times> bindings \<Rightarrow> bool" where
  "session_ok env base st \<longleftrightarrow> (let (s, b) = st in
     router_ok env (bd_router b) \<and> gomap_ok (se_proxies s) \<and> distinct (held_sockets s)
     \<and> set (bd_open b) = base \<union> set (held_sockets s) \<and> base \<inter> set (held_sockets s) = {}
     \<and> (\<forall>(n, p) \<in> set (se_proxies s). owned_by (so_RunID (se_opts s)) p))"

lemma Close_sockets:
  "bd_open (snd (proxy_Close env b p)) = filter (\<lambda>x. x \<notin> set (sockets p)) (bd_open b)"
  by (cases p) (auto simp: proxy_Close_def tcp_Close_def udp_Close_def removeAll_filter_not_eq
      intro!: filter_cong split: option.splits prod.splits)

lemma Close_router:
  assumes "router_ok env (bd_router b)" "owned_by runID p"
  shows "router_ok env (bd_router (snd (proxy_Close env b p)))
    \<and> others runID (bd_router (snd (proxy_Close env b p))) = others runID (bd_router b)"
proof (cases p)
  case (PVhost v)
  have rm: "router_ok env (Router_Remove env (bd_router b) (vp_runID v) (vp_name v))"
    "others runID (Router_Remove env (bd_router b) (vp_runID v) (vp_name v)) = others runID (bd_router b)"
    using rr.remove_ok [OF assms(1), of "vp_runID v" "vp_name v"] assms(2) PVhost
    by (auto simp: others_def split: option.splits)
  then show ?thesis using assms(1) PVhost by (auto simp: proxy_Close_def vhost_Close_def)
qed (auto simp: proxy_Close_def assms split: prod.splits)

text \<open>The interesting half of \<open>Close\<close>: the proxies one after the other.\<close>

lemma close_proxies_ok:
  assumes "router_ok env (bd_router b)" "\<forall>(n, p) \<in> set ps. owned_by runID p"
  shows "router_ok env (bd_router (close_proxies env ps b))
    \<and> others runID (bd_router (close_proxies env ps b)) = others runID (bd_router b)
    \<and> set (bd_open (close_proxies env ps b)) = set (bd_open b) - set (concat (map (sockets \<circ> snd) ps))"
  using assms
proof (induction env ps b rule: close_proxies.induct)
  case (2 env n p ps b)
  have "owned_by runID p" using 2(3) by simp
  note c = Close_router [OF 2(2) this]
  have "\<forall>(n, p) \<in> set ps. owned_by runID p" using 2(3) by simp
  from 2(1) [OF _ this] c show ?case by (auto simp: Close_sockets)
qed simp

lemma close_proxies_routes:
  assumes "router_ok env (bd_router b)" "\<forall>(n, p) \<in> set ps. owned_by runID p"
    and "\<forall>k rt. map_of (routes (bd_router b)) k = Some rt \<longrightarrow> rt_RunID rt \<noteq> runID"
  shows "\<forall>k rt. map_of (routes (bd_router (close_proxies env ps b))) k = Some rt \<longrightarrow> rt_RunID rt \<noteq> runID"
  using assms
proof (induction env ps b rule: close_proxies.induct)
  case (2 env n p ps b)
  have own: "owned_by runID p" "\<forall>(n, p) \<in> set ps. owned_by runID p" using 2(3) by simp_all
  note c = Close_router [OF 2(2) own(1)]
  have "\<forall>k rt. map_of (routes (bd_router (snd (proxy_Close env b p)))) k = Some rt \<longrightarrow> rt_RunID rt \<noteq> runID"
  proof (cases p)
    case (PVhost v)
    then show ?thesis using 2(4) rr.remove_ok [OF 2(2), of "vp_runID v" "vp_name v"]
      by (auto simp: proxy_Close_def vhost_Close_def split: option.splits if_splits)
  qed (use 2(4) in \<open>auto simp: proxy_Close_def split: prod.splits\<close>)
  from 2(1) [OF _ own(2) this] c show ?case by simp
qed simp

text \<open>A proxy just bound by this session.\<close>

fun fresh_out :: "listen_outcome \<Rightarrow> nat list \<Rightarrow> bool" where
  "fresh_out (Listening l port) opened \<longleftrightarrow> l \<notin> set opened"
| "fresh_out (ListenError e) opened \<longleftrightarrow> True"

lemma New_owned: "proxy_New env (options_of s spec) = Inr p \<Longrightarrow> owned_by (so_RunID (se_opts s)) p \<and> sockets p = []
    \<and> (\<forall>v. p = PVhost v \<longrightarrow> vp_domains v = ps_Domains spec)"
  by (auto simp: proxy_New_def registry_def newTCPProxy_def newUDPProxy_def newVhostProxy_def options_of_def Let_def
      split: if_splits option.splits)

lemma Bind_sockets:
  assumes "proxy_Bind env out b p = (e, p', b')" "sockets p = []"
  shows "case e of None \<Rightarrow> bd_open b' = sockets p' @ bd_open b \<and> (fresh_out out (bd_open b) \<longrightarrow> distinct (sockets p') \<and> set (sockets p') \<inter> set (bd_open b) = {})
    | Some _ \<Rightarrow> bd_open b' = bd_open b"
  using assms
  by (cases p; cases out)
    (auto simp: proxy_Bind_def tcp_Listen_def udp_Listen_def split: prod.splits option.splits if_splits)

lemma Bind_router:
  assumes "proxy_Bind env out b p = (e, p', b')" "router_ok env (bd_router b)" "owned_by runID p"
    and "\<forall>v. p = PVhost v \<longrightarrow> domains_stable env (vp_domains v)"
  shows "router_ok env (bd_router b') \<and> others runID (bd_router b') = others runID (bd_router b) \<and> owned_by runID p'"
proof (cases p)
  case (PVhost v)
  let ?rt = "\<lparr>rt_Pattern = [], rt_RunID = vp_runID v, rt_ProxyName = vp_name v, rt_TLSMode = vp_tlsMode v\<rparr>"
  obtain q x where add: "Router_Add env (bd_router b) (vp_domains v) ?rt = (q, x)" by fastforce
  have good: "domains_stable env (vp_domains v)" and own: "vp_runID v = runID" using assms(3,4) PVhost by simp_all
  have q: "bd_router b' = q" and p': "owned_by runID p'"
    using assms(1) PVhost add own by (auto simp: proxy_Bind_def vhost_Listen_def split: option.splits)
  show ?thesis
  proof (cases x)
    case None
    have "others runID q k = others runID (bd_router b) k" for k
      using rr.add_ok [OF assms(2) good] add None own by (auto simp: others_def)
    with rr.add_ok [OF assms(2) good] add None q p' show ?thesis by auto
  next
    case (Some y)
    with add have "q = bd_router b" using rr.add_error [OF assms(2) good] by blast
    with q p' assms(2) show ?thesis by simp
  qed
next
  case (PTcp t)
  with assms show ?thesis by (auto simp: proxy_Bind_def split: prod.splits)
next
  case (PUdp u)
  with assms show ?thesis by (auto simp: proxy_Bind_def split: prod.splits)
qed

lemma held_update:
  "map_of (se_proxies s) n = None \<Longrightarrow>
   held_sockets (s\<lparr>se_proxies := AList.update n p (se_proxies s)\<rparr>) = held_sockets s @ sockets p"
  by (simp add: held_sockets_def update_absent)

lemma AddProxy_bind_ok:
  assumes "session_ok env base (s, b)" "domains_stable env (ps_Domains spec)" "fresh_out out (bd_open b)"
    and "AddProxy_bind env now out spec (s, b) = (r, s', b')"
  shows "se_proxies s' = se_proxies s \<and> se_opts s' = se_opts s \<and> se_pool s' = se_pool s
    \<and> others (so_RunID (se_opts s)) (bd_router b') = others (so_RunID (se_opts s)) (bd_router b)
    \<and> (case r of Inl e \<Rightarrow> session_ok env base (s', b')
       | Inr p \<Rightarrow> map_of (se_proxies s) (ps_Name spec) = None
           \<and> session_ok env base (s'\<lparr>se_proxies := AList.update (ps_Name spec) p (se_proxies s')\<rparr>, b'))"
proof (cases "map_of (se_proxies s) (ps_Name spec)")
  case (Some q)
  with assms show ?thesis by (auto simp: AddProxy_bind_def)
next
  case none: None
  let ?s = "s\<lparr>se_limits := Limits_Publish now (se_limits s) spec\<rparr>" and ?id = "so_RunID (se_opts s)"
  have ok: "session_ok env base (?s, b)" using assms(1) by (simp add: session_ok_def held_sockets_def)
  show ?thesis
  proof (cases "proxy_New env (options_of s spec)")
    case (Inl e)
    with none assms(4) ok show ?thesis by (auto simp: AddProxy_bind_def Let_def)
  next
    case (Inr p)
    note new = New_owned [OF Inr]
    obtain e p' b1 where bind: "proxy_Bind env out b p = (e, p', b1)" by (metis prod_cases3)
    have rok: "router_ok env (bd_router b)" using ok by (simp add: session_ok_def)
    have dom: "\<forall>v. p = PVhost v \<longrightarrow> domains_stable env (vp_domains v)" using new assms(2) by auto
    note R = Bind_router [OF bind rok conjunct1 [OF new] dom] and S = Bind_sockets [OF bind conjunct1 [OF conjunct2 [OF new]]]
    show ?thesis
    proof (cases e)
      case None
      then have res: "r = Inr p'" "s' = ?s" "b' = b1" using assms(4) none Inr bind by (auto simp: AddProxy_bind_def Let_def)
      have fresh: "distinct (sockets p')" "set (sockets p') \<inter> set (bd_open b) = {}" "bd_open b1 = sockets p' @ bd_open b"
        using S None assms(3) by auto
      have held: "held_sockets (?s\<lparr>se_proxies := AList.update (ps_Name spec) p' (se_proxies ?s)\<rparr>) = held_sockets s @ sockets p'"
        using held_update [of ?s "ps_Name spec" p'] none by (simp add: held_sockets_def)
      have "session_ok env base (?s\<lparr>se_proxies := AList.update (ps_Name spec) p' (se_proxies ?s)\<rparr>, b1)"
        using assms(1) R fresh none unfolding session_ok_def Let_def case_prod_conv held
        by (auto simp: update_absent gomap_ok_def)
      with res R none show ?thesis by simp
    next
      case (Some err)
      then have res: "r = Inl (ProxyRefused err)" "s' = ?s" "b' = b1" using assms(4) none Inr bind by (auto simp: AddProxy_bind_def Let_def)
      have "session_ok env base (?s, b1)" using ok R S Some by (auto simp: session_ok_def)
      with res R show ?thesis by simp
    qed
  qed
qed

lemma AddProxy_ok:
  assumes "session_ok env base (s, b)" "domains_stable env (ps_Domains spec)" "fresh_out out (bd_open b)"
    and "AddProxy env now out id spec (s, b) = (r, s', b')"
  shows "session_ok env base (s', b') \<and> se_opts s' = se_opts s \<and> se_pool s' = se_pool s
    \<and> others (so_RunID (se_opts s)) (bd_router b') = others (so_RunID (se_opts s)) (bd_router b)"
proof -
  obtain x t c where bind: "AddProxy_bind env now out spec (s, b) = (x, t, c)" by (metis prod_cases3)
  note B = AddProxy_bind_ok [OF assms(1-3) bind]
  show ?thesis
  proof (cases x)
    case (Inl e)
    with B bind assms(4) show ?thesis by (auto simp: AddProxy_def)
  next
    case (Inr p)
    with B bind assms(4) show ?thesis by (auto simp: AddProxy_def AddProxy_publish_def)
  qed
qed

lemma RemoveProxy_ok:
  assumes "session_ok env base (s, b)" "RemoveProxy env name (s, b) = (r, s', b')"
  shows "session_ok env base (s', b') \<and> se_opts s' = se_opts s \<and> se_pool s' = se_pool s
    \<and> others (so_RunID (se_opts s)) (bd_router b') = others (so_RunID (se_opts s)) (bd_router b)"
proof (cases "map_of (se_proxies s) name")
  case None
  with assms show ?thesis by (auto simp: RemoveProxy_def)
next
  case (Some p)
  have ok: "router_ok env (bd_router b)" "gomap_ok (se_proxies s)" "distinct (held_sockets s)"
      "set (bd_open b) = base \<union> set (held_sockets s)" "base \<inter> set (held_sockets s) = {}"
      "\<forall>(n, p) \<in> set (se_proxies s). owned_by (so_RunID (se_opts s)) p"
    using assms(1) by (simp_all add: session_ok_def)
  obtain xs ys where xs: "se_proxies s = xs @ (name, p) # ys" "AList.delete name (se_proxies s) = xs @ ys"
    using gomap_split [OF ok(2) Some] by blast
  have own: "owned_by (so_RunID (se_opts s)) p" using ok(6) xs by simp
  note C = Close_router [OF ok(1) own]
  have res: "s' = s\<lparr>se_proxies := xs @ ys, se_limits := Limits_Remove (se_limits s) name\<rparr>"
      "b' = snd (proxy_Close env b p)"
    using assms(2) Some xs by (auto simp: RemoveProxy_def)
  have held: "held_sockets s = concat (map (sockets \<circ> snd) xs) @ sockets p @ concat (map (sockets \<circ> snd) ys)"
      "held_sockets s' = concat (map (sockets \<circ> snd) xs) @ concat (map (sockets \<circ> snd) ys)"
    using xs res by (simp_all add: held_sockets_def)
  have "session_ok env base (s', b')"
    unfolding session_ok_def Let_def case_prod_conv held(2)
    using ok C held(1) xs res by (auto simp: Close_sockets gomap_ok_def)
  with res C show ?thesis by simp
qed

lemma Session_Close_ok:
  assumes "session_ok env base (s, b)" "so_Routes (se_opts s)" "\<not> po_done (se_pool s)"
    and "Session_Close env (s, b) = (s', b')"
  shows "set (bd_open b') = base \<and> router_ok env (bd_router b') \<and> se_proxies s' = []
    \<and> others (so_RunID (se_opts s)) (bd_router b') = others (so_RunID (se_opts s)) (bd_router b)
    \<and> (\<forall>k rt. map_of (routes (bd_router b')) k = Some rt \<longrightarrow> rt_RunID rt \<noteq> so_RunID (se_opts s))"
proof -
  let ?id = "so_RunID (se_opts s)" and ?r = "Router_RemoveClient env (bd_router b) (so_RunID (se_opts s))"
  let ?b = "b\<lparr>bd_router := ?r\<rparr>"
  have ok: "router_ok env (bd_router b)" "set (bd_open b) = base \<union> set (held_sockets s)"
      "base \<inter> set (held_sockets s) = {}" "\<forall>(n, p) \<in> set (se_proxies s). owned_by ?id p"
    using assms(1) by (simp_all add: session_ok_def)
  have res: "s' = s\<lparr>se_pool := close_pool (se_pool s), se_proxies := [], se_ctrlOpen := False\<rparr>"
      "b' = close_proxies env (se_proxies s) ?b"
    using assms(2-4) by (simp_all add: Session_Close_def)
  have rc: "router_ok env (bd_router ?b)" "others ?id ?r = others ?id (bd_router b)"
      "\<forall>k rt. map_of (routes (bd_router ?b)) k = Some rt \<longrightarrow> rt_RunID rt \<noteq> ?id"
    using rr.remove_client_ok [OF ok(1), of ?id] by (auto simp: others_def split: option.splits if_splits)
  show ?thesis
    using close_proxies_ok [OF rc(1) ok(4)] close_proxies_routes [OF rc(1) ok(4) rc(3)] rc(2) ok res
    by (auto simp: held_sockets_def)
qed

section \<open>A session's life\<close>

datatype session_op =
    Publish go_time listen_outcome ProxySpec
  | Withdraw string
  | PoolOp pool_op

fun session_step :: "text_env \<Rightarrow> session_op \<Rightarrow> session \<times> bindings \<Rightarrow> session \<times> bindings" where
  "session_step env (Publish now out spec) st = snd (AddProxy env now out id spec st)"
| "session_step env (Withdraw name) st = snd (RemoveProxy env name st)"
| "session_step env (PoolOp x) (s, b) = (s\<lparr>se_pool := snd (pool_step x (se_pool s))\<rparr>, b)"

fun session_run :: "text_env \<Rightarrow> session_op list \<Rightarrow> session \<times> bindings \<Rightarrow> session \<times> bindings" where
  "session_run env [] st = st"
| "session_run env (x # xs) st = session_run env xs (session_step env x st)"

text \<open>What each operation of a run needs: domains that parse again to what they were, a socket the
  system has not handed out already, and no close before the end.\<close>

fun step_good :: "text_env \<Rightarrow> session_op \<Rightarrow> session \<times> bindings \<Rightarrow> bool" where
  "step_good env (Publish now out spec) (s, b) \<longleftrightarrow> domains_stable env (ps_Domains spec) \<and> fresh_out out (bd_open b)"
| "step_good env (Withdraw name) st \<longleftrightarrow> True"
| "step_good env (PoolOp x) st \<longleftrightarrow> x \<noteq> OpClose"

fun run_good :: "text_env \<Rightarrow> session_op list \<Rightarrow> session \<times> bindings \<Rightarrow> bool" where
  "run_good env [] st \<longleftrightarrow> True"
| "run_good env (x # xs) st \<longleftrightarrow> step_good env x st \<and> run_good env xs (session_step env x st)"

lemma session_step_ok:
  assumes "session_ok env base (s, b)" "step_good env x (s, b)" "session_step env x (s, b) = (s', b')"
  shows "session_ok env base (s', b') \<and> se_opts s' = se_opts s \<and> po_done (se_pool s') = po_done (se_pool s)
    \<and> others (so_RunID (se_opts s)) (bd_router b') = others (so_RunID (se_opts s)) (bd_router b)"
proof (cases x)
  case (Publish now out spec)
  obtain r where "AddProxy env now out id spec (s, b) = (r, s', b')"
    using Publish assms(3) by (cases "AddProxy env now out id spec (s, b)") auto
  from AddProxy_ok [OF assms(1) _ _ this] Publish assms(2) show ?thesis by simp
next
  case (Withdraw name)
  obtain r where "RemoveProxy env name (s, b) = (r, s', b')"
    using Withdraw assms(3) by (cases "RemoveProxy env name (s, b)") auto
  from RemoveProxy_ok [OF assms(1) this] show ?thesis by simp
next
  case (PoolOp y)
  have "held_sockets (s\<lparr>se_pool := q\<rparr>) = held_sockets s" for q by (simp add: held_sockets_def)
  with PoolOp assms open_step [of y "se_pool s"] show ?thesis by (auto simp: session_ok_def)
qed

lemma session_run_ok:
  "session_ok env base (s, b) \<Longrightarrow> run_good env xs (s, b) \<Longrightarrow> session_run env xs (s, b) = (s', b') \<Longrightarrow>
   session_ok env base (s', b') \<and> se_opts s' = se_opts s \<and> po_done (se_pool s') = po_done (se_pool s)
     \<and> others (so_RunID (se_opts s)) (bd_router b') = others (so_RunID (se_opts s)) (bd_router b)"
proof (induction xs arbitrary: s b)
  case (Cons x xs)
  obtain t c where step: "session_step env x (s, b) = (t, c)" by fastforce
  have good: "step_good env x (s, b)" "run_good env xs (t, c)" using Cons.prems(2) step by simp_all
  note S = session_step_ok [OF Cons.prems(1) good(1) step]
  from Cons.IH [OF _ good(2)] S Cons.prems(3) step show ?case by simp
qed simp

lemma newSession_ok:
  "router_ok env (bd_router b) \<Longrightarrow> session_ok env (set (bd_open b)) (newSession opts, b)"
  by (simp add: session_ok_def newSession_def held_sockets_def gomap_ok_def)

section \<open>Properties\<close>

text \<open>C6: A session gives everything back. Whatever a client publishes and withdraws, with whatever
  outcomes of listening, and whatever happens to its work connections meanwhile, closing the session
  leaves exactly the sockets that were open before it, no route of the client, and every route of
  every other client untouched.\<close>

theorem session_close_releases:
  assumes "router_ok env (bd_router b)" "so_Routes opts" "run_good env ops (newSession opts, b)"
  shows "case Session_Close env (session_run env ops (newSession opts, b)) of (s', b') \<Rightarrow>
    set (bd_open b') = set (bd_open b) \<and> se_proxies s' = []
    \<and> (\<forall>k rt. map_of (routes (bd_router b')) k = Some rt \<longrightarrow> rt_RunID rt \<noteq> so_RunID opts)
    \<and> (\<forall>k rt. rt_RunID rt \<noteq> so_RunID opts \<longrightarrow>
         (map_of (routes (bd_router b')) k = Some rt \<longleftrightarrow> map_of (routes (bd_router b)) k = Some rt))"
proof -
  obtain s1 b1 where run: "session_run env ops (newSession opts, b) = (s1, b1)" by fastforce
  obtain s' b' where close: "Session_Close env (s1, b1) = (s', b')" by fastforce
  have new: "se_opts (newSession opts) = opts" "\<not> po_done (se_pool (newSession opts))"
    by (simp_all add: newSession_def newPool_def)
  note R = session_run_ok [OF newSession_ok [OF assms(1)] assms(3) run]
  have "so_Routes (se_opts s1)" "\<not> po_done (se_pool s1)" using R new assms(2) by simp_all
  note C = Session_Close_ok [OF conjunct1 [OF R] this close]
  have oth: "others (so_RunID opts) (bd_router b') = others (so_RunID opts) (bd_router b)"
    using C R new by simp
  have "map_of (routes (bd_router b')) k = Some rt \<longleftrightarrow> map_of (routes (bd_router b)) k = Some rt"
    if "rt_RunID rt \<noteq> so_RunID opts" for k rt
    using fun_cong [OF oth, of k] that by (auto simp: others_def split: option.splits if_splits)
  moreover have "set (bd_open b') = set (bd_open b) \<and> se_proxies s' = []
    \<and> (\<forall>k rt. map_of (routes (bd_router b')) k = Some rt \<longrightarrow> rt_RunID rt \<noteq> so_RunID opts)"
    using C R new by simp
  ultimately show ?thesis unfolding run close prod.case by blast
qed

definition sample_opts :: session_opts where
  "sample_opts = \<lparr>so_RunID = ''A'', so_Name = ''home'', so_PoolTarget = 1, so_MaxPool = 4, so_BindAddr = [],
     so_AcceptLoops = 1, so_ReusePort = False, so_Routes = True, so_VhostHTTPPort = 80, so_VhostHTTPSPort = 443\<rparr>"

definition tcp_spec :: ProxySpec where
  "tcp_spec = zeroSpec\<lparr>ps_Name := ''ssh'', ps_Kind := ''tcp'', ps_RemotePort := 6022\<rparr>"

definition demo_session :: "session_op list" where
  "demo_session = [Publish (time_Unix 0) (Listening 7 (Some 6022)) tcp_spec, PoolOp (OpAttach False 1)]"

theorem session_close_releases_witness:
  "set (bd_open (snd (Session_Close ascii_env
     (session_run ascii_env demo_session (newSession sample_opts, \<lparr>bd_router = NewRouter, bd_open = [3]\<rparr>))))) = {3}"
proof -
  let ?b = "\<lparr>bd_router = NewRouter, bd_open = [3]\<rparr>"
  have r: "router_ok ascii_env (bd_router ?b)" by (simp add: router_ok_NewRouter)
  have o: "so_Routes sample_opts" by (simp add: sample_opts_def)
  have g: "run_good ascii_env demo_session (newSession sample_opts, ?b)"
    by (simp add: demo_session_def domains_stable_def tcp_spec_def zeroSpec_def)
  from session_close_releases [OF r o g] show ?thesis by (simp add: case_prod_beta)
qed

text \<open>A name is published at most once, and what is published can be found and withdrawn: an
  accepted \<open>AddProxy\<close> answers with the port that \<open>ProxyPort\<close> then gives, a second one under the same
  name is refused and changes nothing, and withdrawing it restores the open sockets and forgets the
  tunnel's limits.\<close>

theorem proxy_publication:
  assumes "session_ok env base (s, b)" "domains_stable env (ps_Domains spec)" "fresh_out out (bd_open b)"
    and "AddProxy env now out id spec (s, b) = (Inr port, s1, b1)" "ps_Name spec' = ps_Name spec"
  shows "ProxyPort s1 (ps_Name spec) = Some port
    \<and> AddProxy env now' out' meanwhile spec' (s1, b1) = (Inl (AlreadyPublished (ps_Name spec)), s1, b1)
    \<and> (case RemoveProxy env (ps_Name spec) (s1, b1) of (e, s2, b2) \<Rightarrow>
         e = None \<and> ProxyPort s2 (ps_Name spec) = None \<and> set (bd_open b2) = set (bd_open b)
         \<and> Session_TunnelLimits s2 (ps_Name spec) = None)"
proof -
  obtain x t c where bind: "AddProxy_bind env now out spec (s, b) = (x, t, c)" by (metis prod_cases3)
  note B = AddProxy_bind_ok [OF assms(1-3) bind]
  obtain p where x: "x = Inr p" using assms(4) bind by (cases x) (auto simp: AddProxy_def)
  have none: "map_of (se_proxies s) (ps_Name spec) = None" and prox: "se_proxies t = se_proxies s" using B x by auto
  have res: "s1 = t\<lparr>se_proxies := AList.update (ps_Name spec) p (se_proxies t)\<rparr>" "b1 = c" "port = proxy_RemotePort p"
    using assms(4) bind x none prox by (auto simp: AddProxy_def AddProxy_publish_def)
  have port: "ProxyPort s1 (ps_Name spec) = Some port" using res by (simp add: ProxyPort_def)
  have again: "AddProxy env now' out' meanwhile spec' (s1, b1) = (Inl (AlreadyPublished (ps_Name spec)), s1, b1)"
    using res assms(5) by (simp add: AddProxy_def AddProxy_bind_def)
  have ok1: "session_ok env base (s1, b1)" unfolding res(1,2) using B unfolding x sum.case by blast
  obtain e s2 b2 where rm: "RemoveProxy env (ps_Name spec) (s1, b1) = (e, s2, b2)" by (metis prod_cases3)
  note R = RemoveProxy_ok [OF ok1 rm]
  have s2: "e = None" "se_proxies s2 = AList.delete (ps_Name spec) (se_proxies s1)"
      "se_limits s2 = Limits_Remove (se_limits s1) (ps_Name spec)"
    using rm res by (auto simp: RemoveProxy_def)
  have "AList.delete (ps_Name spec) (se_proxies s1) = se_proxies s"
    using res prox none by (simp add: update_absent delete_last)
  then have "held_sockets s2 = held_sockets s" using s2 by (simp add: held_sockets_def)
  moreover have "set (bd_open b2) = base \<union> set (held_sockets s2)" using R by (simp add: session_ok_def)
  moreover have "set (bd_open b) = base \<union> set (held_sockets s)" using assms(1) by (simp add: session_ok_def)
  ultimately have "set (bd_open b2) = set (bd_open b)" by simp
  with port again rm s2 show ?thesis
    by (simp add: ProxyPort_def Session_TunnelLimits_def Limits_For_def Limits_Remove_def)
qed

theorem proxy_publication_witness:
  "ProxyPort (fst (snd (AddProxy ascii_env (time_Unix 0) (Listening 7 (Some 6022)) id tcp_spec
     (newSession sample_opts, \<lparr>bd_router = NewRouter, bd_open = [3]\<rparr>)))) ''ssh'' = Some 6022"
proof -
  let ?b = "\<lparr>bd_router = NewRouter, bd_open = [3]\<rparr>"
  have ok: "session_ok ascii_env {3} (newSession sample_opts, ?b)"
    using newSession_ok [of ascii_env ?b sample_opts] by (simp add: router_ok_NewRouter)
  have d: "domains_stable ascii_env (ps_Domains tcp_spec)" "fresh_out (Listening 7 (Some 6022)) (bd_open ?b)"
      "ps_Name tcp_spec = ''ssh''"
    by (simp_all add: domains_stable_def tcp_spec_def zeroSpec_def)
  obtain s1 b1 where a: "AddProxy ascii_env (time_Unix 0) (Listening 7 (Some 6022)) id tcp_spec (newSession sample_opts, ?b)
      = (Inr 6022, s1, b1)"
    by (simp add: AddProxy_def AddProxy_bind_def AddProxy_publish_def newSession_def tcp_spec_def zeroSpec_def options_of_def
        proxy_New_def registry_def newTCPProxy_def proxy_Bind_def tcp_Listen_def Let_def)
  from proxy_publication [OF ok d(1,2) a refl] a d(3) show ?thesis by simp
qed


end
