(* ===== verification/Srv_UdpSessions.thy ===== *)
theory Srv_UdpSessions
  imports Go_Time Go_Strings
begin

text \<open>
  The visitors of a UDP tunnel, \<^verbatim>\<open>udpSessions\<close> of \<^verbatim>\<open>internal/tunnel/server/proxy/udp.go\<close>: two maps
  over the same peers, one by address and one by the name an address prints as, with idle peers
  evicted once there are more than 64.
\<close>

section \<open>UDP sessions\<close>

text \<open>Addresses are \<^verbatim>\<open>netip.AddrPort\<close> values: \<open>np_unmap\<close> turns an IPv4-mapped IPv6 address into the
  IPv4 one and leaves any other as it is, \<open>np_string\<close> prints it.\<close>

record 'a netip =
  np_unmap :: "'a \<Rightarrow> 'a"
  np_string :: "'a \<Rightarrow> string"

record 'a udpPeer =
  pe_addr :: 'a
  pe_str :: string
  pe_last :: go_time

record 'a udpSessions =
  us_byAddr :: "('a, 'a udpPeer) gomap"
  us_byStr :: "(string, 'a udpPeer) gomap"

definition udpSessionTimeout :: int where "udpSessionTimeout = 60 * Second"

definition newUDPSessions :: "'a udpSessions" where
  "newUDPSessions = \<lparr>us_byAddr = [], us_byStr = []\<rparr>"

fun evict :: "go_time \<Rightarrow> ('a \<times> 'a udpPeer) list \<Rightarrow> 'a udpSessions \<Rightarrow> 'a udpSessions" where
  "evict cutoff [] s = s"
| "evict cutoff ((a, candidate) # rest) s =
     evict cutoff rest
       (if time_Before (pe_last candidate) cutoff
        then \<lparr>us_byAddr = AList.delete (pe_addr candidate) (us_byAddr s),
              us_byStr = AList.delete (pe_str candidate) (us_byStr s)\<rparr>
        else s)"

text \<open>The two maps share their peers through pointers: refreshing a peer's time is seen by both.\<close>

definition remember :: "'a netip \<Rightarrow> go_time \<Rightarrow> 'a udpSessions \<Rightarrow> 'a \<Rightarrow> string \<times> 'a udpSessions" where
  "remember net now s addr0 =
     (let addr = np_unmap net addr0 in
      case map_of (us_byAddr s) addr of
        Some peer \<Rightarrow>
          (pe_str peer,
           \<lparr>us_byAddr = AList.update addr (peer\<lparr>pe_last := now\<rparr>) (us_byAddr s),
            us_byStr = AList.update (pe_str peer) (peer\<lparr>pe_last := now\<rparr>) (us_byStr s)\<rparr>)
      | None \<Rightarrow>
          let peer = \<lparr>pe_addr = addr, pe_str = np_string net addr, pe_last = now\<rparr>;
              s1 = \<lparr>us_byAddr = AList.update addr peer (us_byAddr s),
                    us_byStr = AList.update (pe_str peer) peer (us_byStr s)\<rparr> in
          (pe_str peer,
           if 64 < length (us_byAddr s1)
           then evict (time_Add now (- udpSessionTimeout)) (us_byAddr s1) s1 else s1))"

definition udp_lookup :: "'a udpSessions \<Rightarrow> string \<Rightarrow> 'a option" where
  "udp_lookup s key = map_option pe_addr (map_of (us_byStr s) key)"

text \<open>The two maps mirror each other.\<close>

definition sessions_ok :: "'a netip \<Rightarrow> 'a udpSessions \<Rightarrow> bool" where
  "sessions_ok net s \<longleftrightarrow> gomap_ok (us_byAddr s)
     \<and> (\<forall>a p. map_of (us_byAddr s) a = Some p \<longrightarrow>
          pe_addr p = a \<and> pe_str p = np_string net a \<and> map_of (us_byStr s) (np_string net a) = Some p)
     \<and> (\<forall>k p. map_of (us_byStr s) k = Some p \<longrightarrow>
          k = np_string net (pe_addr p) \<and> map_of (us_byAddr s) (pe_addr p) = Some p)"

lemma sessions_ok_new: "sessions_ok net newUDPSessions"
  by (simp add: sessions_ok_def newUDPSessions_def)

lemma sessions_ok_put:
  assumes "sessions_ok net s" "inj (np_string net)" "pe_addr p = a" "pe_str p = np_string net a"
  shows "sessions_ok net \<lparr>us_byAddr = AList.update a p (us_byAddr s),
    us_byStr = AList.update (np_string net a) p (us_byStr s)\<rparr>"
proof -
  have eq: "np_string net b = np_string net c \<longleftrightarrow> b = c" for b c using assms(2) by (auto dest: injD)
  have a: "gomap_ok (us_byAddr s)"
    and b: "\<And>b q. map_of (us_byAddr s) b = Some q \<Longrightarrow>
        pe_addr q = b \<and> pe_str q = np_string net b \<and> map_of (us_byStr s) (np_string net b) = Some q"
    and c: "\<And>k q. map_of (us_byStr s) k = Some q \<Longrightarrow>
        k = np_string net (pe_addr q) \<and> map_of (us_byAddr s) (pe_addr q) = Some q"
    using assms(1) by (auto simp: sessions_ok_def)
  show ?thesis
    unfolding sessions_ok_def
  proof (intro conjI allI impI)
    fix k q
    assume q: "map_of (us_byStr \<lparr>us_byAddr = AList.update a p (us_byAddr s),
      us_byStr = AList.update (np_string net a) p (us_byStr s)\<rparr>) k = Some q"
    show "k = np_string net (pe_addr q)"
      using q c [of k q] assms(3) by (auto simp: update_conv' split: if_splits)
    show "map_of (us_byAddr \<lparr>us_byAddr = AList.update a p (us_byAddr s),
      us_byStr = AList.update (np_string net a) p (us_byStr s)\<rparr>) (pe_addr q) = Some q"
      using q c [of k q] assms(3) by (auto simp: update_conv' split: if_splits)
  next
    fix x q
    assume q: "map_of (us_byAddr \<lparr>us_byAddr = AList.update a p (us_byAddr s),
      us_byStr = AList.update (np_string net a) p (us_byStr s)\<rparr>) x = Some q"
    show "pe_addr q = x" "pe_str q = np_string net x"
      using q b [of x q] assms(3,4) by (auto simp: update_conv' split: if_splits)
    show "map_of (us_byStr \<lparr>us_byAddr = AList.update a p (us_byAddr s),
      us_byStr = AList.update (np_string net a) p (us_byStr s)\<rparr>) (np_string net x) = Some q"
      using q b [of x q] by (auto simp: update_conv' eq split: if_splits)
  qed (use a in simp)
qed

lemma sessions_ok_delete:
  assumes "sessions_ok net s" "inj (np_string net)"
  shows "sessions_ok net \<lparr>us_byAddr = AList.delete a (us_byAddr s),
    us_byStr = AList.delete (np_string net a) (us_byStr s)\<rparr>"
  using assms by (auto simp: sessions_ok_def dest: injD)

lemma evict_ok:
  assumes "sessions_ok net s" "inj (np_string net)"
    and "\<forall>(a, p) \<in> set ps. pe_str p = np_string net (pe_addr p)"
  shows "sessions_ok net (evict cutoff ps s)"
  using assms
proof (induction cutoff ps s rule: evict.induct)
  case (2 cutoff a p rest s)
  then show ?case using sessions_ok_delete [of net s "pe_addr p"] by auto
qed simp

text \<open>An entry of a mirrored map carries the name its address prints as.\<close>

lemma sessions_ok_entry:
  assumes "sessions_ok net s" "(b, p) \<in> set (us_byAddr s)"
  shows "map_of (us_byAddr s) b = Some p \<and> pe_addr p = b \<and> pe_str p = np_string net b"
proof -
  have "gomap_ok (us_byAddr s)" using assms(1) by (simp only: sessions_ok_def)
  then have "map_of (us_byAddr s) b = Some p" using assms(2) gomap_mem_iff by metis
  then show ?thesis using assms(1) unfolding sessions_ok_def by blast
qed

lemma evict_keeps:
  assumes "map_of (us_byAddr s) a = Some q" "map_of (us_byStr s) k = Some q"
    and "\<forall>(b, p) \<in> set ps. time_Before (pe_last p) cutoff \<longrightarrow> pe_addr p \<noteq> a \<and> pe_str p \<noteq> k"
  shows "map_of (us_byAddr (evict cutoff ps s)) a = Some q \<and> map_of (us_byStr (evict cutoff ps s)) k = Some q"
  using assms by (induction cutoff ps s rule: evict.induct) auto

lemma remember_facts:
  assumes "sessions_ok net s" "inj (np_string net)" "remember net now s addr = (str, s')"
  shows "sessions_ok net s' \<and> str = np_string net (np_unmap net addr)
    \<and> udp_lookup s' str = Some (np_unmap net addr)"
proof (cases "map_of (us_byAddr s) (np_unmap net addr)")
  case (Some peer)
  let ?q = "peer\<lparr>pe_last := now\<rparr>" and ?a = "np_unmap net addr"
  have pa: "pe_addr peer = ?a" and ps: "pe_str peer = np_string net ?a"
    using Some assms(1) unfolding sessions_ok_def by blast+
  have ok: "sessions_ok net \<lparr>us_byAddr = AList.update ?a ?q (us_byAddr s),
      us_byStr = AList.update (np_string net ?a) ?q (us_byStr s)\<rparr>"
    by (rule sessions_ok_put [OF assms(1,2)]) (simp_all add: pa ps)
  have "remember net now s addr = (np_string net ?a, \<lparr>us_byAddr = AList.update ?a ?q (us_byAddr s),
      us_byStr = AList.update (np_string net ?a) ?q (us_byStr s)\<rparr>)"
    using Some by (simp add: remember_def ps Let_def)
  with assms(3) have "(str, s') = (np_string net ?a, \<lparr>us_byAddr = AList.update ?a ?q (us_byAddr s),
      us_byStr = AList.update (np_string net ?a) ?q (us_byStr s)\<rparr>)" by metis
  with ok show ?thesis by (simp add: udp_lookup_def pa)
next
  case None
  let ?a = "np_unmap net addr"
  let ?p = "\<lparr>pe_addr = ?a, pe_str = np_string net ?a, pe_last = now\<rparr>"
  let ?s1 = "\<lparr>us_byAddr = AList.update ?a ?p (us_byAddr s), us_byStr = AList.update (np_string net ?a) ?p (us_byStr s)\<rparr>"
  let ?cut = "time_Add now (- udpSessionTimeout)"
  have s1: "sessions_ok net ?s1" by (rule sessions_ok_put [OF assms(1,2)]) simp_all
  note entry = sessions_ok_entry [OF s1]
  have strs: "\<forall>(b, p) \<in> set (us_byAddr ?s1). pe_str p = np_string net (pe_addr p)"
    using entry by (metis (lifting) case_prodI2)
  have fresh: "\<forall>(b, p) \<in> set (us_byAddr ?s1). time_Before (pe_last p) ?cut \<longrightarrow> pe_addr p \<noteq> ?a \<and> pe_str p \<noteq> np_string net ?a"
  proof (intro ballI, clarify, intro conjI)
    fix b p
    assume mem: "(b, p) \<in> set (us_byAddr ?s1)" and old: "time_Before (pe_last p) ?cut"
    have "b \<noteq> ?a"
    proof
      assume "b = ?a"
      with entry [OF mem] have "p = ?p" by simp
      with old show False by (simp add: time_Before_def udpSessionTimeout_def Second_def)
    qed
    with entry [OF mem] show "pe_addr p \<noteq> ?a" "pe_str p \<noteq> np_string net ?a"
      using injD [OF assms(2)] by metis+
  qed
  have keep: "map_of (us_byStr (evict ?cut (us_byAddr ?s1) ?s1)) (np_string net ?a) = Some ?p"
    using evict_keeps [OF _ _ fresh, of ?s1 ?p] by simp
  have "remember net now s addr =
      (np_string net ?a, if 64 < length (us_byAddr ?s1) then evict ?cut (us_byAddr ?s1) ?s1 else ?s1)"
    using None by (simp add: remember_def Let_def)
  with assms(3) have r: "(str, s') =
      (np_string net ?a, if 64 < length (us_byAddr ?s1) then evict ?cut (us_byAddr ?s1) ?s1 else ?s1)" by metis
  have "udp_lookup ?s1 (np_string net ?a) = Some ?a" by (simp add: udp_lookup_def)
  moreover have "udp_lookup (evict ?cut (us_byAddr ?s1) ?s1) (np_string net ?a) = Some ?a"
    using keep by (simp add: udp_lookup_def)
  ultimately show ?thesis using r s1 evict_ok [OF s1 assms(2) strs]
    by (cases "64 < length (us_byAddr ?s1)") (simp_all only: prod.inject if_True if_False simp_thms)
qed

fun remember_all :: "'a netip \<Rightarrow> 'a udpSessions \<Rightarrow> (go_time \<times> 'a) list \<Rightarrow> 'a udpSessions" where
  "remember_all net s [] = s"
| "remember_all net s ((now, addr) # rest) = remember_all net (snd (remember net now s addr)) rest"

lemma remember_all_ok:
  "inj (np_string net) \<Longrightarrow> sessions_ok net s \<Longrightarrow> sessions_ok net (remember_all net s ps)"
proof (induction net s ps rule: remember_all.induct)
  case (2 net s now addr rest)
  then show ?case using remember_facts [of net s now addr] by (cases "remember net now s addr") auto
qed simp

section \<open>Properties\<close>

text \<open>C9: A reply reaches the visitor it belongs to and nobody else. After any datagrams from any
  sources at any instants, with the evictions they cause, the source that just sent is registered
  under the name its frame carries; and whenever a name is found at all, the address found is the
  one that prints as that name. The printing of addresses is injective.\<close>

theorem udp_reply_routing:
  assumes "inj (np_string net)"
  shows "let s = remember_all net newUDPSessions history; (str, s') = remember net now s addr in
    udp_lookup s' str = Some (np_unmap net addr)
    \<and> (\<forall>key a. udp_lookup s' key = Some a \<longrightarrow> np_string net a = key)"
proof -
  let ?s = "remember_all net newUDPSessions history"
  have ok: "sessions_ok net ?s" by (rule remember_all_ok [OF assms sessions_ok_new])
  obtain str s' where r: "remember net now ?s addr = (str, s')" by fastforce
  note f = remember_facts [OF ok assms r]
  then have "np_string net a = key" if "udp_lookup s' key = Some a" for key a
    using that by (auto simp: udp_lookup_def sessions_ok_def)
  moreover have "udp_lookup s' str = Some (np_unmap net addr)" using f by blast
  ultimately show ?thesis unfolding Let_def r by simp
qed

definition text_netip :: "string netip" where
  "text_netip = \<lparr>np_unmap = trim_prefix ''::ffff:'', np_string = id\<rparr>"

theorem udp_reply_routing_witness:
  "let s = remember_all text_netip newUDPSessions [(time_Unix 1, ''9.9.9.9:53'')];
       (str, s') = remember text_netip (time_Unix 2) s ''::ffff:1.2.3.4:5'' in
   udp_lookup s' str = Some ''1.2.3.4:5''"
proof -
  have "inj (np_string text_netip)" by (simp add: text_netip_def)
  from udp_reply_routing [OF this, of "[(time_Unix 1, ''9.9.9.9:53'')]" "time_Unix 2" "''::ffff:1.2.3.4:5''"]
  show ?thesis by (simp add: Let_def case_prod_beta) (simp add: text_netip_def trim_prefix_def has_prefix_def)
qed

end
