(* ===== verification/Srv_Server.thy ===== *)
theory Srv_Server
  imports Srv_Session Srv_Challenge Srv_CertStore Proto_Handshake
begin

text \<open>
  The server: \<^verbatim>\<open>registry.go\<close>, \<^verbatim>\<open>control.go\<close> and \<^verbatim>\<open>server.go\<close> of \<^verbatim>\<open>internal/tunnel/server\<close>. Sessions
  are pointers that several goroutines hold, so they live in a heap \<open>sv_sessions\<close> and are named by
  numbers. Each handler is one step; what it writes to its connection is its first result, with the
  error value in place of the text the code puts in the message. The current time, random bytes, the
  outcome of listening and whether a write reached the peer are arguments.
\<close>

section \<open>State\<close>

record server_config =
  cf_Token :: string
  cf_MaxPoolCount :: int
  cf_BindAddr :: string
  cf_AcceptLoops :: int
  cf_VhostHTTPPort :: int
  cf_VhostHTTPSPort :: int

record server =
  sv_cfg :: server_config
  sv_version :: string
  sv_registry :: "(string, nat) gomap"
  sv_sessions :: "(nat, session) gomap"
  sv_next :: nat
  sv_bindings :: bindings
  sv_certs :: CertStore
  sv_challenges :: challenge_store
  sv_stats :: stats
  sv_vhosts :: "scheme list"

definition newServer :: "server_config \<Rightarrow> string \<Rightarrow> server" where
  "newServer cfg version =
     \<lparr>sv_cfg = cfg, sv_version = version, sv_registry = [], sv_sessions = [], sv_next = 0,
      sv_bindings = \<lparr>bd_router = NewRouter, bd_open = []\<rparr>, sv_certs = NewCertStore,
      sv_challenges = NewChallengeStore, sv_stats = NewStats, sv_vhosts = []\<rparr>"

section \<open>The registry\<close>

definition Registry_Add :: "string \<Rightarrow> nat \<Rightarrow> (string, nat) gomap \<Rightarrow> nat option \<times> (string, nat) gomap" where
  "Registry_Add runID s reg = (map_of reg runID, AList.update runID s reg)"

definition Registry_Get :: "(string, nat) gomap \<Rightarrow> string \<Rightarrow> nat option" where
  "Registry_Get reg runID = map_of reg runID"

definition Registry_Remove :: "string \<Rightarrow> nat \<Rightarrow> (string, nat) gomap \<Rightarrow> (string, nat) gomap" where
  "Registry_Remove runID s reg =
     (case map_of reg runID of
        Some held_by \<Rightarrow> if held_by = s then AList.delete runID reg else reg
      | None \<Rightarrow> reg)"

definition Registry_Len :: "(string, nat) gomap \<Rightarrow> nat" where
  "Registry_Len reg = length reg"

definition Registry_Sessions :: "(string, nat) gomap \<Rightarrow> nat list" where
  "Registry_Sessions reg = map snd (sort_key fst reg)"

section \<open>Sessions in the heap\<close>

text \<open>An operation on the session at a pointer, with the routes and sockets all sessions share.\<close>

definition on_session :: "nat \<Rightarrow> (session \<times> bindings \<Rightarrow> 'r \<times> session \<times> bindings) \<Rightarrow> server \<Rightarrow> 'r option \<times> server" where
  "on_session i f sv =
     (case map_of (sv_sessions sv) i of
        None \<Rightarrow> (None, sv)
      | Some s \<Rightarrow>
          (case f (s, sv_bindings sv) of (r, s', b') \<Rightarrow>
             (Some r, sv\<lparr>sv_sessions := AList.update i s' (sv_sessions sv), sv_bindings := b'\<rparr>)))"

definition close_session :: "text_env \<Rightarrow> nat \<Rightarrow> server \<Rightarrow> server" where
  "close_session env i sv = snd (on_session i (\<lambda>st. ((), Session_Close env st)) sv)"

fun close_sessions :: "text_env \<Rightarrow> nat list \<Rightarrow> server \<Rightarrow> server" where
  "close_sessions env [] sv = sv"
| "close_sessions env (i # ids) sv = close_sessions env ids (close_session env i sv)"

definition CloseAll :: "text_env \<Rightarrow> server \<Rightarrow> server" where
  "CloseAll env sv = close_sessions env (Registry_Sessions (sv_registry sv)) sv"

section \<open>Login\<close>

datatype login_result =
    BadVersion version_error
  | AuthRejected
  | NoRandom
  | LoggedIn nat string string

definition pool_target :: "server_config \<Rightarrow> int \<Rightarrow> int" where
  "pool_target cfg requested =
     (let t = (if requested < 1 then 1 else requested) in
      if cf_MaxPoolCount cfg < t then cf_MaxPoolCount cfg else t)"

definition session_opts_of :: "server \<Rightarrow> string \<Rightarrow> Login \<Rightarrow> session_opts" where
  "session_opts_of sv runID login =
     \<lparr>so_RunID = runID, so_Name = lg_ClientName login,
      so_PoolTarget = pool_target (sv_cfg sv) (lg_PoolCount login), so_MaxPool = cf_MaxPoolCount (sv_cfg sv),
      so_BindAddr = cf_BindAddr (sv_cfg sv), so_AcceptLoops = cf_AcceptLoops (sv_cfg sv),
      so_ReusePort = (cf_AcceptLoops (sv_cfg sv) \<noteq> 1), so_Routes = (sv_vhosts sv \<noteq> []),
      so_VhostHTTPPort = cf_VhostHTTPPort (sv_cfg sv), so_VhostHTTPSPort = cf_VhostHTTPSPort (sv_cfg sv)\<rparr>"

text \<open>\<^verbatim>\<open>handleLogin\<close> up to the control loop: a session with the same run id is replaced and closed, and
  the client is asked for its pool once the response has gone out.\<close>

definition handleLogin_begin :: "text_env \<Rightarrow> go_time \<Rightarrow> bytes option \<Rightarrow> bool \<Rightarrow> Login \<Rightarrow> server \<Rightarrow> login_result \<times> server" where
  "handleLogin_begin env now rand sent login sv =
     (case CheckVersion (lg_Version login) of
        Some e \<Rightarrow> (BadVersion e, sv)
      | None \<Rightarrow>
        if VerifyAuth (cf_Token (sv_cfg sv)) (lg_AuthKey login) (lg_Timestamp login) now DefaultAuthSkew \<noteq> None
        then (AuthRejected, sv)
        else case (if lg_RunID login = [] then NewRunID rand else Some (lg_RunID login)) of
          None \<Rightarrow> (NoRandom, sv)
        | Some runID \<Rightarrow>
            let i = sv_next sv;
                s = newSession (session_opts_of sv runID login);
                (replaced, reg) = Registry_Add runID i (sv_registry sv);
                sv1 = sv\<lparr>sv_registry := reg, sv_sessions := AList.update i s (sv_sessions sv), sv_next := Suc i\<rparr>;
                sv2 = (case replaced of None \<Rightarrow> sv1 | Some old \<Rightarrow> close_session env old sv1);
                sv3 = (if sent then snd (on_session i (\<lambda>(s, b). ((), s\<lparr>se_pool :=
                          requestWorkConns (pool_target (sv_cfg sv) (lg_PoolCount login)) (se_pool s)\<rparr>, b)) sv2)
                       else sv2) in
            (LoggedIn i runID (sv_version sv), sv3))"

text \<open>What \<^verbatim>\<open>handleLogin\<close> defers: when the control loop ends, or the response could not be sent.\<close>

definition handleLogin_end :: "text_env \<Rightarrow> nat \<Rightarrow> server \<Rightarrow> server" where
  "handleLogin_end env i sv =
     (case map_of (sv_sessions sv) i of
        None \<Rightarrow> sv
      | Some s \<Rightarrow> close_session env i (sv\<lparr>sv_registry := Registry_Remove (so_RunID (se_opts s)) i (sv_registry sv)\<rparr>))"

section \<open>The control loop\<close>

datatype ctrl_out =
    OutPong int
  | OutNewProxyResp string "session_error + int"
  | OutCertPushResp "cert_error option"
  | OutChallengeResp "challenge_error option"

definition handleNewProxy :: "text_env \<Rightarrow> go_time \<Rightarrow> listen_outcome \<Rightarrow> nat \<Rightarrow> ProxySpec \<Rightarrow> server \<Rightarrow> ctrl_out list \<times> server" where
  "handleNewProxy env now out i spec sv =
     (case on_session i (AddProxy env now out id spec) sv of
        (None, sv') \<Rightarrow> ([], sv')
      | (Some r, sv') \<Rightarrow> ([OutNewProxyResp (ps_Name spec) r], sv'))"

definition handleHTTPChallenge :: "go_time \<Rightarrow> string \<Rightarrow> HTTPChallenge \<Rightarrow> server \<Rightarrow> ctrl_out list \<times> server" where
  "handleHTTPChallenge now runID msg sv =
     (if hc_Remove msg
      then ([OutChallengeResp None], sv\<lparr>sv_challenges := Challenge_Withdraw (sv_challenges sv) runID (hc_Token msg)\<rparr>)
      else case Challenge_Publish now (sv_challenges sv) runID (hc_Domain msg) (hc_Token msg) (hc_KeyAuth msg) of
        (e, cs) \<Rightarrow> ([OutChallengeResp e], sv\<lparr>sv_challenges := cs\<rparr>))"

definition bytes_of :: "bytes option \<Rightarrow> bytes" where
  "bytes_of b = (case b of None \<Rightarrow> [] | Some x \<Rightarrow> x)"

definition handleCertPush :: "text_env \<Rightarrow> x509_env \<Rightarrow> go_time \<Rightarrow> CertPush \<Rightarrow> server \<Rightarrow> ctrl_out list \<times> server" where
  "handleCertPush env x5 now msg sv =
     (case CertStore_Install env x5 now (sv_certs sv) (bytes_of (cp_FullchainPEM msg)) (bytes_of (cp_PrivateKeyPEM msg)) of
        (Inl e, cs) \<Rightarrow> ([OutCertPushResp (Some e)], sv\<lparr>sv_certs := cs\<rparr>)
      | (Inr installed, cs) \<Rightarrow> ([OutCertPushResp None], sv\<lparr>sv_certs := cs\<rparr>))"

text \<open>One turn of \<^verbatim>\<open>controlLoop\<close> on what the codec read. The first result says whether the loop goes on:
  it ends on a read error, except for a message type this version does not know, and when a pong
  cannot be sent.\<close>

record turn =
  tn_now :: go_time
  tn_listen :: listen_outcome
  tn_sent :: bool
  tn_read :: "codec_error + message"

definition control_turn :: "text_env \<Rightarrow> x509_env \<Rightarrow> nat \<Rightarrow> turn \<Rightarrow> server \<Rightarrow> bool \<times> ctrl_out list \<times> server" where
  "control_turn env x5 i t sv =
     (case tn_read t of
        Inl (UnknownType ty) \<Rightarrow> (True, [], sv)
      | Inl e \<Rightarrow> (False, [], sv)
      | Inr (MPing ts) \<Rightarrow> (tn_sent t, [OutPong ts], sv)
      | Inr (MNewProxy spec) \<Rightarrow> (True, handleNewProxy env (tn_now t) (tn_listen t) i spec sv)
      | Inr (MCloseProxy name) \<Rightarrow> (True, [], snd (on_session i (RemoveProxy env name) sv))
      | Inr (MCertPush m) \<Rightarrow> (True, handleCertPush env x5 (tn_now t) m sv)
      | Inr (MHTTPChallenge m) \<Rightarrow>
          (case map_of (sv_sessions sv) i of
             None \<Rightarrow> (True, [], sv)
           | Some s \<Rightarrow> (True, handleHTTPChallenge (tn_now t) (so_RunID (se_opts s)) m sv))
      | Inr m \<Rightarrow> (True, [], sv))"

fun controlLoop :: "text_env \<Rightarrow> x509_env \<Rightarrow> nat \<Rightarrow> turn list \<Rightarrow> server \<Rightarrow> ctrl_out list \<times> server" where
  "controlLoop env x5 i [] sv = ([], sv)"
| "controlLoop env x5 i (t # ts) sv =
     (case control_turn env x5 i t sv of
        (False, outs, sv') \<Rightarrow> (outs, sv')
      | (True, outs, sv') \<Rightarrow> (case controlLoop env x5 i ts sv' of (outs', sv'') \<Rightarrow> (outs @ outs', sv'')))"

definition handleLogin :: "text_env \<Rightarrow> x509_env \<Rightarrow> go_time \<Rightarrow> bytes option \<Rightarrow> bool \<Rightarrow> turn list \<Rightarrow> Login \<Rightarrow> server \<Rightarrow>
    login_result \<times> ctrl_out list \<times> server" where
  "handleLogin env x5 now rand sent turns login sv =
     (case handleLogin_begin env now rand sent login sv of
        (LoggedIn i runID v, sv1) \<Rightarrow>
          (case (if sent then controlLoop env x5 i turns sv1 else ([], sv1)) of
             (outs, sv2) \<Rightarrow> (LoggedIn i runID v, outs, handleLogin_end env i sv2))
      | (r, sv1) \<Rightarrow> (r, [], sv1))"

section \<open>Attaching connections\<close>

datatype attach_result = AttachRefused | UnknownSession | Attached

definition attachWorkConn :: "go_time \<Rightarrow> bool \<Rightarrow> nat \<Rightarrow> NewWorkConn \<Rightarrow> server \<Rightarrow> attach_result \<times> server" where
  "attachWorkConn now pick_done c msg sv =
     (if VerifyAuth (cf_Token (sv_cfg sv)) (wc_AuthKey msg) (wc_Timestamp msg) now DefaultAuthSkew \<noteq> None
      then (AttachRefused, sv)
      else case Registry_Get (sv_registry sv) (wc_RunID msg) of
        None \<Rightarrow> (UnknownSession, sv)
      | Some i \<Rightarrow> (Attached, snd (on_session i (\<lambda>(s, b). ((), s\<lparr>se_pool := AddWorkConn pick_done c (se_pool s)\<rparr>, b)) sv)))"

definition attachMuxConn :: "go_time \<Rightarrow> bool \<Rightarrow> nat \<Rightarrow> NewMuxConn \<Rightarrow> server \<Rightarrow> attach_result \<times> server" where
  "attachMuxConn now started c msg sv =
     (if VerifyAuth (cf_Token (sv_cfg sv)) (mc_AuthKey msg) (mc_Timestamp msg) now DefaultAuthSkew \<noteq> None
      then (AttachRefused, sv)
      else case Registry_Get (sv_registry sv) (mc_RunID msg) of
        None \<Rightarrow> (UnknownSession, sv)
      | Some i \<Rightarrow>
          if \<not> started then (AttachRefused, sv)
          else (Attached, snd (on_session i (\<lambda>(s, b). ((), s\<lparr>se_pool := SetOverflow c (se_pool s)\<rparr>, b)) sv)))"

section \<open>A new connection\<close>

datatype opened_as =
    ReadFailed codec_error
  | LoginDone login_result "ctrl_out list"
  | AttachDone attach_result
  | UnexpectedOpening nat

record arrival =
  ar_now :: go_time
  ar_rand :: "bytes option"
  ar_sent :: bool
  ar_turns :: "turn list"
  ar_pick :: bool
  ar_started :: bool
  ar_conn :: nat

definition handlePlain :: "text_env \<Rightarrow> x509_env \<Rightarrow> arrival \<Rightarrow> codec_error + message \<Rightarrow> server \<Rightarrow> opened_as \<times> server" where
  "handlePlain env x5 a msg sv =
     (case msg of
        Inl e \<Rightarrow> (ReadFailed e, sv)
      | Inr (MLogin m) \<Rightarrow>
          (case handleLogin env x5 (ar_now a) (ar_rand a) (ar_sent a) (ar_turns a) m sv of
             (r, outs, sv') \<Rightarrow> (LoginDone r outs, sv'))
      | Inr (MNewWorkConn m) \<Rightarrow>
          (case attachWorkConn (ar_now a) (ar_pick a) (ar_conn a) m sv of (r, sv') \<Rightarrow> (AttachDone r, sv'))
      | Inr (MNewMuxConn m) \<Rightarrow>
          (case attachMuxConn (ar_now a) (ar_started a) (ar_conn a) m sv of (r, sv') \<Rightarrow> (AttachDone r, sv'))
      | Inr m \<Rightarrow> (UnexpectedOpening (message_type m), sv))"

datatype conn_result = BadPreamble preamble_error | Plain opened_as | MuxEnded "opened_as list" | UnsupportedMode nat

text \<open>A multiplexed connection carries any number of streams, each opened like a connection.\<close>

fun handleMux :: "text_env \<Rightarrow> x509_env \<Rightarrow> (arrival \<times> reader) list \<Rightarrow> server \<Rightarrow> opened_as list \<times> server" where
  "handleMux env x5 [] sv = ([], sv)"
| "handleMux env x5 ((a, r) # streams) sv =
     (case handlePlain env x5 a (fst (ReadMessage r)) sv of (o', sv') \<Rightarrow>
        (case handleMux env x5 streams sv' of (os, sv'') \<Rightarrow> (o' # os, sv'')))"

definition handleConn :: "text_env \<Rightarrow> x509_env \<Rightarrow> arrival \<Rightarrow> (arrival \<times> reader) list \<Rightarrow> reader \<Rightarrow> server \<Rightarrow> conn_result \<times> server" where
  "handleConn env x5 a streams r sv =
     (case ReadPreamble r of
        (Inl e, r') \<Rightarrow> (BadPreamble e, sv)
      | (Inr p, r') \<Rightarrow>
          if pa_Mode p = ModePlain
          then (case handlePlain env x5 a (fst (ReadMessage r')) sv of (o', sv') \<Rightarrow> (Plain o', sv'))
          else if pa_Mode p = ModeMux
          then (case handleMux env x5 streams sv of (os, sv') \<Rightarrow> (MuxEnded os, sv'))
          else (UnsupportedMode (pa_Mode p), sv))"

section \<open>Listening\<close>

text \<open>\<^verbatim>\<open>Listen\<close> opens the control port and the virtual host ports that are configured; when one fails the
  ones already open are closed again. The result is the listeners now open.\<close>

fun listen_vhosts :: "(scheme \<times> int) list \<Rightarrow> (scheme \<Rightarrow> bool) \<Rightarrow> scheme list \<Rightarrow> scheme list option" where
  "listen_vhosts [] ok started = Some started"
| "listen_vhosts ((sch, port) # rest) ok started =
     (if port = 0 then listen_vhosts rest ok started
      else if ok sch then listen_vhosts rest ok (started @ [sch])
      else None)"

definition Server_Listen :: "bool \<Rightarrow> (scheme \<Rightarrow> bool) \<Rightarrow> bool \<Rightarrow> server \<Rightarrow> bool \<times> bool \<times> server" where
  "Server_Listen ctrl_ok ok listening sv =
     (if listening then (True, True, sv)
      else if \<not> ctrl_ok then (False, False, sv)
      else case listen_vhosts [(SchemeHTTP, cf_VhostHTTPPort (sv_cfg sv)), (SchemeHTTPS, cf_VhostHTTPSPort (sv_cfg sv))]
                 ok (sv_vhosts sv) of
        None \<Rightarrow> (False, False, sv\<lparr>sv_vhosts := []\<rparr>)
      | Some started \<Rightarrow> (True, True, sv\<lparr>sv_vhosts := started\<rparr>))"

text \<open>\<^verbatim>\<open>Close\<close>: the sessions, then the listeners.\<close>

definition Server_Close :: "text_env \<Rightarrow> server \<Rightarrow> server" where
  "Server_Close env sv = (CloseAll env (sv\<lparr>sv_vhosts := []\<rparr>))"

end
