(* ===== verification/Srv_Invariant.thy ===== *)
theory Srv_Invariant
  imports Srv_Server
begin

text \<open>
  What holds of the server as a whole, over any interleaving of its handlers: which sessions are
  registered, whose routes are published and who holds which socket.
\<close>

section \<open>The invariant\<close>

definition all_held :: "(nat, session) gomap \<Rightarrow> nat list" where
  "all_held ss = concat (map (held_sockets \<circ> snd) ss)"

definition run_id :: "session \<Rightarrow> string" where
  "run_id s = so_RunID (se_opts s)"

definition closed_session :: "session \<Rightarrow> bool" where
  "closed_session s \<longleftrightarrow> po_done (se_pool s)"

text \<open>A session by itself. The sessions in \<open>X\<close> are about to be closed and need not be registered.\<close>

definition session_wf :: "nat set \<Rightarrow> server \<Rightarrow> nat \<Rightarrow> session \<Rightarrow> bool" where
  "session_wf X sv i s \<longleftrightarrow> i < sv_next sv \<and> so_Routes (se_opts s) \<and> gomap_ok (se_proxies s)
     \<and> (\<forall>(n, p) \<in> set (se_proxies s). owned_by (run_id s) p)
     \<and> (closed_session s \<longrightarrow> se_proxies s = [])
     \<and> (\<not> closed_session s \<and> i \<notin> X \<longrightarrow> map_of (sv_registry sv) (run_id s) = Some i)"

definition registry_wf :: "nat set \<Rightarrow> server \<Rightarrow> bool" where
  "registry_wf X sv \<longleftrightarrow> gomap_ok (sv_registry sv) \<and> (\<forall>runID i. map_of (sv_registry sv) runID = Some i \<longrightarrow>
     i \<notin> X \<and> (\<exists>s. map_of (sv_sessions sv) i = Some s \<and> run_id s = runID \<and> \<not> closed_session s))"

definition routes_wf :: "nat set \<Rightarrow> server \<Rightarrow> bool" where
  "routes_wf X sv \<longleftrightarrow> (\<forall>k rt. map_of (routes (bd_router (sv_bindings sv))) k = Some rt \<longrightarrow>
     map_of (sv_registry sv) (rt_RunID rt) \<noteq> None
     \<or> (\<exists>i \<in> X. \<exists>s. map_of (sv_sessions sv) i = Some s \<and> run_id s = rt_RunID rt))"

definition sockets_wf :: "nat set \<Rightarrow> server \<Rightarrow> bool" where
  "sockets_wf base sv \<longleftrightarrow> distinct (all_held (sv_sessions sv))
     \<and> set (bd_open (sv_bindings sv)) = base \<union> set (all_held (sv_sessions sv))
     \<and> base \<inter> set (all_held (sv_sessions sv)) = {}"

definition server_inv :: "text_env \<Rightarrow> nat set \<Rightarrow> nat set \<Rightarrow> server \<Rightarrow> bool" where
  "server_inv env base X sv \<longleftrightarrow> gomap_ok (sv_sessions sv) \<and> sv_vhosts sv \<noteq> []
     \<and> (\<forall>i s. map_of (sv_sessions sv) i = Some s \<longrightarrow> session_wf X sv i s)
     \<and> registry_wf X sv \<and> router_ok env (bd_router (sv_bindings sv)) \<and> routes_wf X sv \<and> sockets_wf base sv"

section \<open>One session among the others\<close>

lemma all_held_split:
  assumes "gomap_ok ss" "map_of ss i = Some s"
  obtains before after where "ss = before @ (i, s) # after" "AList.delete i ss = before @ after"
    "\<And>s'. AList.update i s' ss = before @ (i, s') # after"
proof -
  obtain xs ys where xs: "ss = xs @ (i, s) # ys" "AList.delete i ss = xs @ ys" using gomap_split [OF assms] by blast
  moreover have "i \<notin> fst ` set xs" using assms(1) xs(1) by (auto simp: gomap_ok_def)
  ultimately show thesis using that [OF xs] update_present [of i xs _ s ys] by metis
qed

text \<open>Seen from one session the sockets of the others are simply open.\<close>

definition other_held :: "nat \<Rightarrow> server \<Rightarrow> nat set" where
  "other_held i sv = set (all_held (AList.delete i (sv_sessions sv)))"

lemma sockets_of_one:
  assumes "sockets_wf base sv" "gomap_ok (sv_sessions sv)" "map_of (sv_sessions sv) i = Some s"
  shows "distinct (held_sockets s) \<and> set (bd_open (sv_bindings sv)) = base \<union> other_held i sv \<union> set (held_sockets s)
    \<and> (base \<union> other_held i sv) \<inter> set (held_sockets s) = {}"
proof -
  obtain xs ys where "sv_sessions sv = xs @ (i, s) # ys" "AList.delete i (sv_sessions sv) = xs @ ys"
    by (rule all_held_split [OF assms(2,3)])
  then show ?thesis using assms(1) by (auto simp: sockets_wf_def all_held_def other_held_def)
qed

lemma sockets_put_back:
  assumes "sockets_wf base sv" "gomap_ok (sv_sessions sv)" "map_of (sv_sessions sv) i = Some s"
    and "distinct (held_sockets s')" "set (bd_open b') = base \<union> other_held i sv \<union> set (held_sockets s')"
    and "(base \<union> other_held i sv) \<inter> set (held_sockets s') = {}"
  shows "sockets_wf base (sv\<lparr>sv_sessions := AList.update i s' (sv_sessions sv), sv_bindings := b'\<rparr>)"
proof -
  obtain xs ys where ss: "sv_sessions sv = xs @ (i, s) # ys" "AList.delete i (sv_sessions sv) = xs @ ys"
      "\<And>s'. AList.update i s' (sv_sessions sv) = xs @ (i, s') # ys"
    by (rule all_held_split [OF assms(2,3)]) blast
  then show ?thesis using assms(1,4-6) by (auto simp: sockets_wf_def all_held_def other_held_def)
qed

lemma session_in_server:
  assumes "server_inv env base X sv" "map_of (sv_sessions sv) i = Some s"
  shows "session_ok env (base \<union> other_held i sv) (s, sv_bindings sv)"
proof -
  have "session_wf X sv i s" "gomap_ok (sv_sessions sv)" "sockets_wf base sv" "router_ok env (bd_router (sv_bindings sv))"
    using assms unfolding server_inv_def by blast+
  with sockets_of_one [OF this(3,2) assms(2)] show ?thesis
    by (simp add: session_ok_def session_wf_def run_id_def)
qed

text \<open>An operation that keeps a session well formed, leaves it open or closed as it was and touches no
  other client's routes keeps the server well formed. A closed session must not touch anything
  shared.\<close>

definition keeps_session :: "text_env \<Rightarrow> nat set \<Rightarrow> session \<times> bindings \<Rightarrow> session \<times> bindings \<Rightarrow> bool" where
  "keeps_session env base0 st st' \<longleftrightarrow> (case st of (s, b) \<Rightarrow> case st' of (s', b') \<Rightarrow>
     session_ok env base0 (s', b') \<and> se_opts s' = se_opts s \<and> closed_session s' = closed_session s
     \<and> others (run_id s) (bd_router b') = others (run_id s) (bd_router b)
     \<and> (closed_session s \<longrightarrow> b' = b \<and> se_proxies s' = se_proxies s))"

lemma on_session_inv:
  assumes inv: "server_inv env base {} sv" and s: "map_of (sv_sessions sv) i = Some s"
    and f: "f (s, sv_bindings sv) = (r, s', b')"
    and keep: "keeps_session env (base \<union> other_held i sv) (s, sv_bindings sv) (s', b')"
  shows "server_inv env base {} (snd (on_session i f sv))"
proof -
  let ?sv = "sv\<lparr>sv_sessions := AList.update i s' (sv_sessions sv), sv_bindings := b'\<rparr>"
  have sv: "snd (on_session i f sv) = ?sv" using s f by (simp add: on_session_def)
  have parts: "gomap_ok (sv_sessions sv)" "\<forall>i s. map_of (sv_sessions sv) i = Some s \<longrightarrow> session_wf {} sv i s"
      "registry_wf {} sv" "routes_wf {} sv" "sockets_wf base sv"
    using inv unfolding server_inv_def by blast+
  have ok': "session_ok env (base \<union> other_held i sv) (s', b')" and opts: "se_opts s' = se_opts s"
    and cl: "closed_session s' = closed_session s"
    and oth: "others (run_id s) (bd_router b') = others (run_id s) (bd_router (sv_bindings sv))"
    and shut: "closed_session s \<longrightarrow> b' = sv_bindings sv \<and> se_proxies s' = se_proxies s"
    using keep by (auto simp: keeps_session_def)
  have wf: "session_wf {} sv i s" using parts(2) s by blast
  have id: "run_id s' = run_id s" using opts by (simp add: run_id_def)
  have "session_wf {} ?sv i s'"
    using wf ok' opts cl shut id by (auto simp: session_wf_def session_ok_def run_id_def)
  then have "\<forall>j t. map_of (sv_sessions ?sv) j = Some t \<longrightarrow> session_wf {} ?sv j t"
    using parts(2) by (auto simp: session_wf_def)
  moreover have "registry_wf {} ?sv"
    unfolding registry_wf_def
  proof (intro conjI allI impI)
    show "gomap_ok (sv_registry ?sv)" using parts(3) by (simp add: registry_wf_def)
    fix runID j
    assume "map_of (sv_registry ?sv) runID = Some j"
    then obtain t where t: "map_of (sv_sessions sv) j = Some t" "run_id t = runID" "\<not> closed_session t"
      using parts(3) unfolding registry_wf_def by auto
    then show "\<exists>s. map_of (sv_sessions ?sv) j = Some s \<and> run_id s = runID \<and> \<not> closed_session s"
      using s id cl by (cases "j = i") auto
  qed simp
  moreover have "routes_wf {} ?sv"
    unfolding routes_wf_def
  proof (intro allI impI)
    fix k rt
    assume "map_of (routes (bd_router (sv_bindings ?sv))) k = Some rt"
    then have k: "map_of (routes (bd_router b')) k = Some rt" by simp
    have "map_of (sv_registry sv) (rt_RunID rt) \<noteq> None"
    proof (cases "rt_RunID rt = run_id s \<and> \<not> closed_session s")
      case True
      then show ?thesis using wf by (simp add: session_wf_def)
    next
      case False
      then have "map_of (routes (bd_router (sv_bindings sv))) k = Some rt"
        using fun_cong [OF oth, of k] shut k by (auto simp: others_def split: option.splits if_splits)
      then show ?thesis using parts(4) unfolding routes_wf_def by blast
    qed
    then show "map_of (sv_registry ?sv) (rt_RunID rt) \<noteq> None
        \<or> (\<exists>i \<in> {}. \<exists>s. map_of (sv_sessions ?sv) i = Some s \<and> run_id s = rt_RunID rt)" by simp
  qed
  moreover have "sockets_wf base ?sv"
    by (rule sockets_put_back [OF parts(5,1) s]) (use ok' in \<open>auto simp: session_ok_def\<close>)
  moreover have "router_ok env (bd_router b')" using ok' by (simp add: session_ok_def)
  ultimately show ?thesis using inv parts(1) unfolding sv server_inv_def by simp
qed

section \<open>The operations of one session\<close>

lemma keeps_AddProxy:
  assumes "session_ok env base0 (s, b)" "domains_stable env (ps_Domains spec)" "fresh_out out (bd_open b)"
    and "\<not> closed_session s" "AddProxy env now out id spec (s, b) = (r, st')"
  shows "keeps_session env base0 (s, b) st'"
proof -
  obtain s' b' where st': "st' = (s', b')" by fastforce
  from AddProxy_ok [OF assms(1-3)] assms(4,5) st' show ?thesis
    by (auto simp: keeps_session_def closed_session_def run_id_def)
qed

lemma keeps_RemoveProxy:
  assumes "session_ok env base0 (s, b)" "closed_session s \<longrightarrow> se_proxies s = []"
    and "RemoveProxy env name (s, b) = (r, st')"
  shows "keeps_session env base0 (s, b) st'"
proof -
  obtain s' b' where st': "st' = (s', b')" by fastforce
  have "closed_session s \<longrightarrow> s' = s \<and> b' = b" using assms(2,3) st' by (auto simp: RemoveProxy_def)
  with RemoveProxy_ok [OF assms(1)] assms(3) st' show ?thesis
    by (auto simp: keeps_session_def closed_session_def run_id_def)
qed

lemma keeps_pool:
  assumes "session_ok env base0 (s, b)" "po_done q = po_done (se_pool s)"
  shows "keeps_session env base0 (s, b) (s\<lparr>se_pool := q\<rparr>, b)"
proof -
  have "held_sockets (s\<lparr>se_pool := q\<rparr>) = held_sockets s" by (simp add: held_sockets_def)
  with assms show ?thesis by (simp add: keeps_session_def session_ok_def closed_session_def)
qed

lemma pool_inv:
  assumes "server_inv env base {} sv" "\<And>q. po_done (f q) = po_done q"
  shows "server_inv env base {} (snd (on_session i (\<lambda>(s, b). ((), s\<lparr>se_pool := f (se_pool s)\<rparr>, b)) sv))"
proof (cases "map_of (sv_sessions sv) i")
  case None
  with assms show ?thesis by (simp add: on_session_def)
next
  case (Some s)
  have "keeps_session env (base \<union> other_held i sv) (s, sv_bindings sv)
      (s\<lparr>se_pool := f (se_pool s)\<rparr>, sv_bindings sv)"
    by (rule keeps_pool [OF session_in_server [OF assms(1) Some]]) (rule assms(2))
  then show ?thesis by (intro on_session_inv [OF assms(1) Some, where r = "()"]) simp_all
qed

section \<open>Closing a session\<close>

text \<open>Closing takes a session out of \<open>X\<close>: none of its routes and sockets is left.\<close>

lemma close_session_inv:
  assumes inv: "server_inv env base {i} sv" and s: "map_of (sv_sessions sv) i = Some s" and op: "\<not> closed_session s"
  shows "server_inv env base {} (close_session env i sv)"
proof -
  obtain s' b' where close: "Session_Close env (s, sv_bindings sv) = (s', b')" by fastforce
  let ?sv = "sv\<lparr>sv_sessions := AList.update i s' (sv_sessions sv), sv_bindings := b'\<rparr>"
  have sv: "close_session env i sv = ?sv" using s close by (simp add: close_session_def on_session_def)
  have parts: "gomap_ok (sv_sessions sv)" "\<forall>i' s. map_of (sv_sessions sv) i' = Some s \<longrightarrow> session_wf {i} sv i' s"
      "registry_wf {i} sv" "routes_wf {i} sv" "sockets_wf base sv"
    using inv unfolding server_inv_def by blast+
  have wf: "session_wf {i} sv i s" using parts(2) s by blast
  have routes: "so_Routes (se_opts s)" using wf by (simp add: session_wf_def)
  note C = Session_Close_ok [OF session_in_server [OF inv s] routes _ close, folded run_id_def]
  have open': "\<not> po_done (se_pool s)" using op by (simp add: closed_session_def)
  have s': "se_opts s' = se_opts s" "se_proxies s' = []" "closed_session s'"
    using close open' by (auto simp: Session_Close_def closed_session_def close_pool_spec)
  have "session_wf {} ?sv i s'" using wf s' by (simp add: session_wf_def gomap_ok_def)
  moreover have "session_wf {} ?sv j t" if "map_of (sv_sessions sv) j = Some t" "j \<noteq> i" for j t
    using parts(2) that by (auto simp: session_wf_def)
  ultimately have a: "\<forall>j t. map_of (sv_sessions ?sv) j = Some t \<longrightarrow> session_wf {} ?sv j t" by auto
  have b: "registry_wf {} ?sv" using parts(3) by (auto simp: registry_wf_def)
  have "map_of (sv_registry sv) (rt_RunID rt) \<noteq> None"
    if k: "map_of (routes (bd_router b')) k = Some rt" for k rt
  proof -
    have ne: "rt_RunID rt \<noteq> run_id s" using C open' k by blast
    have "others (run_id s) (bd_router b') k = others (run_id s) (bd_router (sv_bindings sv)) k" using C open' by simp
    then have "map_of (routes (bd_router (sv_bindings sv))) k = Some rt"
      using k ne by (auto simp: others_def split: option.splits if_splits)
    then have "map_of (sv_registry sv) (rt_RunID rt) \<noteq> None
        \<or> (\<exists>j \<in> {i}. \<exists>t. map_of (sv_sessions sv) j = Some t \<and> run_id t = rt_RunID rt)"
      using parts(4) unfolding routes_wf_def by blast
    then show ?thesis using s ne by auto
  qed
  then have c: "routes_wf {} ?sv" by (simp add: routes_wf_def)
  have "set (bd_open b') = base \<union> other_held i sv" "held_sockets s' = []"
    using C open' s' by (simp_all add: held_sockets_def)
  then have "sockets_wf base ?sv" by (intro sockets_put_back [OF parts(5,1) s]) simp_all
  with a b c inv parts(1) C open' show ?thesis unfolding sv server_inv_def by simp
qed

lemma close_closed: "map_of (sv_sessions sv) i = Some s \<Longrightarrow> closed_session s \<Longrightarrow> close_session env i sv = sv\<lparr>sv_sessions := AList.update i s (sv_sessions sv)\<rparr>"
  by (simp add: close_session_def on_session_def Session_Close_def closed_session_def)

text \<open>What closing one session leaves: no route of its run id, its own sockets closed, every other
  session as it was.\<close>

lemma close_session_facts:
  assumes inv: "server_inv env base {i} sv" and s: "map_of (sv_sessions sv) i = Some s" and op: "\<not> closed_session s"
  shows "(\<forall>k rt. map_of (routes (bd_router (sv_bindings (close_session env i sv)))) k = Some rt \<longrightarrow> rt_RunID rt \<noteq> run_id s)
    \<and> (\<forall>j. j \<noteq> i \<longrightarrow> map_of (sv_sessions (close_session env i sv)) j = map_of (sv_sessions sv) j)
    \<and> sv_registry (close_session env i sv) = sv_registry sv
    \<and> (\<exists>t. map_of (sv_sessions (close_session env i sv)) i = Some t \<and> closed_session t \<and> held_sockets t = [])"
proof -
  obtain s' b' where close: "Session_Close env (s, sv_bindings sv) = (s', b')" by fastforce
  have "session_wf {i} sv i s" using inv s by (simp add: server_inv_def)
  then have routes: "so_Routes (se_opts s)" by (simp add: session_wf_def)
  have op': "\<not> po_done (se_pool s)" using op by (simp add: closed_session_def)
  note C = Session_Close_ok [OF session_in_server [OF inv s] routes op' close, folded run_id_def]
  have "se_proxies s' = []" "closed_session s'"
    using close op' by (auto simp: Session_Close_def closed_session_def close_pool_spec)
  with C s close show ?thesis by (simp add: close_session_def on_session_def held_sockets_def)
qed

text \<open>The end of a login: unregistered and closed in one go.\<close>

lemma login_end_inv:
  assumes inv: "server_inv env base {} sv"
  shows "server_inv env base {} (handleLogin_end env i sv)"
proof (cases "map_of (sv_sessions sv) i")
  case None
  with inv show ?thesis by (simp add: handleLogin_end_def)
next
  case (Some s)
  let ?reg = "Registry_Remove (run_id s) i (sv_registry sv)"
  let ?sv = "sv\<lparr>sv_registry := ?reg\<rparr>"
  have ends: "handleLogin_end env i sv = close_session env i ?sv" using Some by (simp add: handleLogin_end_def run_id_def)
  have parts: "\<forall>j s. map_of (sv_sessions sv) j = Some s \<longrightarrow> session_wf {} sv j s"
      "registry_wf {} sv" "routes_wf {} sv"
    using inv unfolding server_inv_def by blast+
  have wf: "session_wf {} sv i s" using parts(1) Some by blast
  show ?thesis
  proof (cases "closed_session s")
    case True
    have "map_of (sv_registry sv) (run_id s) \<noteq> Some i"
      using parts(2) Some True unfolding registry_wf_def by fastforce
    then have "?reg = sv_registry sv" by (simp add: Registry_Remove_def split: option.splits)
    then have "?sv = sv" by simp
    obtain xs ys where "sv_sessions sv = xs @ (i, s) # ys" "AList.update i s (sv_sessions sv) = xs @ (i, s) # ys"
      using inv all_held_split [OF _ Some] unfolding server_inv_def by metis
    then have "AList.update i s (sv_sessions sv) = sv_sessions sv" by simp
    with close_closed [OF Some True] inv ends \<open>?sv = sv\<close> show ?thesis by simp
  next
    case False
    have reg: "map_of (sv_registry sv) (run_id s) = Some i" using wf False by (simp add: session_wf_def)
    then have r: "?reg = AList.delete (run_id s) (sv_registry sv)" by (simp add: Registry_Remove_def)
    have uniq: "run_id t \<noteq> run_id s" if "map_of (sv_sessions sv) j = Some t" "\<not> closed_session t" "j \<noteq> i" for j t
      using parts(1) that reg by (force simp: session_wf_def)
    have "session_wf {i} ?sv j t" if "map_of (sv_sessions sv) j = Some t" for j t
      using parts(1) that uniq [OF that] r by (auto simp: session_wf_def)
    moreover have "registry_wf {i} ?sv"
      unfolding registry_wf_def
    proof (intro conjI allI impI)
      show "gomap_ok (sv_registry ?sv)" using parts(2) r by (simp add: registry_wf_def)
      fix runID j
      assume "map_of (sv_registry ?sv) runID = Some j"
      then have j: "map_of (sv_registry sv) runID = Some j" "runID \<noteq> run_id s" using r by (auto split: if_splits)
      then obtain t where "map_of (sv_sessions sv) j = Some t" "run_id t = runID" "\<not> closed_session t"
        using parts(2) unfolding registry_wf_def by blast
      then show "j \<notin> {i}" "\<exists>s. map_of (sv_sessions ?sv) j = Some s \<and> run_id s = runID \<and> \<not> closed_session s"
        using j(2) Some by auto
    qed
    moreover have "routes_wf {i} ?sv" using parts(3) Some r by (auto simp: routes_wf_def)
    ultimately have "server_inv env base {i} ?sv" using inv by (simp add: server_inv_def sockets_wf_def)
    from close_session_inv [OF this _ False] Some ends show ?thesis by simp
  qed
qed

section \<open>Logging in\<close>

text \<open>The new session, registered under its run id in place of the one it replaces.\<close>

lemma new_session_inv:
  assumes inv: "server_inv env base {} sv" and opts: "so_RunID opts = runID" "so_Routes opts"
  shows "server_inv env base (case map_of (sv_registry sv) runID of None \<Rightarrow> {} | Some old \<Rightarrow> {old})
    (sv\<lparr>sv_registry := AList.update runID (sv_next sv) (sv_registry sv),
        sv_sessions := AList.update (sv_next sv) (newSession opts) (sv_sessions sv), sv_next := Suc (sv_next sv)\<rparr>)"
    (is "server_inv env base ?X ?sv")
proof -
  let ?s = "newSession opts" and ?n = "sv_next sv"
  have parts: "gomap_ok (sv_sessions sv)" "\<forall>j s. map_of (sv_sessions sv) j = Some s \<longrightarrow> session_wf {} sv j s"
      "registry_wf {} sv" "routes_wf {} sv" "sockets_wf base sv"
    using inv unfolding server_inv_def by blast+
  have new: "run_id ?s = runID" "se_proxies ?s = []" "\<not> closed_session ?s" "so_Routes (se_opts ?s)"
    using opts by (simp_all add: newSession_def run_id_def closed_session_def newPool_def)
  have old: "j < ?n" if "map_of (sv_sessions sv) j = Some s" for j s
    using parts(2) that by (auto simp: session_wf_def)
  then have fresh: "map_of (sv_sessions sv) ?n = None" by (metis less_irrefl option.exhaust)
  have regd: "\<exists>s. map_of (sv_sessions sv) j = Some s \<and> run_id s = x \<and> \<not> closed_session s"
    if "map_of (sv_registry sv) x = Some j" for x j
    using parts(3) that by (simp add: registry_wf_def)
  have notX: "?n \<notin> ?X" using regd fresh by (fastforce split: option.splits)
  have "session_wf ?X ?sv ?n ?s" using new by (simp add: session_wf_def gomap_ok_def)
  moreover have "session_wf ?X ?sv j s" if j: "map_of (sv_sessions sv) j = Some s" "j \<noteq> ?n" for j s
  proof -
    have wf: "session_wf {} sv j s" using parts(2) j by blast
    have "run_id s \<noteq> runID" if "\<not> closed_session s" "j \<notin> ?X"
      using wf that by (auto simp: session_wf_def split: option.splits)
    with wf show ?thesis by (auto simp: session_wf_def)
  qed
  ultimately have a: "\<forall>j s. map_of (sv_sessions ?sv) j = Some s \<longrightarrow> session_wf ?X ?sv j s" by simp
  have b: "registry_wf ?X ?sv"
    unfolding registry_wf_def
  proof (intro conjI allI impI)
    show "gomap_ok (sv_registry ?sv)" using parts(3) by (simp add: registry_wf_def)
    fix x j
    assume r: "map_of (sv_registry ?sv) x = Some j"
    show "\<exists>s. map_of (sv_sessions ?sv) j = Some s \<and> run_id s = x \<and> \<not> closed_session s"
      using r new regd [of x j] fresh by (cases "x = runID") auto
    show "j \<notin> ?X"
    proof (cases "x = runID")
      case True
      with r notX show ?thesis by simp
    next
      case False
      with r have j: "map_of (sv_registry sv) x = Some j" by simp
      have "map_of (sv_registry sv) runID \<noteq> Some j"
      proof
        assume "map_of (sv_registry sv) runID = Some j"
        from regd [OF this] regd [OF j] False show False by auto
      qed
      then show ?thesis by (auto split: option.splits)
    qed
  qed
  have c: "routes_wf ?X ?sv" using parts(4) unfolding routes_wf_def by auto
  have "all_held (sv_sessions ?sv) = all_held (sv_sessions sv)"
    using fresh new by (simp add: all_held_def update_absent held_sockets_def)
  then have "sockets_wf base ?sv" using parts(5) by (simp add: sockets_wf_def)
  with a b c inv parts(1) show ?thesis by (simp add: server_inv_def)
qed

lemma login_begin_inv:
  assumes inv: "server_inv env base {} sv"
  shows "server_inv env base {} (snd (handleLogin_begin env now rand sent login sv))"
proof -
  let ?run = "if lg_RunID login = [] then NewRunID rand else Some (lg_RunID login)"
  let ?auth = "VerifyAuth (cf_Token (sv_cfg sv)) (lg_AuthKey login) (lg_Timestamp login) now DefaultAuthSkew"
  consider "CheckVersion (lg_Version login) \<noteq> None" | "CheckVersion (lg_Version login) = None" "?auth \<noteq> None"
    | "CheckVersion (lg_Version login) = None" "?auth = None" "?run = None"
    | runID where "CheckVersion (lg_Version login) = None" "?auth = None" "?run = Some runID"
    by blast
  then show ?thesis
  proof cases
    case (4 runID)
    let ?o = "session_opts_of sv runID login"
    let ?sv1 = "sv\<lparr>sv_registry := AList.update runID (sv_next sv) (sv_registry sv),
        sv_sessions := AList.update (sv_next sv) (newSession ?o) (sv_sessions sv), sv_next := Suc (sv_next sv)\<rparr>"
    have "so_RunID ?o = runID" "so_Routes ?o" using inv by (simp_all add: session_opts_of_def server_inv_def)
    note new = new_session_inv [OF inv this]
    let ?sv2 = "case map_of (sv_registry sv) runID of None \<Rightarrow> ?sv1 | Some old \<Rightarrow> close_session env old ?sv1"
    have two: "server_inv env base {} ?sv2"
    proof (cases "map_of (sv_registry sv) runID")
      case None
      with new show ?thesis by simp
    next
      case (Some old)
      then obtain s where s: "map_of (sv_sessions sv) old = Some s" "\<not> closed_session s"
      proof -
        have "registry_wf {} sv" using inv by (simp add: server_inv_def)
        then show thesis using Some that unfolding registry_wf_def by blast
      qed
      have "session_wf {} sv old s" using inv s by (simp add: server_inv_def)
      then have "old \<noteq> sv_next sv" by (simp add: session_wf_def)
      with Some s new close_session_inv [of env base old ?sv1 s] show ?thesis by simp
    qed
    have "snd (handleLogin_begin env now rand sent login sv) = (if sent then
        snd (on_session (sv_next sv) (\<lambda>(s, b). ((), s\<lparr>se_pool := requestWorkConns (pool_target (sv_cfg sv) (lg_PoolCount login)) (se_pool s)\<rparr>, b)) ?sv2)
        else ?sv2)"
      using 4 by (simp add: handleLogin_begin_def Let_def Registry_Add_def)
    with two pool_inv [OF two, of "requestWorkConns (pool_target (sv_cfg sv) (lg_PoolCount login))"] show ?thesis by simp
  qed (use inv in \<open>auto simp: handleLogin_begin_def\<close>)
qed

section \<open>Any interleaving of the handlers\<close>

text \<open>Each event is one atomic step of some goroutine: a login up to its control loop, one turn of the
  control loop of a session, the end of one, a connection attached, and anything a visitor or a
  ticker does to the pool of a session.\<close>

datatype server_event =
    EvLogin go_time "bytes option" bool Login
  | EvTurn nat turn
  | EvEnd nat
  | EvWork go_time bool nat NewWorkConn
  | EvMux go_time bool nat NewMuxConn
  | EvPool nat pool_op

fun server_step :: "text_env \<Rightarrow> x509_env \<Rightarrow> server_event \<Rightarrow> server \<Rightarrow> server" where
  "server_step env x5 (EvLogin now rand sent login) sv = snd (handleLogin_begin env now rand sent login sv)"
| "server_step env x5 (EvTurn i t) sv = snd (snd (control_turn env x5 i t sv))"
| "server_step env x5 (EvEnd i) sv = handleLogin_end env i sv"
| "server_step env x5 (EvWork now d c msg) sv = snd (attachWorkConn now d c msg sv)"
| "server_step env x5 (EvMux now d c msg) sv = snd (attachMuxConn now d c msg sv)"
| "server_step env x5 (EvPool i x) sv =
     snd (on_session i (\<lambda>(s, b). ((), s\<lparr>se_pool := snd (pool_step x (se_pool s))\<rparr>, b)) sv)"

text \<open>A tunnel's domains survive being parsed again, the system hands out sockets that are not in use,
  a closed control connection delivers no message, and sessions are closed by their handlers only.\<close>

fun event_good :: "text_env \<Rightarrow> server_event \<Rightarrow> server \<Rightarrow> bool" where
  "event_good env (EvTurn i t) sv =
     (case tn_read t of
        Inr (MNewProxy spec) \<Rightarrow> domains_stable env (ps_Domains spec)
          \<and> fresh_out (tn_listen t) (bd_open (sv_bindings sv))
          \<and> (case map_of (sv_sessions sv) i of None \<Rightarrow> True | Some s \<Rightarrow> \<not> closed_session s)
      | _ \<Rightarrow> True)"
| "event_good env (EvPool i x) sv = (x \<noteq> OpClose)"
| "event_good env ev sv = True"

fun server_run :: "text_env \<Rightarrow> x509_env \<Rightarrow> server_event list \<Rightarrow> server \<Rightarrow> server" where
  "server_run env x5 [] sv = sv"
| "server_run env x5 (ev # evs) sv = server_run env x5 evs (server_step env x5 ev sv)"

fun events_good :: "text_env \<Rightarrow> x509_env \<Rightarrow> server_event list \<Rightarrow> server \<Rightarrow> bool" where
  "events_good env x5 [] sv \<longleftrightarrow> True"
| "events_good env x5 (ev # evs) sv \<longleftrightarrow> event_good env ev sv \<and> events_good env x5 evs (server_step env x5 ev sv)"

lemma inv_tables [simp]:
  "server_inv env base X (sv\<lparr>sv_certs := c\<rparr>) = server_inv env base X sv"
  "server_inv env base X (sv\<lparr>sv_challenges := h\<rparr>) = server_inv env base X sv"
  by (simp_all add: server_inv_def session_wf_def registry_wf_def routes_wf_def sockets_wf_def)

lemma on_session_absent: "map_of (sv_sessions sv) i = None \<Longrightarrow> on_session i f sv = (None, sv)"
  by (simp add: on_session_def)

lemma turn_inv:
  assumes inv: "server_inv env base {} sv" and good: "event_good env (EvTurn i t) sv"
  shows "server_inv env base {} (snd (snd (control_turn env x5 i t sv)))"
proof (cases "tn_read t")
  case (Inl e)
  with inv show ?thesis by (cases e) (simp_all add: control_turn_def)
next
  case read: (Inr m)
  show ?thesis
  proof (cases m)
    case (MNewProxy spec)
    have step: "snd (snd (control_turn env x5 i t sv)) = snd (on_session i (AddProxy env (tn_now t) (tn_listen t) id spec) sv)"
      using read MNewProxy by (auto simp: control_turn_def handleNewProxy_def split: prod.splits option.splits)
    show ?thesis
    proof (cases "map_of (sv_sessions sv) i")
      case None
      with inv step show ?thesis by (simp add: on_session_absent)
    next
      case (Some s)
      obtain r st' where add: "AddProxy env (tn_now t) (tn_listen t) id spec (s, sv_bindings sv) = (r, st')" by (meson surj_pair)
      obtain s' b' where st': "st' = (s', b')" by fastforce
      have "keeps_session env (base \<union> other_held i sv) (s, sv_bindings sv) (s', b')"
        by (rule keeps_AddProxy [OF session_in_server [OF inv Some] _ _ _ add [unfolded st']])
          (use good read MNewProxy Some in simp_all)
      from on_session_inv [where f = "AddProxy env (tn_now t) (tn_listen t) id spec", OF inv Some add [unfolded st'] this] step show ?thesis by simp
    qed
  next
    case (MCloseProxy name)
    have step: "snd (snd (control_turn env x5 i t sv)) = snd (on_session i (RemoveProxy env name) sv)"
      using read MCloseProxy by (simp add: control_turn_def)
    show ?thesis
    proof (cases "map_of (sv_sessions sv) i")
      case None
      with inv step show ?thesis by (simp add: on_session_absent)
    next
      case (Some s)
      obtain r st' where rm: "RemoveProxy env name (s, sv_bindings sv) = (r, st')" by (meson surj_pair)
      obtain s' b' where st': "st' = (s', b')" by fastforce
      have "session_wf {} sv i s" using inv Some by (simp add: server_inv_def)
      then have "closed_session s \<longrightarrow> se_proxies s = []" by (simp add: session_wf_def)
      from on_session_inv [where f = "RemoveProxy env name", OF inv Some rm [unfolded st']
          keeps_RemoveProxy [OF session_in_server [OF inv Some] this rm [unfolded st']]] step
      show ?thesis by simp
    qed
  qed (use inv read in \<open>auto simp: control_turn_def handleCertPush_def handleHTTPChallenge_def split: option.splits prod.splits sum.splits\<close>)
qed

lemma open_AddWorkConn: "po_done (AddWorkConn d c q) = po_done q"
  by (simp add: AddWorkConn_def Let_def)

lemma open_SetOverflow: "po_done (SetOverflow c q) = po_done q"
  by (simp add: SetOverflow_def)

lemma server_step_inv:
  assumes "server_inv env base {} sv" "event_good env ev sv"
  shows "server_inv env base {} (server_step env x5 ev sv)"
proof (cases ev)
  case (EvLogin now rand sent login)
  with login_begin_inv [OF assms(1)] show ?thesis by simp
next
  case (EvTurn i t)
  with turn_inv assms show ?thesis by simp
next
  case (EvEnd i)
  with login_end_inv [OF assms(1)] show ?thesis by simp
next
  case (EvWork now d c msg)
  with assms(1) pool_inv [OF assms(1) open_AddWorkConn] show ?thesis
    by (auto simp: attachWorkConn_def split: option.splits)
next
  case (EvMux now d c msg)
  with assms(1) pool_inv [OF assms(1) open_SetOverflow] show ?thesis
    by (auto simp: attachMuxConn_def split: option.splits)
next
  case (EvPool i x)
  with pool_inv [OF assms(1), of "\<lambda>q. snd (pool_step x q)"] open_step assms(2) show ?thesis by simp
qed

lemma server_run_inv:
  "server_inv env base {} sv \<Longrightarrow> events_good env x5 evs sv \<Longrightarrow> server_inv env base {} (server_run env x5 evs sv)"
  by (induction evs arbitrary: sv) (simp_all add: server_step_inv)

lemma newServer_inv:
  "vs \<noteq> [] \<Longrightarrow> server_inv env {} {} ((newServer cfg v)\<lparr>sv_vhosts := vs\<rparr>)"
  by (simp add: server_inv_def newServer_def gomap_ok_def registry_wf_def routes_wf_def sockets_wf_def
      all_held_def router_ok_NewRouter) (simp add: NewRouter_def)

lemma lookup_in_routes: "Router_Lookup env r host = Some rt \<Longrightarrow> router_ok env r \<Longrightarrow> \<exists>k. map_of (routes r) k = Some rt"
  by (auto simp: Router_Lookup_spec lookup_spec_def split: sum.splits option.splits if_splits)

end
