(* ===== verification/Srv_Lifecycle.thy ===== *)
theory Srv_Lifecycle
  imports Srv_Invariant
begin

text \<open>
  What the server promises over its life: consistency of its tables and sockets, the gate of
  authentication, and what a second login does to the first.
\<close>

section \<open>Properties\<close>


definition demo_cfg :: server_config where
  "demo_cfg = \<lparr>cf_Token = [], cf_MaxPoolCount = 8, cf_BindAddr = [], cf_AcceptLoops = 1, cf_VhostHTTPPort = 80,
     cf_VhostHTTPSPort = 443\<rparr>"

definition demo_login :: Login where
  "demo_login = \<lparr>lg_Version = 1, lg_ClientName = ''home'', lg_Hostname = [], lg_OS = [], lg_Arch = [],
     lg_Timestamp = 0, lg_AuthKey = [], lg_PoolCount = 3, lg_RunID = ''A''\<rparr>"

definition demo_turn :: "ProxySpec \<Rightarrow> turn" where
  "demo_turn spec = \<lparr>tn_now = time_Unix 5, tn_listen = Listening 7 (Some 6022), tn_sent = True, tn_read = Inr (MNewProxy spec)\<rparr>"

definition demo_x5 :: x509_env where
  "demo_x5 = \<lparr>x5_pair = (\<lambda>c k. False), x5_leaf = (\<lambda>c. None)\<rparr>"

definition demo_events :: "server_event list" where
  "demo_events = [EvLogin (time_Unix 0) None True demo_login, EvTurn 0 (demo_turn tcp_spec), EvPool 0 OpRequest]"

lemmas server_eval = newServer_def demo_cfg_def demo_login_def handleLogin_begin_def CheckVersion_def VerifyAuth_def
  Registry_Add_def on_session_def newSession_def session_opts_of_def pool_target_def requestWorkConns_def newPool_def
  closed_session_def Version_def


text \<open>The credentials an opening message carries.\<close>

fun credentials :: "message \<Rightarrow> (string \<times> int) option" where
  "credentials (MLogin m) = Some (lg_AuthKey m, lg_Timestamp m)"
| "credentials (MNewWorkConn m) = Some (wc_AuthKey m, wc_Timestamp m)"
| "credentials (MNewMuxConn m) = Some (mc_AuthKey m, mc_Timestamp m)"
| "credentials m = None"

definition authentic :: "server \<Rightarrow> go_time \<Rightarrow> codec_error + message \<Rightarrow> bool" where
  "authentic sv now msg = (case msg of
      Inl e \<Rightarrow> False
    | Inr m \<Rightarrow> (case credentials m of
        None \<Rightarrow> False
      | Some (key, ts) \<Rightarrow> VerifyAuth (cf_Token (sv_cfg sv)) key ts now DefaultAuthSkew = None))"

lemma handlePlain_refuses: "\<not> authentic sv (ar_now a) msg \<Longrightarrow> snd (handlePlain env x5 a msg sv) = sv"
proof (cases msg)
  case (Inr m)
  assume "\<not> authentic sv (ar_now a) msg"
  with Inr show ?thesis
    by (cases m) (auto simp: authentic_def handlePlain_def handleLogin_def handleLogin_begin_def attachWorkConn_def
        attachMuxConn_def split: option.splits)
qed (simp add: handlePlain_def)

lemma handleMux_refuses:
  "\<forall>(a, r) \<in> set streams. \<not> authentic sv (ar_now a) (fst (ReadMessage r)) \<Longrightarrow> snd (handleMux env x5 streams sv) = sv"
proof (induction streams)
  case (Cons st streams)
  obtain a r where st: "st = (a, r)" by fastforce
  have "snd (handlePlain env x5 a (fst (ReadMessage r)) sv) = sv" using Cons.prems st by (intro handlePlain_refuses) simp
  with Cons st show ?case by (simp add: case_prod_beta)
qed simp

text \<open>C16: Without the token nothing happens. Whatever bytes a peer sends, on a plain connection or on
  any stream of a multiplexed one, the server is exactly as it was unless an opening message
  carries a key that verifies: no session, no registration, no route, no pooled connection, no
  carrier.\<close>

theorem unauthenticated_changes_nothing:
  assumes "case ReadPreamble r of (Inl e, r') \<Rightarrow> True
    | (Inr p, r') \<Rightarrow> if pa_Mode p = ModePlain then \<not> authentic sv (ar_now a) (fst (ReadMessage r'))
        else \<forall>(a, r) \<in> set streams. \<not> authentic sv (ar_now a) (fst (ReadMessage r))"
  shows "snd (handleConn env x5 a streams r sv) = sv"
proof (cases "ReadPreamble r")
  case (Pair res r')
  show ?thesis
  proof (cases res)
    case (Inl e)
    with Pair show ?thesis by (simp add: handleConn_def)
  next
    case (Inr p)
    show ?thesis
    proof (cases "pa_Mode p = ModePlain")
      case True
      with assms Pair Inr have "\<not> authentic sv (ar_now a) (fst (ReadMessage r'))" by simp
      from handlePlain_refuses [OF this] True Pair Inr show ?thesis by (simp add: handleConn_def case_prod_beta)
    next
      case False
      with assms Pair Inr have "\<forall>(a, r) \<in> set streams. \<not> authentic sv (ar_now a) (fst (ReadMessage r))" by simp
      from handleMux_refuses [OF this] False Pair Inr show ?thesis by (simp add: handleConn_def case_prod_beta)
    qed
  qed
qed

definition forged :: message where
  "forged = MNewWorkConn \<lparr>wc_RunID = ''A'', wc_Timestamp = 0, wc_AuthKey = ''guess''\<rparr>"

definition guarded :: server where
  "guarded = newServer (demo_cfg\<lparr>cf_Token := ''secret''\<rparr>) []"

definition knock :: arrival where
  "knock = \<lparr>ar_now = time_Unix 0, ar_rand = None, ar_sent = True, ar_turns = [], ar_pick = False, ar_started = True, ar_conn = 9\<rparr>"

theorem unauthenticated_changes_nothing_witness:
  "\<exists>f. encode forged = Inr f \<and>
     snd (handleConn ascii_env demo_x5 knock [] (byte_chunks (Magic @ [nat_byte 1, nat_byte 1] @ f)) guarded) = guarded"
proof -
  have "is_ok (encode forged)"
    by (simp add: forged_def encode_def Let_def json_Marshal_def always_def omitempty_def newWorkConn_members_def quoted_def
        quote_body_ascii escape_ascii_def byte_nat_def jint_def int_text_def nat_text.simps MaxMessageSize_def)
  then obtain f where f: "encode forged = Inr f" by (cases "encode forged") simp_all
  let ?r = "byte_chunks (Magic @ [nat_byte 1, nat_byte 1] @ f)"
  obtain r1 where r1: "clean r1" "reader_data r1 = f" and pre: "ReadPreamble ?r = (Inr \<lparr>pa_Version = 1, pa_Mode = 1\<rparr>, r1)"
    using ReadPreamble_whole [of ?r 1 1 f] by (auto simp: Version_def Mode_Valid_def ModePlain_def ModeMux_def modeNames_def)
  have "message_ok forged" by (simp add: forged_def int64_ok_def is_ascii_def byte_nat_def valid_utf8_ascii)
  then obtain r2 where read: "ReadMessage r1 = (Inr forged, r2)"
    using ReadMessage_encoded [OF _ f r1(1), of "[]"] r1(2) by auto
  have "AuthKey ''secret'' 0 \<noteq> ''guess''"
  proof
    assume "AuthKey ''secret'' 0 = ''guess''"
    with length_AuthKey [of "''secret''" 0] show False by simp
  qed
  then have "\<not> authentic guarded (ar_now knock) (fst (ReadMessage r1))"
    by (simp add: read authentic_def forged_def guarded_def newServer_def VerifyAuth_def Let_def)
  with pre have "snd (handleConn ascii_env demo_x5 knock [] ?r guarded) = guarded"
    by (intro unauthenticated_changes_nothing) (simp add: ModePlain_def)
  with f show ?thesis by blast
qed

text \<open>A client that logs in again takes over from its old session. The run id then names the new
  session, which is open, publishes nothing yet and asks for the pool the client wanted, at most
  the server's maximum; the old session's sockets are closed and its routes gone; every other
  session is untouched.\<close>

theorem login_replaces:
  assumes "server_inv env base {} sv" "handleLogin_begin env now rand True login sv = (LoggedIn i runID v, sv')"
    and "1 \<le> cf_MaxPoolCount (sv_cfg sv)"
  shows "Registry_Get (sv_registry sv') runID = Some i
    \<and> (case map_of (sv_sessions sv') i of None \<Rightarrow> False
       | Some s \<Rightarrow> run_id s = runID \<and> \<not> closed_session s \<and> se_proxies s = []
           \<and> po_pending (se_pool s) = min (max 1 (lg_PoolCount login)) (cf_MaxPoolCount (sv_cfg sv)))
    \<and> (\<forall>k rt. map_of (routes (bd_router (sv_bindings sv'))) k = Some rt \<longrightarrow> rt_RunID rt \<noteq> runID)
    \<and> (\<forall>j. j \<noteq> i \<longrightarrow> (if Registry_Get (sv_registry sv) runID = Some j
         then \<exists>t. map_of (sv_sessions sv') j = Some t \<and> closed_session t \<and> held_sockets t = []
         else map_of (sv_sessions sv') j = map_of (sv_sessions sv) j))"
proof -
  let ?run = "if lg_RunID login = [] then NewRunID rand else Some (lg_RunID login)"
  let ?o = "session_opts_of sv runID login" and ?n = "pool_target (sv_cfg sv) (lg_PoolCount login)"
  let ?sv1 = "sv\<lparr>sv_registry := AList.update runID (sv_next sv) (sv_registry sv),
      sv_sessions := AList.update (sv_next sv) (newSession ?o) (sv_sessions sv), sv_next := Suc (sv_next sv)\<rparr>"
  define sv2 where "sv2 = (case map_of (sv_registry sv) runID of None \<Rightarrow> ?sv1 | Some old \<Rightarrow> close_session env old ?sv1)"
  have ok: "?run = Some runID" and i: "i = sv_next sv"
    and sv': "sv' = snd (on_session i (\<lambda>(s, b). ((), s\<lparr>se_pool := requestWorkConns ?n (se_pool s)\<rparr>, b)) sv2)"
    using assms(2) by (auto simp: handleLogin_begin_def sv2_def Let_def Registry_Add_def split: option.splits if_splits)
  have parts: "registry_wf {} sv" "routes_wf {} sv" "\<And>j s. map_of (sv_sessions sv) j = Some s \<Longrightarrow> session_wf {} sv j s"
    using assms(1) by (simp_all add: server_inv_def)
  have o: "so_RunID ?o = runID" "so_Routes ?o" using assms(1) by (simp_all add: session_opts_of_def server_inv_def)
  note new = new_session_inv [OF assms(1) o]
  have two: "sv_registry sv2 = sv_registry ?sv1 \<and> map_of (sv_sessions sv2) i = Some (newSession ?o)
    \<and> (\<forall>k rt. map_of (routes (bd_router (sv_bindings sv2))) k = Some rt \<longrightarrow> rt_RunID rt \<noteq> runID)
    \<and> (\<forall>j. j \<noteq> i \<longrightarrow> (if map_of (sv_registry sv) runID = Some j
         then \<exists>t. map_of (sv_sessions sv2) j = Some t \<and> closed_session t \<and> held_sockets t = []
         else map_of (sv_sessions sv2) j = map_of (sv_sessions sv) j))"
  proof (cases "map_of (sv_registry sv) runID")
    case None
    have "rt_RunID rt \<noteq> runID" if "map_of (routes (bd_router (sv_bindings sv))) k = Some rt" for k rt
    proof
      assume "rt_RunID rt = runID"
      moreover have "map_of (sv_registry sv) (rt_RunID rt) \<noteq> None"
        using parts(2) that unfolding routes_wf_def by blast
      ultimately show False using None by simp
    qed
    with None i show ?thesis by (simp add: sv2_def)
  next
    case (Some old)
    obtain s where s: "map_of (sv_sessions sv) old = Some s" "run_id s = runID" "\<not> closed_session s"
      using parts(1) Some unfolding registry_wf_def by blast
    have "old \<noteq> i" using parts(3) [OF s(1)] i by (simp add: session_wf_def)
    with Some s i new close_session_facts [of env base old ?sv1 s] show ?thesis by (simp add: sv2_def)
  qed
  have n: "?n = min (max 1 (lg_PoolCount login)) (cf_MaxPoolCount (sv_cfg sv))" "1 \<le> ?n"
    using assms(3) by (auto simp: pool_target_def Let_def)
  have res: "sv' = sv2\<lparr>sv_sessions := AList.update i ((newSession ?o)\<lparr>se_pool := requestWorkConns ?n (se_pool (newSession ?o))\<rparr>) (sv_sessions sv2)\<rparr>"
    using sv' two by (simp add: on_session_def)
  let ?s = "(newSession ?o)\<lparr>se_pool := requestWorkConns ?n (se_pool (newSession ?o))\<rparr>"
  have s: "run_id ?s = runID" "\<not> closed_session ?s" "se_proxies ?s = []" "po_pending (se_pool ?s) = ?n"
    using n(2) o by (simp_all add: newSession_def run_id_def closed_session_def newPool_def requestWorkConns_def)
  have "map_of (sv_sessions sv') i = Some ?s" "sv_registry sv' = sv_registry ?sv1" "sv_bindings sv' = sv_bindings sv2"
      "\<And>j. j \<noteq> i \<Longrightarrow> map_of (sv_sessions sv') j = map_of (sv_sessions sv2) j"
    using two by (simp_all add: res)
  with two s n(1) i show ?thesis by (simp add: Registry_Get_def)
qed

theorem login_replaces_witness:
  "Registry_Get (sv_registry (snd (handleLogin_begin ascii_env (time_Unix 0) None True demo_login
     ((newServer demo_cfg [])\<lparr>sv_vhosts := [SchemeHTTP]\<rparr>)))) ''A'' = Some 0"
proof -
  let ?sv = "(newServer demo_cfg [])\<lparr>sv_vhosts := [SchemeHTTP]\<rparr>"
  have inv: "server_inv ascii_env {} {} ?sv" by (rule newServer_inv) simp
  obtain sv' where log: "handleLogin_begin ascii_env (time_Unix 0) None True demo_login ?sv = (LoggedIn 0 ''A'' [], sv')"
    by (simp add: server_eval Let_def)
  from login_replaces [OF inv log] log show ?thesis by (simp add: newServer_def demo_cfg_def)
qed

definition web_spec :: ProxySpec where
  "web_spec = zeroSpec\<lparr>ps_Name := ''nas'', ps_Kind := ''https'', ps_Domains := [''nas.example.com'']\<rparr>"

definition web_route :: route where
  "web_route = \<lparr>rt_Pattern = [], rt_RunID = ''A'', rt_ProxyName = ''nas'', rt_TLSMode = []\<rparr>"

lemma web_route_fields: "rt_RunID web_route = ''A''" "rt_ProxyName web_route = ''nas''" "rt_TLSMode web_route = []"
  by (simp_all add: web_route_def)

definition nas_router :: "route \<Rightarrow> router" where
  "nas_router rt = fst (Router_Add ascii_env NewRouter [''nas.example.com''] rt)"

abbreviation web_router :: router where
  "web_router \<equiv> nas_router web_route"

lemma nas_stable: "domains_stable ascii_env [''nas.example.com'']"
  by (simp add: domains_stable_def pattern_stable_def parse_nas)

lemma nas_add: "Router_Add ascii_env NewRouter [''nas.example.com''] rt = (nas_router rt, None)"
proof -
  have "snd (Router_Add ascii_env NewRouter [''nas.example.com''] rt) = None"
    using nas_stable Router_Add_accepts [of ascii_env NewRouter] router_ok_NewRouter
    by (simp add: router_ok_def parse_nas) (simp add: NewRouter_def)
  then show ?thesis by (simp add: nas_router_def prod_eq_iff)
qed

lemma nas_routes:
  "router_ok ascii_env (nas_router rt)"
  "map_of (routes (nas_router rt)) k = (if k = ''nas.example.com'' then Some (rt\<lparr>rt_Pattern := k\<rparr>) else None)"
  using rr.add_ok [OF router_ok_NewRouter nas_stable nas_add]
  by (simp_all add: NewRouter_def pattern_texts_def parse_nas)

lemma nas_lookup: "Router_Lookup ascii_env (nas_router rt) ''nas.example.com'' = Some (rt\<lparr>rt_Pattern := ''nas.example.com''\<rparr>)"
  by (simp add: Router_Lookup_spec [OF nas_routes(1)] lookup_spec_def norm_nas nas_routes CatchAll_def)

lemma web_removed: "Router_Lookup ascii_env (Router_RemoveClient ascii_env web_router ''A'') ''nas.example.com'' = None"
proof -
  note R = rr.remove_client_ok [OF nas_routes(1), of web_route "''A''"]
  have "map_of (routes (Router_RemoveClient ascii_env web_router ''A'')) k = None" for k
    using R nas_routes(2) [of web_route k] by (simp add: web_route_def)
  with R show ?thesis by (simp add: Router_Lookup_spec lookup_spec_def norm_nas)
qed

lemmas web_lookups = nas_lookup [of web_route] web_removed

text \<open>Publishing the tunnel from a session that has the host ports.\<close>

lemma web_publish:
  assumes "so_Routes (se_opts s)" "so_RunID (se_opts s) = ''A''" "se_proxies s = []"
  obtains r s1 where "AddProxy ascii_env now out id web_spec (s, \<lparr>bd_router = NewRouter, bd_open = []\<rparr>)
      = (r, s1, \<lparr>bd_router = web_router, bd_open = []\<rparr>)" "ProxyNames s1 = [''nas'']"
    "se_pool s1 = se_pool s" "Limits_For (se_limits s1) ''nas'' = None"
  using assms nas_add [of web_route]
  by (simp add: Limits_Publish_def Limits_Remove_def Limits_For_def AddProxy_def AddProxy_bind_def AddProxy_publish_def web_spec_def zeroSpec_def options_of_def proxy_New_def
      registry_def newVhostProxy_def parse_nas proxy_Bind_def vhost_Listen_def web_route_def ProxyNames_def Let_def)

text \<open>The demonstration client logging in to a server with the HTTPS port.\<close>

abbreviation https_server :: server where
  "https_server \<equiv> (newServer demo_cfg []) \<lparr>sv_vhosts := [SchemeHTTPS]\<rparr>"

definition https_opts :: session_opts where
  "https_opts = session_opts_of https_server ''A'' demo_login"

definition https_session :: session where
  "https_session = (newSession https_opts)\<lparr>se_pool := requestWorkConns 3 (newPool 8 3)\<rparr>"

lemma demo_target [simp]: "pool_target demo_cfg (lg_PoolCount demo_login) = 3"
  by (simp add: pool_target_def demo_cfg_def demo_login_def)

lemma demo_login_step:
  assumes "sv_cfg sv = demo_cfg" "sv_vhosts sv = [SchemeHTTPS]" "map_of (sv_registry sv) ''A'' = None"
  shows "snd (handleLogin_begin ascii_env now None True demo_login sv) =
      sv\<lparr>sv_registry := AList.update ''A'' (sv_next sv) (sv_registry sv),
         sv_sessions := AList.update (sv_next sv) https_session (sv_sessions sv), sv_next := Suc (sv_next sv)\<rparr>"
proof -
  have fields: "lg_Version demo_login = 1" "lg_RunID demo_login = ''A''" "cf_Token demo_cfg = []" "cf_MaxPoolCount demo_cfg = 8"
    by (simp_all add: demo_login_def demo_cfg_def)
  have "session_opts_of sv ''A'' demo_login = https_opts"
    using assms by (simp add: session_opts_of_def https_opts_def newServer_def)
  moreover have "se_pool (newSession https_opts) = newPool 8 3"
    by (simp add: newSession_def https_opts_def session_opts_of_def newServer_def fields)
  ultimately show ?thesis
    using assms by (simp add: handleLogin_begin_def fields CheckVersion_def Version_def VerifyAuth_def Registry_Add_def
        on_session_def https_session_def Let_def)
qed

lemma https_session_fields:
  "so_Routes (se_opts https_session)" "so_RunID (se_opts https_session) = ''A''" "se_proxies https_session = []"
  "\<not> po_done (se_pool https_session)" "se_pool https_session = requestWorkConns 3 (newPool 8 3)"
  by (simp_all add: https_session_def newSession_def https_opts_def session_opts_of_def newPool_def newServer_def)

text \<open>And publishing its tunnel there.\<close>

definition nas_session :: session where
  "nas_session = fst (snd (AddProxy ascii_env (time_Unix 5) (Listening 7 (Some 6022)) id web_spec
     (https_session, \<lparr>bd_router = NewRouter, bd_open = []\<rparr>)))"

lemma nas_session_fields:
  "ProxyNames nas_session = [''nas'']" "se_pool nas_session = se_pool https_session"
  "Limits_For (se_limits nas_session) ''nas'' = None"
  by (rule web_publish [OF https_session_fields(1-3), of "time_Unix 5" "Listening 7 (Some 6022)"], simp add: nas_session_def)+

lemma nas_publish:
  assumes "sv_bindings sv = \<lparr>bd_router = NewRouter, bd_open = []\<rparr>" "map_of (sv_sessions sv) i = Some https_session"
  shows "server_step ascii_env demo_x5 (EvTurn i (demo_turn web_spec)) sv =
    sv\<lparr>sv_sessions := AList.update i nas_session (sv_sessions sv), sv_bindings := \<lparr>bd_router = web_router, bd_open = []\<rparr>\<rparr>"
  by (rule web_publish [OF https_session_fields(1-3), of "time_Unix 5" "Listening 7 (Some 6022)"])
    (use assms in \<open>simp add: nas_session_def control_turn_def demo_turn_def handleNewProxy_def on_session_def\<close>)

definition relogin :: "server \<Rightarrow> server" where
  "relogin sv = server_run ascii_env demo_x5 [EvLogin (time_Unix 9) None True demo_login, EvTurn 1 (demo_turn web_spec)] sv"

text \<open>A session that ends late takes a newer one's routes with it. \<open>handleLogin\<close> unregisters its
  session and closes it in two steps; if the same client logs in and publishes in between, closing
  the old session removes every route of the run id, so the host is not found although the new
  session is registered and still lists the tunnel.\<close>

theorem late_close_drops_new_routes:
  "let sv0 = server_run ascii_env demo_x5 [EvLogin (time_Unix 0) None True demo_login]
               ((newServer demo_cfg []) \<lparr>sv_vhosts := [SchemeHTTPS]\<rparr>);
       sv1 = relogin (sv0\<lparr>sv_registry := Registry_Remove ''A'' 0 (sv_registry sv0)\<rparr>);
       sv2 = close_session ascii_env 0 sv1 in
   Router_Lookup ascii_env (bd_router (sv_bindings sv1)) ''nas.example.com'' \<noteq> None
   \<and> Router_Lookup ascii_env (bd_router (sv_bindings sv2)) ''nas.example.com'' = None
   \<and> Registry_Get (sv_registry sv2) ''A'' = Some 1
   \<and> (case map_of (sv_sessions sv2) 1 of None \<Rightarrow> False | Some s \<Rightarrow> ProxyNames s = [''nas''])"
proof -
  let ?s = https_session
  have sv0: "server_run ascii_env demo_x5 [EvLogin (time_Unix 0) None True demo_login] https_server =
      https_server\<lparr>sv_registry := [(''A'', 0)], sv_sessions := [(0, ?s)], sv_next := 1\<rparr>" (is "?L = ?sv0")
    using demo_login_step [of https_server "time_Unix 0"] by (simp add: newServer_def)
  have sv1: "relogin (?sv0\<lparr>sv_registry := Registry_Remove ''A'' 0 (sv_registry ?sv0)\<rparr>) =
      https_server\<lparr>sv_registry := [(''A'', 1)], sv_sessions := [(0, ?s), (1, nas_session)], sv_next := 2,
         sv_bindings := \<lparr>bd_router = web_router, bd_open = []\<rparr>\<rparr>" (is "_ = ?sv1")
    using demo_login_step [of "https_server\<lparr>sv_registry := [], sv_sessions := [(0, ?s)], sv_next := 1\<rparr>" "time_Unix 9"]
    by (simp add: relogin_def Registry_Remove_def newServer_def nas_publish del: server_step.simps(2))
  have sv2: "close_session ascii_env 0 ?sv1 = ?sv1\<lparr>sv_sessions := [(0, ?s\<lparr>se_pool := close_pool (se_pool ?s), se_ctrlOpen := False\<rparr>), (1, nas_session)],
      sv_bindings := \<lparr>bd_router = Router_RemoveClient ascii_env web_router ''A'', bd_open = []\<rparr>\<rparr>"
    using https_session_fields by (simp add: close_session_def on_session_def Session_Close_def)
  show ?thesis
    unfolding Let_def sv0 sv1 sv2 using web_lookups nas_session_fields(1) by (simp add: Registry_Get_def)
qed

end
