(* ===== verification/Srv_Vhost.thy ===== *)
theory Srv_Vhost
  imports Srv_Lifecycle Vhost_Sniff_Http Vhost_Sniff_Tls
begin

text \<open>
  The listeners of the virtual host ports, \<^verbatim>\<open>internal/tunnel/server/vhost.go\<close>: a visitor's connection
  is sniffed, an ACME challenge answered, the host routed to a client and the connection relayed
  with the bytes the sniffer consumed replayed first. The peer's behaviour (whether a work connection
  is to be had, whether a write reaches it, the TLS handshake) is an argument; setting a deadline on an
  open connection succeeds.
\<close>

section \<open>What a visitor sent\<close>

record sniffed =
  sf_Host :: string
  sf_Path :: string
  sf_Consumed :: bytes

datatype sniff_error = HttpSniff http_error | TlsSniff tls_error

text \<open>The sniffer of the listener's scheme, with the rest of the visitor's stream.\<close>

definition vhost_sniff :: "text_env \<Rightarrow> nat \<Rightarrow> scheme \<Rightarrow> reader \<Rightarrow> sniff_error option \<times> sniffed \<times> reader" where
  "vhost_sniff env pooled sch conn =
     (case sch of
        SchemeHTTP \<Rightarrow>
          (case SniffHTTP env pooled conn of (e, info, h) \<Rightarrow>
             (map_option HttpSniff e,
              \<lparr>sf_Host = hi_Host info, sf_Path = hi_Path info, sf_Consumed = hi_Consumed info\<rparr>, hr_src h))
      | SchemeHTTPS \<Rightarrow>
          (case SniffTLS env pooled conn of
             (Some e, info, h) \<Rightarrow>
               (Some (TlsSniff e), \<lparr>sf_Host = [], sf_Path = [], sf_Consumed = ti_Consumed info\<rparr>, hr_src h)
           | (None, info, h) \<Rightarrow>
               (None, \<lparr>sf_Host = ti_ServerName info, sf_Path = [], sf_Consumed = ti_Consumed info\<rparr>, hr_src h)))"

section \<open>What a visitor is answered\<close>

definition statusBadRequest :: string where "statusBadRequest = ''400 Bad Request''"
definition statusNotFound :: string where "statusNotFound = ''404 Not Found''"
definition statusBadGateway :: string where "statusBadGateway = ''502 Bad Gateway''"

definition reject_text :: "scheme \<Rightarrow> string \<Rightarrow> bytes" where
  "reject_text sch status =
     (if sch \<noteq> SchemeHTTP then []
      else ''HTTP/1.1 '' @ status @ CRLF @ ''Content-Length: 0'' @ CRLF @ ''Connection: close'' @ CRLF @ CRLF)"

text \<open>\<^verbatim>\<open>html/template.HTMLEscapeString\<close>.\<close>

definition escape_html_char :: "char \<Rightarrow> string" where
  "escape_html_char c =
     (if c = CHR 0x22 then ''&#34;'' else if c = CHR 0x27 then ''&#39;'' else if c = CHR ''&'' then ''&amp;''
      else if c = CHR ''<'' then ''&lt;'' else if c = CHR ''>'' then ''&gt;''
      else if c = CHR 0x00 then [CHR 0xEF, CHR 0xBF, CHR 0xBD] else [c])"

definition HTMLEscapeString :: "string \<Rightarrow> string" where
  "HTMLEscapeString s = concat (map escape_html_char s)"

definition newline :: string where "newline = [CHR 0x0A]"

text \<open>The page around the two places where the host is shown.\<close>

definition page_head :: string where
  \<open>page_head = ''<!doctype html>'' @ newline @ ''<html lang="en">'' @ newline
      @ ''<head><meta charset="utf-8"><title>No tunnel for ''\<close>

definition page_middle :: string where
  \<open>page_middle = ''</title>'' @ newline @ ''<style>'' @ newline
      @ ''body{font:16px/1.6 system-ui,sans-serif;margin:0;padding:3em 1.5em;color:#222;background:#fafafa}''
      @ newline @ ''main{max-width:34em;margin:0 auto}'' @ newline
      @ ''h1{font-size:1.3em;margin:0 0 .8em}'' @ newline
      @ ''code{background:#eee;padding:.1em .35em;border-radius:3px}'' @ newline
      @ ''ul{padding-left:1.2em}li{margin:.4em 0}'' @ newline
      @ ''p.f{color:#666;font-size:.85em;margin-top:2em}'' @ newline @ ''</style></head>''
      @ newline @ ''<body><main>'' @ newline
      @ ''<h1>This is an OpenFrp server, but no tunnel is serving ''\<close>

definition page_tail :: string where
  \<open>page_tail = ''.</h1>'' @ newline
      @ ''<p>The request arrived here, so DNS is pointing the right way. What is missing''
      @ newline @ ''is a tunnel claiming this name.</p>'' @ newline @ ''<ul>'' @ newline
      @ ''<li>Add the name to a tunnel's <code>domains</code> on the router, and enable it.</li>''
      @ newline
      @ ''<li>A <code>*</code> covers exactly one label: <code>*.example.com</code> serves''
      @ newline @ ''<code>www.example.com</code> but not <code>a.b.example.com</code>.</li>''
      @ newline @ ''<li>Check the router is connected '' @ [CHR 0xE2] @ [CHR 0x80] @ [CHR 0x94]
      @ '' a tunnel whose client is offline claims nothing.</li>'' @ newline @ ''</ul>''
      @ newline @ ''<p class="f">OpenFrp</p>'' @ newline @ ''</main></body></html>'' @ newline\<close>

definition unclaimed_page :: "string \<Rightarrow> bytes" where
  "unclaimed_page host =
     (let shown = (if host = [] then ''this address'' else host) in
      page_head @ HTMLEscapeString shown @ page_middle @ HTMLEscapeString shown @ page_tail)"

definition unclaimed_text :: "scheme \<Rightarrow> string \<Rightarrow> bytes" where
  "unclaimed_text sch host =
     (if sch \<noteq> SchemeHTTP then []
      else ''HTTP/1.1 '' @ statusNotFound @ CRLF @ ''Content-Type: text/html; charset=utf-8'' @ CRLF
        @ ''Content-Length: '' @ nat_text (length (unclaimed_page host)) @ CRLF
        @ ''Connection: close'' @ CRLF @ CRLF @ unclaimed_page host)"

section \<open>Serving a visitor\<close>

text \<open>How a visit ends. \<open>RelayedTo\<close> gives the work connection, what was written to it before the relay
  started, what the relay has still to read from the visitor, and the limiters of the two directions;
  \<open>TerminatedTo\<close> the bytes the TLS server reads first instead.\<close>

datatype vhost_result =
    Unidentified sniff_error
  | ChallengeAnswered string
  | Unclaimed
  | ClientGone
  | QuotaGone
  | NoConnFor pool_error
  | NoCertificate link
  | HandshakeFailed link
  | ReplayFailed link
  | RelayedTo link bytes reader "Limiter option" "Limiter option"
  | TerminatedTo link bytes reader "Limiter option" "Limiter option"

text \<open>What the rest of the world does during one visit: the instants, the capacity of the pooled buffer,
  the client and its pool while the visitor waits, whether the replay is written and the handshake
  succeeds, and the progress calls of the relay.\<close>

record visit =
  vi_now :: go_time
  vi_seconds :: int
  vi_pooled :: nat
  vi_peer :: peer
  vi_meanwhile :: "pool_op list"
  vi_pick :: wait_pick
  vi_replay :: bool
  vi_handshake :: bool
  vi_progress :: "(int \<times> int) list"
  vi_spliced :: bool

text \<open>The accounting of a relay: every progress call charges the tunnel's quota and its statistics.\<close>

definition vhost_relay :: "visit \<Rightarrow> nat \<Rightarrow> string \<Rightarrow> server \<Rightarrow> server" where
  "vhost_relay v i name sv =
     (case map_of (sv_sessions sv) i of
        None \<Rightarrow> sv
      | Some s \<Rightarrow>
          let a = foldl (tcp_progress (vi_seconds v) name) \<lparr>ac_limits = se_limits s, ac_stats = sv_stats sv\<rparr> (vi_progress v) in
          sv\<lparr>sv_sessions := AList.update i (s\<lparr>se_limits := ac_limits a\<rparr>) (sv_sessions sv),
             sv_stats := RecordClose (vi_seconds v) (ac_stats a) name (vi_spliced v)\<rparr>)"

definition vhost_terminate :: "text_env \<Rightarrow> visit \<Rightarrow> link \<Rightarrow> sniffed \<Rightarrow> reader \<Rightarrow> route \<Rightarrow> nat \<Rightarrow> session \<Rightarrow> server \<Rightarrow>
    vhost_result \<times> server" where
  "vhost_terminate env v link info rest rt i s sv =
     (if \<not> CertStore_Has env (sv_certs sv) (sf_Host info) then (NoCertificate link, sv)
      else if \<not> vi_handshake v then (HandshakeFailed link, sv)
      else case sessionLimits_Rates (se_limits s) (rt_ProxyName rt) of (toClient, toVisitor) \<Rightarrow>
        (TerminatedTo link (sf_Consumed info) rest toClient toVisitor, vhost_relay v i (rt_ProxyName rt) sv))"

text \<open>The part of \<^verbatim>\<open>handle\<close> after the session has been found.\<close>

definition vhost_serve :: "text_env \<Rightarrow> visit \<Rightarrow> scheme \<Rightarrow> sniffed \<Rightarrow> reader \<Rightarrow> route \<Rightarrow> nat \<Rightarrow> session \<Rightarrow> server \<Rightarrow>
    vhost_result \<times> bytes \<times> server" where
  "vhost_serve env v sch info rest rt i s sv =
     (if sessionLimits_Exhausted (se_limits s) (rt_ProxyName rt)
      then (QuotaGone, reject_text sch statusBadGateway, sv)
      else
        let (got, q) = GetWorkConn (vi_peer v) (\<lambda>q. snd (pool_run (vi_meanwhile v) q)) (vi_pick v) (se_pool s);
            sv1 = snd (on_session i (\<lambda>(s, b). ((), s\<lparr>se_pool := q\<rparr>, b)) sv) in
        case got of
          Inl e \<Rightarrow> (NoConnFor e, reject_text sch statusBadGateway, sv1)
        | Inr link \<Rightarrow>
            if sch = SchemeHTTPS \<and> terminationRoute (Some rt)
            then (case vhost_terminate env v link info rest rt i s sv1 of (r, sv2) \<Rightarrow> (r, [], sv2))
            else if sf_Consumed info \<noteq> [] \<and> \<not> vi_replay v then (ReplayFailed link, [], sv1)
            else case sessionLimits_Rates (se_limits s) (rt_ProxyName rt) of (toClient, toVisitor) \<Rightarrow>
              (RelayedTo link (sf_Consumed info) rest toClient toVisitor, [], vhost_relay v i (rt_ProxyName rt) sv1))"

definition vhost_handle :: "text_env \<Rightarrow> visit \<Rightarrow> scheme \<Rightarrow> reader \<Rightarrow> server \<Rightarrow> vhost_result \<times> bytes \<times> server" where
  "vhost_handle env v sch conn sv =
     (case vhost_sniff env (vi_pooled v) sch conn of
        (Some e, info, rest) \<Rightarrow> (Unidentified e, reject_text sch statusBadRequest, sv)
      | (None, info, rest) \<Rightarrow>
          (case (if sch = SchemeHTTP then Challenge_Answer (vi_now v) (sv_challenges sv) (sf_Path info) else None) of
             Some keyAuth \<Rightarrow> (ChallengeAnswered keyAuth, answer_text keyAuth, sv)
           | None \<Rightarrow>
               (case Router_Lookup env (bd_router (sv_bindings sv)) (sf_Host info) of
                  None \<Rightarrow> (Unclaimed, unclaimed_text sch (sf_Host info), sv)
                | Some rt \<Rightarrow>
                    (case Registry_Get (sv_registry sv) (rt_RunID rt) of
                       None \<Rightarrow>
                         (ClientGone, reject_text sch statusBadGateway,
                          sv\<lparr>sv_bindings := (sv_bindings sv)\<lparr>bd_router :=
                              Router_RemoveClient env (bd_router (sv_bindings sv)) (rt_RunID rt)\<rparr>\<rparr>)
                     | Some i \<Rightarrow>
                         (case map_of (sv_sessions sv) i of
                            None \<Rightarrow> (ClientGone, [], sv)
                          | Some s \<Rightarrow> vhost_serve env v sch info rest rt i s sv)))))"

text \<open>\<^verbatim>\<open>replayConn\<close>: the bytes the sniffer took are read again first.\<close>

record replayConn =
  rc_conn :: reader
  rc_replay :: bytes

definition replay_Read :: "nat \<Rightarrow> replayConn \<Rightarrow> bytes \<times> io_error option \<times> replayConn" where
  "replay_Read n c =
     (if rc_replay c \<noteq> [] then (take n (rc_replay c), None, c\<lparr>rc_replay := drop n (rc_replay c)\<rparr>)
      else case read_some n (rc_conn c) of (d, e, r) \<Rightarrow> (d, e, c\<lparr>rc_conn := r\<rparr>))"

section \<open>Serving keeps the server consistent\<close>

lemma overflow_loop_live:
  "overflow_loop peer start k n arr s = (Some st', s') \<Longrightarrow> pr_start peer (Stream st')"
proof (induction peer start k n arr s rule: overflow_loop.induct)
  case (2 peer start k n arr s)
  then show ?case by (auto simp: Let_def split: open_result.splits if_splits prod.splits)
qed simp

lemma GetWorkConn_live:
  assumes "GetWorkConn peer f pick s = (Inr link, s')"
  shows "pr_start peer link"
proof -
  have live: "take_live peer s = (Some c, s1) \<Longrightarrow> pr_start peer (WorkConn c)" for c s1
    using hd_dropWhile [of "\<lambda>c. \<not> pr_start peer (WorkConn c)" "po_workConns s"]
    by (auto simp: take_live_spec split: list.splits simp del: dropWhile_eq_Nil_conv)
  have over: "overflowConn peer t = (Some st', s1) \<Longrightarrow> pr_start peer (Stream st')" for t st' s1
    by (auto simp: overflowConn_def split: if_splits intro: overflow_loop_live)
  show ?thesis
  proof (cases "GetWorkConn_begin peer s")
    case (Pair r s1)
    show ?thesis
    proof (cases r)
      case None
      with assms Pair show ?thesis
        by (auto simp: GetWorkConn_def GetWorkConn_end_def Let_def split: wait_pick.splits option.splits if_splits prod.splits)
    next
      case (Some x)
      with assms Pair have "GetWorkConn_begin peer s = (Some (Inr link), s1)" by (simp add: GetWorkConn_def)
      with live over show ?thesis
        by (auto simp: GetWorkConn_begin_def split: option.splits prod.splits if_splits)
    qed
  qed
qed

lemma open_pool_run: "OpClose \<notin> set xs \<Longrightarrow> po_done (snd (pool_run xs s)) = po_done s"
proof (induction xs arbitrary: s)
  case (Cons x xs)
  then have "x \<noteq> OpClose" by auto
  with Cons open_step [of x s] show ?case by (simp add: case_prod_beta)
qed simp

lemma open_GetWorkConn:
  assumes "OpClose \<notin> set xs"
  shows "po_done (snd (GetWorkConn peer (\<lambda>q. snd (pool_run xs q)) pick s)) = po_done s"
proof -
  have b: "po_done (snd (GetWorkConn_begin peer s)) = po_done s"
    using open_step [of "OpServe peer" s] by (simp add: case_prod_beta)
  have e: "po_done (snd (GetWorkConn_end peer pick t)) = po_done t" for t
    using open_step [of "OpWake peer pick" t] by (simp add: case_prod_beta)
  show ?thesis
    using b e open_pool_run [OF assms]
    by (cases "GetWorkConn_begin peer s") (auto simp: GetWorkConn_def split: option.splits)
qed

text \<open>Changing only what the invariant does not look at.\<close>

lemma keeps_limits:
  assumes "session_ok env base0 (s, b)"
  shows "keeps_session env base0 (s, b) (s\<lparr>se_limits := l\<rparr>, b)"
proof -
  have "held_sockets (s\<lparr>se_limits := l\<rparr>) = held_sockets s" by (simp add: held_sockets_def)
  with assms show ?thesis by (simp add: keeps_session_def session_ok_def closed_session_def)
qed

lemma inv_stats [simp]: "server_inv env base X (sv\<lparr>sv_stats := c\<rparr>) = server_inv env base X sv"
  by (simp add: server_inv_def session_wf_def registry_wf_def routes_wf_def sockets_wf_def)

lemma vhost_relay_eq:
  "map_of (sv_sessions sv) i = Some s \<Longrightarrow> vhost_relay v i name sv =
    (snd (on_session i (\<lambda>(s, b). ((), s\<lparr>se_limits := sl.spend_all (se_limits s) name (map (\<lambda>p. fst p + snd p) (vi_progress v))\<rparr>, b)) sv))
      \<lparr>sv_stats := st.record_conn (vi_seconds v) (sv_stats sv) name (vi_progress v) (vi_spliced v)\<rparr>"
  by (simp add: vhost_relay_def tcp_progress_fold on_session_def st.record_conn_def Let_def)

lemma vhost_relay_inv:
  assumes "server_inv env base {} sv"
  shows "server_inv env base {} (vhost_relay v i name sv)"
proof (cases "map_of (sv_sessions sv) i")
  case None
  with assms show ?thesis by (simp add: vhost_relay_def)
next
  case (Some s)
  let ?l = "\<lambda>s. sl.spend_all (se_limits s) name (map (\<lambda>p. fst p + snd p) (vi_progress v))"
  have "server_inv env base {} (snd (on_session i (\<lambda>(s, b). ((), s\<lparr>se_limits := ?l s\<rparr>, b)) sv))"
    by (rule on_session_inv [OF assms Some, where r = "()" and s' = "s\<lparr>se_limits := ?l s\<rparr>" and b' = "sv_bindings sv"])
      (simp_all add: keeps_limits [OF session_in_server [OF assms Some]])
  then show ?thesis by (simp add: vhost_relay_eq [OF Some])
qed

text \<open>What one visit may change: the pool and the accounting of one tunnel of one session.\<close>

definition visit_effect :: "nat \<Rightarrow> string \<Rightarrow> server \<Rightarrow> server \<Rightarrow> bool" where
  "visit_effect i name sv sv' \<longleftrightarrow> sv_cfg sv' = sv_cfg sv \<and> sv_registry sv' = sv_registry sv
     \<and> sv_bindings sv' = sv_bindings sv \<and> sv_certs sv' = sv_certs sv \<and> sv_challenges sv' = sv_challenges sv
     \<and> (\<forall>j. j \<noteq> i \<longrightarrow> map_of (sv_sessions sv') j = map_of (sv_sessions sv) j)
     \<and> (\<forall>s. map_of (sv_sessions sv) i = Some s \<longrightarrow> (\<exists>q l. map_of (sv_sessions sv') i = Some (s\<lparr>se_pool := q, se_limits := l\<rparr>)
          \<and> (\<forall>t. t \<noteq> name \<longrightarrow> limits_spent l t = limits_spent (se_limits s) t)))"

lemma visit_effect_refl [simp]: "visit_effect i name sv sv"
proof -
  have "s = s\<lparr>se_pool := se_pool s, se_limits := se_limits s\<rparr>" for s :: session by simp
  then show ?thesis unfolding visit_effect_def by metis
qed

lemma visit_effect_pool:
  assumes "map_of (sv_sessions sv) i = Some s"
  shows "visit_effect i name sv (snd (on_session i (\<lambda>(s, b). ((), s\<lparr>se_pool := q\<rparr>, b)) sv))"
proof -
  have "s\<lparr>se_pool := q\<rparr> = s\<lparr>se_pool := q, se_limits := se_limits s\<rparr>" by simp
  then have "\<exists>r l. s\<lparr>se_pool := q\<rparr> = s\<lparr>se_pool := r, se_limits := l\<rparr> \<and> (\<forall>t. t \<noteq> name \<longrightarrow> limits_spent l t = limits_spent (se_limits s) t)"
    by blast
  with assms show ?thesis by (simp add: visit_effect_def on_session_def)
qed

lemma visit_effect_relay:
  assumes "map_of (sv_sessions sv) i = Some s"
  shows "visit_effect i name sv (vhost_relay v i name (snd (on_session i (\<lambda>(s, b). ((), s\<lparr>se_pool := q\<rparr>, b)) sv)))"
  using assms
  by (auto simp: visit_effect_def on_session_def vhost_relay_def tcp_progress_fold Let_def sl.spend_all_other)
    (rule_tac x = q in exI, rule exI, rule conjI, rule refl, simp add: sl.spend_all_other)

lemma vhost_serve_effect:
  assumes s: "map_of (sv_sessions sv) i = Some s"
  shows "visit_effect i (rt_ProxyName rt) sv (snd (snd (vhost_serve env v sch info rest rt i s sv)))"
proof (cases "GetWorkConn (vi_peer v) (\<lambda>q. snd (pool_run (vi_meanwhile v) q)) (vi_pick v) (se_pool s)")
  case (Pair got q)
  with visit_effect_pool [OF s] visit_effect_relay [OF s] show ?thesis
    by (auto simp: vhost_serve_def vhost_terminate_def Let_def case_prod_beta split: sum.splits)
qed

lemma vhost_serve_inv:
  assumes inv: "server_inv env base {} sv" and s: "map_of (sv_sessions sv) i = Some s"
    and op: "OpClose \<notin> set (vi_meanwhile v)"
  shows "server_inv env base {} (snd (snd (vhost_serve env v sch info rest rt i s sv)))"
proof (cases "GetWorkConn (vi_peer v) (\<lambda>q. snd (pool_run (vi_meanwhile v) q)) (vi_pick v) (se_pool s)")
  case (Pair got q)
  then have "po_done q = po_done (se_pool s)"
    using open_GetWorkConn [OF op, of "vi_peer v" "vi_pick v" "se_pool s"] by simp
  then have "server_inv env base {} (snd (on_session i (\<lambda>(s, b). ((), s\<lparr>se_pool := q\<rparr>, b)) sv))"
    by (intro on_session_inv [OF inv s, where r = "()" and s' = "s\<lparr>se_pool := q\<rparr>" and b' = "sv_bindings sv"])
      (simp_all add: keeps_pool [OF session_in_server [OF inv s]])
  note pool = this and relay = vhost_relay_inv [OF this]
  with inv Pair show ?thesis
    by (auto simp: vhost_serve_def vhost_terminate_def Let_def case_prod_beta split: sum.splits)
qed

section \<open>Properties\<close>

lemma vhost_sniff_lossless:
  assumes "headBufSize \<le> pooled" "pooled < capBound" "vhost_sniff env pooled sch conn = (e, info, rest)"
  shows "reader_data conn = sf_Consumed info @ reader_data rest"
proof (cases sch)
  case SchemeHTTP
  obtain e' i h where sn: "SniffHTTP env pooled conn = (e', i, h)" by (metis prod_cases3)
  with SniffHTTP_state [OF sn assms(1,2)] assms(3) SchemeHTTP show ?thesis
    by (auto simp: vhost_sniff_def stream_def)
next
  case SchemeHTTPS
  obtain e' i h where sn: "SniffTLS env pooled conn = (e', i, h)" by (metis prod_cases3)
  with SniffTLS_state [OF sn assms(1,2)] assms(3) SchemeHTTPS show ?thesis
    by (auto simp: vhost_sniff_def stream_def split: option.splits)
qed

text \<open>In a consistent server a route always leads to a session.\<close>

lemma route_session:
  assumes "server_inv env base {} sv" "Router_Lookup env (bd_router (sv_bindings sv)) host = Some rt"
  obtains i s where "Registry_Get (sv_registry sv) (rt_RunID rt) = Some i" "map_of (sv_sessions sv) i = Some s"
    "run_id s = rt_RunID rt" "\<not> closed_session s"
proof -
  have parts: "registry_wf {} sv" "routes_wf {} sv" "router_ok env (bd_router (sv_bindings sv))"
    using assms(1) by (simp_all add: server_inv_def)
  obtain k where "map_of (routes (bd_router (sv_bindings sv))) k = Some rt"
    using lookup_in_routes [OF assms(2) parts(3)] by blast
  then obtain i where "map_of (sv_registry sv) (rt_RunID rt) = Some i"
    using parts(2) unfolding routes_wf_def by blast
  with parts(1) that show thesis unfolding registry_wf_def Registry_Get_def by blast
qed


text \<open>A server with one client and its published tunnel.\<close>

definition nas_server :: server where
  "nas_server = https_server\<lparr>sv_registry := [(''A'', 0)], sv_sessions := [(0, nas_session)], sv_next := 1,
     sv_bindings := \<lparr>bd_router = web_router, bd_open = []\<rparr>\<rparr>"

lemma nas_server_inv: "server_inv ascii_env {} {} nas_server"
proof -
  let ?evs = "[EvLogin (time_Unix 0) None True demo_login, EvTurn 0 (demo_turn web_spec)]"
  let ?sv0 = "https_server\<lparr>sv_registry := [(''A'', 0)], sv_sessions := [(0, https_session)], sv_next := 1\<rparr>"
  have one: "server_step ascii_env demo_x5 (EvLogin (time_Unix 0) None True demo_login) https_server = ?sv0"
    using demo_login_step [of https_server "time_Unix 0"] by (simp add: newServer_def)
  have two: "server_step ascii_env demo_x5 (EvTurn 0 (demo_turn web_spec)) ?sv0 = nas_server"
    using nas_publish [of ?sv0 0] by (simp add: nas_server_def newServer_def)
  have "domains_stable ascii_env [''nas.example.com'']"
    by (simp add: domains_stable_def pattern_stable_def parse_nas)
  then have "event_good ascii_env (EvTurn 0 (demo_turn web_spec)) ?sv0"
    using https_session_fields by (simp add: demo_turn_def web_spec_def newServer_def closed_session_def)
  with one have "events_good ascii_env demo_x5 ?evs https_server" by (simp del: server_step.simps event_good.simps(1))
  from server_run_inv [OF newServer_inv this] one two show ?thesis by (simp del: server_step.simps)
qed

definition nas_visit :: visit where
  "nas_visit = \<lparr>vi_now = time_Unix 9, vi_seconds = 9, vi_pooled = 4096, vi_peer = \<lparr>pr_start = (\<lambda>l. True), pr_open = (\<lambda>k c. OpenFailed)\<rparr>,
     vi_meanwhile = [OpAttach False 5], vi_pick = PickConn, vi_replay = True, vi_handshake = True,
     vi_progress = [(10, 0), (0, 25)], vi_spliced = False\<rparr>"

lemma sample_host: "request_host ascii_env sample_request = Inr ''nas.example.com''"
  by (simp add: request_host_def sample_request_def is_host_header_def asciiEqualFold_def trim_space_blank
      NormaliseHost_def name_eval)

lemma sample_sniff:
  obtains h where "SniffHTTP ascii_env 4096 (byte_chunks (render sample_request)) = (None,
      \<lparr>hi_Host = ''nas.example.com'', hi_Method = ''GET'', hi_Path = ''/x'', hi_Consumed = render sample_request\<rparr>, h)"
    "reader_data (hr_src h) = []"
proof -
  have ok: "request_ok sample_request" "\<not> is_h2c sample_request" "length (render sample_request) \<le> MaxHTTPHead"
    by (simp_all add: sample_request_def request_ok_def request_line_def is_h2c_def render_def
        header_line_def CRLF_def head_consts)
  let ?conn = "byte_chunks (render sample_request)"
  obtain t h where sn: "SniffHTTP ascii_env 4096 ?conn = (None,
      \<lparr>hi_Host = ''nas.example.com'', hi_Method = ''GET'', hi_Path = ''/x'', hi_Consumed = render sample_request @ t\<rparr>, h)"
    using SniffHTTP_request [where pooled = 4096 and env = ascii_env and rest = "[]", OF ok prompt_byte_chunks] sample_host
    by (auto simp: head_consts sample_request_def)
  have "reader_data ?conn = (render sample_request @ t) @ reader_data (hr_src h)"
    using SniffHTTP_state [OF sn] by (simp add: stream_def head_consts)
  then have "t = [] \<and> reader_data (hr_src h) = []" by simp
  with sn that show thesis by simp
qed

lemma nas_server_fields:
  "sv_bindings nas_server = \<lparr>bd_router = web_router, bd_open = []\<rparr>" "sv_registry nas_server = [(''A'', 0)]"
  "sv_sessions nas_server = [(0, nas_session)]" "sv_challenges nas_server = []" "sv_stats nas_server = []"
  by (simp_all add: nas_server_def newServer_def NewChallengeStore_def NewStats_def)

lemma nas_work_conn:
  "fst (GetWorkConn (vi_peer nas_visit) (\<lambda>q. snd (pool_run (vi_meanwhile nas_visit) q)) (vi_pick nas_visit) (se_pool nas_session))
    = Inr (WorkConn 5)"
  by (simp add: nas_session_fields https_session_fields nas_visit_def GetWorkConn_def GetWorkConn_begin_def take_live_spec
      overflowConn_def requestWorkConns_def newPool_def AddWorkConn_def GetWorkConn_end_def Let_def)

lemma nas_not_exhausted: "\<not> sessionLimits_Exhausted (se_limits nas_session) ''nas''"
  by (simp add: sessionLimits_Exhausted_def nas_session_fields TunnelLimits_Exhausted_def)

lemma nas_no_challenge: "Challenge_Answer now [] ''/x'' = None"
  by (simp add: Challenge_Answer_def challengePrefix_def has_prefix_def)

lemma nas_visit_fields: "headBufSize \<le> vi_pooled nas_visit" "vi_pooled nas_visit < capBound" "vi_replay nas_visit"
    "vi_pooled nas_visit = 4096" "OpClose \<notin> set (vi_meanwhile nas_visit)" "vi_handshake nas_visit"
  by (simp_all add: nas_visit_def head_consts)


text \<open>A visitor disturbs nobody else. Whatever a peer sends to a virtual host port, in a consistent
  server, the server stays consistent, no route is ever found to lead nowhere, and at most the pool
  of the session that owns the host and the accounting of its one tunnel change; every other session,
  every route, certificate and challenge, and the usage of every other tunnel are as they were.\<close>

theorem vhost_visitor_isolated:
  assumes "server_inv env base {} sv" "OpClose \<notin> set (vi_meanwhile v)"
  shows "case vhost_handle env v sch conn sv of (r, out, sv') \<Rightarrow>
    server_inv env base {} sv' \<and> r \<noteq> ClientGone
    \<and> (sv' = sv \<or> (\<exists>rt i. Router_Lookup env (bd_router (sv_bindings sv))
             (sf_Host (fst (snd (vhost_sniff env (vi_pooled v) sch conn)))) = Some rt
         \<and> Registry_Get (sv_registry sv) (rt_RunID rt) = Some i \<and> visit_effect i (rt_ProxyName rt) sv sv'))"
proof -
  obtain e info rest where sn: "vhost_sniff env (vi_pooled v) sch conn = (e, info, rest)" by (metis prod_cases3)
  let ?ch = "if sch = SchemeHTTP then Challenge_Answer (vi_now v) (sv_challenges sv) (sf_Path info) else None"
  let ?look = "Router_Lookup env (bd_router (sv_bindings sv)) (sf_Host info)"
  show ?thesis
  proof (cases "e = None \<and> ?ch = None \<and> ?look \<noteq> None")
    case True
    then obtain rt where look: "?look = Some rt" by blast
    obtain i s where s: "Registry_Get (sv_registry sv) (rt_RunID rt) = Some i" "map_of (sv_sessions sv) i = Some s"
      by (rule route_session [OF assms(1) look])
    have handle: "vhost_handle env v sch conn sv = vhost_serve env v sch info rest rt i s sv"
      using True look s sn by (simp add: vhost_handle_def)
    have "fst (vhost_serve env v sch info rest rt i s sv) \<noteq> ClientGone"
      by (auto simp: vhost_serve_def vhost_terminate_def Let_def case_prod_beta split: sum.splits)
    with vhost_serve_inv [OF assms(1) s(2) assms(2)] vhost_serve_effect [OF s(2)] look s(1) sn show ?thesis
      unfolding handle by (auto simp: case_prod_beta)
  next
    case False
    then have "fst (vhost_handle env v sch conn sv) \<noteq> ClientGone \<and> snd (snd (vhost_handle env v sch conn sv)) = sv"
      using sn by (cases e; cases ?ch; cases ?look) (simp_all add: vhost_handle_def)
    with assms(1) show ?thesis by (auto simp: case_prod_beta)
  qed
qed

theorem vhost_visitor_isolated_witness:
  "server_inv ascii_env {} {} (snd (snd (vhost_handle ascii_env nas_visit SchemeHTTPS [(''junk'', None)] nas_server)))"
proof -
  from vhost_visitor_isolated [OF nas_server_inv nas_visit_fields(5), of SchemeHTTPS "[(''junk'', None)]"] show ?thesis
    by (simp add: case_prod_beta)
qed

lemma relay_counts:
  assumes "map_of (sv_sessions sv) i = Some s"
  shows "stats_in (sv_stats (vhost_relay v i name sv)) name = i64_wrap (stats_in (sv_stats sv) name + sum_list (map fst (vi_progress v)))"
  using assms st.record_conn_counts [of "vi_seconds v" "sv_stats sv" name "vi_progress v" "vi_spliced v"]
  by (simp add: vhost_relay_eq on_session_def)

text \<open>The head of a request is carried for free. The bytes the sniffer consumed are written to the
  work connection before the relay starts and no progress call reports them: when everything the
  visitor sends reaches the client, the count of the tunnel falls short of it by exactly what was
  replayed, which is the whole of a request that arrived in one piece.\<close>

theorem vhost_head_uncounted:
  assumes "headBufSize \<le> vi_pooled v" "vi_pooled v < capBound"
    and "vhost_handle env v sch conn sv = (RelayedTo link sent rest up down, out, sv')"
    and "Router_Lookup env (bd_router (sv_bindings sv)) (sf_Host (fst (snd (vhost_sniff env (vi_pooled v) sch conn)))) = Some rt"
    and "sum_list (map fst (vi_progress v)) = int (length (reader_data rest))"
    and "0 \<le> stats_in (sv_stats sv) (rt_ProxyName rt)"
    and "stats_in (sv_stats sv) (rt_ProxyName rt) + int (length (reader_data conn)) < 2 ^ 63"
  shows "stats_in (sv_stats sv') (rt_ProxyName rt) + int (length sent)
    = stats_in (sv_stats sv) (rt_ProxyName rt) + int (length (reader_data conn))"
proof -
  obtain e info r where sn: "vhost_sniff env (vi_pooled v) sch conn = (e, info, r)" by (metis prod_cases3)
  have rt: "Router_Lookup env (bd_router (sv_bindings sv)) (sf_Host info) = Some rt" using assms(4) sn by simp
  obtain i s where s: "map_of (sv_sessions sv) i = Some s"
    and serve: "vhost_serve env v sch info r rt i s sv = (RelayedTo link sent rest up down, out, sv')"
    using assms(3) sn rt by (auto simp: vhost_handle_def split: option.splits)
  obtain q where same: "sent = sf_Consumed info" "rest = r"
    and sv': "sv' = vhost_relay v i (rt_ProxyName rt) (snd (on_session i (\<lambda>(s, b). ((), s\<lparr>se_pool := q\<rparr>, b)) sv))"
    using serve by (auto simp: vhost_serve_def vhost_terminate_def Let_def split: if_splits sum.splits prod.splits)
  let ?sv = "snd (on_session i (\<lambda>(s, b). ((), s\<lparr>se_pool := q\<rparr>, b)) sv)"
  have pool: "map_of (sv_sessions ?sv) i = Some (s\<lparr>se_pool := q\<rparr>)" "sv_stats ?sv = sv_stats sv"
    using s by (simp_all add: on_session_def)
  have data: "length (reader_data conn) = length sent + length (reader_data rest)"
    using vhost_sniff_lossless [OF assms(1,2) sn] same by simp
  have "int64_ok (stats_in (sv_stats sv) (rt_ProxyName rt) + int (length (reader_data rest)))"
    using assms(6,7) data by (simp add: int64_ok_def)
  then show ?thesis
    using relay_counts [OF pool(1), of v "rt_ProxyName rt"] assms(5) data sv' pool(2) by (simp add: i64_wrap_id)
qed

theorem vhost_head_uncounted_witness:
  "\<exists>rest up down out sv'. vhost_handle ascii_env (nas_visit\<lparr>vi_progress := [(0, 25)]\<rparr>) SchemeHTTP
       (byte_chunks (render sample_request)) nas_server
     = (RelayedTo (WorkConn 5) (render sample_request) rest up down, out, sv')
   \<and> stats_in (sv_stats sv') ''nas'' = 0"
proof -
  let ?conn = "byte_chunks (render sample_request)" and ?v = "nas_visit\<lparr>vi_progress := [(0, 25)]\<rparr>"
  let ?rt = "web_route\<lparr>rt_Pattern := ''nas.example.com''\<rparr>"
  obtain h where sn: "SniffHTTP ascii_env 4096 ?conn = (None,
      \<lparr>hi_Host = ''nas.example.com'', hi_Method = ''GET'', hi_Path = ''/x'', hi_Consumed = render sample_request\<rparr>, h)"
    and rest: "reader_data (hr_src h) = []"
    by (rule sample_sniff)
  have look: "Router_Lookup ascii_env (bd_router (sv_bindings nas_server)) (sf_Host (fst (snd (vhost_sniff ascii_env (vi_pooled ?v) SchemeHTTP ?conn)))) = Some ?rt"
    using sn by (simp add: vhost_sniff_def nas_visit_fields nas_server_fields web_lookups)
  obtain up down sv' where r: "vhost_handle ascii_env ?v SchemeHTTP ?conn nas_server
      = (RelayedTo (WorkConn 5) (render sample_request) (hr_src h) up down, [], sv')"
    using sn nas_not_exhausted nas_work_conn
    by (simp add: vhost_handle_def vhost_sniff_def nas_visit_fields nas_server_fields nas_no_challenge web_lookups
        web_route_fields Registry_Get_def vhost_serve_def Let_def case_prod_beta)
  have st: "stats_in (sv_stats nas_server) (rt_ProxyName ?rt) = 0"
    by (simp add: nas_server_fields stats_in_def counters_of_def zeroCounters_def i64_wrap_def)
  have "length (render sample_request) < 1000"
    by (simp add: sample_request_def render_def request_line_def header_line_def CRLF_def)
  then have "stats_in (sv_stats sv') (rt_ProxyName ?rt) = 0"
    using vhost_head_uncounted [OF _ _ r look] nas_visit_fields rest st by simp
  with r show ?thesis by (auto simp: web_route_def)
qed

text \<open>Reads through a \<open>replayConn\<close>, with buffers of any sizes.\<close>

fun replay_reads :: "nat list \<Rightarrow> replayConn \<Rightarrow> bytes \<times> replayConn" where
  "replay_reads [] c = ([], c)"
| "replay_reads (n # ns) c =
     (case replay_Read n c of (d, e, c') \<Rightarrow> case replay_reads ns c' of (ds, c'') \<Rightarrow> (d @ ds, c''))"

lemma replay_Read_data:
  "replay_Read n c = (d, e, c') \<Longrightarrow> rc_replay c @ reader_data (rc_conn c) = d @ rc_replay c' @ reader_data (rc_conn c')"
  by (auto simp: replay_Read_def wire_simps split: if_splits prod.splits)

lemma replay_reads_data:
  "replay_reads ns c = (d, c') \<Longrightarrow> rc_replay c @ reader_data (rc_conn c) = d @ rc_replay c' @ reader_data (rc_conn c')"
proof (induction ns arbitrary: c d)
  case (Cons n ns)
  obtain d1 e1 c1 where one: "replay_Read n c = (d1, e1, c1)" by (metis prod_cases3)
  obtain ds c2 where rest: "replay_reads ns c1 = (ds, c2)" by fastforce
  from Cons.prems one rest have "d = d1 @ ds" "c' = c2" by simp_all
  with replay_Read_data [OF one] Cons.IH [of c1 ds] rest show ?case by simp
qed simp

text \<open>A TLS connection terminated at the server starts with the client's own first byte. After
  the sniffer has read the client hello, the TLS server reads through the replaying connection, in
  buffers of any sizes, exactly what the visitor sent, in order, and what it has not read yet is
  still to come.\<close>

theorem vhost_terminate_replays:
  assumes "headBufSize \<le> vi_pooled v" "vi_pooled v < capBound"
    and "vhost_handle env v sch conn sv = (TerminatedTo link hello rest up down, out, sv')"
    and "replay_reads ns \<lparr>rc_conn = rest, rc_replay = hello\<rparr> = (d, c)"
  shows "reader_data conn = d @ rc_replay c @ reader_data (rc_conn c)
    \<and> sch = SchemeHTTPS \<and> (\<exists>host. CertStore_Has env (sv_certs sv) host
        \<and> (\<exists>rt. Router_Lookup env (bd_router (sv_bindings sv)) host = Some rt \<and> terminationRoute (Some rt)))"
proof -
  obtain e info r where sn: "vhost_sniff env (vi_pooled v) sch conn = (e, info, r)" by (metis prod_cases3)
  obtain rt i s where rt: "Router_Lookup env (bd_router (sv_bindings sv)) (sf_Host info) = Some rt"
    and serve: "vhost_serve env v sch info r rt i s sv = (TerminatedTo link hello rest up down, out, sv')"
    using assms(3) sn by (auto simp: vhost_handle_def split: option.splits)
  have same: "hello = sf_Consumed info" "rest = r" "sch = SchemeHTTPS" "terminationRoute (Some rt)"
      "CertStore_Has env (sv_certs sv) (sf_Host info)"
    using serve by (auto simp: vhost_serve_def vhost_terminate_def Let_def on_session_def
        split: if_splits sum.splits prod.splits option.splits)
  from replay_reads_data [OF assms(4)] vhost_sniff_lossless [OF assms(1,2) sn] same rt show ?thesis by auto
qed

text \<open>A server that terminates TLS for the same host.\<close>

definition tls_route :: route where
  "tls_route = web_route\<lparr>rt_TLSMode := ''terminate''\<rparr>"

lemma tls_route_fields: "rt_RunID tls_route = ''A''" "rt_ProxyName tls_route = ''nas''" "rt_TLSMode tls_route = ''terminate''"
  by (simp_all add: tls_route_def web_route_def)

lemma tls_lookup: "Router_Lookup ascii_env (nas_router tls_route) ''nas.example.com'' = Some (tls_route\<lparr>rt_Pattern := ''nas.example.com''\<rparr>)"
  by (rule nas_lookup)

definition tls_certs :: CertStore where
  "tls_certs = NewCertStore\<lparr>cs_current := \<lparr>ct_exact = [(''nas.example.com'', \<lparr>sc_pattern = ''nas.example.com'',
     sc_certificate = ([], []), sc_notAfter = time_Unix 99, sc_domains = []\<rparr>)], ct_wildcards = [], ct_count = 1\<rparr>\<rparr>"

definition tls_server :: server where
  "tls_server = nas_server\<lparr>sv_bindings := \<lparr>bd_router = nas_router tls_route, bd_open = []\<rparr>, sv_certs := tls_certs\<rparr>"

theorem vhost_terminate_replays_witness:
  "let conn = byte_chunks (record_bytes ''vv'' (hello_bytes sample_hello) @ ''later'') in
   \<exists>hello rest up down out sv' d c. vhost_handle ascii_env nas_visit SchemeHTTPS conn tls_server
       = (TerminatedTo (WorkConn 5) hello rest up down, out, sv')
     \<and> replay_reads [3, 4] \<lparr>rc_conn = rest, rc_replay = hello\<rparr> = (d, c)
     \<and> reader_data conn = d @ rc_replay c @ reader_data (rc_conn c)"
proof -
  let ?conn = "byte_chunks (record_bytes ''vv'' (hello_bytes sample_hello) @ ''later'')"
  have ok: "hello_ok sample_hello" "offers sample_hello [(0, ''Nas.Example.com'')]"
    "length (hello_bytes sample_hello) \<le> 16384" "0 < length (hello_bytes sample_hello)"
    by (simp_all add: sample_hello_def hello_ok_def offers_def hello_bytes_def hello_rest_def
        ext_bytes_def name_bytes_def vec8_def vec16_def)
  have "NormaliseHost ascii_env ''Nas.Example.com'' = Inr ''nas.example.com''"
    by (simp add: NormaliseHost_def name_eval)
  then obtain consumed h where sn: "SniffTLS ascii_env 4096 ?conn =
      (None, \<lparr>ti_ServerName = ''nas.example.com'', ti_Consumed = consumed\<rparr>, h)"
    using SniffTLS_record [of ?conn "''vv''" "hello_bytes sample_hello" "''later''" 4096 ascii_env] byte_chunks_facts ok
      parseClientHello_bytes [OF ok(1,2)]
    by (auto simp: head_consts offered_name_def)
  have cert: "CertStore_Has ascii_env tls_certs ''nas.example.com''"
    by (simp add: CertStore_Has_def GetCertificate_def cert_name_def tls_certs_def name_eval)
  have f: "sv_bindings tls_server = \<lparr>bd_router = nas_router tls_route, bd_open = []\<rparr>" "sv_registry tls_server = [(''A'', 0)]"
      "sv_sessions tls_server = [(0, nas_session)]" "sv_certs tls_server = tls_certs"
    by (simp_all add: tls_server_def nas_server_def)
  obtain up down sv' where r: "vhost_handle ascii_env nas_visit SchemeHTTPS ?conn tls_server
      = (TerminatedTo (WorkConn 5) consumed (hr_src h) up down, [], sv')"
    using sn nas_not_exhausted nas_work_conn cert
    by (simp add: vhost_handle_def vhost_sniff_def nas_visit_fields f tls_lookup tls_route_fields
        Registry_Get_def vhost_serve_def vhost_terminate_def terminationRoute_def on_session_def
        Let_def case_prod_beta)
  obtain d c where reads: "replay_reads [3, 4] \<lparr>rc_conn = hr_src h, rc_replay = consumed\<rparr> = (d, c)" by fastforce
  from vhost_terminate_replays [OF nas_visit_fields(1,2) r reads] r reads show ?thesis
    unfolding Let_def by blast
qed

text \<open>What \<^verbatim>\<open>HTMLEscapeString\<close> leaves of a string.\<close>

definition markup :: "char set" where
  "markup = {CHR ''<'', CHR ''>'', CHR 0x22, CHR 0x27, CHR 0x00}"

lemma escape_no_markup: "set (HTMLEscapeString s) \<inter> markup = {}"
proof -
  have "set (escape_html_char c) \<inter> markup = {}" for c
    by (auto simp: escape_html_char_def markup_def)
  then show ?thesis by (auto simp: HTMLEscapeString_def)
qed

text \<open>The page shows the host in two places, and nothing of it can be read as markup there.\<close>

lemma unclaimed_page_safe:
  "\<exists>shown. set shown \<inter> markup = {} \<and> unclaimed_page host = page_head @ shown @ page_middle @ shown @ page_tail"
  unfolding unclaimed_page_def Let_def using escape_no_markup by blast

end
