(* ===== verification/Go_Net.thy ===== *)
theory Go_Net
  imports Go_Strings Go_Strconv
begin

text \<open>
  What the repository uses of Go's \<^verbatim>\<open>net\<close> package on addresses: \<^verbatim>\<open>SplitHostPort\<close>, \<^verbatim>\<open>JoinHostPort\<close>,
  \<^verbatim>\<open>ParseIP\<close>, \<^verbatim>\<open>IP.To4\<close> and \<^verbatim>\<open>IP.String\<close>. An \<^verbatim>\<open>IP\<close> is its bytes, 16 of them when it was parsed.
\<close>

section \<open>Host and port\<close>

datatype addr_error = MissingPort | TooManyColons | MissingBracket | UnexpectedBracket

definition SplitHostPort :: "string \<Rightarrow> addr_error + string \<times> string" where
  "SplitHostPort s =
     (case last_index_byte CHR '':'' s of
        None \<Rightarrow> Inl MissingPort
      | Some i \<Rightarrow>
          if hd s = CHR ''['' then
            (case index_byte CHR '']'' s of
               None \<Rightarrow> Inl MissingBracket
             | Some e \<Rightarrow>
                 if e + 1 = length s then Inl MissingPort
                 else if e + 1 \<noteq> i then Inl (if s ! (e + 1) = CHR '':'' then TooManyColons else MissingPort)
                 else if CHR ''['' \<in> set (drop 1 s) \<or> CHR '']'' \<in> set (drop (e + 1) s) then Inl UnexpectedBracket
                 else Inr (take (e - 1) (drop 1 s), drop (i + 1) s))
          else if CHR '':'' \<in> set (take i s) then Inl TooManyColons
          else if CHR ''['' \<in> set s \<or> CHR '']'' \<in> set s then Inl UnexpectedBracket
          else Inr (take i s, drop (i + 1) s))"

definition JoinHostPort :: "string \<Rightarrow> string \<Rightarrow> string" where
  "JoinHostPort host port =
     (if CHR '':'' \<in> set host then ''['' @ host @ '']:'' @ port else host @ '':'' @ port)"

section \<open>Addresses\<close>

text \<open>A dotted quad: four decimal fields of at most 255, without leading zeros.\<close>

definition octet :: "string \<Rightarrow> nat option" where
  "octet s = (case parse_nat s of
      None \<Rightarrow> None
    | Some n \<Rightarrow> if 255 < n \<or> 1 < length s \<and> hd s = CHR ''0'' then None else Some n)"

definition parse_quad :: "string \<Rightarrow> bytes option" where
  "parse_quad s = (case map octet (split_on CHR ''.'' s) of
      [Some a, Some b, Some c, Some d] \<Rightarrow> Some (map nat_byte [a, b, c, d])
    | _ \<Rightarrow> None)"

definition is_hex :: "char \<Rightarrow> bool" where
  "is_hex c \<longleftrightarrow> hex_value c \<noteq> None"

definition hex_number :: "string \<Rightarrow> nat" where
  "hex_number ds = foldl (\<lambda>n c. 16 * n + the (hex_value c)) 0 ds"

text \<open>The groups of an IPv6 address: the bytes so far, and where an ellipsis was seen.\<close>

function v6_groups :: "nat option \<Rightarrow> bytes \<Rightarrow> string \<Rightarrow> (nat option \<times> bytes \<times> string) option" where
  "v6_groups el acc s =
     (if 16 \<le> length acc then Some (el, acc, s)
      else
        let ds = takeWhile is_hex s; rest = dropWhile is_hex s; acc' = acc @ be16 (hex_number ds) in
        if ds = [] \<or> 4 < length ds then None
        else if rest \<noteq> [] \<and> hd rest = CHR ''.'' then
          (if el = None \<and> length acc \<noteq> 12 \<or> 16 < length acc + 4 then None
           else case parse_quad s of None \<Rightarrow> None | Some q \<Rightarrow> Some (el, acc @ q, []))
        else case rest of
          [] \<Rightarrow> Some (el, acc', [])
        | c # [] \<Rightarrow> None
        | c # d # r \<Rightarrow>
            if c \<noteq> CHR '':'' then None
            else if d \<noteq> CHR '':'' then v6_groups el acc' (d # r)
            else if el \<noteq> None then None
            else if r = [] then Some (Some (length acc'), acc', [])
            else v6_groups (Some (length acc')) acc' r)"
  by pat_completeness auto

termination
  by (relation "measure (\<lambda>(el, acc, s). 16 - length acc)") auto

declare v6_groups.simps [simp del]

definition fill_ellipsis :: "nat option \<times> bytes \<times> string \<Rightarrow> bytes option" where
  "fill_ellipsis st = (case st of (el, acc, s) \<Rightarrow>
     if s \<noteq> [] then None
     else if length acc < 16 then
       (case el of None \<Rightarrow> None
        | Some k \<Rightarrow> Some (take k acc @ replicate (16 - length acc) (CHR 0x00) @ drop k acc))
     else if el \<noteq> None then None else Some acc)"

definition parse_v6 :: "string \<Rightarrow> bytes option" where
  "parse_v6 s =
     (if has_prefix ''::'' s then
        (if drop 2 s = [] then Some (replicate 16 (CHR 0x00))
         else case v6_groups (Some 0) [] (drop 2 s) of None \<Rightarrow> None | Some st \<Rightarrow> fill_ellipsis st)
      else case v6_groups None [] s of None \<Rightarrow> None | Some st \<Rightarrow> fill_ellipsis st)"

definition v4_prefix :: bytes where
  "v4_prefix = replicate 10 (CHR 0x00) @ [CHR 0xFF, CHR 0xFF]"

text \<open>\<^verbatim>\<open>ParseIP\<close> accepts no zone, so a percent sign makes any text invalid.\<close>

definition ParseIP :: "string \<Rightarrow> bytes option" where
  "ParseIP s =
     (if CHR ''%'' \<in> set s then None
      else case find (\<lambda>c. c = CHR ''.'' \<or> c = CHR '':'') s of
        None \<Rightarrow> None
      | Some c \<Rightarrow> if c = CHR ''.'' then map_option (\<lambda>q. v4_prefix @ q) (parse_quad s) else parse_v6 s)"

definition IP_To4 :: "bytes \<Rightarrow> bytes option" where
  "IP_To4 ip =
     (if length ip = 4 then Some ip
      else if length ip = 16 \<and> take 12 ip = v4_prefix then Some (drop 12 ip) else None)"

section \<open>Text\<close>

definition quad_text :: "bytes \<Rightarrow> string" where
  "quad_text q = join_with CHR ''.'' (map (\<lambda>b. nat_text (byte_nat b)) q)"

definition hex_text :: "nat \<Rightarrow> string" where
  "hex_text n =
     (if n < 16 then [hexDigit n] else if n < 256 then [hexDigit (n div 16), hexDigit (n mod 16)]
      else if n < 4096 then [hexDigit (n div 256), hexDigit (n div 16 mod 16), hexDigit (n mod 16)]
      else [hexDigit (n div 4096), hexDigit (n div 256 mod 16), hexDigit (n div 16 mod 16), hexDigit (n mod 16)])"

fun groups_of :: "bytes \<Rightarrow> nat list" where
  "groups_of (a # b # r) = (byte_nat a * 256 + byte_nat b) # groups_of r"
| "groups_of _ = []"

text \<open>The first longest run of at least two zero groups.\<close>

fun zero_run :: "nat list \<Rightarrow> nat" where
  "zero_run (n # ns) = (if n = 0 then Suc (zero_run ns) else 0)"
| "zero_run [] = 0"

fun best_run :: "nat \<Rightarrow> nat list \<Rightarrow> nat \<times> nat \<Rightarrow> nat \<times> nat" where
  "best_run i [] best = best"
| "best_run i (n # ns) best =
     best_run (Suc i) ns (let l = zero_run (n # ns) in if 2 \<le> l \<and> snd best < l then (i, l) else best)"

definition v6_text :: "bytes \<Rightarrow> string" where
  "v6_text ip =
     (let gs = groups_of ip; (start, len) = best_run 0 gs (0, 0) in
      if len = 0 then join_with CHR '':'' (map hex_text gs)
      else join_with CHR '':'' (map hex_text (take start gs)) @ ''::''
           @ join_with CHR '':'' (map hex_text (drop (start + len) gs)))"

definition IP_String :: "bytes \<Rightarrow> string" where
  "IP_String ip =
     (if ip = [] then ''<nil>''
      else if length ip \<noteq> 4 \<and> length ip \<noteq> 16 then ''?'' @ hex_encode ip
      else case IP_To4 ip of Some q \<Rightarrow> quad_text q | None \<Rightarrow> v6_text ip)"

section \<open>Round trips\<close>

lemma last_index_byte_app: "b \<notin> set t \<Longrightarrow> last_index_byte b (s @ b # t) = Some (length s)"
proof (induction s)
  case Nil
  then have "last_index_byte b t = None" by (simp add: gostr_simps)
  then show ?case by simp
qed simp

lemma index_byte_app: "b \<notin> set s \<Longrightarrow> index_byte b (s @ b # t) = Some (length s)"
  by (induction s) auto

lemma Split_Join:
  assumes "CHR ''['' \<notin> set host" "CHR '']'' \<notin> set host" "set port \<inter> {CHR '':'', CHR ''['', CHR '']''} = {}"
  shows "SplitHostPort (JoinHostPort host port) = Inr (host, port)"
proof (cases "CHR '':'' \<in> set host")
  case True
  let ?s = "CHR ''['' # host @ CHR '']'' # CHR '':'' # port"
  have "last_index_byte CHR '':'' ?s = Some (length host + 2)"
    using assms(3) last_index_byte_app [of "CHR '':''" port "CHR ''['' # host @ [CHR '']'']"] by simp
  moreover have "index_byte CHR '']'' ?s = Some (length host + 1)"
    using assms(2) index_byte_app [of "CHR '']''" "CHR ''['' # host"] by simp
  ultimately show ?thesis
    using True assms by (simp add: JoinHostPort_def SplitHostPort_def)
next
  case False
  have "last_index_byte CHR '':'' (host @ CHR '':'' # port) = Some (length host)"
    using assms(3) by (simp add: last_index_byte_app)
  moreover have "hd (host @ CHR '':'' # port) \<noteq> CHR ''[''"
    using assms(1) by (cases host) auto
  ultimately show ?thesis
    using False assms by (simp add: JoinHostPort_def SplitHostPort_def)
qed

lemma digit_chars:
  "digit 0 = CHR ''0''" "digit (Suc 0) = CHR ''1''" "digit 2 = CHR ''2''" "digit 3 = CHR ''3''" "digit 4 = CHR ''4''"
  "digit 5 = CHR ''5''" "digit 6 = CHR ''6''" "digit 7 = CHR ''7''" "digit 8 = CHR ''8''" "digit 9 = CHR ''9''"
  by code_simp+

lemma digit_0_iff: "n < 10 \<Longrightarrow> digit n = CHR ''0'' \<longleftrightarrow> n = 0"
proof -
  assume "n < 10"
  then have "byte_nat (digit n) = 48 + n" by (simp add: digit_def)
  moreover have "byte_nat CHR ''0'' = 48" by (simp add: byte_nat_def)
  ultimately show ?thesis by (metis add_cancel_left_right byte_nat_inject)
qed

lemma nat_text_hd: "0 < n \<Longrightarrow> hd (nat_text n) \<noteq> CHR ''0''"
proof (induction n rule: nat_text.induct)
  case (1 n)
  show ?case
  proof (cases "n < 10")
    case True
    with 1 show ?thesis by (simp add: nat_text.simps [of n] digit_0_iff)
  next
    case False
    with 1 have "hd (nat_text (n div 10)) \<noteq> CHR ''0''" by simp
    with False show ?thesis by (simp add: nat_text.simps [of n] hd_append)
  qed
qed

lemma octet_text: "n < 256 \<Longrightarrow> octet (nat_text n) = Some n"
  using nat_text_hd [of n] parse_nat_text [of n]
  by (cases "n = 0") (auto simp: octet_def nat_text.simps [of 0] simp del: parse_nat_text)

lemma digits_plain: "list_all is_digit s \<Longrightarrow> \<not> is_digit c \<Longrightarrow> c \<notin> set s"
  by (auto simp: list_all_iff)

lemma nat_text_plain: "\<not> is_digit c \<Longrightarrow> c \<notin> set (nat_text n)"
  using digits_plain [OF nat_text_digits] by blast

lemma not_digits [simp]:
  "\<not> is_digit CHR ''.''" "\<not> is_digit CHR '':''" "\<not> is_digit CHR ''%''" "\<not> is_digit CHR '' ''" "\<not> is_digit CHR 0x0D"
  by (simp_all add: is_digit_def byte_nat_def)

lemma quad_split:
  assumes "length q = 4"
  obtains a b c d where "q = [a, b, c, d]"
  using assms by (auto simp: numeral_eq_Suc length_Suc_conv)

lemma parse_quad_text: "length q = 4 \<Longrightarrow> parse_quad (quad_text q) = Some q"
  by (erule quad_split)
    (simp add: parse_quad_def quad_text_def split_on_append split_on_single nat_text_plain octet_text)

lemma quad_text_chars: "c \<in> set (quad_text q) \<Longrightarrow> c = CHR ''.'' \<or> is_digit c"
proof (induction q)
  case (Cons b q)
  then show ?case using nat_text_digits [of "byte_nat b"]
    by (cases q) (auto simp: quad_text_def list_all_iff)
qed (simp add: quad_text_def)

lemma find_dot: "CHR '':'' \<notin> set s \<Longrightarrow> CHR ''.'' \<in> set s \<Longrightarrow> find (\<lambda>c. c = CHR ''.'' \<or> c = CHR '':'') s = Some CHR ''.''"
  by (induction s) auto

lemma ParseIP_quad_text:
  assumes "length q = 4"
  shows "ParseIP (quad_text q) = Some (v4_prefix @ q)"
proof -
  have "CHR ''%'' \<notin> set (quad_text q)" "CHR '':'' \<notin> set (quad_text q)"
    using quad_text_chars [of _ q] not_digits by fastforce+
  moreover have "CHR ''.'' \<in> set (quad_text q)"
    using assms by (elim quad_split) (simp add: quad_text_def)
  ultimately show ?thesis by (simp add: ParseIP_def find_dot parse_quad_text [OF assms])
qed

lemma length_v4_prefix [simp]: "length v4_prefix = 12"
  by (simp add: v4_prefix_def)

lemma To4_mapped [simp]: "length q = 4 \<Longrightarrow> IP_To4 (v4_prefix @ q) = Some q"
  by (simp add: IP_To4_def)

end
