(* ===== verification/Net_ProxyProto.thy ===== *)
theory Net_ProxyProto
  imports Go_Net
begin

text \<open>
  The PROXY protocol headers that announce a visitor's address to the local service,
  \<^verbatim>\<open>pkg/netutil/proxyproto.go\<close>. A header is the bytes handed to one \<^verbatim>\<open>Write\<close>.
\<close>

section \<open>Operations\<close>

definition ProxyProtoNone :: string where "ProxyProtoNone = ''''"
definition ProxyProtoV1 :: string where "ProxyProtoV1 = ''v1''"
definition ProxyProtoV2 :: string where "ProxyProtoV2 = ''v2''"

definition ValidProxyProtocol :: "string \<Rightarrow> bool" where
  "ValidProxyProtocol version \<longleftrightarrow> version = ProxyProtoNone \<or> version = ProxyProtoV1 \<or> version = ProxyProtoV2"

definition proxyV2Signature :: bytes where
  "proxyV2Signature = map nat_byte [0x0D, 0x0A, 0x0D, 0x0A, 0x00, 0x0D, 0x0A, 0x51, 0x55, 0x49, 0x54, 0x0A]"

text \<open>A \<^verbatim>\<open>net.Addr\<close>: nil, the two concrete types with their IP (empty when nil) and port, or another
  one known by its text.\<close>

datatype net_addr = NilAddr | TCPAddr bytes int | UDPAddr bytes int | OtherAddr string

datatype proxy_header_error =
    NothingToDescribe
  | NoPort addr_error
  | NotAnIP string
  | NotAPort string
  | UnknownVersion string

definition ip_and_port :: "string \<Rightarrow> proxy_header_error + bytes \<times> int" where
  "ip_and_port addr =
     (case SplitHostPort addr of
        Inl e \<Rightarrow> Inl (NoPort e)
      | Inr (host, port) \<Rightarrow>
          (case ParseIP host of
             None \<Rightarrow> Inl (NotAnIP host)
           | Some ip \<Rightarrow> (case parse_int64 port of None \<Rightarrow> Inl (NotAPort port) | Some number \<Rightarrow> Inr (ip, number))))"

text \<open>The text of an address without an IP is its port behind a colon.\<close>

definition splitAddr :: "net_addr \<Rightarrow> proxy_header_error + bytes \<times> int" where
  "splitAddr addr =
     (case addr of
        NilAddr \<Rightarrow> Inl NothingToDescribe
      | TCPAddr ip port \<Rightarrow> if ip \<noteq> [] then Inr (ip, port) else ip_and_port (CHR '':'' # int_text port)
      | UDPAddr ip port \<Rightarrow> if ip \<noteq> [] then Inr (ip, port) else ip_and_port (CHR '':'' # int_text port)
      | OtherAddr text \<Rightarrow> ip_and_port text)"

definition renderAsV6 :: "bytes \<Rightarrow> string" where
  "renderAsV6 ip = (case IP_To4 ip of Some v4 \<Rightarrow> ''::ffff:'' @ IP_String v4 | None \<Rightarrow> IP_String ip)"

definition normaliseTo6 :: "bytes \<Rightarrow> bytes" where
  "normaliseTo6 ip = (case IP_To4 ip of Some v4 \<Rightarrow> v4_prefix @ v4 | None \<Rightarrow> ip)"

definition proxy_v1_header :: "bytes \<Rightarrow> int \<Rightarrow> bytes \<Rightarrow> int \<Rightarrow> bytes" where
  "proxy_v1_header sourceIP sourcePort destIP destPort =
     (let v6 = (IP_To4 sourceIP = None \<or> IP_To4 destIP = None) in
      ''PROXY '' @ (if v6 then ''TCP6'' else ''TCP4'') @ '' ''
      @ (if v6 then renderAsV6 sourceIP else IP_String sourceIP) @ '' ''
      @ (if v6 then renderAsV6 destIP else IP_String destIP) @ '' ''
      @ int_text sourcePort @ '' '' @ int_text destPort @ [CHR 0x0D, CHR 0x0A])"

definition writeProxyV1 :: "net_addr \<Rightarrow> net_addr \<Rightarrow> proxy_header_error + bytes" where
  "writeProxyV1 source destination =
     (case splitAddr source of
        Inl e \<Rightarrow> Inl e
      | Inr (sourceIP, sourcePort) \<Rightarrow>
          (case splitAddr destination of
             Inl e \<Rightarrow> Inl e
           | Inr (destIP, destPort) \<Rightarrow> Inr (proxy_v1_header sourceIP sourcePort destIP destPort)))"

text \<open>\<^verbatim>\<open>uint16\<close> keeps the low 16 bits; \<^verbatim>\<open>To16\<close> of an address that is not 16 bytes long is nil.\<close>

definition port16 :: "int \<Rightarrow> bytes" where
  "port16 port = be16 (nat (port mod 2 ^ 16))"

definition proxy_v2_header :: "bytes \<Rightarrow> int \<Rightarrow> bytes \<Rightarrow> int \<Rightarrow> bytes" where
  "proxy_v2_header sourceIP sourcePort destIP destPort =
     (let (family, ips) =
        (case (IP_To4 sourceIP, IP_To4 destIP) of
           (Some s4, Some d4) \<Rightarrow> (0x11, s4 @ d4)
         | _ \<Rightarrow> (0x21, normaliseTo6 sourceIP @ normaliseTo6 destIP));
        addresses = ips @ port16 sourcePort @ port16 destPort in
      proxyV2Signature @ [nat_byte 0x21, nat_byte family] @ be16 (length addresses mod 2 ^ 16) @ addresses)"

definition writeProxyV2 :: "net_addr \<Rightarrow> net_addr \<Rightarrow> proxy_header_error + bytes" where
  "writeProxyV2 source destination =
     (case splitAddr source of
        Inl e \<Rightarrow> Inl e
      | Inr (sourceIP, sourcePort) \<Rightarrow>
          (case splitAddr destination of
             Inl e \<Rightarrow> Inl e
           | Inr (destIP, destPort) \<Rightarrow> Inr (proxy_v2_header sourceIP sourcePort destIP destPort)))"

definition WriteProxyHeader :: "string \<Rightarrow> net_addr \<Rightarrow> net_addr \<Rightarrow> proxy_header_error + bytes" where
  "WriteProxyHeader version source destination =
     (if version = ProxyProtoNone then Inr []
      else if version = ProxyProtoV1 then writeProxyV1 source destination
      else if version = ProxyProtoV2 then writeProxyV2 source destination
      else Inl (UnknownVersion version))"

definition ParseProxyAddr :: "string \<Rightarrow> proxy_header_error + net_addr" where
  "ParseProxyAddr addr = (case ip_and_port addr of Inl e \<Rightarrow> Inl e | Inr (ip, number) \<Rightarrow> Inr (TCPAddr ip number))"

section \<open>The receiver\<close>

text \<open>What the protocol's specification has the local service do with a version 2 header: the
  addresses, as 16 bytes each, the ports, and the bytes that follow.\<close>

record announced =
  an_source :: bytes
  an_sourcePort :: nat
  an_dest :: bytes
  an_destPort :: nat
  an_rest :: bytes

definition read_proxy_v2 :: "bytes \<Rightarrow> announced option" where
  "read_proxy_v2 b =
     (if \<not> has_prefix proxyV2Signature b \<or> length b < 16 \<or> byte_nat (b ! 12) \<noteq> 0x21 then None
      else
        let n = be_nat (take 2 (drop 14 b)); a = take n (drop 16 b); rest = drop (16 + n) b in
        if length b < 16 + n then None
        else if byte_nat (b ! 13) = 0x11 \<and> 12 \<le> n then
          Some \<lparr>an_source = v4_prefix @ take 4 a, an_sourcePort = be_nat (take 2 (drop 8 a)),
                an_dest = v4_prefix @ take 4 (drop 4 a), an_destPort = be_nat (take 2 (drop 10 a)), an_rest = rest\<rparr>
        else if byte_nat (b ! 13) = 0x21 \<and> 36 \<le> n then
          Some \<lparr>an_source = take 16 a, an_sourcePort = be_nat (take 2 (drop 32 a)),
                an_dest = take 16 (drop 16 a), an_destPort = be_nat (take 2 (drop 34 a)), an_rest = rest\<rparr>
        else None)"

text \<open>And a version 1 line: five words, the addresses in the family's notation.\<close>

definition read_proxy_v1 :: "bytes \<Rightarrow> announced option" where
  "read_proxy_v1 b =
     (case index_sub [CHR 0x0D, CHR 0x0A] b of
        None \<Rightarrow> None
      | Some i \<Rightarrow>
          (case split_on CHR '' '' (take i b) of
             [p, family, source, dest, sp, dp] \<Rightarrow>
               if p \<noteq> ''PROXY'' \<or> (family \<noteq> ''TCP4'' \<and> family \<noteq> ''TCP6'') then None
               else (case (ParseIP source, ParseIP dest, parse_nat sp, parse_nat dp) of
                 (Some s, Some d, Some m, Some n) \<Rightarrow>
                   Some \<lparr>an_source = s, an_sourcePort = m, an_dest = d, an_destPort = n, an_rest = drop (i + 2) b\<rparr>
               | _ \<Rightarrow> None)
           | _ \<Rightarrow> None))"

section \<open>Properties\<close>

definition to16 :: "bytes \<Rightarrow> bytes" where
  "to16 ip = (if length ip = 4 then v4_prefix @ ip else ip)"

definition ip_ok :: "bytes \<Rightarrow> bool" where
  "ip_ok ip \<longleftrightarrow> length ip = 4 \<or> length ip = 16"

lemma To4_to16: "ip_ok ip \<Longrightarrow> IP_To4 ip = Some q \<Longrightarrow> length q = 4 \<and> to16 ip = v4_prefix @ q"
  by (auto simp: IP_To4_def to16_def split: if_splits) (metis append_take_drop_id)

lemma normalise_to16: "ip_ok ip \<Longrightarrow> normaliseTo6 ip = to16 ip \<and> length (to16 ip) = 16"
proof -
  assume ok: "ip_ok ip"
  then have len: "length (to16 ip) = 16" by (auto simp: ip_ok_def to16_def)
  show ?thesis
  proof (cases "IP_To4 ip")
    case None
    then have "length ip \<noteq> 4" by (auto simp: IP_To4_def)
    with None len show ?thesis by (simp add: normaliseTo6_def to16_def)
  next
    case (Some q)
    with To4_to16 [OF ok Some] len show ?thesis by (simp add: normaliseTo6_def)
  qed
qed

lemma port16_nat: "0 \<le> port \<Longrightarrow> port < 2 ^ 16 \<Longrightarrow> length (port16 port) = 2 \<and> be_nat (port16 port) = nat port"
  by (simp add: port16_def be_nat_be16 nat_less_iff)

lemma length_signature [simp]: "length proxyV2Signature = 12"
  by (simp add: proxyV2Signature_def)

lemma read_v2_header:
  assumes "ip_ok s" "ip_ok d" "0 \<le> sp" "sp < 2 ^ 16" "0 \<le> dp" "dp < 2 ^ 16"
  shows "read_proxy_v2 (proxy_v2_header s sp d dp @ rest) =
    Some \<lparr>an_source = to16 s, an_sourcePort = nat sp, an_dest = to16 d, an_destPort = nat dp, an_rest = rest\<rparr>"
proof -
  note P = port16_nat [OF assms(3,4)] port16_nat [OF assms(5,6)]
  have n: "be_nat (be16 12) = 12" "be_nat (be16 36) = 36" by (simp_all add: be_nat_be16)
  show ?thesis
  proof (cases "IP_To4 s \<noteq> None \<and> IP_To4 d \<noteq> None")
    case True
    then obtain s4 d4 where q: "IP_To4 s = Some s4" "IP_To4 d = Some d4" by blast
    note S = To4_to16 [OF assms(1) q(1)] and D = To4_to16 [OF assms(2) q(2)]
    have "proxy_v2_header s sp d dp @ rest =
      proxyV2Signature @ [nat_byte 0x21, nat_byte 0x11] @ be16 12 @ s4 @ d4 @ port16 sp @ port16 dp @ rest"
      using S D P by (simp add: proxy_v2_header_def q Let_def)
    then show ?thesis using S D P n
      by (simp add: read_proxy_v2_def Let_def nth_append)
  next
    case False
    note S = normalise_to16 [OF assms(1)] and D = normalise_to16 [OF assms(2)]
    have "proxy_v2_header s sp d dp @ rest =
      proxyV2Signature @ [nat_byte 0x21, nat_byte 0x21] @ be16 36 @ to16 s @ to16 d @ port16 sp @ port16 dp @ rest"
      using False S D P by (auto simp: proxy_v2_header_def Let_def split: option.splits)
    then show ?thesis using S D P n
      by (simp add: read_proxy_v2_def Let_def nth_append)
  qed
qed

lemma index_crlf: "CHR 0x0D \<notin> set s \<Longrightarrow> index_sub [CHR 0x0D, CHR 0x0A] (s @ CHR 0x0D # CHR 0x0A # t) = Some (length s)"
  by (induction s) (auto simp: has_prefix_def)

lemma quad_text_plain: "\<not> is_digit c \<Longrightarrow> c \<noteq> CHR ''.'' \<Longrightarrow> c \<notin> set (quad_text q)"
  using quad_text_chars by blast

lemma IP_String_quad: "ip_ok ip \<Longrightarrow> IP_To4 ip = Some q \<Longrightarrow> IP_String ip = quad_text q"
  by (auto simp: IP_String_def ip_ok_def)

lemma read_v1_header:
  assumes "ip_ok s" "ip_ok d" "IP_To4 s = Some s4" "IP_To4 d = Some d4" "0 \<le> sp" "0 \<le> dp"
  shows "read_proxy_v1 (proxy_v1_header s sp d dp @ rest) =
    Some \<lparr>an_source = to16 s, an_sourcePort = nat sp, an_dest = to16 d, an_destPort = nat dp, an_rest = rest\<rparr>"
proof -
  note S = To4_to16 [OF assms(1,3)] and D = To4_to16 [OF assms(2,4)]
  let ?words = "[''PROXY'', ''TCP4'', quad_text s4, quad_text d4, nat_text (nat sp), nat_text (nat dp)]"
  let ?line = "join_with CHR '' '' ?words"
  have plain: "CHR '' '' \<notin> set w \<and> CHR 0x0D \<notin> set w" if "w \<in> set ?words" for w
    using that by (auto simp: quad_text_plain nat_text_plain)
  have h: "proxy_v1_header s sp d dp @ rest = ?line @ CHR 0x0D # CHR 0x0A # rest"
    using assms by (simp add: proxy_v1_header_def IP_String_quad int_text_def)
  have "CHR 0x0D \<notin> set ?line" using plain by auto
  moreover have "split_on CHR '' '' ?line = ?words"
    by (rule split_join) (use plain in auto)
  ultimately show ?thesis using S D
    by (simp add: h read_proxy_v1_def index_crlf ParseIP_quad_text del: join_with.simps)
qed



end
