(* ===== verification/Cfg_Config.thy ===== *)
theory Cfg_Config
  imports Net_ProxyProto "HOL-Library.Multiset"
begin

text \<open>
  The configuration of client and server after it has been parsed: defaults, validation and which
  tunnel belongs to which server. \<^verbatim>\<open>internal/config\<close> (\<^verbatim>\<open>client.go\<close>, \<^verbatim>\<open>tunnel.go\<close>, \<^verbatim>\<open>server.go\<close>,
  \<^verbatim>\<open>upstream.go\<close>). Durations are numbers of nanoseconds. A nil error is \<^term>\<open>None\<close>.
\<close>

section \<open>Constants\<close>

definition DefaultPoolCount :: int where "DefaultPoolCount = 8"
definition DefaultMaxPoolCount :: int where "DefaultMaxPoolCount = 64"
definition DefaultHeartbeatInterval :: int where "DefaultHeartbeatInterval = 20000000000"
definition DefaultHeartbeatTimeout :: int where "DefaultHeartbeatTimeout = 90000000000"
definition DefaultDialTimeout :: int where "DefaultDialTimeout = 10000000000"
definition DefaultMuxStreamWindow :: int where "DefaultMuxStreamWindow = 8388608"
definition DefaultBindPort :: int where "DefaultBindPort = 7000"
definition ProtocolTCP :: string where "ProtocolTCP = ''tcp''"
definition KindCloudflare :: string where "KindCloudflare = ''cloudflare''"
definition DefaultUpstreamName :: string where "DefaultUpstreamName = ''server''"

section \<open>Data\<close>

record transport =
  tr_Protocol :: string
  tr_Mux :: bool
  tr_MuxStreamWindow :: int
  tr_PoolCount :: int
  tr_TLSEnable :: bool
  tr_HeartbeatInterval :: int
  tr_HeartbeatTimeout :: int
  tr_DialTimeout :: int

record tunnel =
  tu_Name :: string
  tu_Enabled :: bool
  tu_Type :: string
  tu_LocalIP :: string
  tu_LocalPort :: int
  tu_RemotePort :: int
  tu_Domains :: "string list"
  tu_TLSMode :: string
  tu_Server :: string
  tu_CertID :: int
  tu_ProxyProtocol :: string
  tu_DownRate :: int
  tu_UpRate :: int
  tu_Quota :: int

record upstream =
  up_Name :: string
  up_Kind :: string
  up_Zone :: string
  up_TunnelID :: string
  up_Addr :: string
  up_Port :: int
  up_Token :: string
  up_ClientName :: string
  up_SocketGID :: int
  up_SocketMark :: int
  up_Transport :: transport

record client_config =
  cc_Servers :: "upstream list"
  cc_ServerAddr :: string
  cc_ServerPort :: int
  cc_Token :: string
  cc_Name :: string
  cc_Transport :: transport
  cc_SocketGID :: int
  cc_SocketMark :: int
  cc_Tunnels :: "tunnel list"

record server_file =
  fs_BindAddr :: string
  fs_BindPort :: int
  fs_Token :: string
  fs_VhostHTTPPort :: int
  fs_VhostHTTPSPort :: int
  fs_MaxPoolCount :: int
  fs_AcceptLoops :: int

datatype config_error =
    PoolTooSmall | PoolTooLarge int | WindowTooSmall int | HeartbeatTooShort
  | NoServers | DuplicateServer string | OrphanTunnel string string | DuplicateTunnel string
  | PortClash string string int
  | ServerUnnamed | TunnelIDMissing string | AddressMissing string | ServerPortRange string int
  | TunnelUnnamed | UnknownType string string | BadLocalIP string string | LocalPortRange string int
  | RemotePortRange string int | DomainsMissing string string | UnknownTLSMode string string
  | TLSModeNotHTTPS string string | UnknownProxyProtocol string string | ProxyProtocolOnUDP string
  | BindPortRange int | VhostHTTPRange int | VhostHTTPSRange int | VhostPortsEqual | BindPortCollides int
  | MaxPoolTooSmall | NegativeAcceptLoops

section \<open>A tunnel\<close>

definition TunnelTCP :: string where "TunnelTCP = ''tcp''"
definition TunnelUDP :: string where "TunnelUDP = ''udp''"
definition TunnelHTTP :: string where "TunnelHTTP = ''http''"
definition TunnelHTTPS :: string where "TunnelHTTPS = ''https''"
definition TLSNone :: string where "TLSNone = ''none''"
definition TLSPassthrough :: string where "TLSPassthrough = ''passthrough''"
definition TLSTerminate :: string where "TLSTerminate = ''terminate''"

lemmas tunnel_consts = TunnelTCP_def TunnelUDP_def TunnelHTTP_def TunnelHTTPS_def TLSNone_def TLSPassthrough_def
  TLSTerminate_def

definition NeedsRemotePort :: "string \<Rightarrow> bool" where
  "NeedsRemotePort t \<longleftrightarrow> t = TunnelTCP \<or> t = TunnelUDP"

definition NeedsDomains :: "string \<Rightarrow> bool" where
  "NeedsDomains t \<longleftrightarrow> t = TunnelHTTP \<or> t = TunnelHTTPS"

definition TunnelType_Valid :: "string \<Rightarrow> bool" where
  "TunnelType_Valid t \<longleftrightarrow> t \<in> {TunnelTCP, TunnelUDP, TunnelHTTP, TunnelHTTPS}"

definition TLSMode_Valid :: "string \<Rightarrow> bool" where
  "TLSMode_Valid m \<longleftrightarrow> m \<in> {TLSNone, TLSPassthrough, TLSTerminate}"

definition Tunnel_applyDefaults :: "tunnel \<Rightarrow> tunnel" where
  "Tunnel_applyDefaults t =
     (let t = (if tu_LocalIP t = [] then t\<lparr>tu_LocalIP := ''127.0.0.1''\<rparr> else t);
          t = (if tu_Type t = TunnelHTTPS \<and> tu_TLSMode t = [] then t\<lparr>tu_TLSMode := TLSPassthrough\<rparr> else t) in
      if tu_Type t \<noteq> TunnelHTTPS \<and> tu_TLSMode t = [] then t\<lparr>tu_TLSMode := TLSNone\<rparr> else t)"

definition validatePort :: "int \<Rightarrow> bool" where
  "validatePort p \<longleftrightarrow> \<not> (p < 1 \<or> 65535 < p)"

definition Tunnel_Validate :: "tunnel \<Rightarrow> config_error option" where
  "Tunnel_Validate t =
     (let name = tu_Name t in
      if trim_space name = [] then Some TunnelUnnamed
      else if \<not> TunnelType_Valid (tu_Type t) then Some (UnknownType name (tu_Type t))
      else if tu_LocalIP t \<noteq> [] \<and> ParseIP (tu_LocalIP t) = None \<and> contains_any (tu_LocalIP t) '':/ ''
      then Some (BadLocalIP name (tu_LocalIP t))
      else if \<not> validatePort (tu_LocalPort t) then Some (LocalPortRange name (tu_LocalPort t))
      else if NeedsRemotePort (tu_Type t) \<and> tu_RemotePort t \<noteq> 0 \<and> \<not> validatePort (tu_RemotePort t)
      then Some (RemotePortRange name (tu_RemotePort t))
      else if NeedsDomains (tu_Type t) \<and> tu_Domains t = [] then Some (DomainsMissing name (tu_Type t))
      else if \<not> TLSMode_Valid (tu_TLSMode t) then Some (UnknownTLSMode name (tu_TLSMode t))
      else if tu_TLSMode t \<noteq> TLSNone \<and> tu_Type t \<noteq> TunnelHTTPS then Some (TLSModeNotHTTPS name (tu_TLSMode t))
      else if \<not> ValidProxyProtocol (tu_ProxyProtocol t) then Some (UnknownProxyProtocol name (tu_ProxyProtocol t))
      else if tu_ProxyProtocol t \<noteq> [] \<and> tu_Type t = TunnelUDP then Some (ProxyProtocolOnUDP name)
      else None)"

section \<open>A server to connect to\<close>

definition Transport_ApplyDefaults :: "transport \<Rightarrow> transport" where
  "Transport_ApplyDefaults t =
     t\<lparr>tr_Protocol := ProtocolTCP,
       tr_PoolCount := (if tr_PoolCount t = 0 then DefaultPoolCount else tr_PoolCount t),
       tr_MuxStreamWindow := (if tr_MuxStreamWindow t = 0 then DefaultMuxStreamWindow else tr_MuxStreamWindow t),
       tr_HeartbeatInterval := (if tr_HeartbeatInterval t = 0 then DefaultHeartbeatInterval else tr_HeartbeatInterval t),
       tr_HeartbeatTimeout := (if tr_HeartbeatTimeout t = 0 then DefaultHeartbeatTimeout else tr_HeartbeatTimeout t),
       tr_DialTimeout := (if tr_DialTimeout t = 0 then DefaultDialTimeout else tr_DialTimeout t)\<rparr>"

definition Transport_Validate :: "transport \<Rightarrow> config_error option" where
  "Transport_Validate t =
     (if tr_PoolCount t < 1 then Some PoolTooSmall
      else if DefaultMaxPoolCount < tr_PoolCount t then Some (PoolTooLarge (tr_PoolCount t))
      else if tr_Mux t \<and> tr_MuxStreamWindow t < 65536 then Some (WindowTooSmall (tr_MuxStreamWindow t))
      else if tr_HeartbeatTimeout t \<le> tr_HeartbeatInterval t then Some HeartbeatTooShort
      else None)"

definition IsCloudflare :: "upstream \<Rightarrow> bool" where
  "IsCloudflare u \<longleftrightarrow> up_Kind u = KindCloudflare"

definition Upstream_ApplyDefaults :: "upstream \<Rightarrow> upstream" where
  "Upstream_ApplyDefaults u =
     u\<lparr>up_Port := (if up_Port u = 0 then 7000 else up_Port u), up_Transport := Transport_ApplyDefaults (up_Transport u)\<rparr>"

definition Upstream_Validate :: "upstream \<Rightarrow> config_error option" where
  "Upstream_Validate u =
     (if trim_space (up_Name u) = [] then Some ServerUnnamed
      else if IsCloudflare u then
        (if trim_space (up_TunnelID u) = [] then Some (TunnelIDMissing (up_Name u)) else None)
      else if trim_space (up_Addr u) = [] then Some (AddressMissing (up_Name u))
      else if up_Port u < 1 \<or> 65535 < up_Port u then Some (ServerPortRange (up_Name u) (up_Port u))
      else Transport_Validate (up_Transport u))"

section \<open>The client's configuration\<close>

definition Upstreams :: "client_config \<Rightarrow> upstream list" where
  "Upstreams c =
     (if cc_Servers c \<noteq> [] then cc_Servers c
      else if cc_ServerAddr c = [] then []
      else [\<lparr>up_Name = DefaultUpstreamName, up_Kind = [], up_Zone = [], up_TunnelID = [], up_Addr = cc_ServerAddr c,
             up_Port = cc_ServerPort c, up_Token = cc_Token c, up_ClientName = cc_Name c, up_SocketGID = 0,
             up_SocketMark = 0, up_Transport = cc_Transport c\<rparr>])"

definition Client_Upstream :: "client_config \<Rightarrow> string \<Rightarrow> upstream option" where
  "Client_Upstream c name =
     (case Upstreams c of
        [] \<Rightarrow> None
      | s # servers \<Rightarrow> if name = [] then Some s else find (\<lambda>u. up_Name u = name) (s # servers))"

definition TunnelsFor :: "client_config \<Rightarrow> string \<Rightarrow> tunnel list" where
  "TunnelsFor c server =
     (let first = (case Upstreams c of [] \<Rightarrow> [] | s # _ \<Rightarrow> up_Name s) in
      filter (\<lambda>t. tu_Enabled t \<and> (if tu_Server t = [] then first else tu_Server t) = server) (cc_Tunnels c))"

definition OrphanTunnels :: "client_config \<Rightarrow> tunnel list" where
  "OrphanTunnels c =
     filter (\<lambda>t. tu_Enabled t \<and> tu_Server t \<noteq> [] \<and> tu_Server t \<notin> set (map up_Name (Upstreams c))) (cc_Tunnels c)"

definition EnabledTunnels :: "client_config \<Rightarrow> tunnel list" where
  "EnabledTunnels c = filter tu_Enabled (cc_Tunnels c)"

definition Client_ApplyDefaults :: "client_config \<Rightarrow> client_config" where
  "Client_ApplyDefaults c =
     c\<lparr>cc_ServerPort := (if cc_ServerPort c = 0 then DefaultBindPort else cc_ServerPort c),
       cc_Transport := Transport_ApplyDefaults (cc_Transport c),
       cc_Servers := map Upstream_ApplyDefaults (cc_Servers c),
       cc_Tunnels := map Tunnel_applyDefaults (cc_Tunnels c)\<rparr>"

text \<open>The loops of \<^verbatim>\<open>Validate\<close>, with the names seen so far and the ports requested so far under the
  name the tunnel gives its server.\<close>

fun validate_servers :: "string list \<Rightarrow> upstream list \<Rightarrow> config_error option" where
  "validate_servers names [] = None"
| "validate_servers names (s # servers) =
     (case Upstream_Validate s of
        Some e \<Rightarrow> Some e
      | None \<Rightarrow> if up_Name s \<in> set names then Some (DuplicateServer (up_Name s))
                else validate_servers (up_Name s # names) servers)"

fun validate_tunnels :: "string list \<Rightarrow> (string \<times> int \<Rightarrow> string option) \<Rightarrow> tunnel list \<Rightarrow> config_error option" where
  "validate_tunnels seen ports [] = None"
| "validate_tunnels seen ports (t # ts) =
     (case Tunnel_Validate t of
        Some e \<Rightarrow> Some e
      | None \<Rightarrow>
          if tu_Name t \<in> set seen then Some (DuplicateTunnel (tu_Name t))
          else if tu_Enabled t \<and> NeedsRemotePort (tu_Type t) \<and> tu_RemotePort t \<noteq> 0 then
            (case ports (tu_Server t, tu_RemotePort t) of
               Some other \<Rightarrow> Some (PortClash other (tu_Name t) (tu_RemotePort t))
             | None \<Rightarrow> validate_tunnels (tu_Name t # seen) (ports((tu_Server t, tu_RemotePort t) \<mapsto> tu_Name t)) ts)
          else validate_tunnels (tu_Name t # seen) ports ts)"

definition Client_Validate :: "client_config \<Rightarrow> config_error option" where
  "Client_Validate c =
     (if Upstreams c = [] then Some NoServers
      else case validate_servers [] (Upstreams c) of
        Some e \<Rightarrow> Some e
      | None \<Rightarrow>
          (case OrphanTunnels c of
             t # _ \<Rightarrow> Some (OrphanTunnel (tu_Name t) (tu_Server t))
           | [] \<Rightarrow> validate_tunnels [] Map.empty (cc_Tunnels c)))"

text \<open>\<^verbatim>\<open>LoadClient\<close> and \<^verbatim>\<open>LoadServer\<close> on what the decoder read.\<close>

definition LoadClient :: "client_config \<Rightarrow> config_error + client_config" where
  "LoadClient parsed =
     (let cfg = Client_ApplyDefaults parsed in
      case Client_Validate cfg of Some e \<Rightarrow> Inl e | None \<Rightarrow> Inr cfg)"

section \<open>The server's configuration\<close>

definition Server_ApplyDefaults :: "server_file \<Rightarrow> server_file" where
  "Server_ApplyDefaults c =
     c\<lparr>fs_BindAddr := (if fs_BindAddr c = [] then ''0.0.0.0'' else fs_BindAddr c),
       fs_BindPort := (if fs_BindPort c = 0 then DefaultBindPort else fs_BindPort c),
       fs_MaxPoolCount := (if fs_MaxPoolCount c = 0 then DefaultMaxPoolCount else fs_MaxPoolCount c)\<rparr>"

definition Server_Validate :: "server_file \<Rightarrow> config_error option" where
  "Server_Validate c =
     (if fs_BindPort c \<noteq> 0 \<and> \<not> validatePort (fs_BindPort c) then Some (BindPortRange (fs_BindPort c))
      else if fs_VhostHTTPPort c \<noteq> 0 \<and> \<not> validatePort (fs_VhostHTTPPort c) then Some (VhostHTTPRange (fs_VhostHTTPPort c))
      else if fs_VhostHTTPSPort c \<noteq> 0 \<and> \<not> validatePort (fs_VhostHTTPSPort c) then Some (VhostHTTPSRange (fs_VhostHTTPSPort c))
      else if fs_VhostHTTPPort c \<noteq> 0 \<and> fs_VhostHTTPPort c = fs_VhostHTTPSPort c then Some VhostPortsEqual
      else if fs_BindPort c \<noteq> 0 \<and> (fs_BindPort c = fs_VhostHTTPPort c \<or> fs_BindPort c = fs_VhostHTTPSPort c)
      then Some (BindPortCollides (fs_BindPort c))
      else if fs_MaxPoolCount c < 1 then Some MaxPoolTooSmall
      else if fs_AcceptLoops c < 0 then Some NegativeAcceptLoops
      else None)"

definition LoadServer :: "server_file \<Rightarrow> config_error + server_file" where
  "LoadServer parsed =
     (let cfg = Server_ApplyDefaults parsed in
      case Server_Validate cfg of Some e \<Rightarrow> Inl e | None \<Rightarrow> Inr cfg)"

section \<open>What validation establishes\<close>

text \<open>A tunnel that asks for a port of its own.\<close>

definition asks_port :: "tunnel \<Rightarrow> bool" where
  "asks_port t \<longleftrightarrow> tu_Enabled t \<and> NeedsRemotePort (tu_Type t) \<and> tu_RemotePort t \<noteq> 0"

abbreviation port_key :: "tunnel \<Rightarrow> string \<times> int" where
  "port_key t \<equiv> (tu_Server t, tu_RemotePort t)"

lemma validate_servers_None:
  "validate_servers names servers = None \<Longrightarrow> (\<forall>s \<in> set servers. Upstream_Validate s = None)
    \<and> distinct (map up_Name servers) \<and> set (map up_Name servers) \<inter> set names = {}"
proof (induction names servers rule: validate_servers.induct)
  case (2 names s servers)
  then have s: "Upstream_Validate s = None" "up_Name s \<notin> set names" "validate_servers (up_Name s # names) servers = None"
    by (auto split: option.splits if_splits)
  from 2(1) [OF s] s show ?case by auto
qed simp

lemma validate_tunnels_iff:
  "validate_tunnels seen ports ts = None \<longleftrightarrow> (\<forall>t \<in> set ts. Tunnel_Validate t = None)
    \<and> distinct (map tu_Name ts) \<and> set (map tu_Name ts) \<inter> set seen = {}
    \<and> distinct (map port_key (filter asks_port ts)) \<and> (\<forall>t \<in> set (filter asks_port ts). ports (port_key t) = None)"
proof (induction ts arbitrary: seen ports)
  case (Cons t ts)
  show ?case
  proof (cases "Tunnel_Validate t = None \<and> tu_Name t \<notin> set seen")
    case True
    show ?thesis
    proof (cases "asks_port t")
      case asks: True
      then have "tu_Enabled t" "NeedsRemotePort (tu_Type t)" "tu_RemotePort t \<noteq> 0" by (simp_all add: asks_port_def)
      then show ?thesis using True asks
        by (cases "ports (port_key t)") (auto simp: Cons.IH image_iff split: if_splits, metis)
    next
      case False
      then have "\<not> (tu_Enabled t \<and> NeedsRemotePort (tu_Type t) \<and> tu_RemotePort t \<noteq> 0)" by (simp add: asks_port_def)
      then show ?thesis using True False by (auto simp: Cons.IH)
    qed
  next
    case False
    then show ?thesis by (auto split: option.splits)
  qed
qed simp

lemma Client_Validate_None:
  assumes "Client_Validate c = None"
  shows "Upstreams c \<noteq> []" "\<forall>s \<in> set (Upstreams c). Upstream_Validate s = None" "distinct (map up_Name (Upstreams c))"
    "OrphanTunnels c = []" "validate_tunnels [] Map.empty (cc_Tunnels c) = None"
  using assms validate_servers_None [of "[]" "Upstreams c"]
  by (auto simp: Client_Validate_def split: option.splits list.splits if_splits)

text \<open>Sorting tunnels by their owner loses and doubles none.\<close>

lemma one_owner:
  "distinct (map f ss) \<Longrightarrow> y \<in> set (map f ss) \<Longrightarrow> (\<Sum>s\<leftarrow>ss. if y = f s then {#x#} else {#}) = {#x#}"
proof (induction ss)
  case (Cons s ss)
  have none: "(\<Sum>s\<leftarrow>ss. if y = f s then {#x#} else {#}) = {#}" if "y \<notin> set (map f ss)"
    using that by (induction ss) auto
  from Cons none show ?case by (cases "y = f s") auto
qed simp

lemma mset_by_owner:
  assumes "distinct (map f ss)" "\<forall>x \<in> set xs. P x \<longrightarrow> owner x \<in> set (map f ss)"
  shows "(\<Sum>s\<leftarrow>ss. mset (filter (\<lambda>x. P x \<and> owner x = f s) xs)) = mset (filter P xs)"
  using assms(2)
proof (induction xs)
  case Nil
  then show ?case by (induction ss) simp_all
next
  case (Cons x xs)
  have "(\<Sum>s\<leftarrow>ss. mset (filter (\<lambda>y. P y \<and> owner y = f s) (x # xs)))
      = (\<Sum>s\<leftarrow>ss. (if P x \<and> owner x = f s then {#x#} else {#}) + mset (filter (\<lambda>y. P y \<and> owner y = f s) xs))"
    by (rule arg_cong [where f = sum_list]) auto
  also have "\<dots> = (\<Sum>s\<leftarrow>ss. if P x \<and> owner x = f s then {#x#} else {#}) + mset (filter P xs)"
    using Cons by (simp add: sum_list_addf)
  also have "(\<Sum>s\<leftarrow>ss. if P x \<and> owner x = f s then {#x#} else {#}) = (if P x then {#x#} else {#})"
  proof (cases "P x")
    case True
    with Cons.prems one_owner [OF assms(1), of "owner x" x] show ?thesis by simp
  next
    case False
    then show ?thesis by (induction ss) simp_all
  qed
  finally show ?case by simp
qed

text \<open>C18: A configuration that loads assigns every enabled tunnel to exactly one server. The servers'
  names differ, the tunnels handed to the servers are together the enabled tunnels, none lost and
  none handed out twice, and each has a name of its own, a local port, a type the protocol knows and
  what that type needs.\<close>

theorem config_distributes_tunnels:
  assumes "LoadClient parsed = Inr c"
  shows "Upstreams c \<noteq> [] \<and> distinct (map up_Name (Upstreams c))
    \<and> (\<Sum>s\<leftarrow>Upstreams c. mset (TunnelsFor c (up_Name s))) = mset (EnabledTunnels c)
    \<and> distinct (map tu_Name (EnabledTunnels c))
    \<and> (\<forall>t \<in> set (EnabledTunnels c). tu_Name t \<noteq> [] \<and> TunnelType_Valid (tu_Type t) \<and> validatePort (tu_LocalPort t)
         \<and> (NeedsDomains (tu_Type t) \<longrightarrow> tu_Domains t \<noteq> [])
         \<and> (NeedsRemotePort (tu_Type t) \<longrightarrow> 0 \<le> tu_RemotePort t \<and> tu_RemotePort t \<le> 65535))"
proof -
  have v: "Client_Validate c = None" using assms by (auto simp: LoadClient_def Let_def split: option.splits)
  note V = Client_Validate_None [OF v]
  have T: "\<forall>t \<in> set (cc_Tunnels c). Tunnel_Validate t = None" "distinct (map tu_Name (cc_Tunnels c))"
    using V(5) unfolding validate_tunnels_iff by blast+
  let ?owner = "\<lambda>t. if tu_Server t = [] then up_Name (hd (Upstreams c)) else tu_Server t"
  have first: "(case Upstreams c of [] \<Rightarrow> [] | s # _ \<Rightarrow> up_Name s) = up_Name (hd (Upstreams c))"
    using V(1) by (simp split: list.splits)
  have known: "\<forall>t \<in> set (cc_Tunnels c). tu_Enabled t \<longrightarrow> ?owner t \<in> set (map up_Name (Upstreams c))"
    using V(1,4) by (auto simp: OrphanTunnels_def filter_empty_conv)
  have sum: "(\<Sum>s\<leftarrow>Upstreams c. mset (TunnelsFor c (up_Name s))) = mset (EnabledTunnels c)"
    using mset_by_owner [OF V(3) known] by (simp add: TunnelsFor_def EnabledTunnels_def first)
  have names: "distinct (map tu_Name (EnabledTunnels c))"
    using T(2) by (simp add: EnabledTunnels_def distinct_map_filter)
  have each: "tu_Name t \<noteq> [] \<and> TunnelType_Valid (tu_Type t) \<and> validatePort (tu_LocalPort t)
         \<and> (NeedsDomains (tu_Type t) \<longrightarrow> tu_Domains t \<noteq> [])
         \<and> (NeedsRemotePort (tu_Type t) \<longrightarrow> 0 \<le> tu_RemotePort t \<and> tu_RemotePort t \<le> 65535)"
    if "t \<in> set (EnabledTunnels c)" for t
  proof -
    have "Tunnel_Validate t = None" using that T(1) by (simp add: EnabledTunnels_def)
    moreover have "trim_space [] = []" using trim_space_infix [of "[]"] by auto
    ultimately show ?thesis
      by (auto simp: Tunnel_Validate_def Let_def validatePort_def split: if_splits)
  qed
  show ?thesis using V(1,3) sum names each by blast
qed

definition demo_transport :: transport where
  "demo_transport = \<lparr>tr_Protocol = [], tr_Mux = False, tr_MuxStreamWindow = 0, tr_PoolCount = 0, tr_TLSEnable = False,
     tr_HeartbeatInterval = 0, tr_HeartbeatTimeout = 0, tr_DialTimeout = 0\<rparr>"

definition demo_upstream :: "string \<Rightarrow> upstream" where
  "demo_upstream name = \<lparr>up_Name = name, up_Kind = [], up_Zone = [], up_TunnelID = [], up_Addr = ''vps.example.com'', up_Port = 0,
     up_Token = ''secret'', up_ClientName = ''home'', up_SocketGID = 0, up_SocketMark = 0, up_Transport = demo_transport\<rparr>"

definition demo_tunnel :: "string \<Rightarrow> string \<Rightarrow> tunnel" where
  "demo_tunnel name server = \<lparr>tu_Name = name, tu_Enabled = True, tu_Type = ''tcp'', tu_LocalIP = ''192.168.1.2'',
     tu_LocalPort = 22, tu_RemotePort = 6022, tu_Domains = [], tu_TLSMode = [], tu_Server = server, tu_CertID = 0,
     tu_ProxyProtocol = [], tu_DownRate = 0, tu_UpRate = 0, tu_Quota = 0\<rparr>"

definition demo_client :: "tunnel list \<Rightarrow> client_config" where
  "demo_client tunnels = \<lparr>cc_Servers = [demo_upstream ''a'', demo_upstream ''b''], cc_ServerAddr = [], cc_ServerPort = 0,
     cc_Token = [], cc_Name = [], cc_Transport = demo_transport, cc_SocketGID = 0, cc_SocketMark = 0, cc_Tunnels = tunnels\<rparr>"

lemmas config_eval = demo_client_def demo_tunnel_def demo_upstream_def demo_transport_def LoadClient_def
  Client_ApplyDefaults_def Client_Validate_def Upstreams_def OrphanTunnels_def Upstream_Validate_def IsCloudflare_def
  Transport_Validate_def Upstream_ApplyDefaults_def Transport_ApplyDefaults_def Tunnel_applyDefaults_def
  Tunnel_Validate_def validatePort_def TunnelType_Valid_def TLSMode_Valid_def ValidProxyProtocol_def
  ProxyProtoNone_def KindCloudflare_def tunnel_consts NeedsRemotePort_def NeedsDomains_def Let_def
  DefaultPoolCount_def DefaultMaxPoolCount_def DefaultHeartbeatInterval_def DefaultHeartbeatTimeout_def
  contains_any_def

theorem config_distributes_tunnels_witness:
  "let c = Client_ApplyDefaults (demo_client [demo_tunnel ''ssh'' [], demo_tunnel ''ssh2'' ''b'']) in
   LoadClient (demo_client [demo_tunnel ''ssh'' [], demo_tunnel ''ssh2'' ''b'']) = Inr c
   \<and> (\<Sum>s\<leftarrow>Upstreams c. mset (TunnelsFor c (up_Name s))) = mset (EnabledTunnels c)"
proof -
  let ?c = "Client_ApplyDefaults (demo_client [demo_tunnel ''ssh'' [], demo_tunnel ''ssh2'' ''b''])"
  have ip: "ParseIP ''192.168.1.2'' \<noteq> None" by code_simp
  have load: "LoadClient (demo_client [demo_tunnel ''ssh'' [], demo_tunnel ''ssh2'' ''b'']) = Inr ?c"
    using ip by (simp add: config_eval trim_space_graphic graphic_def byte_nat_def)
  from config_distributes_tunnels [OF load] load show ?thesis by (simp add: Let_def)
qed

end
