(* ===== verification/Cli_Supervisor.thy ===== *)
theory Cli_Supervisor
  imports Cfg_Config
begin

text \<open>
  Splitting a configuration with several servers into one client per server:
  \<^verbatim>\<open>internal/tunnel/client/supervisor.go\<close>.
\<close>

section \<open>Operations\<close>

datatype supervisor_error = NoServersConfigured | NoneUsable nat

definition NewSupervisor :: "client_config \<Rightarrow> supervisor_error option" where
  "NewSupervisor c = (if Upstreams c = [] then Some NoServersConfigured else None)"

definition scoped_parsed :: "client_config \<Rightarrow> upstream \<Rightarrow> client_config" where
  "scoped_parsed c server =
     \<lparr>cc_Servers = [], cc_ServerAddr = up_Addr server, cc_ServerPort = up_Port server, cc_Token = up_Token server,
      cc_Name = up_ClientName server, cc_Transport = up_Transport server, cc_SocketGID = up_SocketGID server,
      cc_SocketMark = up_SocketMark server,
      cc_Tunnels = map (\<lambda>t. t\<lparr>tu_Server := []\<rparr>) (TunnelsFor c (up_Name server))\<rparr>"

definition scopedConfig :: "client_config \<Rightarrow> upstream \<Rightarrow> config_error + client_config" where
  "scopedConfig c server =
     (let scoped = Client_ApplyDefaults (scoped_parsed c server) in
      case Client_Validate scoped of Some e \<Rightarrow> Inl e | None \<Rightarrow> Inr scoped)"

text \<open>The loop of \<^verbatim>\<open>Run\<close>: the clients it starts, in the order of the servers.\<close>

fun start_clients :: "client_config \<Rightarrow> upstream list \<Rightarrow> (string \<times> client_config) list" where
  "start_clients c [] = []"
| "start_clients c (server # servers) =
     (if IsCloudflare server then start_clients c servers
      else case scopedConfig c server of
        Inl e \<Rightarrow> start_clients c servers
      | Inr scoped \<Rightarrow> (up_Name server, scoped) # start_clients c servers)"

definition Supervisor_Run :: "client_config \<Rightarrow> supervisor_error + (string \<times> client_config) list" where
  "Supervisor_Run c =
     (let started = start_clients c (Upstreams c) in
      if started = [] then Inl (NoneUsable (length (Upstreams c))) else Inr started)"

section \<open>Properties\<close>

lemma Transport_defaults_idem [simp]:
  "Transport_ApplyDefaults (Transport_ApplyDefaults t) = Transport_ApplyDefaults t"
  by (simp add: Transport_ApplyDefaults_def)

text \<open>Each default fills one field; both are read off the tunnel as it was.\<close>

lemma Tunnel_defaults_fields:
  "Tunnel_applyDefaults t =
     t\<lparr>tu_LocalIP := (if tu_LocalIP t = [] then ''127.0.0.1'' else tu_LocalIP t),
       tu_TLSMode := (if tu_TLSMode t \<noteq> [] then tu_TLSMode t
                      else if tu_Type t = TunnelHTTPS then TLSPassthrough else TLSNone)\<rparr>"
proof -
  have "TLSPassthrough \<noteq> []" by (simp add: tunnel_consts)
  then show ?thesis unfolding Tunnel_applyDefaults_def Let_def by (cases "tu_LocalIP t = []") simp_all
qed

lemma Tunnel_defaults_idem [simp]: "Tunnel_applyDefaults (Tunnel_applyDefaults t) = Tunnel_applyDefaults t"
proof -
  have "TLSPassthrough \<noteq> []" "TLSNone \<noteq> []" by (simp_all add: tunnel_consts)
  then show ?thesis by (simp add: Tunnel_defaults_fields)
qed

lemma Tunnel_defaults_server: "Tunnel_applyDefaults (t\<lparr>tu_Server := n\<rparr>) = (Tunnel_applyDefaults t)\<lparr>tu_Server := n\<rparr>"
  by (simp add: Tunnel_defaults_fields)

lemma Tunnel_Validate_server [simp]: "Tunnel_Validate (t\<lparr>tu_Server := n\<rparr>) = Tunnel_Validate t"
  by (cases t) (simp only: Tunnel_Validate_def Let_def tunnel.select_convs tunnel.update_convs)

lemma asks_port_server [simp]: "asks_port (t\<lparr>tu_Server := n\<rparr>) = asks_port t"
  by (simp add: asks_port_def)

lemma loaded_defaults:
  assumes "LoadClient parsed = Inr c"
  shows "Client_Validate c = None" "\<forall>t \<in> set (cc_Tunnels c). Tunnel_applyDefaults t = t"
    "\<forall>s \<in> set (Upstreams c). Transport_ApplyDefaults (up_Transport s) = up_Transport s"
proof -
  have c: "c = Client_ApplyDefaults parsed" and v: "Client_Validate c = None"
    using assms by (auto simp: LoadClient_def Let_def split: option.splits)
  show "Client_Validate c = None" by (rule v)
  show "\<forall>t \<in> set (cc_Tunnels c). Tunnel_applyDefaults t = t" by (auto simp: c Client_ApplyDefaults_def)
  show "\<forall>s \<in> set (Upstreams c). Transport_ApplyDefaults (up_Transport s) = up_Transport s"
    by (auto simp: c Upstreams_def Client_ApplyDefaults_def Upstream_ApplyDefaults_def)
qed

lemma trim_empty [simp]: "trim_space [] = []"
  using trim_space_infix [of "[]"] by auto

lemma scoped_upstreams:
  assumes "Upstream_Validate s = None" "\<not> IsCloudflare s" "Transport_ApplyDefaults (up_Transport s) = up_Transport s"
  obtains u where "Upstreams (Client_ApplyDefaults (scoped_parsed c s)) = [u]" "Upstream_Validate u = None"
    "up_Name u = DefaultUpstreamName"
proof -
  have s: "up_Addr s \<noteq> []" "trim_space (up_Addr s) \<noteq> []" "1 \<le> up_Port s" "up_Port s \<le> 65535"
      "Transport_Validate (up_Transport s) = None"
    using assms(1,2) by (auto simp: Upstream_Validate_def split: if_splits)
  have "trim_space ''server'' \<noteq> []" by (simp add: trim_space_graphic graphic_def byte_nat_def)
  with that s assms(3) show thesis
    by (simp add: Upstreams_def Client_ApplyDefaults_def scoped_parsed_def Upstream_Validate_def IsCloudflare_def
        KindCloudflare_def DefaultUpstreamName_def)
qed

lemma scoped_tunnels:
  assumes "\<forall>t \<in> set (cc_Tunnels c). Tunnel_applyDefaults t = t"
  shows "cc_Tunnels (Client_ApplyDefaults (scoped_parsed c s)) = map (\<lambda>t. t\<lparr>tu_Server := []\<rparr>) (TunnelsFor c (up_Name s))"
  using assms by (auto simp: Client_ApplyDefaults_def scoped_parsed_def Tunnel_defaults_server TunnelsFor_def)

lemma distinct_const_key: "distinct (map (\<lambda>t. (k, f t)) xs) = distinct (map f xs)"
  by (induction xs) auto

text \<open>C19: A server of a configuration that loads is used exactly when no two of its tunnels ask for the
  same remote port. Its client then has precisely the tunnels that belong to it. The check made at
  loading compares ports under the server name as it is written, so a tunnel that names the first
  server and one that leaves the name out pass it, and the whole server is then left out.\<close>

theorem scoped_config_exact:
  assumes "LoadClient parsed = Inr c" "s \<in> set (Upstreams c)" "\<not> IsCloudflare s"
  shows "case scopedConfig c s of
      Inl e \<Rightarrow> \<not> distinct (map tu_RemotePort (filter asks_port (TunnelsFor c (up_Name s))))
    | Inr scoped \<Rightarrow> distinct (map tu_RemotePort (filter asks_port (TunnelsFor c (up_Name s))))
        \<and> cc_Tunnels scoped = map (\<lambda>t. t\<lparr>tu_Server := []\<rparr>) (TunnelsFor c (up_Name s))
        \<and> cc_ServerAddr scoped = up_Addr s \<and> cc_ServerPort scoped = up_Port s \<and> cc_Token scoped = up_Token s"
proof -
  note L = loaded_defaults [OF assms(1)]
  note V = Client_Validate_None [OF L(1)]
  let ?scoped = "Client_ApplyDefaults (scoped_parsed c s)"
  let ?ts = "TunnelsFor c (up_Name s)"
  have s: "Upstream_Validate s = None" "Transport_ApplyDefaults (up_Transport s) = up_Transport s"
    using V(2) L(3) assms(2) by auto
  obtain u where u: "Upstreams ?scoped = [u]" "Upstream_Validate u = None" "up_Name u = DefaultUpstreamName"
    by (rule scoped_upstreams [OF s(1) assms(3) s(2)])
  have ts: "cc_Tunnels ?scoped = map (\<lambda>t. t\<lparr>tu_Server := []\<rparr>) ?ts" by (rule scoped_tunnels [OF L(2)])
  have "OrphanTunnels ?scoped = []" by (simp add: OrphanTunnels_def ts filter_map comp_def)
  then have "Client_Validate ?scoped = validate_tunnels [] Map.empty (map (\<lambda>t. t\<lparr>tu_Server := []\<rparr>) ?ts)"
    using u ts by (simp add: Client_Validate_def)
  moreover have "\<forall>t \<in> set ?ts. Tunnel_Validate t = None" "distinct (map tu_Name ?ts)"
    using V(5) unfolding validate_tunnels_iff by (auto simp: TunnelsFor_def distinct_map_filter)
  ultimately have ok: "Client_Validate ?scoped = None \<longleftrightarrow> distinct (map tu_RemotePort (filter asks_port ?ts))"
    by (simp add: validate_tunnels_iff filter_map comp_def distinct_const_key)
  have port: "up_Port s \<noteq> 0"
    using s(1) assms(3) by (auto simp: Upstream_Validate_def split: if_splits)
  show ?thesis
    using ok ts port by (cases "Client_Validate ?scoped")
      (auto simp: scopedConfig_def Let_def scoped_parsed_def Client_ApplyDefaults_def)
qed

text \<open>Two tunnels for the same port of the first server, one of which leaves the server's name out.\<close>

definition clash_tunnels :: "tunnel list" where
  "clash_tunnels = [demo_tunnel ''ssh'' [], demo_tunnel ''ssh2'' ''a'']"

theorem scoped_config_exact_witness:
  "let c = Client_ApplyDefaults (demo_client clash_tunnels) in
   LoadClient (demo_client clash_tunnels) = Inr c \<and> map up_Name (Upstreams c) = [''a'', ''b'']
   \<and> \<not> is_ok (scopedConfig c (hd (Upstreams c)))"
proof -
  let ?c = "Client_ApplyDefaults (demo_client clash_tunnels)"
  have ip: "ParseIP ''192.168.1.2'' \<noteq> None" by code_simp
  have load: "LoadClient (demo_client clash_tunnels) = Inr ?c"
    using ip by (simp add: clash_tunnels_def config_eval trim_space_graphic graphic_def byte_nat_def)
  have up: "hd (Upstreams ?c) \<in> set (Upstreams ?c)" "\<not> IsCloudflare (hd (Upstreams ?c))" "map up_Name (Upstreams ?c) = [''a'', ''b'']"
    by (simp_all add: config_eval)
  have "\<not> distinct (map tu_RemotePort (filter asks_port (TunnelsFor ?c (up_Name (hd (Upstreams ?c))))))"
    by (simp add: TunnelsFor_def asks_port_def clash_tunnels_def config_eval)
  with scoped_config_exact [OF load up(1,2)] load up(3) show ?thesis
    by (auto simp: Let_def is_ok_def split: sum.splits)
qed

end
