(* ===== verification/Cli_Udp.thy ===== *)
theory Cli_Udp
  imports Proto_Udp Srv_Stats
begin

text \<open>
  The client's end of a UDP tunnel, \<^verbatim>\<open>internal/tunnel/client/udp.go\<close>: one work connection carries the
  datagrams of every visitor, and each visitor gets a socket of its own towards the local service.
  A goroutine per socket, the pump, frames what the service answers with the visitor's address.
\<close>

section \<open>Operations\<close>

text \<open>
  A socket is known by the order in which it was dialled. \<open>ul_dialled\<close> and \<open>ul_local\<close> record what
  happened: the visitor every socket was dialled for, and the datagrams written to the local service
  with the socket that took them and the visitor they came from. A read deadline that passes and a
  socket that is closed both end the pump's read with an error.
\<close>

record udp_link =
  ul_conns :: "(string, nat) gomap"
  ul_open :: "nat list"
  ul_pumps :: "(nat \<times> string) list"
  ul_dialled :: "(nat \<times> string) list"
  ul_local :: "(nat \<times> string \<times> bytes) list"
  ul_work :: writer
  ul_traffic :: stats

definition new_link :: "writer \<Rightarrow> stats \<Rightarrow> udp_link" where
  "new_link w traffic = \<lparr>ul_conns = [], ul_open = [], ul_pumps = [], ul_dialled = [], ul_local = [],
     ul_work = w, ul_traffic = traffic\<rparr>"

definition sockets_get :: "bool \<Rightarrow> udp_link \<Rightarrow> string \<Rightarrow> nat option \<times> udp_link" where
  "sockets_get dials s source =
     (case map_of (ul_conns s) source of
        Some conn \<Rightarrow> (Some conn, s)
      | None \<Rightarrow>
          if \<not> dials then (None, s)
          else let conn = length (ul_dialled s) in
            (Some conn,
             s\<lparr>ul_conns := AList.update source conn (ul_conns s), ul_open := conn # ul_open s,
               ul_pumps := (conn, source) # ul_pumps s, ul_dialled := ul_dialled s @ [(conn, source)]\<rparr>))"

definition sockets_drop :: "udp_link \<Rightarrow> string \<Rightarrow> udp_link" where
  "sockets_drop s source =
     (case map_of (ul_conns s) source of
        Some conn \<Rightarrow> s\<lparr>ul_open := remove1 conn (ul_open s), ul_conns := AList.delete source (ul_conns s)\<rparr>
      | None \<Rightarrow> s)"

fun close_conns :: "(string \<times> nat) list \<Rightarrow> udp_link \<Rightarrow> udp_link" where
  "close_conns [] s = s"
| "close_conns ((source, conn) # rest) s =
     close_conns rest (s\<lparr>ul_open := remove1 conn (ul_open s), ul_conns := AList.delete source (ul_conns s)\<rparr>)"

definition closeAll :: "udp_link \<Rightarrow> udp_link" where
  "closeAll s = close_conns (ul_conns s) s"

text \<open>One turn of the pump: its read fails, or delivers a datagram of the local service.\<close>

definition pump_stop :: "nat \<times> string \<Rightarrow> udp_link \<Rightarrow> udp_link" where
  "pump_stop p s = (let s = sockets_drop s (snd p) in s\<lparr>ul_pumps := remove1 p (ul_pumps s)\<rparr>)"

definition pump_data :: "int \<Rightarrow> string \<Rightarrow> nat \<times> string \<Rightarrow> bytes \<Rightarrow> udp_link \<Rightarrow> udp_link" where
  "pump_data now proxyName p payload s =
     (case WriteUDPPacket (ul_work s) \<lparr>up_Addr = snd p, up_Payload = payload\<rparr> of
        (Some e, w) \<Rightarrow> pump_stop p (s\<lparr>ul_work := w\<rparr>)
      | (None, w) \<Rightarrow>
          s\<lparr>ul_work := w, ul_traffic := RecordTransfer now (ul_traffic s) proxyName 0 (int (length payload)) False\<rparr>)"

text \<open>One turn of \<^verbatim>\<open>forwardUDP\<close> with a datagram that was read, and its loop. \<open>io k\<close> says whether a
  socket can be dialled and whether the local write succeeds in turn \<open>k\<close>. Every turn takes a frame
  off the stream, so as many turns as there are bytes, and one to see the end, are enough.\<close>

definition forward_turn :: "bool \<times> bool \<Rightarrow> int \<Rightarrow> string \<Rightarrow> udp_link \<Rightarrow> string \<Rightarrow> bytes \<Rightarrow> udp_link" where
  "forward_turn io now proxyName s addr payload =
     (case sockets_get (fst io) s addr of
        (None, s) \<Rightarrow> s
      | (Some conn, s) \<Rightarrow>
          if \<not> snd io then sockets_drop s addr
          else s\<lparr>ul_local := ul_local s @ [(conn, addr, payload)],
                 ul_traffic := RecordTransfer now (ul_traffic s) proxyName (int (length payload)) 0 False\<rparr>)"

fun forward_loop :: "(nat \<Rightarrow> bool \<times> bool) \<Rightarrow> (nat \<Rightarrow> int) \<Rightarrow> string \<Rightarrow> nat \<Rightarrow> nat \<Rightarrow> reader \<Rightarrow> udp_link
    \<Rightarrow> (udp_error \<times> udp_link) option" where
  "forward_loop io clock proxyName 0 k r s = None"
| "forward_loop io clock proxyName (Suc fuel) k r s =
     (case ReadUDPPacketInto MaxUDPFrame r of
        (Inl e, _) \<Rightarrow> Some (e, s)
      | (Inr (addr, payload), r') \<Rightarrow>
          forward_loop io clock proxyName fuel (Suc k) r' (forward_turn (io k) (clock k) proxyName s addr payload))"

definition forwardUDP :: "(nat \<Rightarrow> bool \<times> bool) \<Rightarrow> (nat \<Rightarrow> int) \<Rightarrow> string \<Rightarrow> reader \<Rightarrow> udp_link
    \<Rightarrow> (udp_error \<times> udp_link) option" where
  "forwardUDP io clock proxyName r s =
     map_option (\<lambda>(e, s). (e, closeAll s))
       (forward_loop io clock proxyName (Suc (length (reader_data r))) 0 r s)"

text \<open>Any interleaving of the loop's turns with the pumps'.\<close>

inductive udp_step :: "string \<Rightarrow> udp_link \<Rightarrow> udp_link \<Rightarrow> bool" for proxyName where
  datagram: "udp_step proxyName s (forward_turn io now proxyName s addr payload)"
| reply: "p \<in> set (ul_pumps s) \<Longrightarrow> udp_step proxyName s (pump_data now proxyName p payload s)"
| stops: "p \<in> set (ul_pumps s) \<Longrightarrow> udp_step proxyName s (pump_stop p s)"

inductive udp_reach :: "string \<Rightarrow> udp_link \<Rightarrow> bool" for proxyName where
  start: "udp_reach proxyName (new_link w traffic)"
| step: "udp_reach proxyName s \<Longrightarrow> udp_step proxyName s s' \<Longrightarrow> udp_reach proxyName s'"

section \<open>The sockets and their visitors\<close>

definition link_ok :: "udp_link \<Rightarrow> bool" where
  "link_ok s \<longleftrightarrow> gomap_ok (ul_conns s) \<and> map fst (ul_dialled s) = [0..<length (ul_dialled s)]
     \<and> (\<forall>source conn. map_of (ul_conns s) source = Some conn \<longrightarrow> (conn, source) \<in> set (ul_dialled s))
     \<and> distinct (ul_open s) \<and> (\<forall>conn. conn \<in> set (ul_open s) \<longleftrightarrow> (\<exists>source. map_of (ul_conns s) source = Some conn))
     \<and> set (ul_pumps s) \<subseteq> set (ul_dialled s) \<and> distinct (ul_pumps s)
     \<and> (\<forall>source conn. map_of (ul_conns s) source = Some conn \<longrightarrow> (conn, source) \<in> set (ul_pumps s))
     \<and> (\<forall>(conn, addr, payload) \<in> set (ul_local s). (conn, addr) \<in> set (ul_dialled s))"

lemma link_okD:
  assumes "link_ok s"
  shows "gomap_ok (ul_conns s)" "map fst (ul_dialled s) = [0..<length (ul_dialled s)]"
    "map_of (ul_conns s) source = Some conn \<Longrightarrow> (conn, source) \<in> set (ul_dialled s)"
    "distinct (ul_open s)" "conn \<in> set (ul_open s) \<longleftrightarrow> (\<exists>source. map_of (ul_conns s) source = Some conn)"
    "set (ul_pumps s) \<subseteq> set (ul_dialled s)" "distinct (ul_pumps s)"
    "map_of (ul_conns s) source = Some conn \<Longrightarrow> (conn, source) \<in> set (ul_pumps s)"
    "(conn, addr, payload) \<in> set (ul_local s) \<Longrightarrow> (conn, addr) \<in> set (ul_dialled s)"
  using assms unfolding link_ok_def by blast+

text \<open>A socket was dialled for one visitor only.\<close>

lemma dialled_once: "link_ok s \<Longrightarrow> (conn, a) \<in> set (ul_dialled s) \<Longrightarrow> (conn, b) \<in> set (ul_dialled s) \<Longrightarrow> a = b"
  by (metis distinct_upt eq_key_imp_eq_value link_okD(2))

lemma dialled_below: "link_ok s \<Longrightarrow> (conn, a) \<in> set (ul_dialled s) \<Longrightarrow> conn < length (ul_dialled s)"
  by (metis atLeastLessThan_iff image_eqI link_okD(2) list.set_map fst_conv set_upt)

lemma one_socket_each:
  "link_ok s \<Longrightarrow> map_of (ul_conns s) a = Some conn \<Longrightarrow> map_of (ul_conns s) b = Some conn \<Longrightarrow> a = b"
  by (meson dialled_once link_okD(3))

lemma link_ok_new: "link_ok (new_link w traffic)"
  by (simp add: link_ok_def new_link_def)

lemma link_ok_work [simp]: "link_ok (s\<lparr>ul_work := w\<rparr>) = link_ok s" "link_ok (s\<lparr>ul_traffic := r\<rparr>) = link_ok s"
  by (simp_all add: link_ok_def)

lemma link_ok_dial:
  assumes "link_ok s" "map_of (ul_conns s) source = None"
  shows "link_ok (s\<lparr>ul_conns := AList.update source (length (ul_dialled s)) (ul_conns s),
    ul_open := length (ul_dialled s) # ul_open s, ul_pumps := (length (ul_dialled s), source) # ul_pumps s,
    ul_dialled := ul_dialled s @ [(length (ul_dialled s), source)]\<rparr>)" (is "link_ok ?s")
proof -
  note I = link_okD [OF assms(1)]
  have fresh: "(length (ul_dialled s), a) \<notin> set (ul_dialled s)" for a
    using dialled_below [OF assms(1)] by blast
  have "length (ul_dialled s) \<notin> set (ul_open s)" unfolding I(5) using I(3) fresh by blast
  moreover have "(\<exists>k. ((map_of (ul_conns s))(source \<mapsto> n)) k = Some conn)
      \<longleftrightarrow> conn = n \<or> (\<exists>k. map_of (ul_conns s) k = Some conn)" for n conn
    using assms(2) by (metis fun_upd_apply option.distinct(1) option.inject)
  moreover have "(length (ul_dialled s), source) \<notin> set (ul_pumps s)" using I(6) fresh by blast
  ultimately show ?thesis
    unfolding link_ok_def using I(1,2,4,6,7) I(3) I(5) I(8) I(9) by (auto split: if_splits)
qed

lemma sockets_get_ok: "link_ok s \<Longrightarrow> link_ok (snd (sockets_get dials s source))"
  by (simp add: sockets_get_def Let_def link_ok_dial split: option.splits)

lemma sockets_get_conn:
  assumes "link_ok s" "sockets_get dials s source = (Some conn, s')"
  shows "map_of (ul_conns s') source = Some conn" "(conn, source) \<in> set (ul_dialled s')"
    "ul_local s' = ul_local s" "ul_work s' = ul_work s" "ul_traffic s' = ul_traffic s"
  using assms link_okD(3) [OF assms(1)] by (auto simp: sockets_get_def Let_def split: option.splits if_splits)

lemma link_ok_forget:
  assumes "link_ok s" "map_of (ul_conns s) source = Some conn"
  shows "link_ok (s\<lparr>ul_open := remove1 conn (ul_open s), ul_conns := AList.delete source (ul_conns s)\<rparr>)" (is "link_ok ?s")
proof -
  note I = link_okD [OF assms(1)]
  have "(\<exists>k. ((map_of (ul_conns s))(source := None)) k = Some c)
      \<longleftrightarrow> c \<noteq> conn \<and> (\<exists>k. map_of (ul_conns s) k = Some c)" for c
    using one_socket_each [OF assms(1) _ assms(2)] assms(2) by (metis fun_upd_apply option.distinct(1) option.inject)
  then have "c \<in> set (ul_open ?s) \<longleftrightarrow> (\<exists>k. map_of (ul_conns ?s) k = Some c)" for c
    using I(4) I(5) [of c] by auto
  moreover have "gomap_ok (ul_conns ?s)" "distinct (ul_open ?s)" using I(1,4) by simp_all
  moreover have "map_of (ul_conns s) k = Some c" if "map_of (ul_conns ?s) k = Some c" for k c
    using that by (simp split: if_splits)
  ultimately show ?thesis
    unfolding link_ok_def using I(2,6,7) I(3) I(8) I(9) by auto
qed

lemma sockets_drop_ok: "link_ok s \<Longrightarrow> link_ok (sockets_drop s source)"
  by (simp add: sockets_drop_def link_ok_forget split: option.splits)

lemma sockets_drop_gone: "map_of (ul_conns (sockets_drop s source)) source = None"
  by (simp add: sockets_drop_def split: option.splits)

lemma sockets_drop_frame:
  "ul_pumps (sockets_drop s source) = ul_pumps s" "ul_dialled (sockets_drop s source) = ul_dialled s"
  "ul_local (sockets_drop s source) = ul_local s" "ul_work (sockets_drop s source) = ul_work s"
  "ul_traffic (sockets_drop s source) = ul_traffic s"
  by (simp_all add: sockets_drop_def split: option.splits)

lemma pump_stop_ok: "link_ok s \<Longrightarrow> p \<in> set (ul_pumps s) \<Longrightarrow> link_ok (pump_stop p s)"
proof -
  assume s: "link_ok s" and p: "p \<in> set (ul_pumps s)"
  let ?s = "sockets_drop s (snd p)"
  note I = link_okD [OF sockets_drop_ok [OF s, of "snd p"]]
  have "(conn, source) \<noteq> p" if "map_of (ul_conns ?s) source = Some conn" for source conn
    using that sockets_drop_gone [of s "snd p"] by auto
  with I(8) have "(conn, source) \<in> set (remove1 p (ul_pumps ?s))" if "map_of (ul_conns ?s) source = Some conn" for source conn
    using that I(7) by auto
  then show ?thesis
    unfolding link_ok_def pump_stop_def Let_def using I(1,2,4,5,6,7) I(3) I(9) by auto
qed

lemma pump_data_ok:
  assumes "link_ok s" "p \<in> set (ul_pumps s)"
  shows "link_ok (pump_data now proxyName p payload s)"
  using assms pump_stop_ok [of "s\<lparr>ul_work := w\<rparr>" p for w] by (simp add: pump_data_def split: prod.splits option.splits)

lemma forward_turn_ok:
  assumes "link_ok s"
  shows "link_ok (forward_turn io now proxyName s addr payload)"
proof (cases "sockets_get (fst io) s addr")
  case (Pair conn s')
  have s': "link_ok s'" using sockets_get_ok [OF assms] Pair by (metis snd_conv)
  show ?thesis
  proof (cases conn)
    case None
    with Pair s' show ?thesis by (simp add: forward_turn_def)
  next
    case (Some c)
    have "(c, addr) \<in> set (ul_dialled s')" using sockets_get_conn(2) [OF assms] Pair Some by blast
    with s' have "link_ok (s'\<lparr>ul_local := ul_local s' @ [(c, addr, payload)]\<rparr>)"
      by (auto simp: link_ok_def)
    then have "link_ok (s'\<lparr>ul_local := ul_local s' @ [(c, addr, payload)], ul_traffic := r\<rparr>)" for r
      by (simp add: link_ok_def)
    with Pair Some s' sockets_drop_ok [OF s'] show ?thesis by (simp add: forward_turn_def)
  qed
qed

lemma reach_ok: "udp_reach proxyName s \<Longrightarrow> link_ok s"
proof (induction rule: udp_reach.induct)
  case (start w traffic)
  show ?case by (rule link_ok_new)
next
  case (step s s')
  from step.hyps(2) step.IH show ?case
    by (cases rule: udp_step.cases) (auto intro: forward_turn_ok pump_data_ok pump_stop_ok)
qed

lemma close_conns_exact:
  assumes "gomap_ok (ul_conns s)" "distinct (ul_open s)"
    "\<forall>c. c \<in> set (ul_open s) \<longleftrightarrow> (\<exists>k. (k, c) \<in> set cs)" "set (ul_conns s) = set cs" "distinct (map fst cs)"
    "inj_on snd (set cs)"
  shows "ul_open (close_conns cs s) = [] \<and> ul_conns (close_conns cs s) = [] \<and> ul_local (close_conns cs s) = ul_local s
    \<and> ul_work (close_conns cs s) = ul_work s \<and> ul_traffic (close_conns cs s) = ul_traffic s"
  using assms
proof (induction cs arbitrary: s)
  case Nil
  then show ?case by simp
next
  case (Cons e cs)
  obtain k c where e: "e = (k, c)" by (cases e)
  let ?s = "s\<lparr>ul_open := remove1 c (ul_open s), ul_conns := AList.delete k (ul_conns s)\<rparr>"
  have k: "\<forall>x. (k, x) \<notin> set cs" using Cons.prems(5) e by (auto simp: image_iff)
  have c: "\<forall>x. (x, c) \<notin> set cs"
  proof (rule allI, rule notI)
    fix x assume x: "(x, c) \<in> set cs"
    then have "(x, c) = (k, c)" using inj_onD [OF Cons.prems(6), of "(x, c)" "(k, c)"] e by simp
    with k x show False by simp
  qed
  have 1: "\<forall>x. x \<in> set (ul_open ?s) \<longleftrightarrow> (\<exists>k. (k, x) \<in> set cs)"
  proof
    fix x
    have "x \<in> set (ul_open ?s) \<longleftrightarrow> x \<in> set (ul_open s) \<and> x \<noteq> c" using Cons.prems(2) by auto
    then show "x \<in> set (ul_open ?s) \<longleftrightarrow> (\<exists>k. (k, x) \<in> set cs)" using Cons.prems(3) c e by auto
  qed
  have 2: "set (ul_conns ?s) = set cs" using Cons.prems(4) k e by (auto simp: AList.delete_eq)
  have "gomap_ok (ul_conns ?s)" "distinct (ul_open ?s)" "distinct (map fst cs)" "inj_on snd (set cs)"
    using Cons.prems by auto
  from Cons.IH [OF this(1,2) 1 2 this(3,4)] show ?case using e by simp
qed

lemma closeAll_exact:
  assumes "link_ok s"
  shows "ul_open (closeAll s) = [] \<and> ul_conns (closeAll s) = [] \<and> ul_local (closeAll s) = ul_local s
    \<and> ul_work (closeAll s) = ul_work s \<and> ul_traffic (closeAll s) = ul_traffic s"
proof -
  note I = link_okD [OF assms]
  have mem: "(k, c) \<in> set (ul_conns s) \<longleftrightarrow> map_of (ul_conns s) k = Some c" for k c
    using I(1) by (simp add: gomap_ok_def)
  have "inj_on snd (set (ul_conns s))"
    by (rule inj_onI) (metis mem one_socket_each [OF assms] prod.collapse)
  moreover have "\<forall>c. c \<in> set (ul_open s) \<longleftrightarrow> (\<exists>k. (k, c) \<in> set (ul_conns s))" by (simp add: mem I(5))
  ultimately show ?thesis
    unfolding closeAll_def using close_conns_exact [OF I(1,4), of "ul_conns s"] I(1) by (simp add: gomap_ok_def)
qed

section \<open>Properties\<close>

text \<open>C23: A reply reaches the visitor it answers, and no socket is left behind. Whatever order the
  datagrams of any visitors, the answers of the local service and the failures come in, every
  datagram a socket has carried to the service came from the one visitor whose address its pump
  puts on the answers, the open sockets are those the forwarder still finds by their visitor, each
  with a pump of its own, and when the work connection ends all of them are closed.\<close>

theorem udp_reply_goes_home:
  assumes "udp_reach proxyName s" "(conn, source) \<in> set (ul_pumps s)" "length payload \<le> MaxUDPPayload"
    "length source \<le> maxUDPAddr"
  shows "(\<forall>addr sent. (conn, addr, sent) \<in> set (ul_local s) \<longrightarrow> addr = source)
    \<and> ul_work (pump_data now proxyName (conn, source) payload s)
      = snd (write_bytes (ul_work s) (udp_frame source payload))
    \<and> set (ul_open s) = ran (map_of (ul_conns s)) \<and> set (ul_open s) \<subseteq> fst ` set (ul_pumps s)
    \<and> ul_open (closeAll s) = [] \<and> ul_conns (closeAll s) = []"
proof -
  have ok: "link_ok s" by (rule reach_ok [OF assms(1)])
  note I = link_okD [OF ok]
  have "(conn, source) \<in> set (ul_dialled s)" using I(6) assms(2) by blast
  then have "\<forall>addr sent. (conn, addr, sent) \<in> set (ul_local s) \<longrightarrow> addr = source"
    using I(9) dialled_once [OF ok] by blast
  moreover have "ul_work (pump_data now proxyName (conn, source) payload s)
      = snd (write_bytes (ul_work s) (udp_frame source payload))"
    using AppendUDPPacket_ok [of source payload "[]"] assms(3,4)
    by (auto simp: pump_data_def WriteUDPPacket_def udp_ok_def pump_stop_def sockets_drop_frame Let_def
        split: prod.splits option.splits)
  moreover have "set (ul_open s) = ran (map_of (ul_conns s))" using I(5) by (auto simp: ran_def)
  moreover have "set (ul_open s) \<subseteq> fst ` set (ul_pumps s)" using I(5,8) by force
  ultimately show ?thesis using closeAll_exact [OF ok] by simp
qed

text \<open>A link that has carried one datagram of one visitor.\<close>

definition demo_link :: udp_link where
  "demo_link = forward_turn (True, True) 0 ''dns'' (new_link \<lparr>w_out = [], w_script = []\<rparr> []) ''1.2.3.4:5'' ''q''"

lemma demo_link_facts:
  "udp_reach ''dns'' demo_link" "ul_pumps demo_link = [(0, ''1.2.3.4:5'')]" "ul_conns demo_link = [(''1.2.3.4:5'', 0)]"
  "ul_local demo_link = [(0, ''1.2.3.4:5'', ''q'')]" "ul_work demo_link = \<lparr>w_out = [], w_script = []\<rparr>"
  unfolding demo_link_def
  by (rule udp_reach.step [OF udp_reach.start udp_step.datagram])
    (simp_all add: forward_turn_def sockets_get_def new_link_def Let_def)

theorem udp_reply_goes_home_witness:
  "udp_reach ''dns'' demo_link
   \<and> ul_work (pump_data 0 ''dns'' (0, ''1.2.3.4:5'') ''answer'' demo_link)
     = snd (write_bytes (ul_work demo_link) (udp_frame ''1.2.3.4:5'' ''answer''))
   \<and> ul_open (closeAll demo_link) = []"
  using udp_reply_goes_home [OF demo_link_facts(1), of 0 "''1.2.3.4:5''" "''answer''" 0] demo_link_facts
  by (simp add: udp_consts)

lemma forward_turn_delivers:
  assumes "fst io"
  shows "map snd (ul_local (forward_turn io now name s a p))
      = map snd (ul_local s) @ (if snd io then [(a, p)] else [])
    \<and> ul_work (forward_turn io now name s a p) = ul_work s
    \<and> stats_in (ul_traffic (forward_turn io now name s a p)) name
      = (if snd io then i64_wrap (stats_in (ul_traffic s) name + int (length p)) else stats_in (ul_traffic s) name)
    \<and> stats_conns (ul_traffic (forward_turn io now name s a p)) name
      = (if snd io then i64_wrap (stats_conns (ul_traffic s) name + 1) else stats_conns (ul_traffic s) name)"
  using assms st.progress_same [of now "ul_traffic s" name "int (length p)" 0] st.finish_same [of now _ name False]
  by (auto simp: forward_turn_def sockets_get_def sockets_drop_def RecordTransfer_def Let_def split: option.splits)

lemma ReadUDPPacketInto_end:
  assumes "clean r" "reader_data r = []"
  shows "\<exists>r'. ReadUDPPacketInto MaxUDPFrame r = (Inl UdpEOF, r')"
proof -
  obtain d r' where "read_full udpHeaderSize r = (d, Some EOF, r')"
    using clean_read_full_short [OF assms(1), of udpHeaderSize] assms(2)
    by (cases "read_full udpHeaderSize r") (auto simp: udp_consts)
  then show ?thesis by (simp add: ReadUDPPacketInto_def)
qed

text \<open>The datagrams whose local write succeeded, counted from turn \<open>k\<close>.\<close>

definition accepted :: "(nat \<Rightarrow> bool \<times> bool) \<Rightarrow> nat \<Rightarrow> (string \<times> bytes) list \<Rightarrow> (string \<times> bytes) list" where
  "accepted io k ps = map snd (filter (\<lambda>(i, _). snd (io i)) (enumerate k ps))"

lemma forward_loop_delivers:
  assumes "clean r" "reader_data r = concat (map (\<lambda>(a, p). udp_frame a p) ps)" "list_all (\<lambda>(a, p). udp_ok a p) ps"
    "length ps < fuel" "link_ok s" "\<forall>k. fst (io k)"
  shows "\<exists>s'. forward_loop io clock name fuel k r s = Some (UdpEOF, s') \<and> link_ok s' \<and> ul_work s' = ul_work s
    \<and> map snd (ul_local s') = map snd (ul_local s) @ accepted io k ps
    \<and> stats_in (ul_traffic s') name
      = i64_wrap (stats_in (ul_traffic s) name + (\<Sum>(a, p)\<leftarrow>accepted io k ps. int (length p)))
    \<and> stats_conns (ul_traffic s') name
      = i64_wrap (stats_conns (ul_traffic s) name + int (length (accepted io k ps)))"
  using assms
proof (induction ps arbitrary: fuel k r s)
  case Nil
  from Nil.prems(4) obtain f where f: "fuel = Suc f" by (cases fuel) auto
  obtain r' where r': "ReadUDPPacketInto MaxUDPFrame r = (Inl UdpEOF, r')"
    using ReadUDPPacketInto_end Nil.prems(1,2) by auto
  have "stats_conns (ul_traffic s) name = i64_wrap (stats_conns (ul_traffic s) name)" by (simp add: stats_conns_def)
  with r' f Nil.prems(5) show ?case by (simp add: accepted_def stats_in_def)
next
  case (Cons q ps)
  obtain a p where q: "q = (a, p)" by (cases q)
  obtain f where f: "fuel = Suc f" using Cons.prems(4) by (cases fuel) auto
  obtain r' where r': "ReadUDPPacketInto MaxUDPFrame r = (Inr (a, p), r')" "clean r'"
    "reader_data r' = concat (map (\<lambda>(a, p). udp_frame a p) ps)"
    using ReadUDPPacketInto_frame [of r a p "concat (map (\<lambda>(a, p). udp_frame a p) ps)"] Cons.prems q by auto
  let ?s = "forward_turn (io k) (clock k) name s a p"
  have turn: "ul_work ?s = ul_work s" "map snd (ul_local ?s) = map snd (ul_local s) @ (if snd (io k) then [(a, p)] else [])"
    "stats_in (ul_traffic ?s) name
      = (if snd (io k) then i64_wrap (stats_in (ul_traffic s) name + int (length p)) else stats_in (ul_traffic s) name)"
    "stats_conns (ul_traffic ?s) name
      = (if snd (io k) then i64_wrap (stats_conns (ul_traffic s) name + 1) else stats_conns (ul_traffic s) name)"
    using forward_turn_delivers [of "io k" "clock k" name s a p] Cons.prems(6) by simp_all
  have "list_all (\<lambda>(a, p). udp_ok a p) ps" "length ps < f" using Cons.prems(3,4) f by auto
  from Cons.IH [OF r'(2,3) this forward_turn_ok [OF Cons.prems(5)] Cons.prems(6)]
  obtain s' where s': "forward_loop io clock name f (Suc k) r' ?s = Some (UdpEOF, s')" "link_ok s'" "ul_work s' = ul_work ?s"
    "map snd (ul_local s') = map snd (ul_local ?s) @ accepted io (Suc k) ps"
    "stats_in (ul_traffic s') name
      = i64_wrap (stats_in (ul_traffic ?s) name + (\<Sum>(a, p)\<leftarrow>accepted io (Suc k) ps. int (length p)))"
    "stats_conns (ul_traffic s') name
      = i64_wrap (stats_conns (ul_traffic ?s) name + int (length (accepted io (Suc k) ps)))"
    by metis
  have "accepted io k (q # ps) = (if snd (io k) then [(a, p)] else []) @ accepted io (Suc k) ps"
    by (simp add: accepted_def q)
  with s' turn r'(1) f show ?case by (simp add: add.assoc)
qed

text \<open>Datagrams reach the local service in the order the server sent them. Whatever well-formed
  packets are framed onto the work connection, however the stream is cut, the forwarder hands every
  one of them to the local service, unchanged and in order, except those whose own write fails: a
  failure costs that datagram only. When the stream ends it returns with no socket open, and the
  tunnel has been charged the payloads that were delivered, one connection for each.\<close>

theorem udp_forward_delivers:
  assumes "clean r" "reader_data r = append_all [] ps" "list_all (\<lambda>(a, p). udp_ok a p) ps" "\<forall>k. fst (io k)"
  shows "\<exists>s'. forwardUDP io clock name r (new_link w traffic) = Some (UdpEOF, s')
    \<and> map snd (ul_local s') = accepted io 0 ps \<and> ul_open s' = [] \<and> ul_work s' = w
    \<and> stats_in (ul_traffic s') name
      = i64_wrap (stats_in traffic name + (\<Sum>(a, p)\<leftarrow>accepted io 0 ps. int (length p)))
    \<and> stats_conns (ul_traffic s') name = i64_wrap (stats_conns traffic name + int (length (accepted io 0 ps)))"
proof -
  have data: "reader_data r = concat (map (\<lambda>(a, p). udp_frame a p) ps)"
    using append_all_frames [OF assms(3), of "[]"] assms(2) by simp
  have "length ps \<le> length (concat (map (\<lambda>(a, p). udp_frame a p) ps))"
    by (induction ps) (auto simp: udp_frame_def)
  then have "length ps < Suc (length (reader_data r))" using data by simp
  from forward_loop_delivers [OF assms(1) data assms(3) this link_ok_new assms(4)]
  obtain s' where s': "forward_loop io clock name (Suc (length (reader_data r))) 0 r (new_link w traffic) = Some (UdpEOF, s')"
    "link_ok s'" "ul_work s' = ul_work (new_link w traffic)"
    "map snd (ul_local s') = map snd (ul_local (new_link w traffic)) @ accepted io 0 ps"
    "stats_in (ul_traffic s') name = i64_wrap (stats_in (ul_traffic (new_link w traffic)) name
      + (\<Sum>(a, p)\<leftarrow>accepted io 0 ps. int (length p)))"
    "stats_conns (ul_traffic s') name = i64_wrap (stats_conns (ul_traffic (new_link w traffic)) name
      + int (length (accepted io 0 ps)))"
    by blast
  then show ?thesis
    using closeAll_exact [OF s'(2)] by (simp add: forwardUDP_def new_link_def)
qed

theorem udp_forward_delivers_witness:
  "\<exists>s'. forwardUDP (\<lambda>k. (True, k \<noteq> 1)) (\<lambda>_. 0) ''dns''
      (byte_chunks (append_all [] [(''1.2.3.4:5'', ''a''), (''6.7.8.9:1'', ''b''), (''1.2.3.4:5'', ''c'')]))
      (new_link \<lparr>w_out = [], w_script = []\<rparr> []) = Some (UdpEOF, s')
    \<and> map snd (ul_local s') = [(''1.2.3.4:5'', ''a''), (''1.2.3.4:5'', ''c'')] \<and> ul_open s' = []
    \<and> stats_in (ul_traffic s') ''dns'' = 2"
proof -
  let ?ps = "[(''1.2.3.4:5'', ''a''), (''6.7.8.9:1'', ''b''), (''1.2.3.4:5'', ''c'')]"
  have acc: "accepted (\<lambda>k. (True, k \<noteq> 1)) 0 ?ps = [(''1.2.3.4:5'', ''a''), (''1.2.3.4:5'', ''c'')]"
    by (simp add: accepted_def)
  have ok: "list_all (\<lambda>(a, p). udp_ok a p) ?ps" by (simp add: udp_ok_def udp_consts)
  have 0: "i64_wrap (stats_in [] ''dns'' + 2) = 2"
    by (simp add: stats_in_def counters_of_def zeroCounters_def i64_wrap_def)
  have all: "\<forall>k::nat. fst (True, k \<noteq> 1)" by simp
  obtain s' where s': "forwardUDP (\<lambda>k. (True, k \<noteq> 1)) (\<lambda>_. 0) ''dns'' (byte_chunks (append_all [] ?ps))
      (new_link \<lparr>w_out = [], w_script = []\<rparr> []) = Some (UdpEOF, s')"
    "map snd (ul_local s') = accepted (\<lambda>k. (True, k \<noteq> 1)) 0 ?ps" "ul_open s' = []"
    "stats_in (ul_traffic s') ''dns'' = i64_wrap (stats_in [] ''dns''
      + (\<Sum>(a, p)\<leftarrow>accepted (\<lambda>k. (True, k \<noteq> 1)) 0 ?ps. int (length p)))"
    using udp_forward_delivers [OF byte_chunks_facts(1) byte_chunks_facts(2) ok all] by blast
  have "stats_in (ul_traffic s') ''dns'' = 2" using s'(4) unfolding acc by (simp add: 0)
  with s'(1-3) show ?thesis unfolding acc by (intro exI [of _ s'] conjI)
qed

text \<open>Every frame that is read takes at least its header off the stream.\<close>

lemma ReadUDPPacketInto_takes:
  assumes "ReadUDPPacketInto n r = (Inr x, r')"
  shows "length (reader_data r') < length (reader_data r)"
proof -
  obtain hdr r1 where 1: "read_full udpHeaderSize r = (hdr, None, r1)"
    using assms by (auto simp: ReadUDPPacketInto_def split: if_splits prod.splits option.splits)
  have "reader_data r = hdr @ reader_data r1" "length hdr = 3"
    using read_full_data [OF 1] read_full_length [OF 1] by (simp_all add: udp_consts)
  moreover have "length (reader_data r') \<le> length (reader_data r1)"
    using assms 1 by (auto simp: ReadUDPPacketInto_def Let_def dest!: read_full_data split: if_splits prod.splits option.splits)
  ultimately show ?thesis by simp
qed

lemma forward_loop_returns:
  "length (reader_data r) < fuel \<Longrightarrow> link_ok s
    \<Longrightarrow> \<exists>e s'. forward_loop io clock name fuel k r s = Some (e, s') \<and> link_ok s'"
proof (induction fuel arbitrary: k r s)
  case 0
  then show ?case by simp
next
  case (Suc fuel)
  show ?case
  proof (cases "ReadUDPPacketInto MaxUDPFrame r")
    case (Pair res r')
    show ?thesis
    proof (cases res)
      case (Inl e)
      with Pair Suc.prems(2) show ?thesis by simp
    next
      case (Inr x)
      obtain a p where x: "x = (a, p)" by (cases x)
      have "length (reader_data r') < fuel" using ReadUDPPacketInto_takes Pair Inr Suc.prems(1) by fastforce
      from Suc.IH [OF this forward_turn_ok [OF Suc.prems(2)]] Pair Inr x show ?thesis by simp
    qed
  qed
qed

text \<open>C24: The forwarder of a UDP tunnel always returns. Whatever bytes the server sends, broken or
  not, in pieces of whatever sizes, and whichever sockets cannot be dialled or written, the loop ends
  with the stream and leaves no socket open and none in its map.\<close>

theorem udp_forward_returns:
  "\<exists>e s'. forwardUDP io clock name r (new_link w traffic) = Some (e, s') \<and> ul_open s' = [] \<and> ul_conns s' = []"
proof -
  obtain e s' where "forward_loop io clock name (Suc (length (reader_data r))) 0 r (new_link w traffic) = Some (e, s')"
    "link_ok s'"
    using forward_loop_returns [OF lessI link_ok_new] by metis
  with closeAll_exact [of s'] show ?thesis by (simp add: forwardUDP_def)
qed

text \<open>A pump that ends late closes its visitor's new socket. When a write to the local service
  fails, the visitor's socket is closed and forgotten, and the next datagram dials another. The old
  socket's pump then sees its read fail and drops the visitor by address, so that the socket just
  dialled is closed while answers to the datagram it carried are still to come.\<close>

theorem stale_pump_drops_newer:
  assumes "udp_reach name s" "map_of (ul_conns s) source = Some old"
    and "s1 = forward_turn (True, False) now name s source p1"
    and "s2 = forward_turn (True, True) now' name s1 source p2"
  shows "\<exists>new. new \<noteq> old \<and> map_of (ul_conns s2) source = Some new \<and> new \<in> set (ul_open s2)
    \<and> (new, source, p2) \<in> set (ul_local s2) \<and> (old, source) \<in> set (ul_pumps s2)
    \<and> new \<notin> set (ul_open (pump_stop (old, source) s2))
    \<and> map_of (ul_conns (pump_stop (old, source) s2)) source = None"
proof -
  have ok: "link_ok s" by (rule reach_ok [OF assms(1)])
  note I = link_okD [OF ok]
  let ?new = "length (ul_dialled s)"
  have s1: "s1 = s\<lparr>ul_open := remove1 old (ul_open s), ul_conns := AList.delete source (ul_conns s)\<rparr>"
    using assms(2,3) by (simp add: forward_turn_def sockets_get_def sockets_drop_def)
  have ok1: "link_ok s1" unfolding assms(3) by (rule forward_turn_ok [OF ok])
  have ok2: "link_ok s2" unfolding assms(4) by (rule forward_turn_ok [OF ok1])
  have s2: "map_of (ul_conns s2) source = Some ?new" "(?new, source, p2) \<in> set (ul_local s2)"
    "ul_pumps s2 = (?new, source) # ul_pumps s"
    unfolding assms(4) s1 by (simp_all add: forward_turn_def sockets_get_def Let_def)
  have "old < ?new" using dialled_below [OF ok] I(3) [OF assms(2)] by blast
  moreover have "(old, source) \<in> set (ul_pumps s2)" using s2(3) I(8) [OF assms(2)] by simp
  moreover have "?new \<in> set (ul_open s2)" using link_okD(5) [OF ok2] s2(1) by blast
  moreover have "?new \<notin> set (ul_open (pump_stop (old, source) s2))"
    using s2(1) link_okD(4) [OF ok2] by (simp add: pump_stop_def Let_def sockets_drop_def)
  moreover have "map_of (ul_conns (pump_stop (old, source) s2)) source = None"
    using sockets_drop_gone [of s2 source] by (simp add: pump_stop_def Let_def)
  ultimately show ?thesis using s2(1,2) by (intro exI [of _ ?new]) simp
qed

theorem stale_pump_drops_newer_witness:
  "\<exists>new. new \<noteq> 0 \<and> new \<notin> set (ul_open (pump_stop (0, ''1.2.3.4:5'')
      (forward_turn (True, True) 2 ''dns'' (forward_turn (True, False) 1 ''dns'' demo_link ''1.2.3.4:5'' ''r'') ''1.2.3.4:5'' ''s'')))
    \<and> new \<in> set (ul_open (forward_turn (True, True) 2 ''dns''
        (forward_turn (True, False) 1 ''dns'' demo_link ''1.2.3.4:5'' ''r'') ''1.2.3.4:5'' ''s''))"
  using stale_pump_drops_newer [OF demo_link_facts(1) _ refl refl, where source = "''1.2.3.4:5''" and now = 1 and now' = 2 and old = 0
      and ?p1.0 = "''r''" and ?p2.0 = "''s''"]
  by (simp add: demo_link_facts(3)) blast

end
