(* ===== verification/Sto_Traffic.thy ===== *)
theory Sto_Traffic
  imports Openfrp_Prelude
begin

text \<open>
  The daily traffic of every tunnel: \<^verbatim>\<open>internal/storage/repo/traffic.go\<close>. The table has one row per
  day and tunnel. What the SQL statements do to it is written out; a statement the database refuses
  changes nothing. Days are texts of the form 2006-01-02, which SQL compares byte by byte, and
  \<open>days_ago\<close> is the day a number of days before today.
\<close>

section \<open>Operations\<close>

record usage =
  ug_in :: int
  ug_out :: int
  ug_conns :: int

definition no_usage :: usage where "no_usage = \<lparr>ug_in = 0, ug_out = 0, ug_conns = 0\<rparr>"

definition add_usage :: "usage \<Rightarrow> usage \<Rightarrow> usage" where
  "add_usage a b = \<lparr>ug_in = ug_in a + ug_in b, ug_out = ug_out a + ug_out b, ug_conns = ug_conns a + ug_conns b\<rparr>"

type_synonym traffic_table = "(string \<times> string, usage) gomap"

record DailyTraffic =
  dt_Day :: string
  dt_Tunnel :: string
  dt_Usage :: usage

text \<open>Go compares strings byte by byte, as the order on lists of characters does.\<close>

definition Traffic_Add :: "bool \<Rightarrow> traffic_table \<Rightarrow> string \<Rightarrow> string \<Rightarrow> usage \<Rightarrow> bool \<times> traffic_table" where
  "Traffic_Add accepts tbl day tun u =
     (if u = no_usage then (True, tbl)
      else if \<not> accepts then (False, tbl)
      else (True, AList.update (day, tun)
        (case map_of tbl (day, tun) of None \<Rightarrow> u | Some old \<Rightarrow> add_usage old u) tbl))"

definition rows :: "traffic_table \<Rightarrow> DailyTraffic list" where
  "rows tbl = map (\<lambda>((day, tun), u). \<lparr>dt_Day = day, dt_Tunnel = tun, dt_Usage = u\<rparr>) tbl"

definition sort_desc :: "('a \<Rightarrow> 'b::linorder) \<Rightarrow> 'a list \<Rightarrow> 'a list" where
  "sort_desc f xs = rev (sort_key f (rev xs))"

definition window :: "int \<Rightarrow> int" where "window days = (if days < 1 then 30 else days)"

definition Traffic_Recent :: "(int \<Rightarrow> string) \<Rightarrow> traffic_table \<Rightarrow> int \<Rightarrow> DailyTraffic list" where
  "Traffic_Recent days_ago tbl days =
     (let since = days_ago (window days) in
      sort_desc dt_Day (sort_key dt_Tunnel (filter (\<lambda>r. since \<le> dt_Day r) (rows tbl))))"

definition sum_usage :: "usage list \<Rightarrow> usage" where
  "sum_usage us = foldr add_usage us no_usage"

definition Traffic_Totals :: "(int \<Rightarrow> string) \<Rightarrow> traffic_table \<Rightarrow> int \<Rightarrow> (string \<times> usage) list" where
  "Traffic_Totals days_ago tbl days =
     (let kept = filter (\<lambda>r. days_ago (window days) \<le> dt_Day r) (rows tbl) in
      sort_desc (\<lambda>(_, u). ug_in u + ug_out u)
        (map (\<lambda>tun. (tun, sum_usage (map dt_Usage (filter (\<lambda>r. dt_Tunnel r = tun) kept))))
          (remdups (map dt_Tunnel kept))))"

definition Traffic_Prune :: "bool \<Rightarrow> (int \<Rightarrow> string) \<Rightarrow> traffic_table \<Rightarrow> int \<Rightarrow> bool \<times> traffic_table" where
  "Traffic_Prune accepts days_ago tbl keepDays =
     (if keepDays < 1 then (True, tbl)
      else if \<not> accepts then (False, tbl)
      else (True, filter (\<lambda>((day, _), _). \<not> day < days_ago keepDays) tbl))"

section \<open>What is stored for a tunnel\<close>

definition stored :: "traffic_table \<Rightarrow> string \<Rightarrow> usage" where
  "stored tbl tun = sum_usage (map snd (filter (\<lambda>((_, t), _). t = tun) tbl))"

lemma usage_eq_iff: "(a::usage) = b \<longleftrightarrow> ug_in a = ug_in b \<and> ug_out a = ug_out b \<and> ug_conns a = ug_conns b"
  by (cases a; cases b) simp

lemma add_usage_sel [simp]:
  "ug_in (add_usage a b) = ug_in a + ug_in b" "ug_out (add_usage a b) = ug_out a + ug_out b"
  "ug_conns (add_usage a b) = ug_conns a + ug_conns b"
  by (simp_all add: add_usage_def)

lemma no_usage_sel [simp]: "ug_in no_usage = 0" "ug_out no_usage = 0" "ug_conns no_usage = 0"
  by (simp_all add: no_usage_def)

lemma add_no_usage [simp]: "add_usage u no_usage = u" "add_usage no_usage u = u"
  by (simp_all add: usage_eq_iff)

lemma add_usage_ac: "add_usage (add_usage a b) c = add_usage a (add_usage b c)" "add_usage a b = add_usage b a"
  by (simp_all add: usage_eq_iff)

lemma sum_usage_simps [simp]:
  "sum_usage [] = no_usage" "sum_usage (u # us) = add_usage u (sum_usage us)"
  "sum_usage (us @ vs) = add_usage (sum_usage us) (sum_usage vs)"
  by (induction us) (simp_all add: sum_usage_def add_usage_ac)

text \<open>Adding to a table adds to the tunnel named, whatever the day, and to no other.\<close>

lemma stored_update:
  assumes "gomap_ok tbl"
  shows "stored (AList.update (day, tun) (case map_of tbl (day, tun) of None \<Rightarrow> u | Some old \<Rightarrow> add_usage old u) tbl) t
    = (if t = tun then add_usage (stored tbl t) u else stored tbl t)"
  using assms
proof (induction tbl)
  case Nil
  then show ?case by (simp add: stored_def)
next
  case (Cons e tbl)
  obtain d t' v where e: "e = ((d, t'), v)" by (cases e) auto
  have shift: "add_usage x (add_usage y z) = add_usage (add_usage x y) z" for x y z by (simp add: add_usage_ac(1))
  have swap: "add_usage (add_usage x y) z = add_usage (add_usage x z) y" for x y z by (simp add: usage_eq_iff)
  from Cons e show ?case
    by (auto simp: stored_def gomap_ok_Cons shift swap [of v u] split: option.splits)
qed

lemma Traffic_Add_stored:
  assumes "gomap_ok tbl" "Traffic_Add accepts tbl day tun u = (ok, tbl')"
  shows "gomap_ok tbl'" "stored tbl' t = (if t = tun \<and> ok then add_usage (stored tbl t) u else stored tbl t)"
    "fst ` fst ` set tbl' \<subseteq> insert day (fst ` fst ` set tbl)"
proof -
  show "gomap_ok tbl'" using assms by (auto simp: Traffic_Add_def split: if_splits)
  show "stored tbl' t = (if t = tun \<and> ok then add_usage (stored tbl t) u else stored tbl t)"
    using assms(2) stored_update [OF assms(1), of day tun u t] by (auto simp: Traffic_Add_def split: if_splits)
  have "fst ` set tbl' \<subseteq> insert (day, tun) (fst ` set tbl)"
    using assms(2) dom_update [of "(day, tun)" _ tbl] by (auto simp: Traffic_Add_def simp del: update_conv split: if_splits)
  from image_mono [OF this, of fst] show "fst ` fst ` set tbl' \<subseteq> insert day (fst ` fst ` set tbl)" by simp
qed

text \<open>\<^verbatim>\<open>Totals\<close> over a window that no row has left reports exactly what is stored.\<close>

lemma Traffic_Totals_stored:
  assumes "\<forall>day \<in> fst ` fst ` set tbl. days_ago (window days) \<le> day" "tun \<in> snd ` fst ` set tbl"
  shows "(tun, u) \<in> set (Traffic_Totals days_ago tbl days) \<longleftrightarrow> u = stored tbl tun"
proof -
  have kept: "filter (\<lambda>r. days_ago (window days) \<le> dt_Day r) (rows tbl) = rows tbl"
    using assms(1) by (intro filter_True) (auto simp: rows_def)
  have "sum_usage (map dt_Usage (filter (\<lambda>r. dt_Tunnel r = t) (rows tbl))) = stored tbl t" for t
    by (induction tbl) (auto simp: rows_def stored_def)
  moreover have "tun \<in> dt_Tunnel ` set (rows tbl)" using assms(2) by (force simp: rows_def)
  ultimately show ?thesis by (auto simp: Traffic_Totals_def kept Let_def sort_desc_def)
qed

end
