(* ===== verification/Cli_History.thy ===== *)
theory Cli_History
  imports Srv_Stats Sto_Traffic
begin

text \<open>
  The history of a client's traffic, \<^verbatim>\<open>internal/tunnel/client/history.go\<close>: every five minutes what
  each tunnel has carried since the last time is added to the day's row, and once more at the end.
\<close>

section \<open>Operations\<close>

definition historyRetentionDays :: int where "historyRetentionDays = 400"

type_synonym history = "(string, Snapshot) gomap \<times> traffic_table"

definition snapshot_usage :: "Snapshot \<Rightarrow> usage" where
  "snapshot_usage s = \<lparr>ug_in = sn_BytesIn s, ug_out = sn_BytesOut s, ug_conns = sn_Connections s\<rparr>"

text \<open>A map read at a missing key gives the zero snapshot.\<close>

definition previous_usage :: "(string, Snapshot) gomap \<Rightarrow> string \<Rightarrow> usage" where
  "previous_usage taken name = (case map_of taken name of None \<Rightarrow> no_usage | Some s \<Rightarrow> snapshot_usage s)"

definition since_last :: "usage \<Rightarrow> usage \<Rightarrow> usage" where
  "since_last current previous =
     (let d = \<lparr>ug_in = i64_wrap (ug_in current - ug_in previous), ug_out = i64_wrap (ug_out current - ug_out previous),
               ug_conns = i64_wrap (ug_conns current - ug_conns previous)\<rparr> in
      if ug_in d < 0 \<or> ug_out d < 0 \<or> ug_conns d < 0 then current else d)"

fun record_snapshots :: "(string \<Rightarrow> bool) \<Rightarrow> string \<Rightarrow> Snapshot list \<Rightarrow> history \<Rightarrow> history" where
  "record_snapshots accepts day [] h = h"
| "record_snapshots accepts day (current # rest) (taken, tbl) =
     (case Traffic_Add (accepts (sn_Name current)) tbl day (sn_Name current)
             (since_last (snapshot_usage current) (previous_usage taken (sn_Name current))) of
        (False, tbl') \<Rightarrow> record_snapshots accepts day rest (taken, tbl')
      | (True, tbl') \<Rightarrow> record_snapshots accepts day rest (AList.update (sn_Name current) current taken, tbl'))"

definition History_record :: "(string \<Rightarrow> bool) \<Rightarrow> string \<Rightarrow> stats \<Rightarrow> history \<Rightarrow> history" where
  "History_record accepts day traffic h = record_snapshots accepts day (Stats_All traffic) h"

text \<open>The events of \<^verbatim>\<open>Run\<close> in the order they come: a tick of the interval (or the end), with the day,
  the counters and which rows the database takes, and a tick of the daily pruning.\<close>

datatype history_event = Tick "string \<Rightarrow> bool" string stats | PruneTick bool "int \<Rightarrow> string"

fun History_Run :: "history_event list \<Rightarrow> history \<Rightarrow> history" where
  "History_Run [] h = h"
| "History_Run (Tick accepts day traffic # es) h = History_Run es (History_record accepts day traffic h)"
| "History_Run (PruneTick accepts days_ago # es) (taken, tbl) =
     History_Run es (taken, snd (Traffic_Prune accepts days_ago tbl historyRetentionDays))"

section \<open>What has been recorded\<close>

definition usage_le :: "usage \<Rightarrow> usage \<Rightarrow> bool" where
  "usage_le a b \<longleftrightarrow> ug_in a \<le> ug_in b \<and> ug_out a \<le> ug_out b \<and> ug_conns a \<le> ug_conns b"

definition usage_ok :: "usage \<Rightarrow> bool" where
  "usage_ok u \<longleftrightarrow> usage_le no_usage u \<and> int64_ok (ug_in u) \<and> int64_ok (ug_out u) \<and> int64_ok (ug_conns u)"

lemma usage_le_trans: "usage_le a b \<Longrightarrow> usage_le b c \<Longrightarrow> usage_le a c"
  by (auto simp: usage_le_def)

lemma usage_le_refl [simp]: "usage_le a a"
  by (simp add: usage_le_def)

lemma since_last_grown:
  assumes "usage_ok a" "usage_ok b" "usage_le b a"
  shows "add_usage b (since_last a b) = a"
proof -
  have w: "i64_wrap (x - y) = x - y" if "int64_ok x" "0 \<le> y" "y \<le> x" for x y
    using that by (intro i64_wrap_id) (auto simp: int64_ok_def)
  from assms have
    "i64_wrap (ug_in a - ug_in b) = ug_in a - ug_in b" "i64_wrap (ug_out a - ug_out b) = ug_out a - ug_out b"
    "i64_wrap (ug_conns a - ug_conns b) = ug_conns a - ug_conns b"
    by (auto simp: usage_ok_def usage_le_def intro!: w)
  with assms(3) show ?thesis by (simp add: since_last_def Let_def usage_eq_iff usage_le_def)
qed

text \<open>The usage of a tunnel in the registry, and the one in the map of a history.\<close>

definition current_usage :: "stats \<Rightarrow> string \<Rightarrow> usage" where
  "current_usage r name = (case map_of r name of None \<Rightarrow> no_usage | Some c \<Rightarrow> snapshot_usage (snapshotOf name c))"

definition history_ok :: "history \<Rightarrow> string \<Rightarrow> bool" where
  "history_ok h name \<longleftrightarrow> gomap_ok (snd h) \<and> stored (snd h) name = previous_usage (fst h) name"

lemma previous_update [simp]:
  "previous_usage (AList.update n s m) k = (if k = n then snapshot_usage s else previous_usage m k)"
  by (simp add: previous_usage_def)

lemma record_snapshots_other:
  "gomap_ok (snd h) \<Longrightarrow> name \<notin> sn_Name ` set ss \<Longrightarrow>
     gomap_ok (snd (record_snapshots accepts day ss h))
     \<and> stored (snd (record_snapshots accepts day ss h)) name = stored (snd h) name
     \<and> previous_usage (fst (record_snapshots accepts day ss h)) name = previous_usage (fst h) name"
proof (induction ss arbitrary: h)
  case Nil
  then show ?case by simp
next
  case (Cons s ss)
  obtain taken tbl where h: "h = (taken, tbl)" by (cases h)
  obtain ok tbl' where add: "Traffic_Add (accepts (sn_Name s)) tbl day (sn_Name s)
      (since_last (snapshot_usage s) (previous_usage taken (sn_Name s))) = (ok, tbl')"
    by (metis surj_pair)
  have "name \<noteq> sn_Name s" using Cons.prems(2) by auto
  moreover have "gomap_ok tbl'" "stored tbl' name = stored tbl name"
    using Traffic_Add_stored(1) [OF _ add] Traffic_Add_stored(2) [OF _ add, of name] Cons.prems(1) h
      \<open>name \<noteq> sn_Name s\<close> by auto
  ultimately show ?case
    using Cons.IH [of "(taken, tbl')"] Cons.IH [of "(AList.update (sn_Name s) s taken, tbl')"] Cons.prems(2) h add
    by (cases ok) simp_all
qed

lemma record_snapshots_days:
  "gomap_ok (snd h) \<Longrightarrow> fst ` fst ` set (snd (record_snapshots accepts day ss h)) \<subseteq> insert day (fst ` fst ` set (snd h))"
proof (induction ss arbitrary: h)
  case Nil
  then show ?case by auto
next
  case (Cons s ss)
  obtain taken tbl where h: "h = (taken, tbl)" by (cases h)
  obtain ok tbl' where add: "Traffic_Add (accepts (sn_Name s)) tbl day (sn_Name s)
      (since_last (snapshot_usage s) (previous_usage taken (sn_Name s))) = (ok, tbl')"
    by (metis surj_pair)
  have tbl': "gomap_ok tbl'" "fst ` fst ` set tbl' \<subseteq> insert day (fst ` fst ` set tbl)"
    using Traffic_Add_stored(1,3) [OF _ add] Cons.prems h by auto
  have "fst ` fst ` set (snd (record_snapshots accepts day (s # ss) h)) \<subseteq> insert day (fst ` fst ` set tbl')"
    using tbl'(1) Cons.IH [of "(taken, tbl')"] Cons.IH [of "(AList.update (sn_Name s) s taken, tbl')"] h add
    by (cases ok) simp_all
  also have "\<dots> \<subseteq> insert day (fst ` fst ` set tbl)" using tbl'(2) by blast
  finally show ?case using h by simp
qed

text \<open>One recording brings the tunnel up to date when its row is taken, and leaves it as it was when
  the row is refused.\<close>

lemma record_snapshots_named:
  assumes "distinct (map sn_Name ss)" "s \<in> set ss" "history_ok h (sn_Name s)"
    "usage_ok (snapshot_usage s)" "usage_ok (previous_usage (fst h) (sn_Name s))"
    "usage_le (previous_usage (fst h) (sn_Name s)) (snapshot_usage s)"
  shows "history_ok (record_snapshots accepts day ss h) (sn_Name s)
    \<and> previous_usage (fst (record_snapshots accepts day ss h)) (sn_Name s)
      = (if accepts (sn_Name s) then snapshot_usage s else previous_usage (fst h) (sn_Name s))"
  using assms
proof (induction ss arbitrary: h)
  case Nil
  then show ?case by simp
next
  case (Cons x ss)
  obtain taken tbl where h: "h = (taken, tbl)" by (cases h)
  let ?d = "since_last (snapshot_usage x) (previous_usage taken (sn_Name x))"
  obtain ok tbl' where add: "Traffic_Add (accepts (sn_Name x)) tbl day (sn_Name x) ?d = (ok, tbl')"
    by (metis surj_pair)
  have tbl: "gomap_ok tbl" using Cons.prems(3) h by (simp add: history_ok_def)
  note A = Traffic_Add_stored [OF tbl add]
  show ?case
  proof (cases "x = s")
    case False
    then have n: "sn_Name x \<noteq> sn_Name s" "s \<in> set ss" using Cons.prems(1,2) by (auto simp: rev_image_eqI)
    have "history_ok (taken, tbl') (sn_Name s)" "history_ok (AList.update (sn_Name x) x taken, tbl') (sn_Name s)"
      using A(1,2) Cons.prems(3) n(1) h by (auto simp: history_ok_def)
    with Cons.IH [of "(taken, tbl')"] Cons.IH [of "(AList.update (sn_Name x) x taken, tbl')"] Cons.prems h add n
    show ?thesis by (cases ok) simp_all
  next
    case True
    let ?n = "sn_Name s" and ?p = "previous_usage taken (sn_Name s)"
    have grown: "add_usage ?p ?d = snapshot_usage s"
      using since_last_grown Cons.prems(4,5,6) h True by simp
    have ok: "ok \<longleftrightarrow> ?d = no_usage \<or> accepts ?n"
      using add True by (auto simp: Traffic_Add_def split: if_splits)
    have "sn_Name s \<notin> sn_Name ` set ss" using Cons.prems(1) True by auto
    note R = record_snapshots_other [OF _ this]
    have st: "stored tbl ?n = ?p" using Cons.prems(3) h by (simp add: history_ok_def)
    show ?thesis
    proof (cases ok)
      case True': True
      have "stored tbl' ?n = snapshot_usage s" using A(2) [of ?n] True' True st grown by simp
      moreover have "accepts ?n \<or> ?p = snapshot_usage s" using ok True' grown by auto
      ultimately show ?thesis
        using R [of "(AList.update ?n s taken, tbl')" accepts day] A(1) True True' add h
        by (auto simp: history_ok_def)
    next
      case False
      then have "stored tbl' ?n = ?p" "\<not> accepts ?n" using A(2) [of ?n] st ok by simp_all
      with R [of "(taken, tbl')" accepts day] A(1) True False add h show ?thesis
        by (simp add: history_ok_def)
    qed
  qed
qed

section \<open>Properties\<close>

text \<open>The usage of the last tick whose row the database took.\<close>

fun recorded_usage :: "string \<Rightarrow> usage \<Rightarrow> history_event list \<Rightarrow> usage" where
  "recorded_usage name u [] = u"
| "recorded_usage name u (Tick accepts day r # es) =
     recorded_usage name (if accepts name then current_usage r name else u) es"
| "recorded_usage name u (PruneTick a f # es) = recorded_usage name u es"

text \<open>Counters only grow while a client runs, and the days of the ticks are recent enough to be kept.\<close>

fun counters_grow :: "string \<Rightarrow> string list \<Rightarrow> usage \<Rightarrow> history_event list \<Rightarrow> bool" where
  "counters_grow name days u [] \<longleftrightarrow> True"
| "counters_grow name days u (Tick accepts day r # es) \<longleftrightarrow>
     gomap_ok r \<and> usage_ok (current_usage r name) \<and> usage_le u (current_usage r name) \<and> day \<in> set days
     \<and> counters_grow name days (current_usage r name) es"
| "counters_grow name days u (PruneTick a days_ago # es) \<longleftrightarrow>
     list_all (\<lambda>d. \<not> d < days_ago historyRetentionDays) days \<and> counters_grow name days u es"

lemma Stats_All_facts:
  assumes "gomap_ok r"
  shows "distinct (map sn_Name (Stats_All r))" "set (Stats_All r) = (\<lambda>(n, c). snapshotOf n c) ` set r"
proof -
  have "map (sn_Name \<circ> (\<lambda>(n, c). snapshotOf n c)) r = map fst r" by (induction r) (auto simp: snapshotOf_def)
  with assms have d: "distinct (map sn_Name (map (\<lambda>(n, c). snapshotOf n c) r))" by (simp only: gomap_ok_def map_map)
  have "mset (map sn_Name (Stats_All r)) = mset (map sn_Name (map (\<lambda>(n, c). snapshotOf n c) r))"
    by (simp only: Stats_All_def mset_map mset_sort)
  from mset_eq_imp_distinct_iff [OF this] d show "distinct (map sn_Name (Stats_All r))" by blast
  show "set (Stats_All r) = (\<lambda>(n, c). snapshotOf n c) ` set r" by (simp add: Stats_All_def)
qed

lemma History_record_exact:
  assumes "gomap_ok r" "history_ok h name" "usage_ok (current_usage r name)" "usage_ok (previous_usage (fst h) name)"
    "usage_le (previous_usage (fst h) name) (current_usage r name)"
  shows "history_ok (History_record accepts day r h) name
    \<and> previous_usage (fst (History_record accepts day r h)) name
      = (if accepts name then current_usage r name else previous_usage (fst h) name)"
proof (cases "map_of r name")
  case None
  then have "name \<notin> sn_Name ` set (Stats_All r)"
    by (auto simp: Stats_All_facts [OF assms(1)] snapshotOf_def map_of_eq_None_iff rev_image_eqI)
  moreover have "previous_usage (fst h) name = no_usage" "current_usage r name = no_usage"
    using assms(4,5) None by (auto simp: current_usage_def usage_ok_def usage_le_def usage_eq_iff)
  ultimately show ?thesis
    using record_snapshots_other [of h name "Stats_All r" accepts day] assms(2)
    by (auto simp: History_record_def history_ok_def)
next
  case (Some c)
  let ?s = "snapshotOf name c"
  have cur: "current_usage r name = snapshot_usage ?s" using Some by (simp add: current_usage_def)
  have s: "?s \<in> set (Stats_All r)" "sn_Name ?s = name"
    using map_of_SomeD [OF Some] by (auto simp: Stats_All_facts(2) [OF assms(1)] snapshotOf_def rev_image_eqI)
  show ?thesis
    using record_snapshots_named [OF Stats_All_facts(1) [OF assms(1)] s(1), of h accepts day] assms s(2) cur
    by (simp add: History_record_def)
qed

lemma History_Run_exact:
  assumes "counters_grow name days u es" "history_ok h name" "usage_ok (previous_usage (fst h) name)"
    "usage_le (previous_usage (fst h) name) u" "fst ` fst ` set (snd h) \<subseteq> set days"
  shows "gomap_ok (snd (History_Run es h)) \<and> fst ` fst ` set (snd (History_Run es h)) \<subseteq> set days
    \<and> stored (snd (History_Run es h)) name = recorded_usage name (previous_usage (fst h) name) es"
  using assms
proof (induction es arbitrary: h u)
  case Nil
  then show ?case by (simp add: history_ok_def)
next
  case (Cons e es)
  obtain taken tbl where h: "h = (taken, tbl)" by (cases h)
  show ?case
  proof (cases e)
    case (Tick accepts day r)
    with Cons.prems(1) have r: "gomap_ok r" "usage_ok (current_usage r name)" "usage_le u (current_usage r name)"
      "day \<in> set days" "counters_grow name days (current_usage r name) es" by simp_all
    let ?h = "History_record accepts day r h"
    have le: "usage_le (previous_usage (fst h) name) (current_usage r name)"
      using usage_le_trans [OF Cons.prems(4) r(3)] .
    note H = History_record_exact [OF r(1) Cons.prems(2) r(2) Cons.prems(3) le, of accepts day]
    have "fst ` fst ` set (snd ?h) \<subseteq> set days"
      using record_snapshots_days [of h accepts day "Stats_All r"] Cons.prems(2,5) r(4)
      by (auto simp: History_record_def history_ok_def)
    with Cons.IH [OF r(5), of ?h] H r(2) Cons.prems(3) le Tick show ?thesis by (simp split: if_splits)
  next
    case (PruneTick a f)
    have "filter (\<lambda>((day, _), _). \<not> day < f historyRetentionDays) tbl = tbl"
      using Cons.prems(1,5) PruneTick h by (intro filter_True) (fastforce simp: list_all_iff)
    then have "snd (Traffic_Prune a f tbl historyRetentionDays) = tbl"
      by (simp add: Traffic_Prune_def historyRetentionDays_def)
    with Cons.IH [of u h] Cons.prems PruneTick h show ?thesis by simp
  qed
qed

text \<open>C25: The history neither loses nor counts twice. As long as a client runs, its counters only
  grow; whatever days the ticks fall on, and whichever rows the database refuses, the rows of a
  tunnel together hold exactly what its counters read at the last tick whose row was taken, and
  that is what the totals over the kept days report. A refused row is made up for by the next one.\<close>

theorem history_conserves_traffic:
  assumes "counters_grow name days no_usage es" "\<forall>d \<in> set days. days_ago (window n) \<le> d"
  shows "stored (snd (History_Run es ([], []))) name = recorded_usage name no_usage es
    \<and> (name \<in> snd ` fst ` set (snd (History_Run es ([], [])))
        \<longrightarrow> (\<forall>u. (name, u) \<in> set (Traffic_Totals days_ago (snd (History_Run es ([], []))) n)
              \<longleftrightarrow> u = recorded_usage name no_usage es))"
proof -
  have "history_ok ([], []) name" by (simp add: history_ok_def stored_def previous_usage_def)
  moreover have "usage_ok no_usage" by (simp add: usage_ok_def int64_ok_def)
  ultimately have R: "gomap_ok (snd (History_Run es ([], [])))" "fst ` fst ` set (snd (History_Run es ([], []))) \<subseteq> set days"
    "stored (snd (History_Run es ([], []))) name = recorded_usage name no_usage es"
    using History_Run_exact [OF assms(1), of "([], [])"] by (simp_all add: previous_usage_def)
  have "\<forall>day \<in> fst ` fst ` set (snd (History_Run es ([], []))). days_ago (window n) \<le> day"
    using R(2) assms(2) by blast
  then have "(name, u) \<in> set (Traffic_Totals days_ago (snd (History_Run es ([], []))) n)
      \<longleftrightarrow> u = stored (snd (History_Run es ([], []))) name"
    if "name \<in> snd ` fst ` set (snd (History_Run es ([], [])))" for u
    using that by (rule Traffic_Totals_stored)
  with R(3) show ?thesis by simp
qed

text \<open>The second tick's row is refused; the third, a day later, makes up for it.\<close>

definition demo_ticks :: "history_event list" where
  "demo_ticks =
     [Tick (\<lambda>_. True) ''2026-01-01'' [(''ssh'', zeroCounters\<lparr>ct_BytesIn := 10, ct_Connections := 1\<rparr>)],
      Tick (\<lambda>_. False) ''2026-01-01'' [(''ssh'', zeroCounters\<lparr>ct_BytesIn := 30, ct_Connections := 2\<rparr>)],
      PruneTick True (\<lambda>_. ''2024-11-27''),
      Tick (\<lambda>_. True) ''2026-01-02'' [(''ssh'', zeroCounters\<lparr>ct_BytesIn := 35, ct_Connections := 3\<rparr>)]]"

theorem history_conserves_traffic_witness:
  "stored (snd (History_Run demo_ticks ([], []))) ''ssh'' = \<lparr>ug_in = 35, ug_out = 0, ug_conns = 3\<rparr>"
proof -
  have "counters_grow ''ssh'' [''2026-01-01'', ''2026-01-02''] no_usage demo_ticks" by code_simp
  moreover have "\<forall>d \<in> set [''2026-01-01'', ''2026-01-02'']. (\<lambda>_. ''2025-12-03'') (window 30) \<le> d" by code_simp
  moreover have "recorded_usage ''ssh'' no_usage demo_ticks = \<lparr>ug_in = 35, ug_out = 0, ug_conns = 3\<rparr>" by code_simp
  ultimately show ?thesis using history_conserves_traffic [of "''ssh''" "[''2026-01-01'', ''2026-01-02'']" demo_ticks
      "\<lambda>_. ''2025-12-03''" 30] by simp
qed

end
