(* ===== verification/Cli_Session.thy ===== *)
theory Cli_Session
  imports Cfg_Config Proto_Codec Proto_Handshake Srv_Stats
begin

text \<open>
  A client's connection to one server: \<^verbatim>\<open>client.go\<close>, \<^verbatim>\<open>control.go\<close>, \<^verbatim>\<open>workpool.go\<close>, \<^verbatim>\<open>overflow.go\<close>
  and \<^verbatim>\<open>certpush.go\<close> of \<^verbatim>\<open>internal/tunnel/client\<close>, and the dialer of \<^verbatim>\<open>internal/tunnel/transport/tcp.go\<close>.
  The clock, the host's name and system, random numbers and how long a connection lasted are
  arguments. Goroutines a handler starts are its results.
\<close>

section \<open>The client\<close>

definition minReconnectDelay :: int where "minReconnectDelay = Second div 2"
definition maxReconnectDelay :: int where "maxReconnectDelay = 30 * Second"

record certificate =
  ce_Domains :: "string list option"
  ce_Fullchain :: bytes
  ce_PrivateKey :: bytes
  ce_NotAfter :: int

record client =
  cl_cfg :: client_config
  cl_version :: string
  cl_dialAddr :: string
  cl_tlsName :: "string option"
  cl_runID :: string
  cl_pushed :: "(string, string) gomap"
  cl_traffic :: stats

definition newClient :: "client_config \<Rightarrow> string \<Rightarrow> client" where
  "newClient cfg version =
     \<lparr>cl_cfg = cfg, cl_version = version, cl_dialAddr = JoinHostPort (cc_ServerAddr cfg) (int_text (cc_ServerPort cfg)),
      cl_tlsName = (if tr_TLSEnable (cc_Transport cfg) then Some (cc_ServerAddr cfg) else None),
      cl_runID = [], cl_pushed = [], cl_traffic = NewStats\<rparr>"

text \<open>What the three ways of dialling write first.\<close>

definition plain_preamble :: Preamble where
  "plain_preamble = \<lparr>pa_Version = nat Version, pa_Mode = ModePlain\<rparr>"

definition greet :: "writer \<Rightarrow> nat \<Rightarrow> io_error option \<times> writer" where
  "greet w mode = WritePreamble w \<lparr>pa_Version = nat Version, pa_Mode = mode\<rparr>"

definition DialWorkWith :: "writer \<Rightarrow> message \<Rightarrow> codec_error option \<times> writer" where
  "DialWorkWith w m = WriteGreeting w plain_preamble m"

section \<open>Logging in\<close>

record client_session =
  cs_runID :: string
  cs_serverVersion :: string
  cs_observedAddr :: string
  cs_tunnels :: "(string, tunnel) gomap"
  cs_targets :: "(string, string) gomap"
  cs_retries :: "(string, nat) gomap"

datatype login_error = LoginWrite codec_error | LoginRead codec_error | LoginRefused bool string

definition login_message :: "string \<times> string \<times> string \<Rightarrow> int \<Rightarrow> client \<Rightarrow> Login" where
  "login_message host timestamp c =
     (case host of (hostname, os, arch) \<Rightarrow>
        \<lparr>lg_Version = Version, lg_ClientName = cc_Name (cl_cfg c), lg_Hostname = hostname, lg_OS = os, lg_Arch = arch,
         lg_Timestamp = timestamp, lg_AuthKey = AuthKey (cc_Token (cl_cfg c)) timestamp,
         lg_PoolCount = tr_PoolCount (cc_Transport (cl_cfg c)), lg_RunID = cl_runID c\<rparr>)"

definition login :: "string \<times> string \<times> string \<Rightarrow> int \<Rightarrow> client \<Rightarrow> Codec \<Rightarrow> (login_error + client_session) \<times> client \<times> Codec" where
  "login host timestamp c codec =
     (case Codec_Write codec (MLogin (login_message host timestamp c)) of
        (Some e, codec) \<Rightarrow> (Inl (LoginWrite e), c, codec)
      | (None, codec) \<Rightarrow>
          (case Codec_ReadExpect codec TypeLoginResp of
             (Inl e, codec) \<Rightarrow> (Inl (LoginRead e), c, codec)
           | (Inr (MLoginResp resp), codec) \<Rightarrow>
               if lr_Error resp \<noteq> [] then (Inl (LoginRefused (cc_Token (cl_cfg c) = []) (lr_Error resp)), c, codec)
               else (Inr \<lparr>cs_runID = lr_RunID resp, cs_serverVersion = lr_ServerVersion resp,
                       cs_observedAddr = lr_ObservedAddr resp, cs_tunnels = [], cs_targets = [], cs_retries = []\<rparr>,
                     c\<lparr>cl_runID := lr_RunID resp\<rparr>, codec)
           | (Inr m, codec) \<Rightarrow> (Inl (LoginRead (UnexpectedMessage (message_type m) TypeLoginResp)), c, codec)))"

section \<open>Publishing tunnels\<close>

definition tunnel_spec :: "tunnel \<Rightarrow> ProxySpec" where
  "tunnel_spec t =
     \<lparr>ps_Name = tu_Name t, ps_Kind = tu_Type t, ps_RemotePort = tu_RemotePort t, ps_Domains = tu_Domains t,
      ps_TLSMode = tu_TLSMode t, ps_DownRate = tu_DownRate t, ps_UpRate = tu_UpRate t, ps_Quota = tu_Quota t\<rparr>"

definition publishTunnel :: "tunnel \<Rightarrow> client_session \<times> Codec \<Rightarrow> codec_error option \<times> client_session \<times> Codec" where
  "publishTunnel t st =
     (case st of (s, codec) \<Rightarrow>
        let s = s\<lparr>cs_tunnels := AList.update (tu_Name t) t (cs_tunnels s),
                  cs_targets := AList.update (tu_Name t) (JoinHostPort (tu_LocalIP t) (int_text (tu_LocalPort t)))
                    (cs_targets s)\<rparr> in
        (case Codec_Write codec (MNewProxy (tunnel_spec t)) of (e, codec) \<Rightarrow> (e, s, codec)))"

fun publish_each :: "tunnel list \<Rightarrow> client_session \<times> Codec \<Rightarrow> codec_error option \<times> client_session \<times> Codec" where
  "publish_each [] st = (None, st)"
| "publish_each (t # ts) st =
     (case publishTunnel t st of (Some e, st) \<Rightarrow> (Some e, st) | (None, st) \<Rightarrow> publish_each ts st)"

definition publishTunnels :: "client \<Rightarrow> client_session \<times> Codec \<Rightarrow> codec_error option \<times> client_session \<times> Codec" where
  "publishTunnels c st = publish_each (EnabledTunnels (cl_cfg c)) st"

text \<open>The tunnel and the address a name stands for; a missing name has the empty address.\<close>

definition session_tunnel :: "client_session \<Rightarrow> string \<Rightarrow> tunnel option" where
  "session_tunnel s name = map_of (cs_tunnels s) name"

definition session_target :: "client_session \<Rightarrow> string \<Rightarrow> string" where
  "session_target s name = (case map_of (cs_targets s) name of None \<Rightarrow> [] | Some a \<Rightarrow> a)"

section \<open>The control loop\<close>

definition republishAttempts :: nat where "republishAttempts = 8"
definition maxWorkConns :: int where "maxWorkConns = 4 * DefaultMaxPoolCount"

text \<open>The goroutines a message starts: dialling work connections, and publishing a tunnel again after
  a quarter of a second.\<close>

datatype action = DialWork nat | Republish tunnel

definition retries_next :: "string \<Rightarrow> (string, nat) gomap \<Rightarrow> nat \<times> (string, nat) gomap" where
  "retries_next name r =
     (let n = Suc (case map_of r name of None \<Rightarrow> 0 | Some k \<Rightarrow> k) in (n, AList.update name n r))"

definition rejected :: "NewProxyResp \<Rightarrow> client_session \<Rightarrow> action list \<times> client_session" where
  "rejected resp s =
     (if \<not> contains (pr_Error resp) ''already routed'' \<and> \<not> contains (pr_Error resp) ''already registered''
      then ([], s)
      else case session_tunnel s (pr_Name resp) of
        None \<Rightarrow> ([], s)
      | Some t \<Rightarrow>
          (case retries_next (pr_Name resp) (cs_retries s) of
             (attempt, r) \<Rightarrow>
               if republishAttempts < attempt then ([], s\<lparr>cs_retries := r\<rparr>)
               else ([Republish t], s\<lparr>cs_retries := r\<rparr>)))"

fun control_message :: "message \<Rightarrow> client_session \<Rightarrow> action list \<times> client_session" where
  "control_message (MReqWorkConn n) s = ([DialWork (nat (min (max n 1) maxWorkConns))], s)"
| "control_message (MNewProxyResp resp) s = (if pr_Error resp \<noteq> [] then rejected resp s else ([], s))"
| "control_message m s = ([], s)"

text \<open>\<^verbatim>\<open>controlLoop\<close> reads until an error; a frame of an unknown type is skipped. The end of the stream is
  a normal end. Every frame takes at least its header off the stream, so the fuel does not run out.\<close>

fun control_loop :: "nat \<Rightarrow> client_session \<Rightarrow> Codec \<Rightarrow> action list \<Rightarrow> (codec_error option \<times> action list \<times> client_session) option" where
  "control_loop 0 s codec acts = None"
| "control_loop (Suc fuel) s codec acts =
     (case Codec_Read codec of
        (Inl CleanEOF, _) \<Rightarrow> Some (None, acts, s)
      | (Inl (UnknownType t), codec') \<Rightarrow> control_loop fuel s codec' acts
      | (Inl e, _) \<Rightarrow> Some (Some e, acts, s)
      | (Inr m, codec') \<Rightarrow>
          (case control_message m s of (as, s') \<Rightarrow> control_loop fuel s' codec' (acts @ as)))"

definition client_controlLoop :: "client_session \<Rightarrow> Codec \<Rightarrow> (codec_error option \<times> action list \<times> client_session) option" where
  "client_controlLoop s codec = control_loop (Suc (length (reader_data (cd_r codec)))) s codec []"

section \<open>Certificates\<close>

text \<open>\<open>source\<close> is the certificate store; a tunnel whose certificate cannot be had, or is empty, is
  left for the next time. What was pushed in this session is remembered by a digest.\<close>

definition fingerprint :: "certificate \<Rightarrow> string" where
  "fingerprint m = hex_encode (sha256 (ce_Fullchain m @ ce_PrivateKey m))"

definition push_message :: "certificate \<Rightarrow> message" where
  "push_message m =
     MCertPush \<lparr>cp_Domains = ce_Domains m, cp_FullchainPEM = Some (ce_Fullchain m),
       cp_PrivateKeyPEM = Some (ce_PrivateKey m), cp_NotAfter = ce_NotAfter m\<rparr>"

definition alreadyPushed :: "client \<Rightarrow> string \<Rightarrow> string \<Rightarrow> bool" where
  "alreadyPushed c tun print = ((case map_of (cl_pushed c) tun of None \<Rightarrow> [] | Some p \<Rightarrow> p) = print)"

definition pushOne :: "string \<Rightarrow> certificate \<Rightarrow> client \<times> Codec \<Rightarrow> client \<times> Codec" where
  "pushOne tun m st =
     (case st of (c, codec) \<Rightarrow>
        if ce_Fullchain m = [] \<or> ce_PrivateKey m = [] then (c, codec)
        else if alreadyPushed c tun (fingerprint m) then (c, codec)
        else case Codec_Write codec (push_message m) of
          (Some e, codec) \<Rightarrow> (c, codec)
        | (None, codec) \<Rightarrow> (c\<lparr>cl_pushed := AList.update tun (fingerprint m) (cl_pushed c)\<rparr>, codec))"

fun push_each :: "(int \<Rightarrow> certificate option) \<Rightarrow> tunnel list \<Rightarrow> client \<times> Codec \<Rightarrow> client \<times> Codec" where
  "push_each source [] st = st"
| "push_each source (t # ts) st =
     push_each source ts
       (if \<not> tu_Enabled t \<or> tu_CertID t = 0 then st
        else case source (tu_CertID t) of None \<Rightarrow> st | Some m \<Rightarrow> pushOne (tu_Name t) m st)"

definition pushCertificates :: "(int \<Rightarrow> certificate option) option \<Rightarrow> client \<times> Codec \<Rightarrow> client \<times> Codec" where
  "pushCertificates source st =
     (case source of None \<Rightarrow> st | Some src \<Rightarrow> push_each src (cc_Tunnels (cl_cfg (fst st))) st)"

definition reset_pushed :: "client \<Rightarrow> client" where
  "reset_pushed c = c\<lparr>cl_pushed := []\<rparr>"

text \<open>\<^verbatim>\<open>serve\<close> up to the control loop.\<close>

definition serve_begin :: "(int \<Rightarrow> certificate option) option \<Rightarrow> client \<Rightarrow> client_session \<times> Codec
    \<Rightarrow> codec_error option \<times> client \<times> client_session \<times> Codec" where
  "serve_begin source c st =
     (case publishTunnels c ((fst st)\<lparr>cs_tunnels := [], cs_targets := []\<rparr>, snd st) of
        (Some e, s, codec) \<Rightarrow> (Some e, c, s, codec)
      | (None, s, codec) \<Rightarrow>
          (case pushCertificates source (reset_pushed c, codec) of (c, codec) \<Rightarrow> (None, c, s, codec)))"

section \<open>Reconnecting\<close>

text \<open>\<open>rnd\<close> is what the random generator returns below the bound it is given.\<close>

definition jitter :: "(int \<Rightarrow> int) \<Rightarrow> int \<Rightarrow> int" where
  "jitter rnd d = (let half = trunc_div d 2 in half + rnd (half + 1))"

text \<open>The waits between the attempts of \<^verbatim>\<open>Run\<close>, given how long each attempt lasted.\<close>

fun reconnect_waits :: "(nat \<Rightarrow> int \<Rightarrow> int) \<Rightarrow> nat \<Rightarrow> int \<Rightarrow> int list \<Rightarrow> int list" where
  "reconnect_waits rnd k delay [] = []"
| "reconnect_waits rnd k delay (lasted # rest) =
     (let delay = (if Minute < lasted then minReconnectDelay else delay) in
      jitter (rnd k) delay # reconnect_waits rnd (Suc k) (min (delay * 2) maxReconnectDelay) rest)"

definition carrierRetryMin :: int where "carrierRetryMin = Second"
definition carrierRetryMax :: int where "carrierRetryMax = 30 * Second"
definition carrierRefusalsBeforeGivingUp :: nat where "carrierRefusalsBeforeGivingUp = 3"

text \<open>\<^verbatim>\<open>runOverflowCarrier\<close>: the waits, and whether it gave up. An attempt is whether the server refused
  carriers and how long it lasted.\<close>

fun carrier_waits :: "nat \<Rightarrow> int \<Rightarrow> (bool \<times> int) list \<Rightarrow> int list \<times> bool" where
  "carrier_waits refusals delay [] = ([], False)"
| "carrier_waits refusals delay ((unsupported, lasted) # rest) =
     (let refusals = (if unsupported then Suc refusals else 0) in
      if unsupported \<and> carrierRefusalsBeforeGivingUp \<le> refusals then ([], True)
      else
        let delay = (if Minute < lasted then carrierRetryMin else delay) in
        (case carrier_waits refusals (min (delay * 2) carrierRetryMax) rest of (ws, gave_up) \<Rightarrow> (delay # ws, gave_up)))"

section \<open>What a session publishes\<close>

lemma Codec_Write_sent:
  "is_ok (encode m) \<Longrightarrow> w_script (cd_w k) = [] \<Longrightarrow>
     Codec_Write k m = (None, k\<lparr>cd_w := \<lparr>w_out = w_out (cd_w k) @ projr (encode m), w_script = []\<rparr>\<rparr>)"
  by (cases "encode m") (simp_all add: Codec_Write_def write_bytes_def)

definition sendable :: "message \<Rightarrow> bool" where
  "sendable m \<longleftrightarrow> message_ok m \<and> is_ok (encode m)"

definition frames :: "message list \<Rightarrow> bytes" where
  "frames ms = concat (map (\<lambda>m. projr (encode m)) ms)"

lemma frames_simps [simp]: "frames [] = []" "frames (m # ms) = projr (encode m) @ frames ms"
    "frames (ms @ ms') = frames ms @ frames ms'"
  by (simp_all add: frames_def)

definition sent :: "Codec \<Rightarrow> message list \<Rightarrow> Codec" where
  "sent k ms = k\<lparr>cd_w := \<lparr>w_out = w_out (cd_w k) @ frames ms, w_script = []\<rparr>\<rparr>"

lemma sent_simps [simp]: "w_script (cd_w (sent k ms)) = []" "cd_r (sent k ms) = cd_r k"
    "w_out (cd_w (sent k ms)) = w_out (cd_w k) @ frames ms" "sent (sent k ms) ms' = sent k (ms @ ms')"
    "w_script (cd_w k) = [] \<Longrightarrow> sent k [] = k"
  by (simp_all add: sent_def)

lemma Codec_Write_is_sent:
  "is_ok (encode m) \<Longrightarrow> w_script (cd_w k) = [] \<Longrightarrow> Codec_Write k m = (None, sent k [m])"
  by (simp add: Codec_Write_sent sent_def)

lemma publish_each_sent:
  assumes "\<forall>t \<in> set ts. is_ok (encode (MNewProxy (tunnel_spec t)))" "w_script (cd_w k) = []"
    "distinct (map tu_Name ts)"
  shows "\<exists>s'. publish_each ts (s, k) = (None, s', sent k (map (\<lambda>t. MNewProxy (tunnel_spec t)) ts))
    \<and> cs_retries s' = cs_retries s
    \<and> (\<forall>t \<in> set ts. session_tunnel s' (tu_Name t) = Some t
         \<and> session_target s' (tu_Name t) = JoinHostPort (tu_LocalIP t) (int_text (tu_LocalPort t)))
    \<and> (\<forall>n. n \<notin> tu_Name ` set ts \<longrightarrow> session_tunnel s' n = session_tunnel s n \<and> session_target s' n = session_target s n)"
  using assms
proof (induction ts arbitrary: s k)
  case Nil
  then show ?case by simp
next
  case (Cons t ts)
  let ?s = "s\<lparr>cs_tunnels := AList.update (tu_Name t) t (cs_tunnels s),
    cs_targets := AList.update (tu_Name t) (JoinHostPort (tu_LocalIP t) (int_text (tu_LocalPort t))) (cs_targets s)\<rparr>"
  let ?k = "sent k [MNewProxy (tunnel_spec t)]"
  have step: "publishTunnel t (s, k) = (None, ?s, ?k)"
    using Codec_Write_is_sent Cons.prems(1,2) by (simp add: publishTunnel_def Let_def)
  have "\<forall>t \<in> set ts. is_ok (encode (MNewProxy (tunnel_spec t)))" "w_script (cd_w ?k) = []" "distinct (map tu_Name ts)"
    using Cons.prems by simp_all
  from Cons.IH [OF this, of ?s] obtain s' where s':
    "publish_each ts (?s, ?k) = (None, s', sent ?k (map (\<lambda>t. MNewProxy (tunnel_spec t)) ts))" "cs_retries s' = cs_retries ?s"
    "\<forall>t \<in> set ts. session_tunnel s' (tu_Name t) = Some t
       \<and> session_target s' (tu_Name t) = JoinHostPort (tu_LocalIP t) (int_text (tu_LocalPort t))"
    "\<forall>n. n \<notin> tu_Name ` set ts \<longrightarrow> session_tunnel s' n = session_tunnel ?s n \<and> session_target s' n = session_target ?s n"
    by blast
  have "tu_Name t \<notin> tu_Name ` set ts" using Cons.prems(3) by simp
  with s' step show ?case
    by (intro exI [of _ s']) (auto simp: session_tunnel_def session_target_def)
qed

section \<open>What a session reacts to\<close>

fun react :: "message list \<Rightarrow> client_session \<Rightarrow> action list \<times> client_session" where
  "react [] s = ([], s)"
| "react (m # ms) s =
     (case control_message m s of (as, s') \<Rightarrow> (case react ms s' of (bs, s'') \<Rightarrow> (as @ bs, s'')))"

lemma ReadMessage_end:
  assumes "clean r" "reader_data r = []"
  shows "\<exists>r'. ReadMessage r = (Inl CleanEOF, r')"
proof -
  obtain d r' where "read_full headerSize r = (d, Some EOF, r')"
    using clean_read_full_short [OF assms(1), of headerSize] assms(2)
    by (cases "read_full headerSize r") (auto simp: headerSize_def)
  then show ?thesis by (simp add: ReadMessage_def)
qed

lemma control_loop_reacts:
  assumes "list_all sendable ms" "clean (cd_r k)" "reader_data (cd_r k) = frames ms" "length ms < fuel"
  shows "control_loop fuel s k acts = Some (None, acts @ fst (react ms s), snd (react ms s))"
  using assms
proof (induction ms arbitrary: fuel s k acts)
  case Nil
  then obtain f where f: "fuel = Suc f" by (cases fuel) auto
  obtain r' where "ReadMessage (cd_r k) = (Inl CleanEOF, r')" using ReadMessage_end Nil.prems(2,3) by auto
  with f show ?case by (simp add: Codec_Read_ReadMessage)
next
  case (Cons m ms)
  then obtain f where f: "fuel = Suc f" by (cases fuel) auto
  obtain x where x: "encode m = Inr x" "message_ok m"
    using Cons.prems(1) by (cases "encode m") (auto simp: sendable_def)
  obtain r' where r': "ReadMessage (cd_r k) = (Inr m, r')" "clean r'" "reader_data r' = frames ms"
    using ReadMessage_encoded [OF x(2,1) Cons.prems(2), of "frames ms"] Cons.prems(3) x(1) by auto
  let ?k = "k\<lparr>cd_r := r'\<rparr>"
  have IH: "control_loop f s' ?k acts' = Some (None, acts' @ fst (react ms s'), snd (react ms s'))" for s' acts'
    using Cons.IH [of ?k f s' acts'] Cons.prems(1,4) r' f by simp
  show ?case using f r'(1) by (simp add: Codec_Read_ReadMessage IH split: prod.splits)
qed

lemma frames_length: "list_all sendable ms \<Longrightarrow> length ms \<le> length (frames ms)"
  by (induction ms) (auto simp: sendable_def is_ok_def encode_def Let_def split: sum.splits if_splits)

lemma controlLoop_reacts:
  assumes "list_all sendable ms" "clean (cd_r k)" "reader_data (cd_r k) = frames ms"
  shows "client_controlLoop s k = Some (None, react ms s)"
  using control_loop_reacts [OF assms, of "Suc (length (frames ms))" s "[]"] frames_length [OF assms(1)] assms(3)
  by (simp add: client_controlLoop_def)

text \<open>The dials and the republished tunnels among the actions, and the requests and retriable refusals
  among the messages.\<close>

fun dials :: "action list \<Rightarrow> nat list" where
  "dials [] = []"
| "dials (DialWork n # as) = n # dials as"
| "dials (Republish t # as) = dials as"

fun republished :: "action list \<Rightarrow> tunnel list" where
  "republished [] = []"
| "republished (DialWork n # as) = republished as"
| "republished (Republish t # as) = t # republished as"

lemma dials_append [simp]: "dials (as @ bs) = dials as @ dials bs"
  by (induction as rule: dials.induct) auto

lemma republished_append [simp]: "republished (as @ bs) = republished as @ republished bs"
  by (induction as rule: republished.induct) auto

fun requests :: "message list \<Rightarrow> int list" where
  "requests [] = []"
| "requests (MReqWorkConn n # ms) = n # requests ms"
| "requests (m # ms) = requests ms"

definition retriable :: "string \<Rightarrow> bool" where
  "retriable e \<longleftrightarrow> contains e ''already routed'' \<or> contains e ''already registered''"

fun refusals :: "string \<Rightarrow> message list \<Rightarrow> nat" where
  "refusals name [] = 0"
| "refusals name (MNewProxyResp resp # ms) =
     (if pr_Name resp = name \<and> pr_Error resp \<noteq> [] \<and> retriable (pr_Error resp) then 1 else 0) + refusals name ms"
| "refusals name (m # ms) = refusals name ms"

definition tries :: "client_session \<Rightarrow> string \<Rightarrow> nat" where
  "tries s name = (case map_of (cs_retries s) name of None \<Rightarrow> 0 | Some k \<Rightarrow> k)"

lemma react_tunnels: "cs_tunnels (snd (control_message m s)) = cs_tunnels s"
  by (cases m) (auto simp: rejected_def retries_next_def Let_def split: option.splits)

lemma control_message_dials: "dials (fst (control_message m s)) = map (\<lambda>n. nat (min (max n 1) maxWorkConns)) (requests [m])"
  by (cases m) (auto simp: rejected_def retries_next_def Let_def split: option.splits)

lemma requests_Cons: "requests (m # ms) = requests [m] @ requests ms"
  by (cases m) auto

lemma refusals_Cons: "refusals name (m # ms) = refusals name [m] + refusals name ms"
  by (cases m) auto

lemma control_message_tries:
  "tries (snd (control_message m s)) name
    = tries s name + (if session_tunnel s name = None then 0 else refusals name [m])"
  by (cases m) (auto simp: rejected_def retries_next_def tries_def retriable_def Let_def split: option.splits)

definition tunnels_named :: "client_session \<Rightarrow> bool" where
  "tunnels_named s \<longleftrightarrow> (\<forall>n t. session_tunnel s n = Some t \<longrightarrow> tu_Name t = n)"

lemma control_message_republished:
  assumes "tunnels_named s"
  shows "filter (\<lambda>u. tu_Name u = name) (republished (fst (control_message m s)))
    = (case session_tunnel s name of None \<Rightarrow> []
       | Some t \<Rightarrow> replicate (min republishAttempts (tries s name + refusals name [m])
                     - min republishAttempts (tries s name)) t)"
proof (cases m)
  case (MNewProxyResp resp)
  show ?thesis
  proof (cases "pr_Error resp \<noteq> [] \<and> retriable (pr_Error resp)")
    case False
    then have "republished (fst (control_message m s)) = []" "refusals name [m] = 0"
      by (auto simp: MNewProxyResp rejected_def retriable_def split: option.splits)
    then show ?thesis by (simp split: option.splits)
  next
    case True
    show ?thesis
    proof (cases "session_tunnel s (pr_Name resp)")
      case None
      with True show ?thesis by (auto simp: MNewProxyResp rejected_def split: option.splits)
    next
      case (Some t)
      then have "tu_Name t = pr_Name resp" using assms by (auto simp: tunnels_named_def)
      with True Some show ?thesis
        by (auto simp: MNewProxyResp rejected_def retries_next_def retriable_def tries_def republishAttempts_def
            min_def Let_def split: option.splits)
    qed
  qed
qed (auto split: option.splits)

lemma control_message_frame:
  "session_tunnel (snd (control_message m s)) name = session_tunnel s name"
  "tunnels_named s \<Longrightarrow> tunnels_named (snd (control_message m s))"
  by (simp_all add: session_tunnel_def tunnels_named_def react_tunnels)

lemma react_dials: "dials (fst (react ms s)) = map (\<lambda>n. nat (min (max n 1) maxWorkConns)) (requests ms)"
proof (induction ms arbitrary: s)
  case Nil
  then show ?case by simp
next
  case (Cons m ms)
  have "dials (fst (react (m # ms) s)) = dials (fst (control_message m s)) @ dials (fst (react ms (snd (control_message m s))))"
    by (simp split: prod.splits)
  then show ?case
    unfolding Cons control_message_dials requests_Cons [of m ms] by simp
qed

lemma react_republished:
  "tunnels_named s \<Longrightarrow> filter (\<lambda>u. tu_Name u = name) (republished (fst (react ms s)))
    = (case session_tunnel s name of None \<Rightarrow> []
       | Some t \<Rightarrow> replicate (min republishAttempts (tries s name + refusals name ms)
                     - min republishAttempts (tries s name)) t)"
proof (induction ms arbitrary: s)
  case Nil
  then show ?case by (simp split: option.splits)
next
  case (Cons m ms)
  let ?s = "snd (control_message m s)"
  have "filter (\<lambda>u. tu_Name u = name) (republished (fst (react (m # ms) s)))
      = filter (\<lambda>u. tu_Name u = name) (republished (fst (control_message m s)))
        @ filter (\<lambda>u. tu_Name u = name) (republished (fst (react ms ?s)))"
    by (simp split: prod.splits)
  also have "\<dots> = (case session_tunnel s name of None \<Rightarrow> []
       | Some t \<Rightarrow> replicate (min republishAttempts (tries s name + refusals name [m])
                     - min republishAttempts (tries s name)) t
           @ replicate (min republishAttempts (tries ?s name + refusals name ms) - min republishAttempts (tries ?s name)) t)"
    using Cons.IH [of ?s] Cons.prems
    by (simp add: control_message_republished control_message_frame split: option.splits)
  finally show ?case
    unfolding refusals_Cons [of name m ms]
    by (auto simp: control_message_tries add.assoc min_def replicate_add [symmetric] split: option.splits)
qed

section \<open>Properties\<close>

text \<open>C21: The control loop does what the server asks for and no more. Whatever messages the server
  writes, and however the network cuts them, the client reads them all and ends normally with the
  stream. Each request for work connections starts between 1 and 256 dials, exactly as many as
  requested when the number lies between; a tunnel the session has published and the server refuses
  as still claimed is published again, with the same settings, at most eight times in a session; and
  nothing else is ever published again.\<close>

theorem control_loop_bounded:
  assumes "list_all sendable ms" "clean (cd_r k)" "reader_data (cd_r k) = frames ms"
    and "tunnels_named s" "cs_retries s = []"
  shows "\<exists>acts s'. client_controlLoop s k = Some (None, acts, s')
    \<and> dials acts = map (\<lambda>n. nat (min (max n 1) 256)) (requests ms)
    \<and> filter (\<lambda>u. tu_Name u = name) (republished acts)
      = (case session_tunnel s name of None \<Rightarrow> [] | Some t \<Rightarrow> replicate (min 8 (refusals name ms)) t)"
proof -
  have "tries s name = 0" using assms(5) by (simp add: tries_def)
  then have "filter (\<lambda>u. tu_Name u = name) (republished (fst (react ms s)))
      = (case session_tunnel s name of None \<Rightarrow> [] | Some t \<Rightarrow> replicate (min 8 (refusals name ms)) t)"
    using react_republished [OF assms(4), of name ms] by (simp add: republishAttempts_def split: option.splits)
  moreover have "maxWorkConns = 256" by (simp add: maxWorkConns_def DefaultMaxPoolCount_def)
  ultimately show ?thesis
    using controlLoop_reacts [OF assms(1-3), of s] react_dials [of ms s] by (metis prod.collapse)
qed

definition ssh_session :: client_session where
  "ssh_session = \<lparr>cs_runID = ''r1'', cs_serverVersion = ''1'', cs_observedAddr = [],
     cs_tunnels = [(''ssh'', demo_tunnel ''ssh'' [])], cs_targets = [(''ssh'', ''192.168.1.2:22'')], cs_retries = []\<rparr>"

definition demo_refusal :: message where
  "demo_refusal = MNewProxyResp \<lparr>pr_Name = ''ssh'', pr_RemotePort = 0, pr_Error = ''already routed''\<rparr>"

lemmas sendable_eval = sendable_def message_ok.simps int64_ok_def valid_utf8_ascii is_ascii_def byte_nat_def
    encode_def Let_def json_Marshal_def always_def omitempty_def quoted_def quote_body_ascii escape_ascii_def
    jint_def int_text_def nat_text.simps MaxMessageSize_def

lemma demo_sendable: "sendable (MReqWorkConn 1000)" "sendable demo_refusal"
  by (simp_all add: sendable_eval demo_refusal_def newProxyResp_members_def)

theorem control_loop_bounded_witness:
  "\<exists>acts s'. client_controlLoop ssh_session
      (NewCodec (byte_chunks (frames (MReqWorkConn 1000 # replicate 9 demo_refusal))) \<lparr>w_out = [], w_script = []\<rparr>)
      = Some (None, acts, s')
    \<and> dials acts = [256]
    \<and> filter (\<lambda>u. tu_Name u = ''ssh'') (republished acts) = replicate 8 (demo_tunnel ''ssh'' [])"
proof -
  let ?ms = "MReqWorkConn 1000 # replicate 9 demo_refusal"
  have ok: "list_all sendable ?ms" using demo_sendable by (simp add: list_all_iff)
  have named: "tunnels_named ssh_session" "cs_retries ssh_session = []"
    by (auto simp: tunnels_named_def session_tunnel_def ssh_session_def demo_tunnel_def split: if_splits)
  have "contains ''already routed'' ''already routed''" by code_simp
  then have ref: "refusals ''ssh'' ?ms = 9" "requests ?ms = [1000]"
    by (simp_all add: demo_refusal_def retriable_def numeral_eq_Suc)
  have tun: "session_tunnel ssh_session ''ssh'' = Some (demo_tunnel ''ssh'' [])"
    by (simp add: session_tunnel_def ssh_session_def)
  from control_loop_bounded [OF ok _ _ named, of "NewCodec (byte_chunks (frames ?ms)) \<lparr>w_out = [], w_script = []\<rparr>" "''ssh''"]
  show ?thesis by (simp only: ref tun NewCodec_def Codec.simps byte_chunks_facts) simp
qed

text \<open>The certificate of a tunnel, when it takes part in pushing, and what a pass has to push.\<close>

definition material :: "(int \<Rightarrow> certificate option) \<Rightarrow> tunnel \<Rightarrow> certificate option" where
  "material source t =
     (if \<not> tu_Enabled t \<or> tu_CertID t = 0 then None
      else case source (tu_CertID t) of
        None \<Rightarrow> None
      | Some m \<Rightarrow> if ce_Fullchain m = [] \<or> ce_PrivateKey m = [] then None else Some m)"

fun pending :: "(int \<Rightarrow> certificate option) \<Rightarrow> client \<Rightarrow> tunnel list \<Rightarrow> message list" where
  "pending source c [] = []"
| "pending source c (t # ts) =
     (case material source t of
        None \<Rightarrow> pending source c ts
      | Some m \<Rightarrow> if alreadyPushed c (tu_Name t) (fingerprint m) then pending source c ts
                  else push_message m # pending source c ts)"

definition push_tunnel :: "(int \<Rightarrow> certificate option) \<Rightarrow> tunnel \<Rightarrow> client \<times> Codec \<Rightarrow> client \<times> Codec" where
  "push_tunnel source t st = (case material source t of None \<Rightarrow> st | Some m \<Rightarrow> pushOne (tu_Name t) m st)"

lemma push_each_tunnel: "push_each source (t # ts) st = push_each source ts (push_tunnel source t st)"
  by (simp add: push_tunnel_def material_def pushOne_def split: option.splits prod.splits)

lemma pending_other:
  "tun \<notin> tu_Name ` set ts \<Longrightarrow> pending source (c\<lparr>cl_pushed := AList.update tun p (cl_pushed c)\<rparr>) ts = pending source c ts"
  by (induction ts) (auto simp: alreadyPushed_def split: option.splits)

lemma fingerprint_nonempty: "fingerprint m \<noteq> []"
proof -
  have "length (fingerprint m) = 64" by (simp add: fingerprint_def length_sha256)
  then show ?thesis by auto
qed

lemma push_tunnel_sent:
  assumes "w_script (cd_w k) = []" "\<forall>m. material source t = Some m \<longrightarrow> is_ok (encode (push_message m))"
  shows "\<exists>P. push_tunnel source t (c, k) = (c\<lparr>cl_pushed := P\<rparr>, sent k (pending source c [t]))
    \<and> (\<forall>m. material source t = Some m \<longrightarrow> map_of P (tu_Name t) = Some (fingerprint m))
    \<and> (\<forall>n. n \<noteq> tu_Name t \<longrightarrow> map_of P n = map_of (cl_pushed c) n)"
proof (cases "material source t")
  case None
  with assms(1) show ?thesis by (intro exI [of _ "cl_pushed c"]) (simp add: push_tunnel_def)
next
  case (Some m)
  then have m: "ce_Fullchain m \<noteq> []" "ce_PrivateKey m \<noteq> []"
    by (auto simp: material_def split: if_splits option.splits)
  show ?thesis
  proof (cases "alreadyPushed c (tu_Name t) (fingerprint m)")
    case True
    then have "map_of (cl_pushed c) (tu_Name t) = Some (fingerprint m)"
      using fingerprint_nonempty [of m] by (auto simp: alreadyPushed_def split: option.splits)
    with Some True m assms(1) show ?thesis
      by (intro exI [of _ "cl_pushed c"]) (simp add: push_tunnel_def pushOne_def)
  next
    case False
    with Some m assms show ?thesis
      by (intro exI [of _ "AList.update (tu_Name t) (fingerprint m) (cl_pushed c)"])
        (simp add: push_tunnel_def pushOne_def Codec_Write_is_sent)
  qed
qed

lemma push_each_sent:
  assumes "w_script (cd_w k) = []" "distinct (map tu_Name ts)"
    "\<forall>t \<in> set ts. \<forall>m. material source t = Some m \<longrightarrow> is_ok (encode (push_message m))"
  shows "\<exists>P. push_each source ts (c, k) = (c\<lparr>cl_pushed := P\<rparr>, sent k (pending source c ts))
    \<and> (\<forall>t \<in> set ts. \<forall>m. material source t = Some m \<longrightarrow> map_of P (tu_Name t) = Some (fingerprint m))
    \<and> (\<forall>n. n \<notin> tu_Name ` set ts \<longrightarrow> map_of P n = map_of (cl_pushed c) n)"
  using assms
proof (induction ts arbitrary: c k)
  case Nil
  then show ?case by (intro exI [of _ "cl_pushed c"]) simp
next
  case (Cons t ts)
  obtain P where P: "push_tunnel source t (c, k) = (c\<lparr>cl_pushed := P\<rparr>, sent k (pending source c [t]))"
    "\<forall>m. material source t = Some m \<longrightarrow> map_of P (tu_Name t) = Some (fingerprint m)"
    "\<forall>n. n \<noteq> tu_Name t \<longrightarrow> map_of P n = map_of (cl_pushed c) n"
    using push_tunnel_sent [OF Cons.prems(1), of source t c] Cons.prems(3) by auto
  have t: "tu_Name t \<notin> tu_Name ` set ts" using Cons.prems(2) by simp
  have same: "pending source (c\<lparr>cl_pushed := P\<rparr>) us = pending source c us" if "tu_Name t \<notin> tu_Name ` set us" for us
    using that P(3) by (induction us) (auto simp: alreadyPushed_def split: option.splits)
  have "distinct (map tu_Name ts)" "w_script (cd_w (sent k (pending source c [t]))) = []"
    "\<forall>t \<in> set ts. \<forall>m. material source t = Some m \<longrightarrow> is_ok (encode (push_message m))"
    using Cons.prems by simp_all
  from Cons.IH [OF this(2,1,3), of "c\<lparr>cl_pushed := P\<rparr>"] obtain Q where Q:
    "push_each source ts (c\<lparr>cl_pushed := P\<rparr>, sent k (pending source c [t]))
      = (c\<lparr>cl_pushed := Q\<rparr>, sent k (pending source c [t] @ pending source c ts))"
    "\<forall>t \<in> set ts. \<forall>m. material source t = Some m \<longrightarrow> map_of Q (tu_Name t) = Some (fingerprint m)"
    "\<forall>n. n \<notin> tu_Name ` set ts \<longrightarrow> map_of Q n = map_of P n"
    using same [OF t] by auto
  have "pending source c (t # ts) = pending source c [t] @ pending source c ts" by (simp split: option.splits)
  with P Q t show ?case
    by (intro exI [of _ Q]) (auto simp: push_each_tunnel simp del: push_each.simps pending.simps)
qed

lemma push_each_noop:
  "\<forall>t \<in> set ts. \<forall>m. material source t = Some m \<longrightarrow> alreadyPushed c (tu_Name t) (fingerprint m) \<Longrightarrow>
     push_each source ts (c, k) = (c, k)"
proof (induction ts)
  case Nil
  then show ?case by simp
next
  case (Cons t ts)
  then have "push_tunnel source t (c, k) = (c, k)"
    by (auto simp: push_tunnel_def pushOne_def split: option.splits)
  with Cons show ?case by (simp add: push_each_tunnel del: push_each.simps)
qed

text \<open>The server always has the client's current certificates. A pass sends, for each enabled
  tunnel that names a certificate, the material the store has for it, unless exactly this was already
  sent in the session; after it every such tunnel's material is what was sent last, so the next pass
  with the same material sends nothing, and a pass of a new session sends everything again.\<close>

theorem certificates_kept_current:
  assumes "w_script (cd_w k) = []" "distinct (map tu_Name (cc_Tunnels (cl_cfg c)))"
    "\<forall>t \<in> set (cc_Tunnels (cl_cfg c)). \<forall>m. material source t = Some m \<longrightarrow> is_ok (encode (push_message m))"
    and "pushCertificates (Some source) (c, k) = (c1, k1)"
  shows "k1 = sent k (pending source c (cc_Tunnels (cl_cfg c)))
    \<and> pushCertificates (Some source) (c1, k1) = (c1, k1)
    \<and> pending source (reset_pushed c1) (cc_Tunnels (cl_cfg c))
      = map push_message (List.map_filter (material source) (cc_Tunnels (cl_cfg c)))"
proof -
  let ?ts = "cc_Tunnels (cl_cfg c)"
  obtain P where P: "push_each source ?ts (c, k) = (c\<lparr>cl_pushed := P\<rparr>, sent k (pending source c ?ts))"
    "\<forall>t \<in> set ?ts. \<forall>m. material source t = Some m \<longrightarrow> map_of P (tu_Name t) = Some (fingerprint m)"
    using push_each_sent [OF assms(1-3), of c] by blast
  then have c1: "c1 = c\<lparr>cl_pushed := P\<rparr>" "k1 = sent k (pending source c ?ts)"
    using assms(4) by (simp_all add: pushCertificates_def)
  have "pushCertificates (Some source) (c1, k1) = (c1, k1)"
    using push_each_noop [of ?ts source c1 k1] P(2) by (simp add: pushCertificates_def c1 alreadyPushed_def)
  moreover have "pending source (reset_pushed c1) ts = map push_message (List.map_filter (material source) ts)" for ts
    using fingerprint_nonempty fingerprint_nonempty [symmetric]
    by (induction ts) (auto simp: reset_pushed_def alreadyPushed_def List.map_filter_simps split: option.splits)
  ultimately show ?thesis using c1(2) by blast
qed

definition demo_material :: certificate where
  "demo_material = \<lparr>ce_Domains = None, ce_Fullchain = ''chain'', ce_PrivateKey = ''key'', ce_NotAfter = 0\<rparr>"

theorem certificates_kept_current_witness:
  "let c = newClient (demo_client [(demo_tunnel ''web'' [])\<lparr>tu_CertID := 7\<rparr>]) ''1'';
       k = NewCodec [] \<lparr>w_out = [], w_script = []\<rparr>;
       c1 = fst (pushCertificates (Some (\<lambda>_. Some demo_material)) (c, k));
       k1 = snd (pushCertificates (Some (\<lambda>_. Some demo_material)) (c, k)) in
   k1 = sent k [push_message demo_material]
   \<and> pushCertificates (Some (\<lambda>_. Some demo_material)) (c1, k1) = (c1, k1)"
proof -
  let ?src = "\<lambda>_::int. Some demo_material"
  let ?c = "newClient (demo_client [(demo_tunnel ''web'' [])\<lparr>tu_CertID := 7\<rparr>]) ''1''"
  let ?k = "NewCodec [] \<lparr>w_out = [], w_script = []\<rparr>"
  have ts: "cc_Tunnels (cl_cfg ?c) = [(demo_tunnel ''web'' [])\<lparr>tu_CertID := 7\<rparr>]"
    by (simp add: newClient_def demo_client_def)
  have mat: "material ?src ((demo_tunnel ''web'' [])\<lparr>tu_CertID := 7\<rparr>) = Some demo_material"
    by (simp add: material_def demo_tunnel_def demo_material_def)
  have "length (json_Marshal (push_message demo_material)) = 68" by code_simp
  then have enc: "is_ok (encode (push_message demo_material))" by (simp add: encode_def Let_def MaxMessageSize_def)
  have none: "cl_pushed ?c = []" by (simp add: newClient_def)
  have new: "pending ?src ?c (cc_Tunnels (cl_cfg ?c)) = [push_message demo_material]"
    using fingerprint_nonempty [of demo_material] by (simp add: ts mat alreadyPushed_def none)
  have "w_script (cd_w ?k) = []" "distinct (map tu_Name (cc_Tunnels (cl_cfg ?c)))"
    "\<forall>t \<in> set (cc_Tunnels (cl_cfg ?c)). \<forall>m. material ?src t = Some m \<longrightarrow> is_ok (encode (push_message m))"
    by (simp_all add: ts mat enc NewCodec_def)
  from certificates_kept_current [OF this prod.collapse [symmetric]]
  show ?thesis unfolding new Let_def by blast
qed

section \<open>How long the client waits\<close>

definition random_below :: "(int \<Rightarrow> int) \<Rightarrow> bool" where
  "random_below rnd \<longleftrightarrow> (\<forall>n > 0. 0 \<le> rnd n \<and> rnd n < n)"

lemma jitter_range:
  assumes "random_below rnd" "0 \<le> d"
  shows "d div 2 \<le> jitter rnd d" "jitter rnd d \<le> d"
proof -
  have "0 < d div 2 + 1" using assms(2) by (simp add: pos_imp_zdiv_nonneg_iff add_pos_nonneg add.commute)
  then have "0 \<le> rnd (d div 2 + 1)" "rnd (d div 2 + 1) < d div 2 + 1"
    using assms(1) unfolding random_below_def by blast+
  then show "d div 2 \<le> jitter rnd d" "jitter rnd d \<le> d"
    using assms(2) by (simp_all add: jitter_def Let_def trunc_div_pos)
qed

text \<open>The client never hammers its server and never gives up on it: every wait lies between a quarter
  of a second and half a minute.\<close>

lemma reconnect_waits_range:
  assumes "\<forall>k. random_below (rnd k)" "minReconnectDelay \<le> delay" "delay \<le> maxReconnectDelay"
  shows "\<forall>w \<in> set (reconnect_waits rnd k delay lasted). minReconnectDelay div 2 \<le> w \<and> w \<le> maxReconnectDelay"
  using assms(2,3)
proof (induction lasted arbitrary: k delay)
  case Nil
  then show ?case by simp
next
  case (Cons l ls)
  define d where "d = (if Minute < l then minReconnectDelay else delay)"
  have c: "0 < minReconnectDelay" "minReconnectDelay \<le> maxReconnectDelay"
    by (simp_all add: minReconnectDelay_def maxReconnectDelay_def Second_def)
  have d: "minReconnectDelay \<le> d" "d \<le> maxReconnectDelay" "0 \<le> d"
    using Cons.prems c by (auto simp: d_def)
  have "minReconnectDelay div 2 \<le> d div 2" using d(1) by (simp add: zdiv_mono1)
  moreover have "d div 2 \<le> jitter (rnd k) d" "jitter (rnd k) d \<le> d"
    using jitter_range [of "rnd k" d] assms(1) d(3) by blast+
  ultimately have "minReconnectDelay div 2 \<le> jitter (rnd k) d \<and> jitter (rnd k) d \<le> maxReconnectDelay"
    using d(2) by linarith
  moreover have "minReconnectDelay \<le> min (d * 2) maxReconnectDelay" "min (d * 2) maxReconnectDelay \<le> maxReconnectDelay"
    using d c by linarith+
  note Cons.IH [OF this, of "Suc k"]
  ultimately show ?case
    by (simp only: reconnect_waits.simps Let_def d_def [symmetric] list.set ball_simps simp_thms)
qed

end
