(* ===== verification/Cli_Forward.thy ===== *)
theory Cli_Forward
  imports Cli_Session Cli_Udp Net_ProxyProto
begin

text \<open>
  Carrying a visitor to the local service: \<^verbatim>\<open>internal/tunnel/client/forwarder.go\<close>, called by
  \<^verbatim>\<open>runWorkConn\<close> and \<^verbatim>\<open>serveStream\<close> once the server has said which tunnel a connection is for.
\<close>

section \<open>Operations\<close>

text \<open>What the outside does: the address the dialled connection reports (none when dialling fails),
  whether the header could be written, what the relay reported as it went, and whether it spliced.\<close>

record outside =
  os_dial :: "string \<Rightarrow> net_addr option"
  os_header :: bool
  os_progress :: "(int \<times> int) list"
  os_spliced :: bool
  os_udp :: "nat \<Rightarrow> bool \<times> bool"

datatype forward_result =
    UnknownTunnel
  | ServedUDP
  | DialFailed string
  | NotAnnounced
  | Relayed string bytes

definition announce_header :: "tunnel \<Rightarrow> string \<Rightarrow> net_addr \<Rightarrow> bool \<Rightarrow> bytes option" where
  "announce_header t source remote writes =
     (if tu_ProxyProtocol t = [] then Some []
      else case ParseProxyAddr source of
        Inl e \<Rightarrow> None
      | Inr addr \<Rightarrow>
          (case WriteProxyHeader (tu_ProxyProtocol t) addr remote of
             Inl e \<Rightarrow> None
           | Inr h \<Rightarrow> if writes then Some h else None))"

text \<open>\<open>forward\<close> gives how it ended, the address dialled with the bytes the service receives before the
  visitor's, and the counters. Progress is reported while the relay runs.\<close>

definition forward_tcp :: "int \<Rightarrow> outside \<Rightarrow> string \<Rightarrow> tunnel \<Rightarrow> StartWorkConn \<Rightarrow> stats \<Rightarrow> forward_result \<times> stats" where
  "forward_tcp now os target t start traffic =
     (case os_dial os target of
        None \<Rightarrow> (DialFailed target, traffic)
      | Some remote \<Rightarrow>
          (case announce_header t (sw_SourceAddr start) remote (os_header os) of
             None \<Rightarrow> (NotAnnounced, traffic)
           | Some h \<Rightarrow>
               (Relayed target h,
                RecordClose now (foldl (\<lambda>r (i, o'). RecordProgress now r (sw_ProxyName start) i o') traffic (os_progress os))
                  (sw_ProxyName start) (os_spliced os))))"

definition forward :: "int \<Rightarrow> outside \<Rightarrow> client_session \<Rightarrow> StartWorkConn \<Rightarrow> reader \<Rightarrow> writer \<Rightarrow> stats \<Rightarrow> forward_result \<times> stats" where
  "forward now os s start r w traffic =
     (case session_tunnel s (sw_ProxyName start) of
        None \<Rightarrow> (UnknownTunnel, traffic)
      | Some t \<Rightarrow>
          let opened = Stats_Open traffic (sw_ProxyName start);
              (res, carried) =
                (if tu_Type t = TunnelUDP
                 then (ServedUDP, case forwardUDP (os_udp os) (\<lambda>_. now) (sw_ProxyName start) r (new_link w opened) of
                    None \<Rightarrow> opened | Some (e, l) \<Rightarrow> ul_traffic l)
                 else forward_tcp now os (session_target s (sw_ProxyName start)) t start opened) in
          (res, Stats_Close carried (sw_ProxyName start)))"

text \<open>\<^verbatim>\<open>runWorkConn\<close> and \<^verbatim>\<open>serveStream\<close> after dialling: the first message decides.\<close>

definition serve_conn :: "int \<Rightarrow> outside \<Rightarrow> client_session \<Rightarrow> reader \<Rightarrow> writer \<Rightarrow> stats \<Rightarrow> forward_result option \<times> stats" where
  "serve_conn now os s r w traffic =
     (case ReadMessage r of
        (Inl e, _) \<Rightarrow> (None, traffic)
      | (Inr (MStartWorkConn start), r') \<Rightarrow>
          if sw_Error start \<noteq> [] then (None, traffic)
          else (case forward now os s start r' w traffic of (res, traffic') \<Rightarrow> (Some res, traffic'))
      | (Inr m, _) \<Rightarrow> (None, traffic))"

section \<open>What a visitor's connection counts for\<close>

definition active :: "stats \<Rightarrow> string \<Rightarrow> int" where
  "active r name = i64_wrap (ct_Active (counters_of r name))"

lemma active_open_close:
  "active (Stats_Open r name) n = (if n = name then i64_wrap (active r name + 1) else active r n)"
  "active (Stats_Close r name) n = (if n = name then i64_wrap (active r name - 1) else active r n)"
  using i64_wrap_add [of "ct_Active (counters_of r name)" "- 1"]
  by (auto simp: active_def Stats_Open_def Stats_Close_def counters_with)

lemma active_progress: "active (RecordProgress now r name i o') n = active r n"
  "active (RecordClose now r name b) n = active r n"
  by (auto simp: active_def RecordProgress_def RecordClose_def counters_with Let_def)

lemma counts_open_close:
  "stats_in (Stats_Open r name) n = stats_in r n" "stats_out (Stats_Open r name) n = stats_out r n"
  "stats_conns (Stats_Open r name) n = stats_conns r n"
  "stats_in (Stats_Close r name) n = stats_in r n" "stats_out (Stats_Close r name) n = stats_out r n"
  "stats_conns (Stats_Close r name) n = stats_conns r n"
  by (auto simp: stats_in_def stats_out_def stats_conns_def Stats_Open_def Stats_Close_def counters_with)

lemma active_progresses: "active (foldl (\<lambda>r (i, o'). RecordProgress now r name i o') r ps) n = active r n"
  by (induction ps arbitrary: r) (auto simp: active_progress)

lemma active_restored: "i64_wrap (i64_wrap (active r n + 1) - 1) = active r n"
  using i64_wrap_add [of "active r n + 1" "- 1"] by (simp add: active_def)


definition demo_start :: StartWorkConn where
  "demo_start = \<lparr>sw_ProxyName = ''ssh'', sw_SourceAddr = ''203.0.113.7:50000'', sw_Error = []\<rparr>"

definition demo_outside :: outside where
  "demo_outside = \<lparr>os_dial = (\<lambda>_. Some (TCPAddr (map nat_byte [192, 168, 1, 2]) 22)), os_header = True,
     os_progress = [(5, 0), (0, 9)], os_spliced = False, os_udp = (\<lambda>_. (True, True))\<rparr>"


end
