(* ===== verification/Cli_Announce.thy ===== *)
theory Cli_Announce
  imports Cli_Session Net_ProxyProto
begin

text \<open>
  Sending one message to a server over a connection of its own,
  \<^verbatim>\<open>internal/tunnel/client/announce.go\<close>, and publishing ACME challenges that way to the servers a name
  points at, \<^verbatim>\<open>internal/manage/http01.go\<close>.
\<close>

section \<open>One message to one server\<close>

definition announce_config :: "upstream \<Rightarrow> client_config" where
  "announce_config u =
     (let cfg = Client_ApplyDefaults
        \<lparr>cc_Servers = [], cc_ServerAddr = up_Addr u, cc_ServerPort = up_Port u, cc_Token = up_Token u, cc_Name = [],
         cc_Transport = up_Transport u, cc_SocketGID = 0, cc_SocketMark = 0, cc_Tunnels = []\<rparr> in
      cfg\<lparr>cc_Transport := (cc_Transport cfg)\<lparr>tr_PoolCount := 1\<rparr>\<rparr>)"

definition announce_client :: "upstream \<Rightarrow> string \<Rightarrow> client" where
  "announce_client u version =
     (let cfg = announce_config u in
      \<lparr>cl_cfg = cfg, cl_version = version, cl_dialAddr = JoinHostPort (cc_ServerAddr cfg) (int_text (cc_ServerPort cfg)),
       cl_tlsName = None, cl_runID = [], cl_pushed = [], cl_traffic = []\<rparr>)"

datatype announce_error = AnnounceLogin login_error | AnnounceSend codec_error | AnnounceRead codec_error

text \<open>Replies of other types are passed over; every read takes a frame off the stream.\<close>

fun await_reply :: "nat \<Rightarrow> nat \<Rightarrow> Codec \<Rightarrow> (announce_error + message) option" where
  "await_reply 0 want codec = None"
| "await_reply (Suc fuel) want codec =
     (case Codec_Read codec of
        (Inl e, _) \<Rightarrow> Some (Inl (AnnounceRead e))
      | (Inr reply, codec) \<Rightarrow> if message_type reply = want then Some (Inr reply) else await_reply fuel want codec)"

definition Announce :: "string \<times> string \<times> string \<Rightarrow> int \<Rightarrow> upstream \<Rightarrow> string \<Rightarrow> message \<Rightarrow> nat \<Rightarrow> Codec
    \<Rightarrow> (announce_error + message) option" where
  "Announce host timestamp u version msg want codec =
     (case login host timestamp (announce_client u version) codec of
        (Inl e, _) \<Rightarrow> Some (Inl (AnnounceLogin e))
      | (Inr s, _, codec) \<Rightarrow>
          (case Codec_Write codec msg of
             (Some e, _) \<Rightarrow> Some (Inl (AnnounceSend e))
           | (None, codec) \<Rightarrow> await_reply (Suc (length (reader_data (cd_r codec)))) want codec))"

text \<open>An announcement never names a session: the server makes up a run id for each.\<close>

lemma announce_login:
  "lg_RunID (login_message host timestamp (announce_client u version)) = []"
  "lg_Version (login_message host timestamp (announce_client u version)) = Version"
  "lg_Timestamp (login_message host timestamp (announce_client u version)) = timestamp"
  "lg_AuthKey (login_message host timestamp (announce_client u version)) = AuthKey (up_Token u) timestamp"
  "lg_PoolCount (login_message host timestamp (announce_client u version)) = 1"
  by (simp_all add: login_message_def announce_client_def announce_config_def Client_ApplyDefaults_def Let_def
      split: prod.splits)

section \<open>A challenge for the servers a name points at\<close>

text \<open>\<open>tell\<close> is one announcement to one server: whether the server took it, and the world after.
  \<open>resolve\<close> is the name service.\<close>

fun send_each :: "(upstream \<Rightarrow> HTTPChallenge \<Rightarrow> 'w \<Rightarrow> bool \<times> 'w) \<Rightarrow> HTTPChallenge \<Rightarrow> upstream list \<Rightarrow> 'w \<Rightarrow> nat \<times> 'w" where
  "send_each tell msg [] w = (0, w)"
| "send_each tell msg (u # us) w =
     (case tell u msg w of (ok, w) \<Rightarrow>
        (case send_each tell msg us w of (failures, w) \<Rightarrow> ((if ok then 0 else 1) + failures, w)))"

definition http_send :: "(upstream \<Rightarrow> HTTPChallenge \<Rightarrow> 'w \<Rightarrow> bool \<times> 'w) \<Rightarrow> upstream list \<Rightarrow> HTTPChallenge \<Rightarrow> 'w \<Rightarrow> bool \<times> 'w" where
  "http_send tell servers msg w =
     (if servers = [] then (True, w)
      else case send_each tell msg servers w of (failures, w) \<Rightarrow> (failures \<noteq> length servers, w))"

definition addressesOf :: "(string \<Rightarrow> string list) \<Rightarrow> upstream \<Rightarrow> string list" where
  "addressesOf resolve u =
     (case ParseIP (up_Addr u) of Some ip \<Rightarrow> [IP_String ip] | None \<Rightarrow> resolve (up_Addr u))"

definition serversFor :: "(string \<Rightarrow> string list) \<Rightarrow> upstream list \<Rightarrow> string \<Rightarrow> upstream list" where
  "serversFor resolve servers domain =
     (let addresses = resolve domain in
      if addresses = [] then []
      else filter (\<lambda>u. list_ex (\<lambda>a. a \<in> set addresses) (addressesOf resolve u)) servers)"

definition other_servers :: "upstream list \<Rightarrow> upstream list \<Rightarrow> upstream list" where
  "other_servers servers exclude = filter (\<lambda>u. up_Name u \<notin> set (map up_Name exclude)) servers"

definition Present :: "(upstream \<Rightarrow> HTTPChallenge \<Rightarrow> 'w \<Rightarrow> bool \<times> 'w) \<Rightarrow> (string \<Rightarrow> string list) \<Rightarrow> upstream list
    \<Rightarrow> string \<Rightarrow> string \<Rightarrow> string \<Rightarrow> 'w \<Rightarrow> bool \<times> 'w" where
  "Present tell resolve servers domain token keyAuth w =
     (let msg = \<lparr>hc_Domain = domain, hc_Token = token, hc_KeyAuth = keyAuth, hc_Remove = False\<rparr>;
          required = serversFor resolve servers domain in
      if required \<noteq> [] then
        (case http_send tell required msg w of
           (False, w) \<Rightarrow> (False, w)
         | (True, w) \<Rightarrow> (True, snd (http_send tell (other_servers servers required) msg w)))
      else http_send tell servers msg w)"

definition CleanUp :: "(upstream \<Rightarrow> HTTPChallenge \<Rightarrow> 'w \<Rightarrow> bool \<times> 'w) \<Rightarrow> upstream list \<Rightarrow> string \<Rightarrow> string \<Rightarrow> 'w \<Rightarrow> 'w" where
  "CleanUp tell servers domain token w =
     snd (http_send tell servers \<lparr>hc_Domain = domain, hc_Token = token, hc_KeyAuth = [], hc_Remove = True\<rparr> w)"

section \<open>Facts\<close>

text \<open>When the servers' names are distinct, every server is told exactly once: the required ones first.\<close>

fun told :: "upstream list \<Rightarrow> (upstream \<Rightarrow> bool) \<Rightarrow> nat" where
  "told [] ok = 0"
| "told (u # us) ok = (if ok u then 0 else 1) + told us ok"

lemma send_each_log:
  "send_each (\<lambda>u m w. (ok u, w @ [u])) msg us w = (told us ok, w @ us)"
  by (induction us arbitrary: w) auto

lemma other_servers_partition:
  assumes "distinct (map up_Name servers)" "set required \<subseteq> set servers"
  shows "set required \<inter> set (other_servers servers required) = {}" "set servers = set required \<union> set (other_servers servers required)"
proof -
  have inj: "inj_on up_Name (set servers)" using assms(1) by (simp add: distinct_map)
  show "set required \<inter> set (other_servers servers required) = {}" by (auto simp: other_servers_def)
  have "u \<in> set required" if "u \<in> set servers" "up_Name u \<in> up_Name ` set required" for u
    using that inj assms(2) by (metis image_iff inj_on_eq_iff subsetD)
  then show "set servers = set required \<union> set (other_servers servers required)"
    using assms(2) by (auto simp: other_servers_def)
qed

end
