(* ===== verification/Sys_Compose.thy ===== *)
theory Sys_Compose
  imports Cli_Supervisor Cli_Announce Srv_Lifecycle
begin

text \<open>
  Client and server together: the bytes one side writes are what the other reads, a login with the
  server's token succeeds and keeps its run id, what a configuration asks for is what the server is
  asked for, and what becomes of a challenge that is announced and withdrawn.
\<close>

section \<open>The answer to a login\<close>

text \<open>What \<^verbatim>\<open>handleLogin\<close> writes to the connection, with the texts of its errors.\<close>

definition login_response :: "string \<Rightarrow> login_result \<Rightarrow> LoginResp option" where
  "login_response observed r =
     (case r of
        BadVersion (ErrVersionMismatch peer) \<Rightarrow>
          Some \<lparr>lr_ObservedAddr = [], lr_Version = Version, lr_RunID = [], lr_ServerVersion = [],
            lr_Error = ''protocol: incompatible version: peer speaks v'' @ int_text peer @ '', this build speaks v''
              @ int_text Version\<rparr>
      | AuthRejected \<Rightarrow>
          Some \<lparr>lr_ObservedAddr = [], lr_Version = Version, lr_RunID = [], lr_ServerVersion = [],
            lr_Error = ''authentication failed''\<rparr>
      | NoRandom \<Rightarrow> None
      | LoggedIn i runID version \<Rightarrow>
          Some \<lparr>lr_ObservedAddr = observed, lr_Version = Version, lr_RunID = runID, lr_ServerVersion = version,
            lr_Error = []\<rparr>)"

section \<open>Opening a connection\<close>

lemma VerifyAuth_good:
  assumes "\<bar>age now ts\<bar> \<le> DefaultAuthSkew"
  shows "VerifyAuth token (AuthKey token ts) ts now DefaultAuthSkew = None"
proof -
  have b: "DefaultAuthSkew = 900000000000" by (simp add: DefaultAuthSkew_def Minute_def Second_def)
  then have 1: "int64_ok (age now ts)" "age now ts \<noteq> minDuration" "\<not> DefaultAuthSkew \<le> 0"
    using assms by (auto simp: int64_ok_def minDuration_def abs_le_iff)
  then have "time_Sub now (time_Unix ts) = age now ts" "neg_duration (age now ts) = - age now ts"
    by (simp_all add: age_def time_Sub_exact neg_duration_ok)
  then show ?thesis using assms 1(3) by (auto simp: VerifyAuth_def Let_def abs_if split: if_splits)
qed

lemma login_frames_read:
  assumes "sendable m" "clean r"
    "reader_data r = w_out (snd (greet \<lparr>w_out = [], w_script = []\<rparr> ModePlain)) @ frames [m] @ rest"
  obtains r1 r2 where "ReadPreamble r = (Inr plain_preamble, r1)" "ReadMessage r1 = (Inr m, r2)" "reader_data r2 = rest"
proof -
  obtain f where f: "encode m = Inr f" "message_ok m"
    using assms(1) by (cases "encode m") (auto simp: sendable_def)
  have data: "reader_data r = Magic @ [nat_byte 1, nat_byte 1] @ (f @ rest)"
    using assms(3) f by (simp add: greet_def WritePreamble_def write_bytes_def preamble_bytes_def Version_def ModePlain_def)
  obtain r1 where r1: "clean r1" "reader_data r1 = f @ rest" "ReadPreamble r = (Inr plain_preamble, r1)"
    using ReadPreamble_whole [OF assms(2) data]
    by (auto simp: Version_def Mode_Valid_def modeNames_def ModePlain_def plain_preamble_def)
  obtain r2 where "ReadMessage r1 = (Inr m, r2)" "reader_data r2 = rest"
    using ReadMessage_encoded [OF f(2,1) r1(1,2)] by metis
  with r1(3) show thesis using that by blast
qed

text \<open>The run id a server gives to a login.\<close>

definition given_run_id :: "client \<Rightarrow> bytes \<Rightarrow> string" where
  "given_run_id c random = (if cl_runID c = [] then hex_encode random else cl_runID c)"

lemma handleLogin_accepts:
  assumes "lg_Version lg = Version" "lg_AuthKey lg = AuthKey (cf_Token (sv_cfg sv)) (lg_Timestamp lg)"
    "\<bar>age now (lg_Timestamp lg)\<bar> \<le> DefaultAuthSkew"
  shows "\<exists>sv1. handleLogin_begin env now (Some random) went lg sv
      = (LoggedIn (sv_next sv) (if lg_RunID lg = [] then hex_encode random else lg_RunID lg) (sv_version sv), sv1)
    \<and> Registry_Get (sv_registry sv1) (if lg_RunID lg = [] then hex_encode random else lg_RunID lg) = Some (sv_next sv)"
proof -
  have ctx: "sv_registry (snd (on_session i f s)) = sv_registry s" for i f s
    by (auto simp: on_session_def split: option.splits prod.splits)
  show ?thesis
    using assms VerifyAuth_good [OF assms(3), of "cf_Token (sv_cfg sv)"]
    by (auto simp: handleLogin_begin_def CheckVersion_def NewRunID_def Registry_Add_def Registry_Get_def Let_def
        ctx close_session_def split: option.splits)
qed

section \<open>Properties\<close>

text \<open>A client that holds the server's token gets in, and stays the same client. When the clocks
  agree to within fifteen minutes, the bytes the client opens its connection with make the server
  register a session, under the run id the client had before or, the first time, a new one; reading
  the server's answer, the client takes this run id as its own, and the next login presents it again.\<close>

theorem client_login_accepted:
  assumes "sendable (MLogin (login_message host ts c))" "cf_Token (sv_cfg sv) = cc_Token (cl_cfg c)"
    and "\<bar>age (ar_now a) ts\<bar> \<le> DefaultAuthSkew" "ar_rand a = Some random"
    and "clean r" "reader_data r = w_out (snd (greet \<lparr>w_out = [], w_script = []\<rparr> ModePlain))
        @ frames [MLogin (login_message host ts c)] @ rest"
    and "login_response observed (LoggedIn (sv_next sv) (given_run_id c random) (sv_version sv)) = Some resp"
    and "sendable (MLoginResp resp)" "clean (cd_r k)" "reader_data (cd_r k) = frames [MLoginResp resp] @ rest'"
    and "w_script (cd_w k) = []"
  shows "(\<exists>outs. fst (handleConn env x5 a streams r sv)
        = Plain (LoginDone (LoggedIn (sv_next sv) (given_run_id c random) (sv_version sv)) outs))
    \<and> (\<exists>sv1. handleLogin_begin env (ar_now a) (ar_rand a) (ar_sent a) (login_message host ts c) sv
          = (LoggedIn (sv_next sv) (given_run_id c random) (sv_version sv), sv1)
        \<and> Registry_Get (sv_registry sv1) (given_run_id c random) = Some (sv_next sv))
    \<and> (\<exists>s c' k'. login host ts c k = (Inr s, c', k') \<and> cs_runID s = given_run_id c random
        \<and> cs_serverVersion s = sv_version sv \<and> cs_observedAddr s = observed
        \<and> lg_RunID (login_message host' ts' c') = given_run_id c random \<and> reader_data (cd_r k') = rest')"
proof -
  let ?lg = "login_message host ts c"
  have lg: "lg_Version ?lg = Version" "lg_Timestamp ?lg = ts" "lg_AuthKey ?lg = AuthKey (cf_Token (sv_cfg sv)) ts"
    "lg_RunID ?lg = cl_runID c"
    by (simp_all add: login_message_def assms(2) split: prod.splits)
  obtain sv1 where start: "handleLogin_begin env (ar_now a) (ar_rand a) (ar_sent a) ?lg sv
      = (LoggedIn (sv_next sv) (given_run_id c random) (sv_version sv), sv1)"
    "Registry_Get (sv_registry sv1) (given_run_id c random) = Some (sv_next sv)"
    using handleLogin_accepts [of ?lg sv "ar_now a" env random "ar_sent a"] lg(1-3) assms(3,4)
    unfolding given_run_id_def lg(4) by auto
  obtain r1 r2 where "ReadPreamble r = (Inr plain_preamble, r1)" "ReadMessage r1 = (Inr (MLogin ?lg), r2)"
    using login_frames_read [OF assms(1,5,6)] by blast
  then have "\<exists>outs. fst (handleConn env x5 a streams r sv)
      = Plain (LoginDone (LoggedIn (sv_next sv) (given_run_id c random) (sv_version sv)) outs)"
    by (simp add: handleConn_def plain_preamble_def handlePlain_def handleLogin_def start(1) split: prod.splits)
  moreover have "\<exists>s c' k'. login host ts c k = (Inr s, c', k') \<and> cs_runID s = given_run_id c random
      \<and> cs_serverVersion s = sv_version sv \<and> cs_observedAddr s = observed
      \<and> lg_RunID (login_message host' ts' c') = given_run_id c random \<and> reader_data (cd_r k') = rest'"
  proof -
    have resp: "resp = \<lparr>lr_ObservedAddr = observed, lr_Version = Version, lr_RunID = given_run_id c random,
        lr_ServerVersion = sv_version sv, lr_Error = []\<rparr>"
      using assms(7) by (simp add: login_response_def)
    have w: "Codec_Write k (MLogin ?lg) = (None, sent k [MLogin ?lg])"
      using assms(1,11) by (simp add: Codec_Write_is_sent sendable_def)
    obtain f where f: "encode (MLoginResp resp) = Inr f" "message_ok (MLoginResp resp)"
      using assms(8) by (cases "encode (MLoginResp resp)") (auto simp: sendable_def)
    have "reader_data (cd_r (sent k [MLogin ?lg])) = f @ rest'" "clean (cd_r (sent k [MLogin ?lg]))"
      using assms(9,10) f(1) by simp_all
    then obtain r3 where r3: "ReadMessage (cd_r (sent k [MLogin ?lg])) = (Inr (MLoginResp resp), r3)" "reader_data r3 = rest'"
      using ReadMessage_encoded [OF f(2,1)] by metis
    have "message_type (MLoginResp resp) = TypeLoginResp" by simp
    with r3 w show ?thesis
      by (simp add: login_def Codec_ReadExpect_def Codec_Read_ReadMessage resp login_message_def split: prod.splits)
  qed
  ultimately show ?thesis using start by blast
qed

text \<open>Keys and generated run ids are hexadecimal, which JSON carries as it is.\<close>

lemma escape_plain:
  "48 \<le> byte_nat c \<Longrightarrow> byte_nat c \<noteq> 60 \<Longrightarrow> byte_nat c \<noteq> 62 \<Longrightarrow> byte_nat c \<noteq> 92 \<Longrightarrow> escape_ascii c = [c]"
proof -
  assume n: "48 \<le> byte_nat c" "byte_nat c \<noteq> 60" "byte_nat c \<noteq> 62" "byte_nat c \<noteq> 92"
  have "c \<noteq> d" if "byte_nat d < 48 \<or> byte_nat d \<in> {60, 62, 92}" for d using n that by auto
  then have "c \<noteq> CHR 0x22" "c \<noteq> CHR 0x5C" "c \<noteq> CHR 0x08" "c \<noteq> CHR 0x0C" "c \<noteq> CHR 0x0A" "c \<noteq> CHR 0x0D" "c \<noteq> CHR 0x09"
    "c \<noteq> CHR ''<''" "c \<noteq> CHR ''>''" "c \<noteq> CHR ''&''"
    by (simp_all add: byte_nat_def)
  with n(1) show ?thesis by (simp add: escape_ascii_def)
qed

lemma hexDigit_plain:
  assumes "n < 16"
  shows "byte_nat (hexDigit n) < 0x80" "escape_ascii (hexDigit n) = [hexDigit n]"
proof -
  have "byte_nat (hexDigit n) = (if n < 10 then 48 + n else 87 + n)" using assms by (simp add: hexDigit_def)
  then show "byte_nat (hexDigit n) < 0x80" "escape_ascii (hexDigit n) = [hexDigit n]"
    using assms escape_plain [of "hexDigit n"] by (simp_all split: if_splits)
qed

lemma quote_body_hex: "quote_body (hex_encode bs) = hex_encode bs"
  by (induction bs) (simp_all add: quote_body_ascii hexDigit_plain byte_split)

lemma valid_hex: "valid_utf8 (hex_encode bs)"
proof (rule valid_utf8_ascii)
  show "list_all is_ascii (hex_encode bs)"
    by (induction bs) (simp_all add: is_ascii_def hexDigit_plain byte_split)
qed

lemma key_facts: "valid_utf8 (AuthKey token ts)" "quote_body (AuthKey token ts) = AuthKey token ts"
  by (simp_all add: AuthKey_def valid_hex quote_body_hex)

definition home_client :: client where
  "home_client = newClient ((demo_client [])\<lparr>cc_Token := ''secret'', cc_Name := ''home''\<rparr>) ''1''"

definition home_random :: bytes where
  "home_random = map nat_byte [0, 255]"

definition home_login :: Login where
  "home_login = login_message ([], [], []) 0 home_client"

lemma home_login_fields:
  "home_login = \<lparr>lg_Version = 1, lg_ClientName = ''home'', lg_Hostname = [], lg_OS = [], lg_Arch = [], lg_Timestamp = 0,
     lg_AuthKey = AuthKey ''secret'' 0, lg_PoolCount = tr_PoolCount demo_transport, lg_RunID = []\<rparr>"
  by (simp add: home_login_def login_message_def home_client_def newClient_def demo_client_def Version_def)

definition home_response :: LoginResp where
  "home_response = \<lparr>lr_ObservedAddr = [], lr_Version = Version, lr_RunID = ''00ff'', lr_ServerVersion = [], lr_Error = []\<rparr>"

lemma home_sendable: "sendable (MLogin home_login)" "sendable (MLoginResp home_response)"
  by (simp_all add: sendable_eval home_login_fields home_response_def Version_def demo_transport_def login_members_def
      loginResp_members_def key_facts length_AuthKey)

lemma home_run_id: "given_run_id home_client home_random = ''00ff''"
proof -
  have "hex_encode home_random = ''00ff''" by code_simp
  moreover have "cl_runID home_client = []" by (simp add: home_client_def newClient_def)
  ultimately show ?thesis by (simp add: given_run_id_def)
qed

theorem client_login_accepted_witness:
  "\<exists>outs s c' k'. fst (handleConn ascii_env demo_x5 (knock\<lparr>ar_rand := Some home_random\<rparr>) []
        (byte_chunks (w_out (snd (greet \<lparr>w_out = [], w_script = []\<rparr> ModePlain)) @ frames [MLogin home_login] @ [])) guarded)
      = Plain (LoginDone (LoggedIn 0 ''00ff'' []) outs)
    \<and> login ([], [], []) 0 home_client
        (NewCodec (byte_chunks (frames [MLoginResp home_response] @ [])) \<lparr>w_out = [], w_script = []\<rparr>) = (Inr s, c', k')
    \<and> cs_runID s = ''00ff'' \<and> lg_RunID (login_message ([], [], []) 60 c') = ''00ff''"
proof -
  let ?a = "knock\<lparr>ar_rand := Some home_random\<rparr>"
  let ?k = "NewCodec (byte_chunks (frames [MLoginResp home_response] @ [])) \<lparr>w_out = [], w_script = []\<rparr>"
  have sv: "cf_Token (sv_cfg guarded) = cc_Token (cl_cfg home_client)" "sv_next guarded = 0" "sv_version guarded = []"
    by (simp_all add: guarded_def newServer_def demo_cfg_def home_client_def newClient_def demo_client_def)
  have a: "\<bar>age (ar_now ?a) 0\<bar> \<le> DefaultAuthSkew" "ar_rand ?a = Some home_random"
    by (simp_all add: knock_def age_def DefaultAuthSkew_def Minute_def Second_def)
  have resp: "login_response [] (LoggedIn (sv_next guarded) (given_run_id home_client home_random) (sv_version guarded))
      = Some home_response"
    by (simp add: login_response_def home_response_def home_run_id sv(2,3))
  have k: "clean (cd_r ?k)" "reader_data (cd_r ?k) = frames [MLoginResp home_response] @ []" "w_script (cd_w ?k) = []"
    by (simp_all add: NewCodec_def)
  from client_login_accepted [OF home_sendable(1) [unfolded home_login_def] sv(1) a byte_chunks_facts(1) _ resp home_sendable(2) k,
      where env = ascii_env and ?x5.0 = demo_x5 and streams = "[]" and host' = "([], [], [])" and ts' = 60 and rest = "[]"]
  show ?thesis
    unfolding home_run_id sv(2,3) home_login_def [symmetric] byte_chunks_facts by blast
qed

lemma read_frames:
  assumes "list_all sendable ms" "clean (cd_r d)" "reader_data (cd_r d) = frames ms @ rest"
  shows "fst (read_all d (length ms)) = map Inr ms"
  using read_all_frames [of ms d rest] assms by (auto simp: frames_def sendable_def list_all_iff)

lemma validated_spec_accepted:
  assumes "Tunnel_Validate t = None"
  shows "case proxy_New env (options_of s (tunnel_spec t)) of
      Inr p \<Rightarrow> proxy_Name p = tu_Name t
    | Inl e \<Rightarrow> NeedsDomains (tu_Type t) \<and> ((\<exists>sch. e = NoVhostListener (tu_Name t) sch) \<or> (\<exists>why. e = BadDomain (tu_Name t) why))"
proof -
  have t: "TunnelType_Valid (tu_Type t)" "NeedsDomains (tu_Type t) \<longrightarrow> tu_Domains t \<noteq> []"
    "NeedsRemotePort (tu_Type t) \<longrightarrow> 0 \<le> tu_RemotePort t \<and> tu_RemotePort t \<le> 65535"
    using assms by (auto simp: Tunnel_Validate_def validatePort_def Let_def split: if_splits)
  from t(1) consider "tu_Type t = ''tcp''" | "tu_Type t = ''udp''" | "tu_Type t = ''http''" | "tu_Type t = ''https''"
    by (auto simp: TunnelType_Valid_def tunnel_consts)
  then show ?thesis
    by cases (use t in \<open>auto simp: proxy_New_def registry_def options_of_def tunnel_spec_def newTCPProxy_def newUDPProxy_def
      newVhostProxy_def NeedsDomains_def NeedsRemotePort_def tunnel_consts Let_def split: option.splits\<close>)
qed

text \<open>C26: The server is asked for exactly what the configuration says. After a session of a client
  whose configuration validates has published, the server's codec reads one request per enabled
  tunnel, in the configuration's order and with its settings, however the network cuts the stream;
  the requests have distinct names; and none of them is refused for its kind, its port or missing
  domains, only for what the server alone can know: that it has no listener for the scheme, or that
  a domain is not one.\<close>

theorem server_asked_as_configured:
  assumes "Client_Validate (cl_cfg cl) = None"
    and "list_all sendable (map (\<lambda>t. MNewProxy (tunnel_spec t)) (EnabledTunnels (cl_cfg cl)))"
    and "w_script (cd_w k) = []" "w_out (cd_w k) = []"
    and "publishTunnels cl (cs, k) = (err, cs', k')"
    and "clean (cd_r d)" "reader_data (cd_r d) = w_out (cd_w k') @ rest"
  shows "err = None
    \<and> fst (read_all d (length (EnabledTunnels (cl_cfg cl))))
      = map (\<lambda>t. Inr (MNewProxy \<lparr>ps_Name = tu_Name t, ps_Kind = tu_Type t, ps_RemotePort = tu_RemotePort t,
          ps_Domains = tu_Domains t, ps_TLSMode = tu_TLSMode t, ps_DownRate = tu_DownRate t, ps_UpRate = tu_UpRate t,
          ps_Quota = tu_Quota t\<rparr>)) (EnabledTunnels (cl_cfg cl))
    \<and> distinct (map tu_Name (EnabledTunnels (cl_cfg cl)))
    \<and> (\<forall>t \<in> set (EnabledTunnels (cl_cfg cl)).
         case proxy_New env (options_of s (tunnel_spec t)) of
           Inr p \<Rightarrow> proxy_Name p = tu_Name t
         | Inl e \<Rightarrow> NeedsDomains (tu_Type t)
             \<and> ((\<exists>sch. e = NoVhostListener (tu_Name t) sch) \<or> (\<exists>why. e = BadDomain (tu_Name t) why)))"
proof -
  let ?ts = "EnabledTunnels (cl_cfg cl)" and ?ms = "map (\<lambda>t. MNewProxy (tunnel_spec t)) (EnabledTunnels (cl_cfg cl))"
  have T: "\<forall>t \<in> set ?ts. Tunnel_Validate t = None" "distinct (map tu_Name ?ts)"
    using Client_Validate_None(5) [OF assms(1)] unfolding validate_tunnels_iff
    by (auto simp: EnabledTunnels_def distinct_map_filter)
  have "\<forall>t \<in> set ?ts. is_ok (encode (MNewProxy (tunnel_spec t)))" using assms(2) by (auto simp: list_all_iff sendable_def)
  from publish_each_sent [OF this assms(3) T(2), of cs]
  have pub: "err = None" "k' = sent k ?ms" using assms(5) by (auto simp: publishTunnels_def)
  then have "reader_data (cd_r d) = frames ?ms @ rest" using assms(4,7) by simp
  then have "fst (read_all d (length ?ms)) = map Inr ?ms" using read_frames [OF assms(2,6)] by blast
  moreover have "map Inr ?ms = map (\<lambda>t. Inr (MNewProxy (tunnel_spec t))) ?ts" by simp
  ultimately show ?thesis using pub(1) T validated_spec_accepted by (simp add: tunnel_spec_def)
qed

theorem server_asked_as_configured_witness:
  "\<exists>k'. snd (snd (publishTunnels (newClient (Client_ApplyDefaults (demo_client [demo_tunnel ''ssh'' [], demo_tunnel ''ssh2'' ''b''])) [])
        (ssh_session, NewCodec [] \<lparr>w_out = [], w_script = []\<rparr>))) = k'
    \<and> fst (read_all (NewCodec (byte_chunks (w_out (cd_w k') @ ''x'')) \<lparr>w_out = [], w_script = []\<rparr>) 2)
      = map (\<lambda>t. Inr (MNewProxy (tunnel_spec (Tunnel_applyDefaults t)))) [demo_tunnel ''ssh'' [], demo_tunnel ''ssh2'' ''b'']"
proof -
  let ?c = "Client_ApplyDefaults (demo_client [demo_tunnel ''ssh'' [], demo_tunnel ''ssh2'' ''b''])"
  let ?cl = "newClient ?c []" and ?k = "NewCodec [] \<lparr>w_out = [], w_script = []\<rparr>"
  obtain err cs' k' where pub: "publishTunnels ?cl (ssh_session, ?k) = (err, cs', k')" by (metis prod_cases3)
  let ?d = "NewCodec (byte_chunks (w_out (cd_w k') @ ''x'')) \<lparr>w_out = [], w_script = []\<rparr>"
  have ip: "ParseIP ''192.168.1.2'' \<noteq> None" by code_simp
  have valid: "Client_Validate ?c = None"
    using ip by (simp add: config_eval trim_space_graphic graphic_def byte_nat_def)
  have cfg: "cl_cfg ?cl = ?c" by (simp add: newClient_def)
  have ts: "EnabledTunnels ?c = map Tunnel_applyDefaults [demo_tunnel ''ssh'' [], demo_tunnel ''ssh2'' ''b'']"
    by (simp add: EnabledTunnels_def Client_ApplyDefaults_def demo_client_def Tunnel_defaults_fields demo_tunnel_def)
  have ok: "list_all sendable (map (\<lambda>t. MNewProxy (tunnel_spec t)) (EnabledTunnels (cl_cfg ?cl)))"
    unfolding cfg ts
    by (simp add: sendable_eval tunnel_spec_def demo_tunnel_def Tunnel_defaults_fields spec_members_def spec_ok_def tunnel_consts)
  have io: "w_script (cd_w ?k) = []" "w_out (cd_w ?k) = []" "clean (cd_r ?d)"
    "reader_data (cd_r ?d) = w_out (cd_w k') @ ''x''"
    by (simp_all add: NewCodec_def)
  have "fst (read_all ?d (length (EnabledTunnels ?c))) = map (\<lambda>t. Inr (MNewProxy (tunnel_spec t))) (EnabledTunnels ?c)"
    using server_asked_as_configured [OF _ ok io(1,2) pub io(3,4)] valid unfolding cfg tunnel_spec_def by blast
  then have "fst (read_all ?d 2)
      = map (\<lambda>t. Inr (MNewProxy (tunnel_spec (Tunnel_applyDefaults t)))) [demo_tunnel ''ssh'' [], demo_tunnel ''ssh2'' ''b'']"
    unfolding ts by (simp add: numeral_2_eq_2 del: read_all.simps)
  with pub show ?thesis by (intro exI [of _ k']) simp
qed

section \<open>Announcing and withdrawing a challenge\<close>

lemma challenges_kept [simp]:
  "sv_challenges (snd (on_session i f sv)) = sv_challenges sv" "sv_challenges (close_session env i sv) = sv_challenges sv"
  by (auto simp: close_session_def on_session_def split: option.splits prod.splits)

lemma handleLogin_challenges:
  "sv_challenges (snd (handleLogin_begin env now random went lg sv)) = sv_challenges sv"
  "sv_challenges (handleLogin_end env i sv) = sv_challenges sv"
  by (auto simp: handleLogin_begin_def handleLogin_end_def Let_def split: option.splits prod.splits)

lemma close_session_keeps_opts:
  "map_of (sv_sessions sv) j = Some s \<Longrightarrow> i \<noteq> j \<Longrightarrow> map_of (sv_sessions (close_session env i sv)) j = Some s"
  by (auto simp: close_session_def on_session_def split: option.splits prod.splits)

text \<open>The session a login starts carries the run id it was given.\<close>

lemma handleLogin_session:
  assumes "handleLogin_begin env now random went lg sv = (LoggedIn i runID v, sv1)"
    "\<forall>j. map_of (sv_registry sv) runID = Some j \<longrightarrow> j \<noteq> i"
  shows "\<exists>s. map_of (sv_sessions sv1) i = Some s \<and> so_RunID (se_opts s) = runID"
proof -
  let ?s0 = "newSession (session_opts_of sv runID lg)"
  let ?sv1 = "sv\<lparr>sv_registry := AList.update runID i (sv_registry sv),
      sv_sessions := AList.update i ?s0 (sv_sessions sv), sv_next := Suc i\<rparr>"
  let ?sv2 = "case map_of (sv_registry sv) runID of None \<Rightarrow> ?sv1 | Some old \<Rightarrow> close_session env old ?sv1"
  have "map_of (sv_sessions ?sv2) i = Some ?s0"
    using assms(2) close_session_keeps_opts [of ?sv1 i ?s0] by (auto split: option.splits)
  moreover have "sv1 = (if went then snd (on_session i (\<lambda>(s, b). ((), s\<lparr>se_pool :=
      requestWorkConns (pool_target (sv_cfg sv) (lg_PoolCount lg)) (se_pool s)\<rparr>, b)) ?sv2) else ?sv2)"
    using assms(1) by (auto simp: handleLogin_begin_def Registry_Add_def Let_def split: option.splits if_splits)
  ultimately show ?thesis
    by (auto simp: on_session_def newSession_def session_opts_of_def split: if_splits)
qed

text \<open>One announcement: a login without a run id, one challenge message, and the end of the stream.\<close>

definition announcement :: "HTTPChallenge \<Rightarrow> turn \<Rightarrow> arrival \<Rightarrow> bool" where
  "announcement msg t a \<longleftrightarrow> ar_turns a = [t] \<and> tn_read t = Inr (MHTTPChallenge msg) \<and> ar_sent a"

lemma announced:
  assumes "announcement msg t a" "lg_RunID lg = []" "lg_Version lg = Version"
    "lg_AuthKey lg = AuthKey (cf_Token (sv_cfg sv)) (lg_Timestamp lg)" "\<bar>age (ar_now a) (lg_Timestamp lg)\<bar> \<le> DefaultAuthSkew"
    "ar_rand a = Some random" "map_of (sv_registry sv) (hex_encode random) = None"
    "handlePlain env x5 a (Inr (MLogin lg)) sv = (res, sv')"
  shows "\<exists>i v. res = LoginDone (LoggedIn i (hex_encode random) v)
      (fst (handleHTTPChallenge (tn_now t) (hex_encode random) msg sv))
    \<and> sv_challenges sv' = sv_challenges (snd (handleHTTPChallenge (tn_now t) (hex_encode random) msg sv))"
proof -
  obtain sv1 where sv1: "handleLogin_begin env (ar_now a) (Some random) True lg sv
      = (LoggedIn (sv_next sv) (hex_encode random) (sv_version sv), sv1)"
    using handleLogin_accepts [OF assms(3,4,5), of env random True] assms(2) by auto
  obtain s where s: "map_of (sv_sessions sv1) (sv_next sv) = Some s" "so_RunID (se_opts s) = hex_encode random"
    using handleLogin_session [OF sv1] assms(7) by auto
  have ch: "sv_challenges sv1 = sv_challenges sv"
    using handleLogin_challenges(1) [of env "ar_now a" "Some random" True lg sv] sv1 by simp
  have turn: "control_turn env x5 (sv_next sv) t sv1 = (True, handleHTTPChallenge (tn_now t) (hex_encode random) msg sv1)"
    using assms(1) s by (simp add: announcement_def control_turn_def)
  have same: "fst (handleHTTPChallenge (tn_now t) r msg sv1) = fst (handleHTTPChallenge (tn_now t) r msg sv)"
    "sv_challenges (snd (handleHTTPChallenge (tn_now t) r msg sv1)) = sv_challenges (snd (handleHTTPChallenge (tn_now t) r msg sv))" for r
    by (auto simp: handleHTTPChallenge_def ch split: prod.splits)
  obtain o' sv2 where h: "handleHTTPChallenge (tn_now t) (hex_encode random) msg sv1 = (o', sv2)" by fastforce
  have "handlePlain env x5 a (Inr (MLogin lg)) sv
      = (LoginDone (LoggedIn (sv_next sv) (hex_encode random) (sv_version sv)) o', handleLogin_end env (sv_next sv) sv2)"
    using assms(1,6) sv1 turn h by (simp add: handlePlain_def handleLogin_def announcement_def)
  then show ?thesis using assms(8) same [of "hex_encode random"] h by (simp add: handleLogin_challenges(2))
qed

text \<open>C27: A challenge published through an announcement cannot be withdrawn through one. Each
  announcement is a connection of its own that logs in without a run id, so the server makes up
  another for the withdrawal than for the publication, and removes a challenge only for the run id
  that published it. The server still reports success, and goes on answering the challenge until it
  expires an hour later.\<close>

theorem announced_challenge_not_withdrawn:
  assumes "announcement \<lparr>hc_Domain = domain, hc_Token = token, hc_KeyAuth = keyAuth, hc_Remove = False\<rparr> t1 a1"
    and "announcement \<lparr>hc_Domain = domain, hc_Token = token, hc_KeyAuth = [], hc_Remove = True\<rparr> t2 a2"
    and "lg1 = login_message host ts1 (announce_client u version)" "lg2 = login_message host ts2 (announce_client u version)"
    and "cf_Token (sv_cfg sv) = up_Token u" "cf_Token (sv_cfg sv') = up_Token u"
    and "\<bar>age (ar_now a1) ts1\<bar> \<le> DefaultAuthSkew" "\<bar>age (ar_now a2) ts2\<bar> \<le> DefaultAuthSkew"
    and "ar_rand a1 = Some r1" "ar_rand a2 = Some r2" "r1 \<noteq> r2"
    and "map_of (sv_registry sv) (hex_encode r1) = None" "map_of (sv_registry sv') (hex_encode r2) = None"
    and "handlePlain env x5 a1 (Inr (MLogin lg1)) sv = (LoginDone res1 [OutChallengeResp None], sv1)"
    and "sv_challenges sv' = sv_challenges sv1"
    and "handlePlain env x5 a2 (Inr (MLogin lg2)) sv' = (res2, sv2)"
    and "time_nanos at \<le> time_nanos (tn_now t1) + Hour"
  shows "(\<exists>i v. res2 = LoginDone (LoggedIn i (hex_encode r2) v) [OutChallengeResp None])
    \<and> Challenge_Answer at (sv_challenges sv1) (challengePrefix @ token) = Some keyAuth
    \<and> Challenge_Answer at (sv_challenges sv2) (challengePrefix @ token) = Some keyAuth"
proof -
  let ?m1 = "\<lparr>hc_Domain = domain, hc_Token = token, hc_KeyAuth = keyAuth, hc_Remove = False\<rparr>"
  have A1: "[OutChallengeResp None] = fst (handleHTTPChallenge (tn_now t1) (hex_encode r1) ?m1 sv)"
    "sv_challenges sv1 = sv_challenges (snd (handleHTTPChallenge (tn_now t1) (hex_encode r1) ?m1 sv))"
    using announced [OF assms(1) _ _ _ _ assms(9,12,14)] assms(3,5,7) by (simp_all add: announce_login)
  have pub: "fst (Challenge_Publish (tn_now t1) (sv_challenges sv) (hex_encode r1) domain token keyAuth) = None"
    and sv1: "sv_challenges sv1
      = snd (Challenge_Publish (tn_now t1) (sv_challenges sv) (hex_encode r1) domain token keyAuth)"
    using A1 by (simp_all add: handleHTTPChallenge_def split: prod.splits)
  then have tok: "token \<noteq> []" "CHR ''/'' \<notin> set token" using Publish_ok by auto
  have entry: "map_of (sv_challenges sv1) token = Some \<lparr>ch_keyAuth = keyAuth, ch_domain = domain,
      ch_runID = hex_encode r1, ch_deadline = time_Add (tn_now t1) challengeTTL\<rparr>"
    using pub sv1 by (auto simp: Challenge_Publish_def split: if_splits)
  have A2: "\<exists>i v. res2 = LoginDone (LoggedIn i (hex_encode r2) v) [OutChallengeResp None]"
    "sv_challenges sv2 = Challenge_Withdraw (sv_challenges sv1) (hex_encode r2) token"
    using announced [OF assms(2) _ _ _ _ assms(10,13,16)] assms(4,6,8,15)
    by (auto simp: announce_login handleHTTPChallenge_def)
  have "hex_encode r1 \<noteq> hex_encode r2" using assms(11) by (simp add: hex_encode_inject)
  then have "sv_challenges sv2 = sv_challenges sv1" using A2(2) entry by (simp add: Challenge_Withdraw_def)
  moreover have "Challenge_Answer at (sv_challenges sv1) (challengePrefix @ token) = Some keyAuth"
    using tok entry assms(17) by (simp add: Answer_path time_After_def challengeTTL_def not_less)
  ultimately show ?thesis using A2(1) by simp
qed

text \<open>The client announces a challenge, and withdraws it a minute later.\<close>

definition demo_announce :: "HTTPChallenge \<Rightarrow> int \<Rightarrow> bytes \<Rightarrow> arrival" where
  "demo_announce msg at random =
     \<lparr>ar_now = time_Unix at, ar_rand = Some random, ar_sent = True,
      ar_turns = [\<lparr>tn_now = time_Unix at, tn_listen = ListenError [], tn_sent = True, tn_read = Inr (MHTTPChallenge msg)\<rparr>],
      ar_pick = False, ar_started = True, ar_conn = 0\<rparr>"

definition demo_challenge :: "bool \<Rightarrow> HTTPChallenge" where
  "demo_challenge remove = \<lparr>hc_Domain = ''a.example'', hc_Token = ''tok'', hc_KeyAuth = (if remove then [] else ''tok.key''),
     hc_Remove = remove\<rparr>"

theorem announced_challenge_not_withdrawn_witness:
  "let lg = (\<lambda>ts. login_message ([], [], []) ts (announce_client (demo_upstream ''a'') []));
       sv1 = snd (handlePlain ascii_env demo_x5 (demo_announce (demo_challenge False) 0 ''r1'') (Inr (MLogin (lg 0))) guarded);
       sv2 = snd (handlePlain ascii_env demo_x5 (demo_announce (demo_challenge True) 60 ''r2'') (Inr (MLogin (lg 60)))
         (guarded\<lparr>sv_challenges := sv_challenges sv1\<rparr>)) in
   Challenge_Answer (time_Unix 3000) (sv_challenges sv2) (challengePrefix @ ''tok'') = Some ''tok.key''"
proof -
  let ?u = "demo_upstream ''a''"
  let ?lg = "\<lambda>ts. login_message ([], [], []) ts (announce_client ?u [])"
  let ?a1 = "demo_announce (demo_challenge False) 0 ''r1''" and ?a2 = "demo_announce (demo_challenge True) 60 ''r2''"
  obtain res1 sv1 where one: "handlePlain ascii_env demo_x5 ?a1 (Inr (MLogin (?lg 0))) guarded = (res1, sv1)" by fastforce
  let ?sv' = "guarded\<lparr>sv_challenges := sv_challenges sv1\<rparr>"
  obtain res2 sv2 where two: "handlePlain ascii_env demo_x5 ?a2 (Inr (MLogin (?lg 60))) ?sv' = (res2, sv2)" by fastforce
  have ann: "announcement \<lparr>hc_Domain = ''a.example'', hc_Token = ''tok'', hc_KeyAuth = ''tok.key'', hc_Remove = False\<rparr> (hd (ar_turns ?a1)) ?a1"
    "announcement \<lparr>hc_Domain = ''a.example'', hc_Token = ''tok'', hc_KeyAuth = [], hc_Remove = True\<rparr> (hd (ar_turns ?a2)) ?a2"
    by (simp_all add: announcement_def demo_announce_def demo_challenge_def)
  have tok: "cf_Token (sv_cfg guarded) = up_Token ?u" "cf_Token (sv_cfg ?sv') = up_Token ?u"
    by (simp_all add: guarded_def newServer_def demo_upstream_def)
  have near: "\<bar>age (ar_now ?a1) 0\<bar> \<le> DefaultAuthSkew" "\<bar>age (ar_now ?a2) 60\<bar> \<le> DefaultAuthSkew"
    by (simp_all add: demo_announce_def age_def DefaultAuthSkew_def Minute_def Second_def)
  have rnd: "ar_rand ?a1 = Some ''r1''" "ar_rand ?a2 = Some ''r2''" "''r1'' \<noteq> ''r2''"
    "map_of (sv_registry guarded) (hex_encode ''r1'') = None" "map_of (sv_registry ?sv') (hex_encode ''r2'') = None"
    by (simp_all add: demo_announce_def guarded_def newServer_def)
  have "\<exists>i v. res1 = LoginDone (LoggedIn i (hex_encode ''r1'') v) [OutChallengeResp None]"
    using announced [OF ann(1) _ _ _ _ rnd(1,4) one] tok(1) near(1)
      Publish_ok [of "time_Unix 0" "sv_challenges guarded" "hex_encode ''r1''" "''a.example''" "''tok''" "''tok.key''"]
    by (auto simp: announce_login handleHTTPChallenge_def demo_announce_def split: prod.splits)
  then obtain l where one': "handlePlain ascii_env demo_x5 ?a1 (Inr (MLogin (?lg 0))) guarded
      = (LoginDone l [OutChallengeResp None], sv1)" using one by blast
  have late: "time_nanos (time_Unix 3000) \<le> time_nanos (tn_now (hd (ar_turns ?a1))) + Hour"
    by (simp add: demo_announce_def time_nanos_def time_Unix_def i64_wrap_def unixToInternal_def Hour_def Minute_def Second_def)
  have "Challenge_Answer (time_Unix 3000) (sv_challenges sv2) (challengePrefix @ ''tok'') = Some ''tok.key''"
    using announced_challenge_not_withdrawn [OF ann refl refl tok near rnd one' _ two late] by simp
  then show ?thesis using one two by (simp add: Let_def)
qed

end
