(* ===== verification/Upd_Semver.thy ===== *)
theory Upd_Semver
  imports Go_Strings Go_Strconv "HOL-Library.Product_Lexorder"
begin

text \<open>
  The versions a release carries (\<^verbatim>\<open>internal/update/semver.go\<close>): parsing, printing and the
  hand-written comparison. The order the comparison is meant to be is stated on its own, as the
  \<^verbatim>\<open>linorder\<close> instance of the type, and the comparison is proved to decide it.
\<close>

section \<open>The type and its operations\<close>

datatype semver = Semver (v_major: int) (v_minor: int) (v_patch: int) (v_pre: string)

definition up_to_any :: "string \<Rightarrow> string \<Rightarrow> string" where
  "up_to_any stops s = takeWhile (\<lambda>c. c \<notin> set stops) s"

fun version_fields :: "string list \<Rightarrow> int list option" where
  "version_fields [] = Some []"
| "version_fields (p # ps) =
     (case parse_int64 p of
        None \<Rightarrow> None
      | Some n \<Rightarrow> if n < 0 then None else map_option (\<lambda>ns. n # ns) (version_fields ps))"

definition field_at :: "int list \<Rightarrow> nat \<Rightarrow> int" where
  "field_at ns i = (if i < length ns then ns ! i else 0)"

definition not_a_version :: "string \<Rightarrow> string" where
  "not_a_version s = ''update: '' @ s @ '' is not a version''"

definition ParseVersion :: "string \<Rightarrow> string + semver" where
  "ParseVersion s0 =
     (let s = up_to_any ''+ '' (trim_prefix ''v'' (trim_space s0));
          (s, pre) = (case index_byte (CHR ''-'') s of
              Some i \<Rightarrow> (take i s, drop (i + 1) s)
            | None \<Rightarrow> (s, []));
          parts = split_on (CHR ''.'') s
      in if parts = [] \<or> 3 < length parts then Inl (not_a_version s)
         else case version_fields parts of
             None \<Rightarrow> Inl (not_a_version s)
           | Some ns \<Rightarrow> Inr (Semver (field_at ns 0) (field_at ns 1) (field_at ns 2) pre))"

definition Version_String :: "semver \<Rightarrow> string" where
  "Version_String v =
     (let s = ''v'' @ int_text (v_major v) @ ''.'' @ int_text (v_minor v) @ ''.'' @ int_text (v_patch v)
      in if v_pre v \<noteq> [] then s @ ''-'' @ v_pre v else s)"

fun compare_pairs :: "(int \<times> int) list \<Rightarrow> int option" where
  "compare_pairs [] = None"
| "compare_pairs ((a, b) # ps) =
     (if a \<noteq> b then Some (if a < b then - 1 else 1) else compare_pairs ps)"

definition Compare :: "semver \<Rightarrow> semver \<Rightarrow> int" where
  "Compare v w =
     (case compare_pairs [(v_major v, v_major w), (v_minor v, v_minor w), (v_patch v, v_patch w)] of
        Some r \<Rightarrow> r
      | None \<Rightarrow>
          if v_pre v = v_pre w then 0
          else if v_pre v = [] then 1
          else if v_pre w = [] then - 1
          else if v_pre v < v_pre w then - 1 else 1)"

definition NewerThan :: "semver \<Rightarrow> semver \<Rightarrow> bool" where
  "NewerThan v w = (Compare v w > 0)"

section \<open>The order of releases\<close>

text \<open>Number by number, then a prerelease (\<^term>\<open>False\<close>) below the release (\<^term>\<open>True\<close>) it
  leads to, then the prerelease tags as bytes.\<close>

definition version_key :: "semver \<Rightarrow> int \<times> int \<times> int \<times> bool \<times> string" where
  "version_key v = (v_major v, v_minor v, v_patch v, v_pre v = [], v_pre v)"

lemma version_key_inject: "version_key v = version_key w \<longleftrightarrow> v = w"
  by (auto simp: version_key_def semver.expand)

instantiation semver :: linorder
begin

definition less_eq_semver :: "semver \<Rightarrow> semver \<Rightarrow> bool" where
  "less_eq_semver v w = (version_key v \<le> version_key w)"

definition less_semver :: "semver \<Rightarrow> semver \<Rightarrow> bool" where
  "less_semver v w = (version_key v < version_key w)"

instance
  by standard
    (auto simp: less_eq_semver_def less_semver_def version_key_inject [symmetric])

end

lemma Compare_iff: "Compare v w = (if v < w then - 1 else if v = w then 0 else 1)"
  by (cases v; cases w) (auto simp: Compare_def less_semver_def version_key_def)

lemma NewerThan_iff: "NewerThan v w \<longleftrightarrow> w < v"
  by (auto simp: NewerThan_def Compare_iff)

text \<open>The version comparison is a total order. The field-by-field switch of
  \<^verbatim>\<open>Compare\<close> answers -1, 0 or 1 exactly as the lexicographic order of the numbers, with every
  prerelease below its release, does; it is antisymmetric, and \<^verbatim>\<open>NewerThan\<close> is its strict part.\<close>

theorem compare_is_order:
  "Compare v w = (if v < w then - 1 else if v = w then 0 else 1) \<and>
   Compare w v = - Compare v w \<and>
   NewerThan v w = (w < v) \<and>
   (v < w) = (version_key v < version_key w)"
  by (auto simp: Compare_iff NewerThan_iff less_semver_def [symmetric])

section \<open>Printing and parsing\<close>

definition printable_version :: "semver \<Rightarrow> bool" where
  "printable_version v =
     (list_all (\<lambda>n. 0 \<le> n \<and> int64_ok n) [v_major v, v_minor v, v_patch v] \<and>
      list_all (\<lambda>c. graphic c \<and> c \<noteq> CHR ''+'') (v_pre v))"

definition version_char :: "char \<Rightarrow> bool" where
  "version_char c \<longleftrightarrow> graphic c \<and> c \<noteq> CHR ''+'' \<and> c \<noteq> CHR '' ''"

lemma int_text_digits: "0 \<le> n \<Longrightarrow> c \<in> set (int_text n) \<Longrightarrow> is_digit c"
  using nat_text_digits [of "nat n"] by (auto simp: int_text_def list_all_iff)

lemma is_digit_version_char: "is_digit c \<Longrightarrow> version_char c"
  by (auto simp: is_digit_def version_char_def graphic_def byte_nat_def)

lemma graphic_version_char: "graphic c \<Longrightarrow> c \<noteq> CHR ''+'' \<Longrightarrow> version_char c"
  by (auto simp: version_char_def graphic_def byte_nat_def)

lemma version_char_consts: "version_char (CHR ''v'')" "version_char (CHR ''.'')" "version_char (CHR ''-'')"
  by (simp_all add: version_char_def graphic_def byte_nat_def)

lemma not_digit: "\<not> is_digit (CHR ''.'')" "\<not> is_digit (CHR ''-'')"
  by (simp_all add: is_digit_def byte_nat_def)

lemma up_to_any_id: "\<forall>c \<in> set s. c \<notin> set stops \<Longrightarrow> up_to_any stops s = s"
  by (simp add: up_to_any_def takeWhile_eq_all_conv)

lemma index_byte_append: "b \<notin> set s \<Longrightarrow> index_byte b (s @ b # t) = Some (length s)"
  by (induction s) auto

text \<open>The pieces of a printed version.\<close>

definition number_part :: "semver \<Rightarrow> string" where
  "number_part v = int_text (v_major v) @ CHR ''.'' # int_text (v_minor v) @ CHR ''.'' # int_text (v_patch v)"

definition tag_part :: "semver \<Rightarrow> string" where
  "tag_part v = (if v_pre v = [] then [] else CHR ''-'' # v_pre v)"

lemma Version_String_parts: "Version_String v = CHR ''v'' # number_part v @ tag_part v"
  by (simp add: Version_String_def number_part_def tag_part_def)

lemma printable_numbers:
  "printable_version v \<Longrightarrow> 0 \<le> v_major v \<and> 0 \<le> v_minor v \<and> 0 \<le> v_patch v \<and>
     int64_ok (v_major v) \<and> int64_ok (v_minor v) \<and> int64_ok (v_patch v)"
  by (simp add: printable_version_def)

lemma number_part_chars:
  "printable_version v \<Longrightarrow> c \<in> set (number_part v) \<Longrightarrow> is_digit c \<or> c = CHR ''.''"
  by (auto simp: number_part_def dest: printable_numbers int_text_digits)

lemma tag_part_chars: "printable_version v \<Longrightarrow> c \<in> set (tag_part v) \<Longrightarrow> version_char c"
  using version_char_consts(3) graphic_version_char [of c]
  by (auto simp: tag_part_def printable_version_def list_all_iff split: if_splits)

lemma text_chars: "printable_version v \<Longrightarrow> c \<in> set (number_part v @ tag_part v) \<Longrightarrow> version_char c"
  using number_part_chars [of v c] tag_part_chars [of v c] is_digit_version_char version_char_consts(2)
  by fastforce

lemma number_part_no_dash: "printable_version v \<Longrightarrow> CHR ''-'' \<notin> set (number_part v)"
  using number_part_chars [of v "CHR ''-''"] not_digit by auto

lemma number_part_split:
  assumes "printable_version v"
  shows "split_on (CHR ''.'') (number_part v) =
    [int_text (v_major v), int_text (v_minor v), int_text (v_patch v)]"
proof -
  have "0 \<le> n \<Longrightarrow> CHR ''.'' \<notin> set (int_text n)" for n
    using int_text_digits not_digit(1) by blast
  with printable_numbers [OF assms] show ?thesis
    by (simp add: number_part_def split_on_append split_on_single)
qed

lemma tag_cut:
  assumes "printable_version v"
  shows "(case index_byte (CHR ''-'') (number_part v @ tag_part v) of
      Some i \<Rightarrow> (take i (number_part v @ tag_part v), drop (i + 1) (number_part v @ tag_part v))
    | None \<Rightarrow> (number_part v @ tag_part v, [])) = (number_part v, v_pre v)"
proof (cases "v_pre v = []")
  case True
  then have "tag_part v = []" by (simp add: tag_part_def)
  moreover have "index_byte (CHR ''-'') (number_part v) = None"
    using number_part_no_dash [OF assms] unfolding index_byte_None .
  ultimately show ?thesis using True by (simp only: append_Nil2 option.case)
next
  case False
  then have tag: "tag_part v = CHR ''-'' # v_pre v" by (simp add: tag_part_def)
  show ?thesis
    unfolding tag index_byte_append [OF number_part_no_dash [OF assms]] option.case by simp
qed

lemma trimmed_version:
  assumes "printable_version v"
  shows "up_to_any ''+ '' (trim_prefix ''v'' (trim_space (Version_String v))) = number_part v @ tag_part v"
proof -
  have all: "\<forall>c \<in> set (Version_String v). version_char c"
    using text_chars [OF assms] version_char_consts(1) by (auto simp only: Version_String_parts list.set)
  have ne: "Version_String v \<noteq> []" by (simp add: Version_String_parts)
  have "graphic (hd (Version_String v))" "graphic (last (Version_String v))"
    using all ne hd_in_set [OF ne] last_in_set [OF ne] by (auto simp only: version_char_def)
  then have "trim_space (Version_String v) = Version_String v"
    by (rule trim_space_graphic [OF ne])
  moreover have "trim_prefix ''v'' (Version_String v) = number_part v @ tag_part v"
    using trim_prefix_append [of "''v''" "number_part v @ tag_part v"] by (simp add: Version_String_parts)
  moreover have "\<forall>c \<in> set (number_part v @ tag_part v). c \<notin> set ''+ ''"
    using text_chars [OF assms] by (auto simp only: version_char_def list.set) 
  ultimately show ?thesis using up_to_any_id by simp
qed

text \<open>Versions survive their text form. What \<^verbatim>\<open>String\<close> prints of a version with
  non-negative numbers and a printable tag, \<^verbatim>\<open>ParseVersion\<close> reads back as the same version.\<close>

theorem version_roundtrip:
  assumes "printable_version v"
  shows "ParseVersion (Version_String v) = Inr v"
  using printable_numbers [OF assms]
  unfolding ParseVersion_def trimmed_version [OF assms] Let_def tag_cut [OF assms]
  by (simp add: number_part_split [OF assms] field_at_def)

theorem version_roundtrip_witness:
  "ParseVersion (Version_String (Semver 1 10 0 ''rc-1'')) = Inr (Semver 1 10 0 ''rc-1'')"
  by (rule version_roundtrip)
    (simp add: printable_version_def int64_ok_def graphic_def byte_nat_def)

text \<open>A version needs no minor and no patch number; build metadata and a date do not count.\<close>

lemma parse_examples:
  "ParseVersion ''v1.2'' = Inr (Semver 1 2 0 [])"
  "ParseVersion ''0.3.0+abc1234'' = ParseVersion '' v0.3.0 (2026-01-01)''"
  "ParseVersion ''1.2.3.4'' = Inl (not_a_version ''1.2.3.4'')"
  by code_simp+

end
