(* ===== verification/Upd_Release.thy ===== *)
theory Upd_Release
  imports Upd_Semver Proto_Json Go_Time
begin

text \<open>
  Which release is offered (\<^verbatim>\<open>internal/update/github.go\<close>, \<^verbatim>\<open>check.go\<close>,
  \<^verbatim>\<open>internal/version/version.go\<close>): the request for the list of releases, the newest of them by the
  order of \<^verbatim>\<open>Upd_Semver\<close>, the asset built for this machine and what the check reports.
  The HTTP exchange is an argument, either the transport's error or the reply; so is
  \<open>time_text\<close>, which reads an RFC 3339 time.
\<close>

section \<open>The list of releases\<close>

record asset =
  as_Name :: string
  as_URL :: string
  as_Size :: int

record release =
  rl_Tag :: string
  rl_Name :: string
  rl_Notes :: string
  rl_Draft :: bool
  rl_Prerelease :: bool
  rl_Published :: go_time
  rl_HTMLURL :: string
  rl_Assets :: "asset list"

definition zero_time :: go_time where
  "zero_time = \<lparr>gt_sec = 0, gt_nsec = 0\<rparr>"

definition zero_asset :: asset where
  "zero_asset = \<lparr>as_Name = [], as_URL = [], as_Size = 0\<rparr>"

definition zero_release :: release where
  "zero_release = \<lparr>rl_Tag = [], rl_Name = [], rl_Notes = [], rl_Draft = False, rl_Prerelease = False,
     rl_Published = zero_time, rl_HTMLURL = [], rl_Assets = []\<rparr>"

definition asset_fields :: "asset field list" where
  "asset_fields =
     [(''name'', fld dec_string as_Name as_Name_update),
      (''browser_download_url'', fld dec_string as_URL as_URL_update),
      (''size'', fld dec_int as_Size as_Size_update)]"

definition dec_time :: "(string \<Rightarrow> go_time option) \<Rightarrow> json \<Rightarrow> go_time \<Rightarrow> go_time option" where
  "dec_time time_text j old = (case j of JNull \<Rightarrow> Some old | JStr s \<Rightarrow> time_text s | _ \<Rightarrow> None)"

definition dec_list :: "(json \<Rightarrow> 'a \<Rightarrow> 'a option) \<Rightarrow> 'a \<Rightarrow> json \<Rightarrow> 'a list \<Rightarrow> 'a list option" where
  "dec_list dec z j old = (case j of JNull \<Rightarrow> Some [] | JArr js \<Rightarrow> dec_elems dec z js old | _ \<Rightarrow> None)"

definition release_fields :: "(string \<Rightarrow> go_time option) \<Rightarrow> release field list" where
  "release_fields time_text =
     [(''tag_name'', fld dec_string rl_Tag rl_Tag_update),
      (''name'', fld dec_string rl_Name rl_Name_update),
      (''body'', fld dec_string rl_Notes rl_Notes_update),
      (''draft'', fld dec_bool rl_Draft rl_Draft_update),
      (''prerelease'', fld dec_bool rl_Prerelease rl_Prerelease_update),
      (''published_at'', fld (dec_time time_text) rl_Published rl_Published_update),
      (''html_url'', fld dec_string rl_HTMLURL rl_HTMLURL_update),
      (''assets'', fld (dec_list (decode_struct asset_fields) zero_asset) rl_Assets rl_Assets_update)]"

definition release_list :: "(string \<Rightarrow> go_time option) \<Rightarrow> bytes \<Rightarrow> release list option" where
  "release_list time_text body = (case parse_document body of
      None \<Rightarrow> None
    | Some j \<Rightarrow> dec_list (decode_struct (release_fields time_text)) zero_release j [])"

definition ChecksumsName :: string where "ChecksumsName = ''checksums.txt''"

definition BundleName :: "string \<Rightarrow> string \<Rightarrow> string \<Rightarrow> string" where
  "BundleName tag goos goarch =
     ''openfrp-'' @ trim_prefix ''v'' tag @ ''-'' @ goos @ ''-'' @ goarch @ ''.tar.gz''"

fun asset_named :: "string \<Rightarrow> asset list \<Rightarrow> asset option" where
  "asset_named want [] = None"
| "asset_named want (a # as) = (if as_Name a = want then Some a else asset_named want as)"

definition AssetFor :: "release \<Rightarrow> string \<Rightarrow> string \<Rightarrow> asset option" where
  "AssetFor r goos goarch = asset_named (BundleName (rl_Tag r) goos goarch) (rl_Assets r)"

definition Checksums :: "release \<Rightarrow> asset option" where
  "Checksums r = asset_named ChecksumsName (rl_Assets r)"

section \<open>Asking for it\<close>

datatype update_error =
    Unreached string string
  | NoRelease
  | RateLimited
  | BadStatus string string
  | BadReleaseList
  | NoVersion string
  | NoBuild string string string
  | NotComparable string

record http_reply =
  rp_StatusCode :: nat
  rp_Status :: string
  rp_RateLimitRemaining :: string
  rp_Body :: bytes

definition DefaultBaseURL :: string where "DefaultBaseURL = ''https://api.github.com''"

definition maxAPIResponse :: nat where "maxAPIResponse = 4 * 1024 * 1024"

definition client_base :: "string \<Rightarrow> string" where
  "client_base url = (if url = [] then DefaultBaseURL else trim_suffix ''/'' url)"

definition client_get :: "(string \<Rightarrow> string + http_reply) \<Rightarrow> string \<Rightarrow> update_error + bytes" where
  "client_get http url =
     (case http url of
        Inl e \<Rightarrow> Inl (Unreached url e)
      | Inr resp \<Rightarrow>
          if rp_StatusCode resp = 404 then Inl NoRelease
          else if rp_StatusCode resp = 403 \<and> rp_RateLimitRemaining resp = ''0'' then Inl RateLimited
          else if rp_StatusCode resp \<noteq> 200 then Inl (BadStatus url (rp_Status resp))
          else Inr (take maxAPIResponse (rp_Body resp)))"

fun latest_loop :: "(release \<times> semver) option \<Rightarrow> release list \<Rightarrow> (release \<times> semver) option" where
  "latest_loop found [] = found"
| "latest_loop found (r # rs) =
     (if rl_Draft r \<or> rl_Prerelease r then latest_loop found rs
      else case ParseVersion (rl_Tag r) of
          Inl e \<Rightarrow> latest_loop found rs
        | Inr v \<Rightarrow>
            if (case found of None \<Rightarrow> True | Some (best, bestVersion) \<Rightarrow> NewerThan v bestVersion)
            then latest_loop (Some (r, v)) rs
            else latest_loop found rs)"

definition Latest ::
  "(string \<Rightarrow> go_time option) \<Rightarrow> (string \<Rightarrow> string + http_reply) \<Rightarrow> string \<Rightarrow> string \<Rightarrow> update_error + release" where
  "Latest time_text http baseURL repo =
     (case client_get http (client_base baseURL @ ''/repos/'' @ repo @ ''/releases?per_page=20'') of
        Inl e \<Rightarrow> Inl e
      | Inr body \<Rightarrow>
          (case release_list time_text body of
             None \<Rightarrow> Inl BadReleaseList
           | Some releases \<Rightarrow>
               (case latest_loop None releases of
                  None \<Rightarrow> Inl NoRelease
                | Some (best, bestVersion) \<Rightarrow> Inr best)))"

section \<open>The check\<close>

definition Short :: "string \<Rightarrow> string" where
  "Short version =
     (if 0 < length version \<and> CHR ''0'' \<le> hd version \<and> hd version \<le> CHR ''9'' then ''v'' @ version else version)"

record check_status =
  ck_Current :: string
  ck_Latest :: string
  ck_Available :: bool
  ck_Notes :: string
  ck_Published :: go_time
  ck_URL :: string
  ck_Asset :: string
  ck_Size :: int
  ck_CheckedAt :: go_time
  ck_Error :: "update_error option"

definition CacheTTL :: int where "CacheTTL = 6 * Hour"

definition Stale :: "go_time \<Rightarrow> check_status \<Rightarrow> bool" where
  "Stale now s = (time_Sub now (ck_CheckedAt s) > CacheTTL)"

definition Check ::
  "string \<Rightarrow> go_time \<Rightarrow> update_error + release \<Rightarrow> string \<Rightarrow> string \<Rightarrow> check_status" where
  "Check version now latest_release goos goarch =
     (let status = \<lparr>ck_Current = Short version, ck_Latest = [], ck_Available = False, ck_Notes = [],
            ck_Published = zero_time, ck_URL = [], ck_Asset = [], ck_Size = 0, ck_CheckedAt = now,
            ck_Error = None\<rparr>
      in case ParseVersion (Short version) of
          Inl e \<Rightarrow> status\<lparr>ck_Error := Some (NotComparable (Short version))\<rparr>
        | Inr running \<Rightarrow>
      (case latest_release of
          Inl NoRelease \<Rightarrow> status
        | Inl e \<Rightarrow> status\<lparr>ck_Error := Some e\<rparr>
        | Inr release \<Rightarrow>
      (case ParseVersion (rl_Tag release) of
          Inl e \<Rightarrow> status\<lparr>ck_Error := Some (NoVersion e)\<rparr>
        | Inr newest \<Rightarrow>
      (let status = status\<lparr>ck_Latest := Version_String newest, ck_Notes := rl_Notes release,
             ck_Published := rl_Published release, ck_URL := rl_HTMLURL release\<rparr>
       in if \<not> NewerThan newest running then status
          else case AssetFor release goos goarch of
              None \<Rightarrow> status\<lparr>ck_Error := Some (NoBuild (rl_Tag release) goos goarch)\<rparr>
            | Some a \<Rightarrow> status\<lparr>ck_Available := True, ck_Asset := as_Name a, ck_Size := as_Size a\<rparr>))))"

section \<open>What is chosen\<close>

definition offered :: "release \<Rightarrow> semver option" where
  "offered r = (if rl_Draft r \<or> rl_Prerelease r then None
     else case ParseVersion (rl_Tag r) of Inl e \<Rightarrow> None | Inr v \<Rightarrow> Some v)"

definition offered_versions :: "release list \<Rightarrow> semver set" where
  "offered_versions rs = {v. Some v \<in> offered ` set rs}"

lemma finite_offered [simp]: "finite (offered_versions rs)"
proof -
  have "offered_versions rs \<subseteq> the ` offered ` set rs"
    by (auto simp: offered_versions_def intro!: image_eqI [where x = "Some _"])
  then show ?thesis by (rule finite_subset) simp
qed

lemma offered_versions_Cons:
  "offered_versions (r # rs) = (case offered r of None \<Rightarrow> {} | Some v \<Rightarrow> {v}) \<union> offered_versions rs"
  by (auto simp: offered_versions_def split: option.split)

lemma offered_versions_Nil [simp]: "offered_versions [] = {}"
  by (simp add: offered_versions_def)

lemma latest_loop_step:
  "latest_loop found (r # rs) =
     (case offered r of
        None \<Rightarrow> latest_loop found rs
      | Some v \<Rightarrow> latest_loop
          (if (case found of None \<Rightarrow> True | Some (b, w) \<Rightarrow> w < v) then Some (r, v) else found) rs)"
  by (auto simp: offered_def NewerThan_iff split: sum.split option.split)

text \<open>With a best so far, the loop keeps it unless something strictly newer follows.\<close>

lemma latest_loop_found:
  "latest_loop (Some (b, w)) rs =
     (let m = Max (insert w (offered_versions rs)) in
      if m = w then Some (b, w)
      else map_option (\<lambda>r. (r, m)) (find (\<lambda>r. offered r = Some m) rs))"
proof (induction rs arbitrary: b w)
  case Nil
  then show ?case by simp
next
  case (Cons r rs)
  show ?case
  proof (cases "offered r")
    case None
    then show ?thesis
      by (simp add: latest_loop_step offered_versions_Cons Cons.IH Let_def del: latest_loop.simps)
  next
    case (Some v)
    define m where "m = Max (insert w (offered_versions (r # rs)))"
    have m: "m = max w (Max (insert v (offered_versions rs)))"
      by (simp add: m_def offered_versions_Cons Some)
    have ge: "v \<le> Max (insert v (offered_versions rs))" by simp
    show ?thesis
    proof (cases "w < v")
      case True
      then have "w < Max (insert v (offered_versions rs))"
        using ge by (rule less_le_trans)
      then have "m = Max (insert v (offered_versions rs)) \<and> m \<noteq> w"
        unfolding m by (metis max.absorb2 order.strict_iff_not order.strict_implies_order)
      then show ?thesis
        using Some True Cons.IH [of r v]
        by (auto simp: latest_loop_step m_def [symmetric] Let_def simp del: latest_loop.simps)
    next
      case False
      then have "m = Max (insert w (offered_versions rs))"
        by (cases "offered_versions rs = {}") (auto simp: m max_def)
      moreover from False have "m \<noteq> w \<Longrightarrow> m \<noteq> v"
        using calculation by (metis Max_ge finite.insertI finite_offered insertI1 order.order_iff_strict)
      ultimately show ?thesis
        using Some False Cons.IH [of b w]
        by (auto simp: latest_loop_step m_def [symmetric] Let_def simp del: latest_loop.simps)
    qed
  qed
qed

definition newest_offered :: "release list \<Rightarrow> release option" where
  "newest_offered rs =
     (if offered_versions rs = {} then None
      else find (\<lambda>r. offered r = Some (Max (offered_versions rs))) rs)"

lemma latest_loop_newest: "map_option fst (latest_loop None rs) = newest_offered rs"
proof (induction rs)
  case Nil
  then show ?case by (simp add: newest_offered_def)
next
  case (Cons r rs)
  show ?case
  proof (cases "offered r")
    case None
    with Cons show ?thesis
      by (simp add: latest_loop_step offered_versions_Cons newest_offered_def del: latest_loop.simps)
  next
    case (Some v)
    then show ?thesis
      by (auto simp: latest_loop_step offered_versions_Cons latest_loop_found newest_offered_def Let_def
          option.map_comp comp_def option.map_id0 [unfolded id_def] simp del: latest_loop.simps)
  qed
qed

text \<open>C28: the newest release is the one offered. Over the list the service answers with,
  \<^verbatim>\<open>Latest\<close> answers the first release whose version is the maximum, in the order of versions, of all
  that are neither draft nor prerelease and carry a version; with none of them it is the error
  that says so.\<close>

theorem latest_is_newest:
  assumes "client_get http (client_base url @ ''/repos/'' @ repo @ ''/releases?per_page=20'') = Inr body"
    and "release_list tt body = Some rs"
  shows "Latest tt http url repo =
     (case newest_offered rs of None \<Rightarrow> Inl NoRelease | Some r \<Rightarrow> Inr r) \<and>
     (newest_offered rs = None) = (offered_versions rs = {})"
proof -
  have "Latest tt http url repo =
      (case map_option fst (latest_loop None rs) of None \<Rightarrow> Inl NoRelease | Some r \<Rightarrow> Inr r)"
    unfolding Latest_def assms by (simp add: assms split: option.split)
  moreover have "newest_offered rs \<noteq> None" if "offered_versions rs \<noteq> {}"
  proof -
    from that have "Max (offered_versions rs) \<in> offered_versions rs" by simp
    then obtain r where "r \<in> set rs" "offered r = Some (Max (offered_versions rs))"
      by (auto simp: offered_versions_def [of rs])
    with that show ?thesis by (auto simp: newest_offered_def find_None_iff)
  qed
  ultimately show ?thesis by (auto simp: latest_loop_newest newest_offered_def)
qed

definition demo_reply :: "string \<Rightarrow> string + http_reply" where
  "demo_reply url = Inr \<lparr>rp_StatusCode = 200, rp_Status = ''200 OK'', rp_RateLimitRemaining = [],
     rp_Body = map (\<lambda>c. if c = CHR 0x27 then CHR 0x22 else c)
       (''[{'' @ [CHR 0x27] @ ''tag_name'' @ [CHR 0x27] @ '':'' @ [CHR 0x27] @ ''v1.9.0'' @ [CHR 0x27] @ ''},{'' @
        [CHR 0x27] @ ''tag_name'' @ [CHR 0x27] @ '':'' @ [CHR 0x27] @ ''v1.10.0'' @ [CHR 0x27] @ ''}]'')\<rparr>"

lemma demo_get: "client_get demo_reply url = Inr (rp_Body (projr (demo_reply url)))"
  by (simp add: client_get_def demo_reply_def maxAPIResponse_def)

lemma demo_list: "release_list (\<lambda>_. None) (rp_Body (projr (demo_reply url))) =
    Some [zero_release\<lparr>rl_Tag := ''v1.9.0''\<rparr>, zero_release\<lparr>rl_Tag := ''v1.10.0''\<rparr>]"
  unfolding demo_reply_def by code_simp

theorem latest_is_newest_witness:
  "\<exists>rs. Latest (\<lambda>_. None) demo_reply [] ''zoefix/openfrp'' =
     (case newest_offered rs of None \<Rightarrow> Inl NoRelease | Some r \<Rightarrow> Inr r) \<and>
     (newest_offered rs = None) = (offered_versions rs = {})"
  using latest_is_newest [OF demo_get demo_list] by blast

text \<open>What the page offers can be installed. The check reports an upgrade exactly when the
  running version and the newest release can be compared, the release is strictly newer, and it
  carries the bundle named for this system and architecture; then that bundle's name is the asset
  shown, and no error is.\<close>

theorem check_offers_upgrade:
  "ck_Available (Check version now latest_release goos goarch) =
     (\<exists>running r newest a. ParseVersion (Short version) = Inr running \<and> latest_release = Inr r \<and>
        ParseVersion (rl_Tag r) = Inr newest \<and> running < newest \<and> AssetFor r goos goarch = Some a \<and>
        ck_Asset (Check version now latest_release goos goarch) = as_Name a \<and>
        as_Name a = BundleName (rl_Tag r) goos goarch) \<and>
   \<not> (ck_Available (Check version now latest_release goos goarch) \<and>
      ck_Error (Check version now latest_release goos goarch) \<noteq> None)"
proof -
  have named: "asset_named w as = Some a \<Longrightarrow> as_Name a = w" for w as a
    by (induction w as rule: asset_named.induct) (auto split: if_splits)
  show ?thesis
    by (auto simp: Check_def Let_def NewerThan_iff AssetFor_def dest: named
        split: sum.splits update_error.splits option.splits if_splits)
qed

text \<open>A running version that cannot be read is reported, whatever was published.\<close>

lemma check_unreadable:
  "ParseVersion (Short version) = Inl e \<Longrightarrow>
   ck_Error (Check version now rel goos goarch) = Some (NotComparable (Short version))"
  by (simp add: Check_def Let_def)

end
