(* ===== verification/Go_Path.thy ===== *)
theory Go_Path
  imports Go_Strings
begin

text \<open>
  What the repository uses of Go's \<^verbatim>\<open>path/filepath\<close> on Unix: \<^verbatim>\<open>Clean\<close>, \<^verbatim>\<open>Join\<close> and \<^verbatim>\<open>Dir\<close>, by
  the components between the slashes. A cleaned path has no empty and no \<^verbatim>\<open>.\<close> component, and its
  \<^verbatim>\<open>..\<close> components, if any, come first.
\<close>

section \<open>The operations\<close>

definition dotdot :: string where "dotdot = ''..''"

fun clean_loop :: "bool \<Rightarrow> string list \<Rightarrow> string list \<Rightarrow> string list" where
  "clean_loop rooted out [] = rev out"
| "clean_loop rooted out (c # cs) =
     (if c = [] \<or> c = ''.'' then clean_loop rooted out cs
      else if c = dotdot then
        (case out of
           o1 # os \<Rightarrow> if o1 \<noteq> dotdot then clean_loop rooted os cs
                     else if rooted then clean_loop rooted out cs
                     else clean_loop rooted (c # out) cs
         | [] \<Rightarrow> if rooted then clean_loop rooted [] cs else clean_loop rooted [c] cs)
      else clean_loop rooted (c # out) cs)"

definition path_clean :: "string \<Rightarrow> string" where
  "path_clean s =
     (if s = [] then ''.''
      else let rooted = (hd s = CHR ''/'');
               body = join_with (CHR ''/'') (clean_loop rooted [] (split_on (CHR ''/'') s))
           in if rooted then CHR ''/'' # body else if body = [] then ''.'' else body)"

definition path_join :: "string \<Rightarrow> string \<Rightarrow> string" where
  "path_join a b =
     (if a = [] \<and> b = [] then []
      else if a = [] then path_clean b
      else if b = [] then path_clean a
      else path_clean (a @ CHR ''/'' # b))"

definition path_dir :: "string \<Rightarrow> string" where
  "path_dir s = path_clean (case last_index_byte (CHR ''/'') s of None \<Rightarrow> [] | Some i \<Rightarrow> take (i + 1) s)"

section \<open>Cleaned paths\<close>

definition plain_part :: "string \<Rightarrow> bool" where
  "plain_part c \<longleftrightarrow> c \<noteq> [] \<and> c \<noteq> ''.'' \<and> c \<noteq> dotdot \<and> CHR ''/'' \<notin> set c"

definition plain_path :: "string \<Rightarrow> bool" where
  "plain_path s = list_all plain_part (split_on (CHR ''/'') s)"

lemma dotdot_facts [simp]: "dotdot \<noteq> []" "dotdot \<noteq> ''.''" "CHR ''/'' \<notin> set dotdot"
  by (simp_all add: dotdot_def)

text \<open>The parts kept so far, last first: plain ones on top of a stack of \<^verbatim>\<open>..\<close>.\<close>

fun stack_ok :: "bool \<Rightarrow> string list \<Rightarrow> bool" where
  "stack_ok rooted [] = True"
| "stack_ok rooted (c # out) =
     (if c = dotdot then \<not> rooted \<and> list_all (\<lambda>d. d = dotdot) out
      else plain_part c \<and> stack_ok rooted out)"

lemma stack_ok_climb: "list_all (\<lambda>d. d = dotdot) out \<Longrightarrow> stack_ok False out"
  by (induction out) auto

lemma stack_ok_pop: "stack_ok rooted (c # out) \<Longrightarrow> stack_ok rooted out"
  by (auto split: if_splits intro: stack_ok_climb)

lemma clean_loop_stack:
  assumes "stack_ok rooted out" and "list_all (\<lambda>c. CHR ''/'' \<notin> set c) cs"
  shows "stack_ok rooted (rev (clean_loop rooted out cs))"
  using assms
proof (induction cs arbitrary: out)
  case (Cons c cs)
  have slash: "CHR ''/'' \<notin> set c" and rest: "list_all (\<lambda>c. CHR ''/'' \<notin> set c) cs"
    using Cons.prems by simp_all
  note IH = Cons.IH [OF _ rest]
  show ?case
  proof (cases "c = [] \<or> c = ''.''")
    case True
    with IH Cons.prems show ?thesis by auto
  next
    case False
    show ?thesis
    proof (cases "c = dotdot")
      case True
      with IH [of "tl out"] IH [of out] IH [of "c # out"] Cons.prems(1) stack_ok_pop show ?thesis
        by (cases out) (auto split: if_splits)
    next
      case plain: False
      with False slash have "plain_part c" by (simp add: plain_part_def)
      with False plain IH [of "c # out"] Cons.prems(1) show ?thesis by simp
    qed
  qed
qed simp

lemma split_on_no_slash: "list_all (\<lambda>c. CHR ''/'' \<notin> set c) (split_on (CHR ''/'') s)"
  using split_on_parts by (auto simp: list_all_iff)

lemma clean_loop_plain:
  "list_all plain_part cs \<Longrightarrow> clean_loop rooted out cs = rev out @ cs"
  by (induction cs arbitrary: out) (auto simp: plain_part_def)

lemma clean_loop_append:
  "clean_loop rooted out (cs @ ds) = clean_loop rooted (rev (clean_loop rooted out cs)) ds"
  by (induction rooted out cs rule: clean_loop.induct) (auto split: list.splits)

text \<open>The parts of a cleaned relative path: what is not plain is a leading \<^verbatim>\<open>..\<close>.\<close>

lemma stack_ok_last:
  "stack_ok rooted out \<Longrightarrow> out \<noteq> [] \<Longrightarrow> last out \<noteq> dotdot \<Longrightarrow> list_all plain_part out"
proof (induction out)
  case (Cons c out)
  show ?case
  proof (cases "c = dotdot")
    case True
    with Cons.prems have "list_all (\<lambda>d. d = dotdot) out" by simp
    with True Cons.prems(3) have False
      by (cases "out = []") (auto simp: list_all_iff)
    then show ?thesis ..
  next
    case False
    with Cons show ?thesis by (cases "out = []") auto
  qed
qed simp

lemma clean_relative:
  assumes "s \<noteq> []" and "hd s \<noteq> CHR ''/''"
    and "path_clean s \<noteq> ''.''" and "path_clean s \<noteq> dotdot" and "\<not> has_prefix ''../'' (path_clean s)"
  shows "plain_path (path_clean s)"
proof -
  define ps where "ps = clean_loop False [] (split_on (CHR ''/'') s)"
  have body: "path_clean s = (if join_with (CHR ''/'') ps = [] then ''.'' else join_with (CHR ''/'') ps)"
    using assms(1,2) by (simp add: path_clean_def ps_def)
  then have clean: "path_clean s = join_with (CHR ''/'') ps" and ne: "ps \<noteq> []"
    using assms(3) by (auto split: if_splits)
  have ok: "stack_ok False (rev ps)"
    unfolding ps_def by (rule clean_loop_stack [OF _ split_on_no_slash]) simp
  obtain p qs where ps: "ps = p # qs" using ne by (cases ps) auto
  have "p \<noteq> dotdot"
  proof
    assume "p = dotdot"
    then have "path_clean s = dotdot \<or> has_prefix ''../'' (path_clean s)"
      unfolding clean ps by (cases qs) (auto simp: has_prefix_def dotdot_def)
    with assms(4,5) show False by blast
  qed
  then have "list_all plain_part (rev ps)"
    using ok ps by (intro stack_ok_last [of False]) simp_all
  then have "list_all plain_part ps" by (simp add: list_all_iff)
  moreover from this have "split_on (CHR ''/'') (join_with (CHR ''/'') ps) = ps"
    using ne by (intro split_join) (auto simp: list_all_iff plain_part_def)
  ultimately show ?thesis by (simp add: plain_path_def clean)
qed

text \<open>Under a rooted directory of plain parts, a plain path stays where it is joined.\<close>

definition rooted_path :: "string list \<Rightarrow> string" where
  "rooted_path ps = CHR ''/'' # join_with (CHR ''/'') ps"

lemma split_on_append_parts:
  "split_on b (s @ b # t) = split_on b s @ split_on b t"
  by (induction s) (auto split: list.split)

lemma split_rooted:
  "list_all plain_part ds \<Longrightarrow> split_on (CHR ''/'') (rooted_path ds) = [] # (if ds = [] then [[]] else ds)"
  using split_join [of ds "CHR ''/''"] by (auto simp: rooted_path_def list_all_iff plain_part_def)

lemma path_join_plain:
  assumes "list_all plain_part ds" and "plain_path s"
  shows "path_join (rooted_path ds) s = rooted_path (ds @ split_on (CHR ''/'') s)"
proof -
  have s: "s \<noteq> []" using assms(2) by (auto simp: plain_path_def plain_part_def)
  have parts: "split_on (CHR ''/'') (rooted_path ds @ CHR ''/'' # s) =
      ([] # (if ds = [] then [[]] else ds)) @ split_on (CHR ''/'') s"
    by (simp only: split_on_append_parts split_rooted [OF assms(1)])
  have "clean_loop True [] (([] # (if ds = [] then [[]] else ds)) @ split_on (CHR ''/'') s) =
      ds @ split_on (CHR ''/'') s"
    using assms by (simp add: clean_loop_append clean_loop_plain plain_path_def)
  note loop = this [folded parts]
  have hd: "hd (rooted_path ds @ CHR ''/'' # s) = CHR ''/''" "rooted_path ds \<noteq> []"
    by (simp_all add: rooted_path_def)
  have "path_join (rooted_path ds) s = path_clean (rooted_path ds @ CHR ''/'' # s)"
    using s hd(2) by (simp add: path_join_def)
  also have "\<dots> = rooted_path (ds @ split_on (CHR ''/'') s)"
    unfolding path_clean_def hd Let_def simp_thms(6) if_True loop
    using hd(2) by (simp add: rooted_path_def)
  finally show ?thesis .
qed

lemma rooted_path_inject:
  "list_all plain_part ds \<Longrightarrow> list_all plain_part es \<Longrightarrow> rooted_path ds = rooted_path es \<longleftrightarrow> ds = es"
proof
  assume "list_all plain_part ds" "list_all plain_part es" "rooted_path ds = rooted_path es"
  then have "(if ds = [] then [[]] else ds) = (if es = [] then [[]] else es)"
    using split_rooted [of ds] split_rooted [of es] by simp
  with \<open>list_all plain_part ds\<close> \<open>list_all plain_part es\<close> show "ds = es"
    by (auto simp: plain_part_def split: if_splits)
qed simp

end
