(* ===== verification/Go_Files.thy ===== *)
theory Go_Files
  imports Go_Path "HOL-Library.Word"
begin

unbundle bit_operations_syntax

text \<open>
  The files of the machine, as far as \<^verbatim>\<open>internal/update\<close> uses Go's \<^verbatim>\<open>os\<close>: content and
  permission bits by path. A created file's mode is masked by the process umask, one that exists
  keeps its mode when it is truncated, and \<^verbatim>\<open>Chmod\<close> is not masked. Which calls the system refuses,
  and where a full disk cuts a write short, is the environment's choice, an argument of every
  operation. Directories are not files here: making one only can fail.
\<close>

record go_file =
  fl_data :: bytes
  fl_mode :: u32

type_synonym files = "string \<Rightarrow> go_file option"

datatype os_call =
    Mkdir string
  | Chmod string
  | Stat string
  | OpenRead string
  | OpenWrite string
  | WriteTo string
  | ReadFrom string
  | CloseFile string
  | Rename string string

record disk =
  dk_umask :: u32
  dk_refuses :: "os_call \<Rightarrow> bool"
  dk_room :: "string \<Rightarrow> nat option"

definition attempt :: "disk \<Rightarrow> os_call \<Rightarrow> os_call option" where
  "attempt d c = (if dk_refuses d c then Some c else None)"

definition open_write :: "disk \<Rightarrow> string \<Rightarrow> u32 \<Rightarrow> files \<Rightarrow> files" where
  "open_write d p mode fs = fs(p \<mapsto> (case fs p of
      Some f \<Rightarrow> f\<lparr>fl_data := []\<rparr>
    | None \<Rightarrow> \<lparr>fl_data = [], fl_mode = mode AND NOT (dk_umask d)\<rparr>))"

definition append_data :: "string \<Rightarrow> bytes \<Rightarrow> files \<Rightarrow> files" where
  "append_data p bs fs = (case fs p of None \<Rightarrow> fs | Some f \<Rightarrow> fs(p \<mapsto> f\<lparr>fl_data := fl_data f @ bs\<rparr>))"

text \<open>Open for writing, copy, close: what a copy that breaks off leaves behind is a truncated file.\<close>

definition store_file :: "disk \<Rightarrow> string \<Rightarrow> u32 \<Rightarrow> bytes \<Rightarrow> bool \<Rightarrow> files \<Rightarrow> os_call option \<times> files" where
  "store_file d p mode bs broken fs =
     (case attempt d (OpenWrite p) of
        Some e \<Rightarrow> (Some e, fs)
      | None \<Rightarrow>
          (let fs1 = open_write d p mode fs;
               room = (case dk_room d p of None \<Rightarrow> length bs | Some n \<Rightarrow> n);
               fs2 = append_data p (take room bs) fs1
           in if room < length bs then (Some (WriteTo p), fs2)
              else if broken then (Some (ReadFrom p), fs2)
              else (attempt d (CloseFile p), fs2)))"

definition chmod_file :: "disk \<Rightarrow> string \<Rightarrow> u32 \<Rightarrow> files \<Rightarrow> os_call option \<times> files" where
  "chmod_file d p mode fs =
     (case attempt d (Chmod p) of
        Some e \<Rightarrow> (Some e, fs)
      | None \<Rightarrow> (case fs p of None \<Rightarrow> (Some (Chmod p), fs) | Some f \<Rightarrow> (None, fs(p \<mapsto> f\<lparr>fl_mode := mode\<rparr>))))"

definition remove_file :: "string \<Rightarrow> files \<Rightarrow> files" where
  "remove_file p fs = fs(p := None)"

definition rename_file :: "disk \<Rightarrow> string \<Rightarrow> string \<Rightarrow> files \<Rightarrow> os_call option \<times> files" where
  "rename_file d a b fs =
     (case attempt d (Rename a b) of
        Some e \<Rightarrow> (Some e, fs)
      | None \<Rightarrow> (None, (fs(b := fs a))(a := (if a = b then fs a else None))))"

definition make_dir :: "disk \<Rightarrow> string \<Rightarrow> os_call option" where
  "make_dir d p = (case attempt d (Mkdir p) of Some e \<Rightarrow> Some e | None \<Rightarrow> attempt d (Chmod p))"

section \<open>What an operation touches\<close>

lemma store_file_other: "q \<noteq> p \<Longrightarrow> snd (store_file d p m bs b fs) q = fs q"
  by (auto simp: store_file_def open_write_def append_data_def Let_def split: option.split)

lemma store_file_ok:
  "store_file d p m bs b fs = (None, fs') \<Longrightarrow>
   fs' = fs(p \<mapsto> \<lparr>fl_data = bs, fl_mode = (case fs p of Some f \<Rightarrow> fl_mode f | None \<Rightarrow> m AND NOT (dk_umask d))\<rparr>)"
  by (auto simp: store_file_def open_write_def append_data_def Let_def split: option.splits if_splits)

lemma store_file_mode:
  "snd (store_file d p m bs b fs) p = Some f \<Longrightarrow>
   fl_mode f = (case fs p of Some f0 \<Rightarrow> fl_mode f0 | None \<Rightarrow> m AND NOT (dk_umask d))"
  by (auto simp: store_file_def open_write_def append_data_def Let_def split: option.splits if_splits)

lemma chmod_file_other: "q \<noteq> p \<Longrightarrow> snd (chmod_file d p m fs) q = fs q"
  by (auto simp: chmod_file_def split: option.split)

lemma chmod_file_ok:
  "chmod_file d p m fs = (None, fs') \<Longrightarrow> \<exists>f. fs p = Some f \<and> fs' = fs(p \<mapsto> f\<lparr>fl_mode := m\<rparr>)"
  by (auto simp: chmod_file_def split: option.splits)

lemma rename_file_other: "q \<noteq> a \<Longrightarrow> q \<noteq> b \<Longrightarrow> snd (rename_file d a b fs) q = fs q"
  by (auto simp: rename_file_def split: option.split)

lemma rename_file_ok:
  "rename_file d a b fs = (None, fs') \<Longrightarrow> a \<noteq> b \<Longrightarrow> fs' = (fs(b := fs a))(a := None)"
  by (auto simp: rename_file_def split: option.splits)

definition exec_bits :: u32 where "exec_bits = 0x49"

definition executable :: "go_file \<Rightarrow> bool" where
  "executable f = (fl_mode f AND exec_bits \<noteq> 0)"

end
