(* ===== verification/Upd_Bundle.thy ===== *)
theory Upd_Bundle
  imports Go_Files
begin

unbundle bit_operations_syntax

text \<open>
  Unpacking a release (\<^verbatim>\<open>internal/update/bundle.go\<close>). The archive is given by what
  \<^verbatim>\<open>compress/gzip\<close> and \<^verbatim>\<open>archive/tar\<close> read of it: an error, or the entries in order and the error
  that ended them, if one did; \<open>untar\<close> is that reading. What is written stays inside the staging
  directory and inside the list of places a release may replace.
\<close>

section \<open>What a bundle may name\<close>

definition maxBundleSize :: nat where "maxBundleSize = 128 * 1024 * 1024"

definition FileMode :: u32 where "FileMode = 0x1A4"
definition ExecMode :: u32 where "ExecMode = 0x1ED"

definition MkdirAllMode :: "disk \<Rightarrow> string \<Rightarrow> os_call option" where
  "MkdirAllMode d p = make_dir d p"

definition allowedPrefixes :: "string list" where
  "allowedPrefixes =
     [''usr/lib/openfrp/'', ''usr/libexec/openfrp/'', ''usr/lib/lua/luci/i18n/openfrp.'',
      ''www/luci-static/resources/openfrp/'', ''www/luci-static/resources/view/openfrp/'']"

definition allowedExact :: "string list" where
  "allowedExact =
     [''etc/init.d/openfrp'', ''etc/init.d/openfrp-cloudflared'', ''usr/bin/openfrpc'',
      ''usr/share/luci/menu.d/luci-app-openfrp.json'', ''usr/share/rpcd/acl.d/luci-app-openfrp.json'',
      ''usr/share/rpcd/ucode/openfrp.uc'']"

definition permitted :: "string \<Rightarrow> bool" where
  "permitted name \<longleftrightarrow> name \<in> set allowedExact \<or> list_ex (\<lambda>prefix. has_prefix prefix name) allowedPrefixes"

datatype bundle_error =
    NotGzip string
  | BadArchive string
  | Unnamed
  | AbsolutePath string
  | OutsidePath string
  | NotRegular string
  | NotPermitted string
  | UnpackFailed string
  | EmptyBundle
  | OsFailed os_call

definition cleanEntry :: "string \<Rightarrow> bundle_error + string" where
  "cleanEntry name =
     (if name = [] then Inl Unnamed
      else if has_prefix ''/'' name then Inl (AbsolutePath name)
      else let cleaned = path_clean name in
        if cleaned = ''..'' \<or> has_prefix ''../'' cleaned then Inl (OutsidePath name) else Inr cleaned)"

section \<open>Unpacking\<close>

record tar_entry =
  te_Name :: string
  te_Typeflag :: char
  te_Mode :: u32
  te_Data :: bytes
  te_Broken :: bool

definition TypeReg :: char where "TypeReg = CHR ''0''"
definition TypeDir :: char where "TypeDir = CHR ''5''"

definition entry_mode :: "tar_entry \<Rightarrow> u32" where
  "entry_mode e = (if te_Mode e AND exec_bits \<noteq> 0 then ExecMode else FileMode)"

definition write_entry :: "disk \<Rightarrow> string \<Rightarrow> string \<Rightarrow> tar_entry \<Rightarrow> files \<Rightarrow> bundle_error option \<times> files" where
  "write_entry d dir name e fs =
     (let target = path_join dir name in
      case MkdirAllMode d (path_dir target) of
        Some c \<Rightarrow> (Some (OsFailed c), fs)
      | None \<Rightarrow>
      (case store_file d target (entry_mode e) (take maxBundleSize (te_Data e)) (te_Broken e) fs of
         (Some (OpenWrite p), fs) \<Rightarrow> (Some (OsFailed (OpenWrite p)), fs)
       | (Some (CloseFile p), fs) \<Rightarrow> (Some (OsFailed (CloseFile p)), fs)
       | (Some c, fs) \<Rightarrow> (Some (UnpackFailed name), fs)
       | (None, fs) \<Rightarrow>
           (case chmod_file d target (entry_mode e) fs of
              (Some c, fs) \<Rightarrow> (Some (OsFailed c), fs)
            | (None, fs) \<Rightarrow> (None, fs))))"

fun unpack ::
  "disk \<Rightarrow> string \<Rightarrow> tar_entry list \<Rightarrow> string option \<Rightarrow> string list \<Rightarrow> files \<Rightarrow> (bundle_error + string list) \<times> files"
where
  "unpack d dir [] (Some err) written fs = (Inl (BadArchive err), fs)"
| "unpack d dir [] None written fs = (if written = [] then Inl EmptyBundle else Inr written, fs)"
| "unpack d dir (e # es) end written fs =
     (case cleanEntry (te_Name e) of
        Inl err \<Rightarrow> (Inl err, fs)
      | Inr name \<Rightarrow>
          if te_Typeflag e = TypeDir then unpack d dir es end written fs
          else if te_Typeflag e \<noteq> TypeReg then (Inl (NotRegular name), fs)
          else if \<not> permitted name then (Inl (NotPermitted name), fs)
          else case write_entry d dir name e fs of
              (Some err, fs) \<Rightarrow> (Inl err, fs)
            | (None, fs) \<Rightarrow> unpack d dir es end (written @ [name]) fs)"

type_synonym tar_reader = "bytes \<Rightarrow> string + tar_entry list \<times> string option"

definition Extract ::
  "disk \<Rightarrow> tar_reader \<Rightarrow> bytes \<Rightarrow> string \<Rightarrow> files \<Rightarrow> (bundle_error + string list) \<times> files" where
  "Extract d untar archive dir fs =
     (case untar (take maxBundleSize archive) of
        Inl err \<Rightarrow> (Inl (NotGzip err), fs)
      | Inr (entries, err) \<Rightarrow> unpack d dir entries err [] fs)"

section \<open>It stays inside\<close>

lemma permitted_nonempty: "permitted name \<Longrightarrow> name \<noteq> ''.''"
  by (auto simp: permitted_def allowedExact_def allowedPrefixes_def has_prefix_def)

lemma cleanEntry_plain:
  assumes "cleanEntry s = Inr name" and "permitted name"
  shows "plain_path name"
proof -
  from assms have s: "s \<noteq> []" "\<not> has_prefix ''/'' s" and name: "name = path_clean s"
    and out: "path_clean s \<noteq> ''..''" "\<not> has_prefix ''../'' (path_clean s)"
    by (auto simp: cleanEntry_def Let_def split: if_splits)
  have "hd s \<noteq> CHR ''/''" using s by (cases s) (auto simp: has_prefix_def)
  with s out permitted_nonempty [OF assms(2)] show ?thesis
    unfolding name by (intro clean_relative) (simp_all add: dotdot_def)
qed

definition bundle_place :: "string list \<Rightarrow> string \<Rightarrow> bool" where
  "bundle_place ds p \<longleftrightarrow> (\<exists>name. permitted name \<and> plain_path name \<and> p = rooted_path (ds @ split_on (CHR ''/'') name))"

lemma write_entry_other: "q \<noteq> path_join dir name \<Longrightarrow> snd (write_entry d dir name e fs) q = fs q"
  using store_file_other [of q "path_join dir name" d "entry_mode e" "take maxBundleSize (te_Data e)" "te_Broken e" fs]
    chmod_file_other [of q "path_join dir name" d "entry_mode e"]
  by (auto simp: write_entry_def Let_def split: option.split prod.split os_call.split)
    (metis snd_conv)+

lemma unpack_names:
  "fst (unpack d dir es err written fs) = Inr names \<Longrightarrow> list_all (\<lambda>n. permitted n \<and> plain_path n) written \<Longrightarrow>
   names \<noteq> [] \<and> list_all (\<lambda>n. permitted n \<and> plain_path n) names"
proof (induction d dir es err written fs rule: unpack.induct)
  case (3 d dir e es err written fs)
  then show ?case
    by (auto simp: eq_commute [of "(_, _)" "write_entry d dir _ e fs"]
        split: sum.splits if_splits prod.splits option.splits dest: cleanEntry_plain)
qed (auto split: if_splits)

lemma unpack_confined:
  assumes "list_all plain_part ds" and "dir = rooted_path ds"
    and "snd (unpack d dir es err written fs) q \<noteq> fs q"
  shows "bundle_place ds q"
  using assms
proof (induction d dir es err written fs rule: unpack.induct)
  case (3 d dir e es err written fs)
  show ?case
  proof (cases "cleanEntry (te_Name e)")
    case (Inl a)
    with 3 show ?thesis by simp
  next
    case (Inr name)
    note IH1 = "3.IH"(1) [OF Inr] and IH2 = "3.IH"(2) [OF Inr]
    consider "te_Typeflag e = TypeDir" | "te_Typeflag e \<noteq> TypeDir" "te_Typeflag e \<noteq> TypeReg"
      | "te_Typeflag e \<noteq> TypeDir" "te_Typeflag e = TypeReg" "\<not> permitted name"
      | "te_Typeflag e \<noteq> TypeDir" "te_Typeflag e = TypeReg" "permitted name" by blast
    then show ?thesis
    proof cases
      case 1
      with IH1 "3.prems" Inr show ?thesis by simp
    next
      case 4
      have place: "bundle_place ds (path_join dir name)"
        using cleanEntry_plain [OF Inr 4(3)] 4(3) path_join_plain [OF "3.prems"(1)] "3.prems"(2)
        by (auto simp: bundle_place_def)
      obtain r fs' where w: "write_entry d dir name e fs = (r, fs')" by fastforce
      show ?thesis
      proof (cases "q = path_join dir name")
        case False
        then have same: "fs' q = fs q" using write_entry_other [of q dir name d e fs] w by simp
        show ?thesis
        proof (cases r)
          case None
          with 4 Inr w have "unpack d dir (e # es) err written fs = unpack d dir es err (written @ [name]) fs'"
            by simp
          with IH2 4 w None "3.prems" same show ?thesis by simp
        next
          case (Some a)
          with 4 Inr w same "3.prems"(3) show ?thesis by simp
        qed
      qed (use place in simp)
    qed (use "3.prems" Inr in auto)
  qed
qed auto

lemma unpack_written:
  "unpack d dir es err written fs = (Inr names, fs') \<Longrightarrow>
   set written \<subseteq> set names \<and> (fs' q \<noteq> fs q \<longrightarrow> q \<in> path_join dir ` set names)"
proof (induction d dir es err written fs rule: unpack.induct)
  case (3 d dir e es err written fs)
  obtain name where name: "cleanEntry (te_Name e) = Inr name"
    using "3.prems" by (cases "cleanEntry (te_Name e)") simp_all
  show ?case
  proof (cases "te_Typeflag e = TypeDir")
    case True
    with "3.IH"(1) [OF name] "3.prems" name show ?thesis by simp
  next
    case False
    with "3.prems" name obtain fs1 where w: "te_Typeflag e = TypeReg" "permitted name"
      "write_entry d dir name e fs = (None, fs1)" "unpack d dir es err (written @ [name]) fs1 = (Inr names, fs')"
      by (auto split: if_splits prod.splits option.splits)
    have "set (written @ [name]) \<subseteq> set names \<and> (fs' q \<noteq> fs1 q \<longrightarrow> q \<in> path_join dir ` set names)"
      using "3.IH"(2) [OF name False] w by simp
    moreover have "q \<noteq> path_join dir name \<Longrightarrow> fs1 q = fs q"
      using write_entry_other [of q dir name d e fs] w(3) by simp
    moreover have "name \<in> set names" using calculation(1) by simp
    ultimately show ?thesis by (cases "q = path_join dir name") auto
  qed
qed (auto split: if_splits)

lemma Extract_written:
  assumes "Extract d untar archive dir fs = (Inr names, fs')"
  shows "fs' q \<noteq> fs q \<Longrightarrow> q \<in> path_join dir ` set names"
    and "list_all (\<lambda>n. permitted n \<and> plain_path n) names"
proof -
  obtain es err where u: "unpack d dir es err [] fs = (Inr names, fs')"
    using assms by (auto simp: Extract_def split: sum.splits)
  show "fs' q \<noteq> fs q \<Longrightarrow> q \<in> path_join dir ` set names"
    using unpack_written [OF u] by blast
  show "list_all (\<lambda>n. permitted n \<and> plain_path n) names"
    using unpack_names [of d dir es err "[]" fs names] u by simp
qed

lemma config_not_a_place:
  assumes "list_all plain_part ds"
  shows "\<not> bundle_place ds (rooted_path (ds @ [''etc'', ''config'', ''openfrp'']))"
proof
  assume "bundle_place ds (rooted_path (ds @ [''etc'', ''config'', ''openfrp'']))"
  then obtain name where name: "permitted name" "plain_path name"
    and eq: "rooted_path (ds @ [''etc'', ''config'', ''openfrp'']) = rooted_path (ds @ split_on (CHR ''/'') name)"
    by (auto simp: bundle_place_def)
  have "list_all plain_part [''etc'', ''config'', ''openfrp'']"
    by (simp add: plain_part_def dotdot_def)
  with eq assms name(2) have "split_on (CHR ''/'') name = [''etc'', ''config'', ''openfrp'']"
    by (simp add: rooted_path_inject plain_path_def)
  then have "name = join_with (CHR ''/'') [''etc'', ''config'', ''openfrp'']"
    by (metis join_split)
  with name(1) show False
    by (simp add: permitted_def allowedExact_def allowedPrefixes_def has_prefix_def)
qed

text \<open>C29: a bundle cannot write outside what a release may replace. Whatever the archive holds and
  however the unpacking ends, every file it changed is a permitted name, with no \<^verbatim>\<open>..\<close> in it, joined
  to the staging directory; the names it reports are permitted ones, so that the operator's
  \<^verbatim>\<open>/etc/config/openfrp\<close> is never among them.\<close>

theorem bundle_confined:
  assumes "list_all plain_part ds"
  shows "(snd (Extract d untar archive (rooted_path ds) fs) q \<noteq> fs q \<longrightarrow> bundle_place ds q) \<and>
     (fst (Extract d untar archive (rooted_path ds) fs) = Inr names \<longrightarrow>
        names \<noteq> [] \<and> list_all (\<lambda>n. permitted n \<and> plain_path n) names) \<and>
     snd (Extract d untar archive (rooted_path ds) fs) (rooted_path (ds @ [''etc'', ''config'', ''openfrp''])) =
       fs (rooted_path (ds @ [''etc'', ''config'', ''openfrp'']))"
proof -
  have changed: "snd (Extract d untar archive (rooted_path ds) fs) p \<noteq> fs p \<Longrightarrow> bundle_place ds p" for p
    using unpack_confined [OF assms refl] by (auto simp: Extract_def split: sum.splits prod.splits)
  moreover have "fst (Extract d untar archive (rooted_path ds) fs) = Inr names \<Longrightarrow>
      names \<noteq> [] \<and> list_all (\<lambda>n. permitted n \<and> plain_path n) names"
    using unpack_names [of d "rooted_path ds" _ _ "[]"]
    by (auto simp: Extract_def split: sum.splits prod.splits)
  ultimately show ?thesis
    using changed [of "rooted_path (ds @ [''etc'', ''config'', ''openfrp''])"] config_not_a_place [OF assms]
    by blast
qed

definition demo_entry :: "string \<Rightarrow> tar_entry" where
  "demo_entry name = \<lparr>te_Name = name, te_Typeflag = TypeReg, te_Mode = 0x1ED, te_Data = ''new'', te_Broken = False\<rparr>"

definition calm_disk :: disk where
  "calm_disk = \<lparr>dk_umask = 0x3F, dk_refuses = (\<lambda>_. False), dk_room = (\<lambda>_. None)\<rparr>"

lemma write_entry_calm:
  "length (te_Data e) \<le> maxBundleSize \<Longrightarrow> \<not> te_Broken e \<Longrightarrow>
   write_entry calm_disk dir name e fs =
     (None, fs(path_join dir name \<mapsto> \<lparr>fl_data = te_Data e, fl_mode = entry_mode e\<rparr>))"
  by (auto simp: write_entry_def calm_disk_def MkdirAllMode_def make_dir_def attempt_def store_file_def
      open_write_def append_data_def chmod_file_def Let_def split: option.split)

lemma demo_entry_simps:
  "te_Name (demo_entry n) = n" "te_Typeflag (demo_entry n) = TypeReg" "TypeReg \<noteq> TypeDir"
  "length (te_Data (demo_entry n)) \<le> maxBundleSize" "\<not> te_Broken (demo_entry n)"
  by (simp_all add: demo_entry_def TypeReg_def TypeDir_def maxBundleSize_def)

text \<open>A bundle that climbs out of its directory is refused; one that winds its way to a permitted
  name is not, and the file gets the mode asked for in spite of the umask.\<close>

lemma cleaned_examples:
  "cleanEntry ''usr/bin/../../../etc/passwd'' = Inl (OutsidePath ''usr/bin/../../../etc/passwd'')"
  "cleanEntry ''./usr/lib/../bin/openfrpc'' = Inr ''usr/bin/openfrpc''"
  "cleanEntry ''usr/bin/openfrpc'' = Inr ''usr/bin/openfrpc''"
  "permitted ''usr/bin/openfrpc''" "\<not> permitted ''etc/config/openfrp''"
  by code_simp+

lemma bundle_example:
  "Extract calm_disk (\<lambda>_. Inr ([demo_entry ''./usr/lib/../bin/openfrpc''], None)) [] dir (\<lambda>_. None) =
     (Inr [''usr/bin/openfrpc''],
      [path_join dir ''usr/bin/openfrpc'' \<mapsto> \<lparr>fl_data = ''new'', fl_mode = ExecMode\<rparr>])"
  using write_entry_calm [OF demo_entry_simps(4,5)]
  by (simp add: Extract_def demo_entry_simps cleaned_examples)
    (simp add: demo_entry_def entry_mode_def exec_bits_def)

theorem bundle_confined_witness:
  "\<exists>q. snd (Extract calm_disk (\<lambda>_. Inr ([demo_entry ''./usr/lib/../bin/openfrpc''], None)) []
        (rooted_path [''s'']) (\<lambda>_. None)) q \<noteq> None \<and> bundle_place [''s''] q"
proof -
  have ok: "list_all plain_part [''s'']" by (simp add: plain_part_def dotdot_def)
  show ?thesis
    using bundle_confined [OF ok, of calm_disk "\<lambda>_. Inr ([demo_entry ''./usr/lib/../bin/openfrpc''], None)" "[]"
      "\<lambda>_. None" "path_join (rooted_path [''s'']) ''usr/bin/openfrpc''"]
    by (auto simp: bundle_example)
qed

end
