(* ===== verification/Upd_Install.thy ===== *)
theory Upd_Install
  imports Upd_Release Upd_Bundle Go_Sha256
begin

unbundle bit_operations_syntax

text \<open>
  Installing a release (\<^verbatim>\<open>internal/update/install.go\<close>): the published checksum, the download, the
  staged bundle, the swap of each file with its backup, the restart that proves it and the
  rollback. What lies outside is in the record \<open>world\<close>: the file system's refusals, what each
  address answers, how the archive reads, the staging directory the system made, and what a
  program does when it is run for the \<open>n\<close>-th time. That a file without an execute bit cannot be
  run is the operating system's rule and part of the model.
\<close>

section \<open>Checksums\<close>

fun up_to_space :: "string \<Rightarrow> string" where
  "up_to_space [] = []"
| "up_to_space (c # cs) = (if list_ex (\<lambda>r. has_prefix r (c # cs)) space_runes then [] else c # up_to_space cs)"

function split_fields :: "string \<Rightarrow> string list" where
  "split_fields s =
     (let t = trim_left s; w = up_to_space t in
      if w = [] then [] else w # split_fields (drop (length w) t))"
  by pat_completeness auto

termination split_fields
proof (relation "measure length")
  fix s t w assume t: "t = trim_left s" "w = up_to_space t" "w \<noteq> []"
  have "length (trim_left s) \<le> length s"
    using trim_left_suffix [of s] by (metis length_append le_add2)
  moreover have "t \<noteq> []" using t by auto
  moreover have "0 < length w" using t(3) by (simp only: length_greater_0_conv) simp
  ultimately have "length t - length w < length s"
    unfolding t(1) by (meson diff_less length_greater_0_conv less_le_trans)
  then show "(drop (length w) t, s) \<in> measure length" by simp
qed simp

declare split_fields.simps [simp del]

definition maxToken :: nat where "maxToken = 64 * 1024"

definition drop_cr :: "string \<Rightarrow> string" where
  "drop_cr s = trim_suffix [CHR 0x0D] s"

definition scan_lines :: "string \<Rightarrow> string list" where
  "scan_lines s =
     (let ls = split_on (CHR 0x0A) s;
          ls = (if last ls = [] then butlast ls else ls)
      in map drop_cr (takeWhile (\<lambda>l. length l < maxToken) ls))"

definition checksum_line :: "(string \<Rightarrow> string) \<Rightarrow> string \<Rightarrow> (string, string) gomap \<Rightarrow> (string, string) gomap" where
  "checksum_line ulower l sums =
     (let fs = split_fields l in
      if length fs \<noteq> 2 then sums
      else AList.update (trim_prefix ''*'' (fs ! 1)) (to_lower ulower (fs ! 0)) sums)"

definition ParseChecksums :: "(string \<Rightarrow> string) \<Rightarrow> bytes \<Rightarrow> (string, string) gomap" where
  "ParseChecksums ulower raw = fold (checksum_line ulower) (scan_lines (take (1024 * 1024) raw)) []"

section \<open>The world outside\<close>

record download =
  dl_StatusCode :: nat
  dl_Status :: string
  dl_Body :: bytes
  dl_Broken :: bool

record world =
  w_disk :: disk
  w_latest :: "update_error + release"
  w_fetch :: "string \<Rightarrow> string + download"
  w_lower :: "string \<Rightarrow> string"
  w_untar :: tar_reader
  w_stage :: "string option"
  w_run :: "nat \<Rightarrow> bytes \<Rightarrow> string list \<Rightarrow> string option"

record options =
  op_Root :: string
  op_ServiceCommand :: "string list"
  op_GOOS :: string
  op_GOARCH :: string

datatype fetch_error = FetchUnreached string string | FetchStatus string string | FetchBroken string

datatype install_error = BackUp string os_call | OsError os_call | RestartError string | ClientDoesNotRun string

datatype apply_error =
    LatestFailed update_error
  | NoBuildFor string
  | NoChecksums string
  | FetchFailed fetch_error
  | NotListed string
  | NoStage
  | StageError os_call
  | Mismatch string string string
  | BundleFailed bundle_error
  | NoClient
  | NotExecutable
  | NotRunning string
  | InstallFailed install_error
  | NotPutBack install_error os_call
  | NeitherStarts install_error
  | PutBack install_error

definition applyDefaults :: "options \<Rightarrow> options" where
  "applyDefaults o1 =
     (let o2 = (if op_Root o1 = [] then o1\<lparr>op_Root := ''/''\<rparr> else o1)
      in if op_ServiceCommand o2 = [] then o2\<lparr>op_ServiceCommand := [''/etc/init.d/openfrp'', ''restart'']\<rparr> else o2)"

definition fetchTo :: "world \<Rightarrow> string \<Rightarrow> fetch_error + bytes \<times> string" where
  "fetchTo w url =
     (case w_fetch w url of
        Inl e \<Rightarrow> Inl (FetchUnreached url e)
      | Inr resp \<Rightarrow>
          if dl_StatusCode resp \<noteq> 200 then Inl (FetchStatus url (dl_Status resp))
          else let body = take maxBundleSize (dl_Body resp) in
            if dl_Broken resp \<and> length (dl_Body resp) < maxBundleSize then Inl (FetchBroken url)
            else Inr (body, hex_encode (sha256 body)))"

section \<open>Files in place\<close>

definition file_exists :: "disk \<Rightarrow> files \<Rightarrow> string \<Rightarrow> bool" where
  "file_exists d fs p \<longleftrightarrow> attempt d (Stat p) = None \<and> fs p \<noteq> None"

definition copyFile :: "disk \<Rightarrow> string \<Rightarrow> string \<Rightarrow> files \<Rightarrow> os_call option \<times> files" where
  "copyFile d src dst fs =
     (if fs src = None then (Some (OpenRead src), fs)
      else case attempt d (OpenRead src) of
        Some e \<Rightarrow> (Some e, fs)
      | None \<Rightarrow>
      (case MkdirAllMode d (path_dir dst) of
         Some e \<Rightarrow> (Some e, fs)
       | None \<Rightarrow> store_file d dst FileMode (fl_data (the (fs src))) False fs))"

definition new_suffix :: string where "new_suffix = ''.openfrp-new''"

definition replace_file :: "disk \<Rightarrow> string \<Rightarrow> string \<Rightarrow> files \<Rightarrow> os_call option \<times> files" where
  "replace_file d src dst fs =
     (if \<not> file_exists d fs src then (Some (Stat src), fs)
      else let mode = (if executable (the (fs src)) then ExecMode else FileMode);
               tmp = dst @ new_suffix
        in case copyFile d src tmp fs of
            (Some e, fs) \<Rightarrow> (Some e, fs)
          | (None, fs) \<Rightarrow>
          (case chmod_file d tmp mode fs of
             (Some e, fs) \<Rightarrow> (Some e, remove_file tmp fs)
           | (None, fs) \<Rightarrow>
           (case rename_file d tmp dst fs of
              (Some e, fs) \<Rightarrow> (Some e, remove_file tmp fs)
            | (None, fs) \<Rightarrow> (None, fs))))"

definition back_up :: "disk \<Rightarrow> string \<Rightarrow> string \<Rightarrow> files \<Rightarrow> install_error option \<times> files" where
  "back_up d target saved fs =
     (if \<not> file_exists d fs target then (None, fs)
      else case MkdirAllMode d (path_dir saved) of
        Some e \<Rightarrow> (Some (OsError e), fs)
      | None \<Rightarrow>
      (case copyFile d target saved fs of
         (Some e, fs) \<Rightarrow> (Some (BackUp target e), fs)
       | (None, fs) \<Rightarrow> (None, fs)))"

fun install :: "disk \<Rightarrow> string \<Rightarrow> string \<Rightarrow> string \<Rightarrow> string list \<Rightarrow> files \<Rightarrow> install_error option \<times> files" where
  "install d root from backup [] fs = (None, fs)"
| "install d root from backup (name # names) fs =
     (let target = path_join root name in
      case back_up d target (path_join backup name) fs of
        (Some e, fs) \<Rightarrow> (Some e, fs)
      | (None, fs) \<Rightarrow>
      (case MkdirAllMode d (path_dir target) of
         Some e \<Rightarrow> (Some (OsError e), fs)
       | None \<Rightarrow>
       (case replace_file d (path_join from name) target fs of
          (Some e, fs) \<Rightarrow> (Some (OsError e), fs)
        | (None, fs) \<Rightarrow> install d root from backup names fs)))"

fun restore :: "disk \<Rightarrow> string \<Rightarrow> string \<Rightarrow> string list \<Rightarrow> os_call option \<Rightarrow> files \<Rightarrow> os_call option \<times> files" where
  "restore d root backup [] failed fs = (failed, fs)"
| "restore d root backup (name # names) failed fs =
     (let saved = path_join backup name in
      if \<not> file_exists d fs saved then restore d root backup names failed fs
      else case replace_file d saved (path_join root name) fs of
          (Some e, fs) \<Rightarrow> restore d root backup names (if failed = None then Some e else failed) fs
        | (None, fs) \<Rightarrow> restore d root backup names failed fs)"

section \<open>Running programs\<close>

definition exec_file :: "world \<Rightarrow> nat \<Rightarrow> files \<Rightarrow> string \<Rightarrow> string list \<Rightarrow> string option" where
  "exec_file w n fs path args =
     (case fs path of
        None \<Rightarrow> Some ''no such file or directory''
      | Some f \<Rightarrow> if executable f then w_run w n (fl_data f) args else Some ''permission denied'')"

definition client_name :: string where "client_name = ''usr/bin/openfrpc''"

definition smokeTest :: "world \<Rightarrow> files \<Rightarrow> string \<Rightarrow> apply_error option" where
  "smokeTest w fs binary =
     (if \<not> file_exists (w_disk w) fs binary then Some NoClient
      else if \<not> executable (the (fs binary)) then Some NotExecutable
      else case exec_file w 0 fs binary [''version''] of Some e \<Rightarrow> Some (NotRunning e) | None \<Rightarrow> None)"

definition restart :: "world \<Rightarrow> nat \<Rightarrow> options \<Rightarrow> files \<Rightarrow> install_error option" where
  "restart w n opts fs =
     (case exec_file w n fs (hd (op_ServiceCommand opts)) (tl (op_ServiceCommand opts)) of
        Some e \<Rightarrow> Some (RestartError e)
      | None \<Rightarrow>
      (case exec_file w n fs (path_join (op_Root opts) client_name) [''version''] of
         Some e \<Rightarrow> Some (ClientDoesNotRun e)
       | None \<Rightarrow> None))"

section \<open>The update\<close>

definition swap_in :: "world \<Rightarrow> options \<Rightarrow> string \<Rightarrow> string list \<Rightarrow> files \<Rightarrow> apply_error option \<times> files" where
  "swap_in w opts stage written fs =
     (let d = w_disk w; root = op_Root opts; backup = path_join stage ''backup'' in
      case install d root (path_join stage ''root'') backup written fs of
        (Some e, fs) \<Rightarrow>
          (case restore d root backup written None fs of
             (Some r, fs) \<Rightarrow> (Some (NotPutBack e r), fs)
           | (None, fs) \<Rightarrow> (Some (InstallFailed e), fs))
      | (None, fs) \<Rightarrow>
      (case restart w 1 opts fs of
         None \<Rightarrow> (None, fs)
       | Some e \<Rightarrow>
          (case restore d root backup written None fs of
             (Some r, fs) \<Rightarrow> (Some (NotPutBack e r), fs)
           | (None, fs) \<Rightarrow>
              (case restart w 2 opts fs of
                 Some e2 \<Rightarrow> (Some (NeitherStarts e2), fs)
               | None \<Rightarrow> (Some (PutBack e), fs)))))"

text \<open>Everything up to the swap: the download, its digest, the unpacked bundle, the smoke test.\<close>

definition prepare :: "world \<Rightarrow> string \<Rightarrow> asset \<Rightarrow> string \<Rightarrow> files \<Rightarrow> (apply_error + string list) \<times> files" where
  "prepare w stage a want fs =
     (let d = w_disk w; bundlePath = path_join stage (as_Name a); unpacked = path_join stage ''root'' in
      case attempt d (OpenWrite bundlePath) of
        Some e \<Rightarrow> (Inl (StageError e), fs)
      | None \<Rightarrow>
      (case fetchTo w (as_URL a) of
         Inl e \<Rightarrow> (Inl (FetchFailed e), fs)
       | Inr (body, got) \<Rightarrow>
      (case store_file d bundlePath 0x1B6 body False fs of
         (stored, fs) \<Rightarrow>
          if stored = Some (WriteTo bundlePath) then (Inl (FetchFailed (FetchBroken (as_URL a))), fs)
          else if got \<noteq> want then (Inl (Mismatch (as_Name a) got want), fs)
          else case attempt d (OpenRead bundlePath) of
            Some e \<Rightarrow> (Inl (StageError e), fs)
          | None \<Rightarrow>
          (case Extract d (w_untar w) (fl_data (the (fs bundlePath))) unpacked fs of
             (Inl e, fs) \<Rightarrow> (Inl (BundleFailed e), fs)
           | (Inr written, fs) \<Rightarrow>
              (case smokeTest w fs (path_join unpacked client_name) of
                 Some e \<Rightarrow> (Inl e, fs)
               | None \<Rightarrow> (Inr written, fs))))))"

definition staged :: "world \<Rightarrow> options \<Rightarrow> string \<Rightarrow> asset \<Rightarrow> string \<Rightarrow> files \<Rightarrow> apply_error option \<times> files" where
  "staged w opts stage a want fs =
     (case prepare w stage a want fs of
        (Inl e, fs) \<Rightarrow> (Some e, fs)
      | (Inr written, fs) \<Rightarrow> swap_in w opts stage written fs)"

definition remove_all :: "string \<Rightarrow> files \<Rightarrow> files" where
  "remove_all dir fs = (\<lambda>p. if p = dir \<or> has_prefix (dir @ ''/'') p then None else fs p)"

definition Apply :: "world \<Rightarrow> options \<Rightarrow> files \<Rightarrow> apply_error option \<times> files" where
  "Apply w opts0 fs =
     (let opts = applyDefaults opts0 in
      case w_latest w of
        Inl e \<Rightarrow> (Some (LatestFailed e), fs)
      | Inr r \<Rightarrow>
      (case AssetFor r (op_GOOS opts) (op_GOARCH opts) of
         None \<Rightarrow> (Some (NoBuildFor (rl_Tag r)), fs)
       | Some a \<Rightarrow>
      (case Checksums r of
         None \<Rightarrow> (Some (NoChecksums (rl_Tag r)), fs)
       | Some sa \<Rightarrow>
      (case fetchTo w (as_URL sa) of
         Inl e \<Rightarrow> (Some (FetchFailed e), fs)
       | Inr (sums, digest) \<Rightarrow>
      (case map_of (ParseChecksums (w_lower w) sums) (as_Name a) of
         None \<Rightarrow> (Some (NotListed (as_Name a)), fs)
       | Some want \<Rightarrow>
      (case w_stage w of
         None \<Rightarrow> (Some NoStage, fs)
       | Some stage \<Rightarrow>
          (case staged w opts stage a want fs of (e, fs) \<Rightarrow> (e, remove_all stage fs))))))))"

end
