(* ===== verification/Upd_Rollback.thy ===== *)
theory Upd_Rollback
  imports Upd_Install
begin

text \<open>
  What an update leaves behind. The installation root is \<^verbatim>\<open>/\<close>, the staging directory is anywhere
  else (\<open>stage_ok\<close>): the three top directories a bundle may write to are not above it, which keeps
  the staged and the saved files apart from the installed ones.
\<close>

section \<open>Three kinds of paths\<close>

definition top_dir :: "string \<Rightarrow> string" where
  "top_dir p = hd (split_on (CHR ''/'') (tl p))"

definition system_dirs :: "string list" where
  "system_dirs = [''usr'', ''etc'', ''www'']"

definition stage_ok :: "string list \<Rightarrow> bool" where
  "stage_ok ss \<longleftrightarrow> ss \<noteq> [] \<and> list_all plain_part ss \<and> hd ss \<notin> set system_dirs"

definition good_names :: "string list \<Rightarrow> bool" where
  "good_names names = list_all (\<lambda>n. permitted n \<and> plain_path n) names"

definition in_place :: "string \<Rightarrow> string" where
  "in_place n = CHR ''/'' # n"

definition in_stage :: "string list \<Rightarrow> string \<Rightarrow> string \<Rightarrow> string" where
  "in_stage ss dir n = rooted_path (ss @ dir # split_on (CHR ''/'') n)"

lemma good_names_simps [simp]:
  "good_names []" "good_names (n # ns) \<longleftrightarrow> permitted n \<and> plain_path n \<and> good_names ns"
  by (simp_all add: good_names_def)

lemma good_names_mem: "good_names ns \<Longrightarrow> n \<in> set ns \<Longrightarrow> permitted n \<and> plain_path n"
  by (simp add: good_names_def list_all_iff)

lemma join_in_place: "plain_path n \<Longrightarrow> path_join ''/'' n = in_place n"
  using path_join_plain [of "[]" n] by (simp add: rooted_path_def in_place_def)

lemma plain_dirs: "plain_part ''root''" "plain_part ''backup''" "plain_path ''root''" "plain_path ''backup''"
  by (simp_all add: plain_part_def dotdot_def plain_path_def)

lemma join_stage_dir:
  "stage_ok ss \<Longrightarrow> plain_part dir \<Longrightarrow> path_join (rooted_path ss) dir = rooted_path (ss @ [dir])"
  using path_join_plain [of ss dir] by (auto simp: stage_ok_def plain_part_def plain_path_def split_on_single)

lemma join_in_stage:
  "stage_ok ss \<Longrightarrow> plain_part dir \<Longrightarrow> plain_path n \<Longrightarrow> path_join (rooted_path (ss @ [dir])) n = in_stage ss dir n"
  using path_join_plain [of "ss @ [dir]" n] by (simp add: stage_ok_def in_stage_def)

lemma in_stage_inject:
  "stage_ok ss \<Longrightarrow> plain_part dir \<Longrightarrow> plain_part dir2 \<Longrightarrow> plain_path n \<Longrightarrow> plain_path m \<Longrightarrow>
   in_stage ss dir n = in_stage ss dir2 m \<longleftrightarrow> dir = dir2 \<and> n = m"
  by (auto simp: in_stage_def rooted_path_inject stage_ok_def plain_path_def)

lemma top_dir_rooted: "plain_part c \<Longrightarrow> list_all plain_part cs \<Longrightarrow> top_dir (rooted_path (c # cs)) = c"
  using split_join [of "c # cs" "CHR ''/''"]
  by (auto simp: top_dir_def rooted_path_def list_all_iff plain_part_def)

lemma top_dir_stage:
  "stage_ok ss \<Longrightarrow> list_all plain_part xs \<Longrightarrow> top_dir (rooted_path (ss @ xs)) = hd ss"
  using top_dir_rooted [of "hd ss" "tl ss @ xs"] by (cases ss) (simp_all add: stage_ok_def)

lemma allowed_tops:
  "list_all (\<lambda>p. list_ex (\<lambda>c. has_prefix (c @ ''/'') p) system_dirs) (allowedExact @ allowedPrefixes)"
  by code_simp

lemma permitted_top:
  assumes "permitted n"
  shows "\<exists>c \<in> set system_dirs. \<exists>t. n = c @ CHR ''/'' # t"
proof -
  from assms obtain p t where p: "p \<in> set (allowedExact @ allowedPrefixes)" "n = p @ t"
    by (auto simp: permitted_def list_ex_iff has_prefix_iff)
  with allowed_tops obtain c where "c \<in> set system_dirs" "has_prefix (c @ ''/'') p"
    by (auto simp: list_all_iff list_ex_iff)
  moreover from this p(2) obtain u where "n = c @ CHR ''/'' # u @ t" by (auto simp: has_prefix_iff)
  ultimately show ?thesis by blast
qed

lemma top_dir_place:
  "permitted n \<Longrightarrow> top_dir (in_place n) \<in> set system_dirs \<and> top_dir (in_place n @ new_suffix) \<in> set system_dirs"
proof -
  assume "permitted n"
  then obtain c t where n: "c \<in> set system_dirs" "n = c @ CHR ''/'' # t"
    using permitted_top by blast
  then have c: "CHR ''/'' \<notin> set c" by (auto simp: system_dirs_def)
  then show ?thesis
    using n split_on_append [OF c, of t] split_on_append [OF c, of "t @ new_suffix"]
    by (simp add: top_dir_def in_place_def)
qed

lemma stage_place_differ:
  assumes "stage_ok ss" and "list_all plain_part xs" and "permitted n"
  shows "rooted_path (ss @ xs) \<noteq> in_place n" and "rooted_path (ss @ xs) \<noteq> in_place n @ new_suffix"
  using top_dir_stage [OF assms(1,2)] top_dir_place [OF assms(3)] assms(1) by (auto simp: stage_ok_def)

lemma in_stage_differ:
  assumes "stage_ok ss" and "plain_part dir" and "plain_path m" and "permitted n"
  shows "in_stage ss dir m \<noteq> in_place n" and "in_stage ss dir m \<noteq> in_place n @ new_suffix"
  using stage_place_differ [OF assms(1) _ assms(4), of "dir # split_on (CHR ''/'') m"] assms(2,3)
  by (simp_all add: in_stage_def plain_path_def)

lemma new_suffix_differ: "p @ new_suffix \<noteq> p" "in_place n = in_place m \<longleftrightarrow> n = m"
  by (simp_all add: new_suffix_def in_place_def)

section \<open>Swapping one file\<close>

lemma copyFile_other: "q \<noteq> dst \<Longrightarrow> snd (copyFile d src dst fs) q = fs q"
  by (auto simp: copyFile_def store_file_other split: option.split)

lemma copyFile_ok:
  "copyFile d src dst fs = (None, fs') \<Longrightarrow>
   \<exists>f. fs src = Some f \<and> fs' = fs(dst \<mapsto> \<lparr>fl_data = fl_data f,
     fl_mode = (case fs dst of Some g \<Rightarrow> fl_mode g | None \<Rightarrow> FileMode AND NOT (dk_umask d))\<rparr>)"
  by (auto simp: copyFile_def split: option.splits if_splits dest: store_file_ok)

lemma copyFile_mode:
  "snd (copyFile d src dst fs) dst = Some f \<Longrightarrow>
   fl_mode f = (case fs dst of Some g \<Rightarrow> fl_mode g | None \<Rightarrow> FileMode AND NOT (dk_umask d))"
  by (auto simp: copyFile_def split: option.splits if_splits dest: store_file_mode)

lemma replace_other:
  "q \<noteq> dst \<Longrightarrow> q \<noteq> dst @ new_suffix \<Longrightarrow> snd (replace_file d src dst fs) q = fs q"
  using copyFile_other [of q "dst @ new_suffix" d src fs] chmod_file_other [of q "dst @ new_suffix" d]
    rename_file_other [of q "dst @ new_suffix" dst d]
  by (auto simp: replace_file_def Let_def remove_file_def split: prod.split option.split) (metis snd_conv)+

lemma replace_ok:
  assumes "replace_file d src dst fs = (None, fs')"
  shows "\<exists>f. fs src = Some f \<and>
    fs' = (fs(dst \<mapsto> \<lparr>fl_data = fl_data f, fl_mode = (if executable f then ExecMode else FileMode)\<rparr>))(dst @ new_suffix := None)"
proof -
  have ne: "dst @ new_suffix \<noteq> dst" by (rule new_suffix_differ)
  from assms obtain f where f: "fs src = Some f"
    by (auto simp: replace_file_def file_exists_def split: if_splits)
  let ?tmp = "dst @ new_suffix" and ?mode = "if executable f then ExecMode else FileMode"
  from assms f obtain fs1 fs2 where c: "copyFile d src ?tmp fs = (None, fs1)"
    and m: "chmod_file d ?tmp ?mode fs1 = (None, fs2)" and r: "rename_file d ?tmp dst fs2 = (None, fs')"
    by (auto simp: replace_file_def Let_def split: if_splits prod.splits option.splits)
  from copyFile_ok [OF c] f have tmp1: "fs1 ?tmp = Some \<lparr>fl_data = fl_data f, fl_mode = (case fs ?tmp of
      Some g \<Rightarrow> fl_mode g | None \<Rightarrow> FileMode AND NOT (dk_umask d))\<rparr>" and rest1: "\<And>q. q \<noteq> ?tmp \<Longrightarrow> fs1 q = fs q"
    by auto
  from chmod_file_ok [OF m] tmp1 have fs2: "fs2 = fs1(?tmp \<mapsto> \<lparr>fl_data = fl_data f, fl_mode = ?mode\<rparr>)"
    by auto
  from rename_file_ok [OF r ne] fs2 rest1 have "fs' = (fs(dst \<mapsto> \<lparr>fl_data = fl_data f, fl_mode = ?mode\<rparr>))(?tmp := None)"
    using ne by (auto simp: fun_eq_iff)
  with f show ?thesis by blast
qed

lemma replace_err:
  assumes "replace_file d src dst fs = (Some e, fs')"
  shows "fs' dst = fs dst"
proof -
  let ?tmp = "dst @ new_suffix" and ?mode = "if executable (the (fs src)) then ExecMode else FileMode"
  have ne: "dst \<noteq> ?tmp" by (metis new_suffix_differ(1))
  obtain r1 fs1 where c: "copyFile d src ?tmp fs = (r1, fs1)" by fastforce
  obtain r2 fs2 where m: "chmod_file d ?tmp ?mode fs1 = (r2, fs2)" by fastforce
  obtain r3 fs3 where r: "rename_file d ?tmp dst fs2 = (r3, fs3)" by fastforce
  have "fs1 dst = fs dst" using copyFile_other [OF ne, of d src fs] c by simp
  moreover have "fs2 dst = fs1 dst" using chmod_file_other [OF ne, of d ?mode fs1] m by simp
  moreover have "r3 \<noteq> None \<Longrightarrow> fs3 = fs2" using r by (auto simp: rename_file_def split: option.splits)
  ultimately show ?thesis
    using assms c m r ne by (auto simp: replace_file_def Let_def remove_file_def split: if_splits option.splits)
qed

lemma replace_present: "fs dst \<noteq> None \<Longrightarrow> snd (replace_file d src dst fs) dst \<noteq> None"
proof -
  assume present: "fs dst \<noteq> None"
  obtain r fs' where r: "replace_file d src dst fs = (r, fs')" by fastforce
  show ?thesis
    using replace_ok [of d src dst fs fs'] replace_err [of d src dst fs _ fs'] r present new_suffix_differ(1) [of dst]
    by (cases r) auto
qed

section \<open>Installing and restoring, file by file\<close>

lemma back_up_other: "q \<noteq> saved \<Longrightarrow> snd (back_up d target saved fs) q = fs q"
  using copyFile_other [of q saved d target fs]
  by (auto simp: back_up_def split: option.split prod.split)

lemma back_up_ok:
  "back_up d target saved fs = (None, fs') \<Longrightarrow> fs target = Some f \<Longrightarrow> \<not> dk_refuses d (Stat target) \<Longrightarrow>
   \<exists>g. fs' saved = Some g \<and> fl_data g = fl_data f"
  by (auto simp: back_up_def file_exists_def attempt_def split: if_splits option.splits prod.splits dest!: copyFile_ok)

lemma back_up_absent: "fs target = None \<Longrightarrow> back_up d target saved fs = (None, fs)"
  by (simp add: back_up_def file_exists_def)

lemma plain_mode: "(FileMode AND u) AND exec_bits = 0" "FileMode AND exec_bits = 0" "ExecMode AND exec_bits \<noteq> 0"
proof -
  show zero: "FileMode AND exec_bits = 0" and "ExecMode AND exec_bits \<noteq> 0"
    by (simp_all add: FileMode_def ExecMode_def exec_bits_def)
  have "(FileMode AND u) AND exec_bits = (FileMode AND exec_bits) AND u"
    by (simp add: and.assoc and.commute and.left_commute)
  with zero show "(FileMode AND u) AND exec_bits = 0" by simp
qed

lemma back_up_plain:
  assumes "\<forall>f. fs saved = Some f \<longrightarrow> \<not> executable f"
  shows "\<forall>f. snd (back_up d target saved fs) saved = Some f \<longrightarrow> \<not> executable f"
proof (intro allI impI)
  fix f assume f: "snd (back_up d target saved fs) saved = Some f"
  then have "fs saved = Some f \<or> snd (copyFile d target saved fs) saved = Some f"
    by (auto simp: back_up_def split: if_splits option.splits prod.splits)
  then show "\<not> executable f"
    using assms copyFile_mode [of d target saved fs f] plain_mode
    by (auto simp: executable_def split: option.splits)
qed

lemma install_invariant:
  assumes "P fs"
    and "\<And>n fs. n \<in> set names \<Longrightarrow> P fs \<Longrightarrow> P (snd (back_up d (path_join root n) (path_join backup n) fs))"
    and "\<And>n fs. n \<in> set names \<Longrightarrow> P fs \<Longrightarrow> P (snd (replace_file d (path_join from n) (path_join root n) fs))"
  shows "P (snd (install d root from backup names fs))"
  using assms
proof (induction names arbitrary: fs)
  case (Cons n ns)
  obtain b fs1 where b: "back_up d (path_join root n) (path_join backup n) fs = (b, fs1)" by fastforce
  obtain r fs2 where r: "replace_file d (path_join from n) (path_join root n) fs1 = (r, fs2)" by fastforce
  have P1: "P fs1" using Cons.prems(2) [of n fs] Cons.prems(1) b by simp
  have P2: "P fs2" using Cons.prems(3) [of n fs1] P1 r by simp
  have "P (snd (install d root from backup ns fs2))"
    by (rule Cons.IH [OF P2]) (simp_all add: Cons.prems)
  with P1 P2 b r show ?case by (simp add: Let_def split: option.split)
qed simp

lemma restore_invariant:
  assumes "P fs"
    and "\<And>n fs. n \<in> set names \<Longrightarrow> P fs \<Longrightarrow> P (snd (replace_file d (path_join backup n) (path_join root n) fs))"
  shows "P (snd (restore d root backup names failed fs))"
  using assms
proof (induction names arbitrary: fs failed)
  case (Cons n ns)
  obtain r fs2 where r: "replace_file d (path_join backup n) (path_join root n) fs = (r, fs2)" by fastforce
  have P2: "P fs2" using Cons.prems(2) [of n fs] Cons.prems(1) r by simp
  have "P (snd (restore d root backup ns fl fs'))" if "P fs'" for fl fs'
    by (rule Cons.IH [OF that]) (simp add: Cons.prems)
  with Cons.prems(1) P2 r show ?case by (simp add: Let_def split: option.split)
qed simp

lemma restore_failed: "failed \<noteq> None \<Longrightarrow> fst (restore d root backup names failed fs) \<noteq> None"
  by (induction names arbitrary: failed fs) (auto simp: Let_def split: prod.split option.split)

lemma install_step:
  assumes "install d root from backup (n # ns) fs = (None, fs')"
  obtains fs1 fs2 where "back_up d (path_join root n) (path_join backup n) fs = (None, fs1)"
    and "replace_file d (path_join from n) (path_join root n) fs1 = (None, fs2)"
    and "install d root from backup ns fs2 = (None, fs')"
  using assms by (auto simp: Let_def split: prod.splits option.splits)

lemma restore_step:
  assumes "restore d root backup (n # ns) None fs = (None, fs')"
  obtains "\<not> file_exists d fs (path_join backup n)" and "restore d root backup ns None fs = (None, fs')"
  | fs2 where "file_exists d fs (path_join backup n)"
      and "replace_file d (path_join backup n) (path_join root n) fs = (None, fs2)"
      and "restore d root backup ns None fs2 = (None, fs')"
  using assms restore_failed [of "Some _" d root backup ns]
  by (auto simp: Let_def split: prod.splits option.splits if_splits) (metis fst_conv option.distinct(1))+

section \<open>The saved client cannot be run\<close>

definition saved_plain :: "string list \<Rightarrow> files \<Rightarrow> bool" where
  "saved_plain ss fs \<longleftrightarrow>
     (\<forall>n f. plain_path n \<longrightarrow> fs (in_stage ss ''backup'' n) = Some f \<longrightarrow> \<not> executable f)"

definition client_dead :: "files \<Rightarrow> bool" where
  "client_dead fs \<longleftrightarrow> (\<exists>f. fs (in_place client_name) = Some f \<and> \<not> executable f)"

lemma client_facts: "permitted client_name" "plain_path client_name" "client_name \<noteq> n @ new_suffix"
proof -
  show "permitted client_name" "plain_path client_name" by code_simp+
  have "last client_name \<noteq> last (n @ new_suffix)" by (simp add: client_name_def new_suffix_def)
  then show "client_name \<noteq> n @ new_suffix" by metis
qed

lemma replace_saved_plain:
  assumes "stage_ok ss" and "permitted n" and "saved_plain ss fs"
  shows "saved_plain ss (snd (replace_file d src (in_place n) fs))"
  using assms(3) replace_other [OF in_stage_differ [OF assms(1) plain_dirs(2) _ assms(2)], of _ d src fs]
  by (auto simp: saved_plain_def)

lemma back_up_saved_plain:
  assumes "stage_ok ss" and "plain_path n" and "saved_plain ss fs"
  shows "saved_plain ss (snd (back_up d target (in_stage ss ''backup'' n) fs))"
  unfolding saved_plain_def
proof (intro allI impI)
  fix m f
  assume m: "plain_path m" "snd (back_up d target (in_stage ss ''backup'' n) fs) (in_stage ss ''backup'' m) = Some f"
  show "\<not> executable f"
  proof (cases "m = n")
    case True
    have "\<forall>f. fs (in_stage ss ''backup'' n) = Some f \<longrightarrow> \<not> executable f"
      using assms(2,3) unfolding saved_plain_def by blast
    with back_up_plain [of fs "in_stage ss ''backup'' n" d target] m(2) True show ?thesis by blast
  next
    case False
    then have "in_stage ss ''backup'' m \<noteq> in_stage ss ''backup'' n"
      using in_stage_inject [OF assms(1) plain_dirs(2) plain_dirs(2) m(1) assms(2)] by simp
    from m(2) [unfolded back_up_other [OF this]] m(1) assms(3) show ?thesis
      unfolding saved_plain_def by blast
  qed
qed

text \<open>The paths of one update, written out.\<close>

lemmas update_paths = join_in_place join_in_stage [OF _ plain_dirs(1)] join_in_stage [OF _ plain_dirs(2)]

lemma install_saved_plain:
  assumes "stage_ok ss" and "good_names names" and "saved_plain ss fs"
  shows "saved_plain ss (snd (install d ''/'' (rooted_path (ss @ [''root''])) (rooted_path (ss @ [''backup''])) names fs))"
proof (rule install_invariant [where P = "saved_plain ss", OF assms(3)])
  fix n fs assume "n \<in> set names" and plain: "saved_plain ss fs"
  then have n: "permitted n" "plain_path n" using good_names_mem [OF assms(2)] by blast+
  show "saved_plain ss (snd (back_up d (path_join ''/'' n) (path_join (rooted_path (ss @ [''backup''])) n) fs))"
    unfolding update_paths(3) [OF assms(1) n(2)] by (rule back_up_saved_plain [OF assms(1) n(2) plain])
  show "saved_plain ss (snd (replace_file d (path_join (rooted_path (ss @ [''root''])) n) (path_join ''/'' n) fs))"
    unfolding update_paths(1) [OF n(2)] by (rule replace_saved_plain [OF assms(1) n(1) plain])
qed

lemma replace_client_dead:
  assumes "stage_ok ss" and "permitted n" and "plain_path n" and "saved_plain ss fs" and "client_dead fs"
  shows "client_dead (snd (replace_file d (in_stage ss ''backup'' n) (in_place n) fs))"
proof (cases "n = client_name")
  case False
  then have "in_place client_name \<noteq> in_place n" "in_place client_name \<noteq> in_place n @ new_suffix"
    using client_facts(3) by (auto simp: in_place_def)
  with assms(5) show ?thesis by (simp add: client_dead_def replace_other)
next
  case True
  obtain r fs' where r: "replace_file d (in_stage ss ''backup'' n) (in_place n) fs = (r, fs')" by fastforce
  show ?thesis
    using replace_ok [of d _ _ fs fs'] replace_err [of d _ _ fs _ fs'] r True assms(3-5) new_suffix_differ(1)
      plain_mode(2)
    by (cases r) (fastforce simp: client_dead_def saved_plain_def executable_def)+
qed

lemma restore_client_dead:
  assumes "stage_ok ss" and "good_names names" and "saved_plain ss fs" and "client_dead fs"
  shows "saved_plain ss (snd (restore d ''/'' (rooted_path (ss @ [''backup''])) names failed fs)) \<and>
    client_dead (snd (restore d ''/'' (rooted_path (ss @ [''backup''])) names failed fs))"
proof (rule restore_invariant [where P = "\<lambda>fs. saved_plain ss fs \<and> client_dead fs"])
  fix n fs assume "n \<in> set names" and P: "saved_plain ss fs \<and> client_dead fs"
  then have n: "permitted n" "plain_path n" using good_names_mem [OF assms(2)] by blast+
  show "saved_plain ss (snd (replace_file d (path_join (rooted_path (ss @ [''backup''])) n) (path_join ''/'' n) fs)) \<and>
      client_dead (snd (replace_file d (path_join (rooted_path (ss @ [''backup''])) n) (path_join ''/'' n) fs))"
    unfolding update_paths(1) [OF n(2)] update_paths(3) [OF assms(1) n(2)]
    using replace_saved_plain [OF assms(1) n(1)] replace_client_dead [OF assms(1) n] P by blast
qed (use assms(3,4) in blast)

lemma rollback_client_dead:
  assumes "stage_ok ss" and "good_names names" and "saved_plain ss fs" and "client_name \<in> set names"
    and "fs (in_stage ss ''backup'' client_name) \<noteq> None" and "\<forall>p. \<not> dk_refuses d (Stat p)"
    and "restore d ''/'' (rooted_path (ss @ [''backup''])) names None fs = (None, fs')"
  shows "client_dead fs'"
  using assms
proof (induction names arbitrary: fs)
  case (Cons n ns)
  have n: "permitted n" "plain_path n" "good_names ns" using Cons.prems(2) by simp_all
  note paths = update_paths(1) [OF n(2)] update_paths(3) [OF Cons.prems(1) n(2)]
  from Cons.prems(7) show ?case
  proof (cases rule: restore_step)
    case 1
    then have "n \<noteq> client_name"
      using Cons.prems(5,6) paths by (auto simp: file_exists_def attempt_def)
    with Cons.IH [OF Cons.prems(1) n(3) Cons.prems(3)] Cons.prems(4-6) 1(2) show ?thesis by simp
  next
    case (2 fs2)
    note r = 2(2) [unfolded paths]
    have plain: "saved_plain ss fs2"
      using replace_saved_plain [OF Cons.prems(1) n(1) Cons.prems(3), of d] r by (metis snd_conv)
    have kept: "fs2 (in_stage ss ''backup'' client_name) \<noteq> None"
      using replace_other [OF in_stage_differ [OF Cons.prems(1) plain_dirs(2) client_facts(2) n(1)]] r Cons.prems(5)
      by (metis snd_conv)
    show ?thesis
    proof (cases "n = client_name")
      case True
      have "client_dead fs2"
        using replace_ok [OF r] True Cons.prems(3) client_facts(2) new_suffix_differ(1) plain_mode(2)
        by (fastforce simp: client_dead_def saved_plain_def executable_def)
      from restore_client_dead [OF Cons.prems(1) n(3) plain this, of d None] 2(3) show ?thesis by simp
    next
      case False
      with Cons.IH [OF Cons.prems(1) n(3) plain _ kept] Cons.prems(4,6) 2(3) show ?thesis by simp
    qed
  qed
qed simp

section \<open>The whole update\<close>

lemma prepare_ok:
  assumes "prepare w stage a want fs = (Inr written, fs1)"
  obtains fs0 body where "\<forall>q. q \<noteq> path_join stage (as_Name a) \<longrightarrow> fs0 q = fs q"
    and "fetchTo w (as_URL a) = Inr (body, want)"
    and "Extract (w_disk w) (w_untar w) (fl_data (the (fs0 (path_join stage (as_Name a))))) (path_join stage ''root'') fs0 =
           (Inr written, fs1)"
    and "smokeTest w fs1 (path_join (path_join stage ''root'') client_name) = None"
proof -
  let ?p = "path_join stage (as_Name a)"
  obtain body got fs0 r where f: "fetchTo w (as_URL a) = Inr (body, got)"
    and st: "store_file (w_disk w) ?p 0x1B6 body False fs = (r, fs0)"
    using assms by (auto simp: prepare_def Let_def split: option.splits sum.splits prod.splits)
  have "\<forall>q. q \<noteq> ?p \<longrightarrow> fs0 q = fs q"
    using store_file_other [of _ ?p "w_disk w" "0x1B6" body False fs] st by simp
  with assms f st that show ?thesis
    by (auto simp: prepare_def Let_def split: option.splits sum.splits prod.splits if_splits)
qed

lemma prepare_other:
  assumes "list_all plain_part ds" and "path_join stage ''root'' = rooted_path ds"
    and "q \<noteq> path_join stage (as_Name a)" and "\<not> bundle_place ds q"
  shows "snd (prepare w stage a want fs) q = fs q"
proof -
  have x: "snd (Extract (w_disk w) (w_untar w) raw (rooted_path ds) fs0) q = fs0 q" for raw fs0
    using assms(4) unpack_confined [OF assms(1) refl, of "w_disk w" _ _ "[]" fs0 q]
    by (auto simp: Extract_def split: sum.splits prod.splits)
  have other: "store_file d (path_join stage (as_Name a)) m body b fs = (r, fs0) \<Longrightarrow> fs0 q = fs q" for d m body b r fs0
    using store_file_other [OF assms(3), of d m body b fs] by simp
  have unpacked: "Extract (w_disk w) (w_untar w) raw (rooted_path ds) fs0 = (y, fs1) \<Longrightarrow> fs1 q = fs0 q" for raw fs0 y fs1
    using x [of raw fs0] by simp
  show ?thesis
    by (auto simp: prepare_def Let_def assms(2) dest!: other unpacked split: option.split sum.split prod.split)
qed

lemma prepare_error:
  "fst (prepare w stage a want fs) = Inl err \<Longrightarrow> err \<noteq> PutBack e \<and> err \<noteq> NeitherStarts e"
  by (auto simp: prepare_def Let_def smokeTest_def split: option.splits sum.splits prod.splits if_splits)

section \<open>A finished install\<close>

definition no_temporary :: "string list \<Rightarrow> bool" where
  "no_temporary names = list_all (\<lambda>n. \<not> has_suffix new_suffix n) names"

lemma place_apart:
  "\<not> has_suffix new_suffix n \<Longrightarrow> n \<noteq> m \<Longrightarrow> in_place n \<noteq> in_place m \<and> in_place n \<noteq> in_place m @ new_suffix"
  by (auto simp: in_place_def has_suffix_iff)

lemma install_keeps_place:
  fixes fs :: files
  assumes "stage_ok ss" and "good_names names" and "permitted n" and "\<not> has_suffix new_suffix n" and "n \<notin> set names"
  shows "snd (install d ''/'' from (rooted_path (ss @ [''backup''])) names fs) (in_place n) = fs (in_place n)"
proof (rule install_invariant [where P = "\<lambda>g. g (in_place n) = fs (in_place n)"])
  fix m and g :: files assume mem: "m \<in> set names" and P: "g (in_place n) = fs (in_place n)"
  then have m: "permitted m" "plain_path m" "n \<noteq> m" using good_names_mem [OF assms(2)] assms(5) by auto
  show "snd (back_up d (path_join ''/'' m) (path_join (rooted_path (ss @ [''backup''])) m) g) (in_place n) = fs (in_place n)"
    using back_up_other [of "in_place n" "in_stage ss ''backup'' m" d "path_join ''/'' m" g]
      in_stage_differ(1) [OF assms(1) plain_dirs(2) m(2) assms(3)] P
    unfolding update_paths(3) [OF assms(1) m(2)] by metis
  show "snd (replace_file d (path_join from m) (path_join ''/'' m) g) (in_place n) = fs (in_place n)"
    using replace_other [of "in_place n" "in_place m" d "path_join from m" g] place_apart [OF assms(4) m(3)] P
    unfolding update_paths(1) [OF m(2)] by simp
qed simp

text \<open>A finished install is the release. When \<^verbatim>\<open>install\<close> returns no error, every file of the
  bundle is in place with the staged bytes, and with mode 0755 if the staged file could be run and
  0644 otherwise, whatever was there before and whatever the umask.\<close>

theorem install_complete:
  assumes "stage_ok ss" and "good_names names" and "distinct names" and "no_temporary names"
    and "install d ''/'' (rooted_path (ss @ [''root''])) (rooted_path (ss @ [''backup''])) names fs = (None, fs')"
    and "n \<in> set names"
  shows "\<exists>f. fs (in_stage ss ''root'' n) = Some f \<and>
    fs' (in_place n) = Some \<lparr>fl_data = fl_data f, fl_mode = (if executable f then ExecMode else FileMode)\<rparr>"
  using assms
proof (induction names arbitrary: fs)
  case (Cons m ms)
  have m: "permitted m" "plain_path m" "good_names ms" "m \<notin> set ms" "distinct ms" "no_temporary ms" "\<not> has_suffix new_suffix m"
    using Cons.prems(2-4) by (simp_all add: no_temporary_def)
  let ?from = "rooted_path (ss @ [''root''])" and ?backup = "rooted_path (ss @ [''backup''])"
  note paths = update_paths(1) [OF m(2)] update_paths(2,3) [OF Cons.prems(1) m(2)]
  obtain fs1 fs2 where b: "back_up d (in_place m) (in_stage ss ''backup'' m) fs = (None, fs1)"
    and r: "replace_file d (in_stage ss ''root'' m) (in_place m) fs1 = (None, fs2)"
    and rest: "install d ''/'' ?from ?backup ms fs2 = (None, fs')"
    using Cons.prems(5) by (rule install_step) (simp add: paths)
  have staged: "fs1 (in_stage ss ''root'' k) = fs (in_stage ss ''root'' k)" if "plain_path k" for k
    using back_up_other [of "in_stage ss ''root'' k" "in_stage ss ''backup'' m" d "in_place m" fs] b
      in_stage_inject [OF Cons.prems(1) plain_dirs(1,2) that m(2)] by simp
  have staged2: "fs2 (in_stage ss ''root'' k) = fs1 (in_stage ss ''root'' k)" if "plain_path k" for k
    using replace_other [OF in_stage_differ [OF Cons.prems(1) plain_dirs(1) that m(1)], of d _ fs1] r by (metis snd_conv)
  show ?case
  proof (cases "n = m")
    case True
    have "fs' (in_place m) = fs2 (in_place m)"
      using install_keeps_place [OF Cons.prems(1) m(3,1,7,4), of d ?from fs2] rest by simp
    with replace_ok [OF r] staged [OF m(2)] True new_suffix_differ(1) [of "in_place m"] show ?thesis by auto
  next
    case False
    then have n: "n \<in> set ms" using Cons.prems(6) by simp
    with good_names_mem [OF m(3)] have "plain_path n" by blast
    with Cons.IH [OF Cons.prems(1) m(3,5,6) rest n] staged staged2 show ?thesis by simp
  qed
qed simp

section \<open>Only what was verified, only where it may\<close>

definition update_place :: "string \<Rightarrow> bool" where
  "update_place q \<longleftrightarrow> (\<exists>n. permitted n \<and> plain_path n \<and> (q = in_place n \<or> q = in_place n @ new_suffix))"

lemma swap_in_other:
  assumes "stage_ok ss" and "op_Root opts = ''/''" and "good_names written"
    and "top_dir q \<noteq> hd ss" and "\<not> update_place q"
  shows "snd (swap_in w opts (rooted_path ss) written fs) q = fs q"
proof -
  let ?root = "rooted_path (ss @ [''root''])" and ?backup = "rooted_path (ss @ [''backup''])"
  have replaced: "snd (replace_file d src (path_join ''/'' n) fs) q = fs q"
    if "n \<in> set written" for d src n fs
    using good_names_mem [OF assms(3) that] assms(5) by (intro replace_other) (auto simp: update_place_def join_in_place)
  have saved: "snd (back_up d t (path_join ?backup n) fs) q = fs q" if "n \<in> set written" for d t n fs
  proof (rule back_up_other)
    have n: "plain_path n" using good_names_mem [OF assms(3) that] by blast
    have "top_dir (in_stage ss ''backup'' n) = hd ss"
      using top_dir_stage [OF assms(1), of "''backup'' # split_on (CHR ''/'') n"] n plain_dirs(2)
      by (simp add: in_stage_def plain_path_def)
    then show "q \<noteq> path_join ?backup n"
      unfolding update_paths(3) [OF assms(1) n] using assms(4) by metis
  qed
  have i: "snd (install d ''/'' ?root ?backup written fs) q = fs q" for d
    by (rule install_invariant [where P = "\<lambda>fs'. fs' q = fs q"]) (simp_all add: replaced saved)
  have r: "snd (restore d ''/'' ?backup written f fs) q = fs q" for d f fs
    by (rule restore_invariant [where P = "\<lambda>fs'. fs' q = fs q"]) (simp_all add: replaced)
  have i2: "install d ''/'' ?root ?backup written fs = (x, fs1) \<Longrightarrow> fs1 q = fs q" for d x fs1
    using i [of d] by simp
  have r2: "restore d ''/'' ?backup written f fs1 = (x, fs2) \<Longrightarrow> fs2 q = fs1 q" for d f fs1 x fs2
    using r [of d f fs1] by simp
  show ?thesis
    unfolding swap_in_def Let_def assms(2) join_stage_dir [OF assms(1) plain_dirs(1)]
      join_stage_dir [OF assms(1) plain_dirs(2)]
    by (auto dest!: i2 r2 split: option.split prod.split)
qed

lemma remove_all_other: "stage_ok ss \<Longrightarrow> top_dir q \<noteq> hd ss \<Longrightarrow> remove_all (rooted_path ss) fs q = fs q"
proof -
  assume ss: "stage_ok ss" and q: "top_dir q \<noteq> hd ss"
  have split: "split_on (CHR ''/'') (join_with (CHR ''/'') ss) = ss"
    using ss by (intro split_join) (auto simp: stage_ok_def list_all_iff plain_part_def)
  have "q \<noteq> rooted_path ss" using q top_dir_stage [OF ss, of "[]"] by auto
  moreover have "\<not> has_prefix (rooted_path ss @ ''/'') q"
  proof
    assume "has_prefix (rooted_path ss @ ''/'') q"
    then obtain t where "tl q = join_with (CHR ''/'') ss @ CHR ''/'' # t"
      by (auto simp: has_prefix_iff rooted_path_def)
    then have "top_dir q = hd ss"
      using ss by (simp add: top_dir_def split_on_append_parts split stage_ok_def)
    with q show False ..
  qed
  ultimately show ?thesis by (simp add: remove_all_def)
qed

lemma applyDefaults_root: "op_Root opts \<in> {[], ''/''} \<Longrightarrow> op_Root (applyDefaults opts) = ''/''"
  by (auto simp: applyDefaults_def Let_def)

lemma applyDefaults_arch [simp]:
  "op_GOOS (applyDefaults opts) = op_GOOS opts" "op_GOARCH (applyDefaults opts) = op_GOARCH opts"
  by (simp_all add: applyDefaults_def Let_def)

lemma AssetFor_name: "AssetFor r goos goarch = Some a \<Longrightarrow> as_Name a = BundleName (rl_Tag r) goos goarch"
proof -
  have "asset_named want as = Some a \<Longrightarrow> as_Name a = want" for want as
    by (induction want as rule: asset_named.induct) (auto split: if_splits)
  then show "AssetFor r goos goarch = Some a \<Longrightarrow> ?thesis" by (simp add: AssetFor_def)
qed

lemma Apply_staged:
  assumes "w_latest w = Inr r" and "w_stage w = Some stage"
  obtains (refused) e where "Apply w opts fs = (Some e, fs)" "\<And>x. e \<noteq> PutBack x" "\<And>x. e \<noteq> NeitherStarts x"
  | (staged) a sa sums digest want where "AssetFor r (op_GOOS opts) (op_GOARCH opts) = Some a"
      and "Checksums r = Some sa" and "fetchTo w (as_URL sa) = Inr (sums, digest)"
      and "map_of (ParseChecksums (w_lower w) sums) (as_Name a) = Some want"
      and "Apply w opts fs = (case staged w (applyDefaults opts) stage a want fs of (e, fs) \<Rightarrow> (e, remove_all stage fs))"
proof (cases "AssetFor r (op_GOOS opts) (op_GOARCH opts)")
  case None
  with assms refused show ?thesis by (simp add: Apply_def Let_def)
next
  case a: (Some a)
  show ?thesis
  proof (cases "Checksums r")
    case None
    with assms a refused show ?thesis by (simp add: Apply_def Let_def)
  next
    case sa: (Some sa)
    show ?thesis
    proof (cases "fetchTo w (as_URL sa)")
      case (Inl e)
      with assms a sa refused show ?thesis by (simp add: Apply_def Let_def)
    next
      case (Inr b)
      with assms a sa show ?thesis
        by (cases b; cases "map_of (ParseChecksums (w_lower w) (fst b)) (as_Name a)")
          (auto simp: Apply_def Let_def intro: refused staged)
    qed
  qed
qed


section \<open>A rollback that cannot succeed\<close>

lemma store_file_present: "fs p \<noteq> None \<Longrightarrow> snd (store_file d p m bs b fs) p \<noteq> None"
  by (auto simp: store_file_def open_write_def append_data_def Let_def split: option.split)

lemma back_up_present: "fs saved \<noteq> None \<Longrightarrow> snd (back_up d target saved fs) saved \<noteq> None"
proof -
  assume "fs saved \<noteq> None"
  then have "snd (copyFile d target saved fs) saved \<noteq> None"
    using store_file_present [of fs saved] by (auto simp: copyFile_def split: option.split)
  with \<open>fs saved \<noteq> None\<close> show ?thesis
    by (auto simp: back_up_def split: option.split prod.split)
qed

lemma install_keeps_saved:
  assumes "stage_ok ss" and "good_names names" and "plain_path c" and "fs (in_stage ss ''backup'' c) \<noteq> None"
  shows "snd (install d ''/'' from (rooted_path (ss @ [''backup''])) names fs) (in_stage ss ''backup'' c) \<noteq> None"
proof (rule install_invariant [where P = "\<lambda>fs. fs (in_stage ss ''backup'' c) \<noteq> None"])
  fix n and fs :: files assume "n \<in> set names" and P: "fs (in_stage ss ''backup'' c) \<noteq> None"
  then have n: "permitted n" "plain_path n" using good_names_mem [OF assms(2)] by blast+
  show "snd (back_up d (path_join ''/'' n) (path_join (rooted_path (ss @ [''backup''])) n) fs) (in_stage ss ''backup'' c) \<noteq> None"
  proof (cases "n = c")
    case True
    then show ?thesis
      using update_paths(3) [OF assms(1) n(2)] P
        back_up_present [of fs "in_stage ss ''backup'' c" d "path_join ''/'' c"] by simp
  next
    case False
    then have "in_stage ss ''backup'' c \<noteq> in_stage ss ''backup'' n"
      using in_stage_inject [OF assms(1) plain_dirs(2) plain_dirs(2) assms(3) n(2)] by simp
    then show ?thesis unfolding update_paths(3) [OF assms(1) n(2)] by (simp add: back_up_other P)
  qed
  show "snd (replace_file d (path_join from n) (path_join ''/'' n) fs) (in_stage ss ''backup'' c) \<noteq> None"
    unfolding update_paths(1) [OF n(2)]
    using replace_other [OF in_stage_differ [OF assms(1) plain_dirs(2) assms(3) n(1)]] P by simp
qed (rule assms(4))

lemma install_saves_client:
  assumes "stage_ok ss" and "good_names names" and "client_name \<in> set names"
    and "fs (in_place client_name) \<noteq> None" and "\<forall>p. \<not> dk_refuses d (Stat p)"
    and "install d ''/'' from (rooted_path (ss @ [''backup''])) names fs = (None, fs')"
  shows "fs' (in_stage ss ''backup'' client_name) \<noteq> None"
  using assms
proof (induction names arbitrary: fs)
  case (Cons n ns)
  have n: "permitted n" "plain_path n" "good_names ns" using Cons.prems(2) by simp_all
  note paths = update_paths(1) [OF n(2)] update_paths(3) [OF Cons.prems(1) n(2)]
  from Cons.prems(6) obtain fs1 fs2 where b: "back_up d (in_place n) (in_stage ss ''backup'' n) fs = (None, fs1)"
    and r: "replace_file d (path_join from n) (in_place n) fs1 = (None, fs2)"
    and rest: "install d ''/'' from (rooted_path (ss @ [''backup''])) ns fs2 = (None, fs')"
    by (rule install_step) (simp add: paths)
  note sb = in_stage_differ [OF Cons.prems(1) plain_dirs(2) _ n(1)]
  show ?case
  proof (cases "n = client_name")
    case True
    with b Cons.prems(4,5) have "fs1 (in_stage ss ''backup'' client_name) \<noteq> None"
      using back_up_ok [of d _ _ fs fs1] by fastforce
    then have "fs2 (in_stage ss ''backup'' client_name) \<noteq> None"
      using replace_other [OF sb [OF client_facts(2)], of d _ fs1] r by (metis snd_conv)
    with install_keeps_saved [of ss ns client_name fs2 d "from"] Cons.prems(1) n(3) client_facts(2) rest
    show ?thesis by simp
  next
    case False
    have "fs1 (in_place client_name) \<noteq> None"
      using back_up_other [of "in_place client_name" "in_stage ss ''backup'' n" d "in_place n" fs] b Cons.prems(4)
        in_stage_differ(1) [OF Cons.prems(1) plain_dirs(2) n(2) client_facts(1)] by (metis snd_conv)
    then have "fs2 (in_place client_name) \<noteq> None"
      using replace_other [of "in_place client_name" "in_place n" d _ fs1] r False client_facts(3)
      by (metis in_place_def append_Cons list.inject snd_conv)
    with Cons.IH [OF Cons.prems(1) n(3)] Cons.prems(3,5) False rest show ?thesis by simp
  qed
qed simp

lemma dead_client_no_restart:
  "op_Root opts = ''/'' \<Longrightarrow> client_dead fs \<Longrightarrow> restart w n opts fs \<noteq> None"
  using join_in_place [OF client_facts(2)]
  by (auto simp: restart_def exec_file_def client_dead_def split: option.split)

lemma swap_in_never_back:
  assumes "stage_ok ss" and "op_Root opts = ''/''" and "good_names written" and "client_name \<in> set written"
    and "saved_plain ss fs" and "fs (in_place client_name) \<noteq> None" and "\<forall>p. \<not> dk_refuses (w_disk w) (Stat p)"
  shows "fst (swap_in w opts (rooted_path ss) written fs) \<noteq> Some (PutBack e)"
proof
  let ?root = "rooted_path (ss @ [''root''])" and ?backup = "rooted_path (ss @ [''backup''])"
  assume "fst (swap_in w opts (rooted_path ss) written fs) = Some (PutBack e)"
  then obtain fs1 fs2 where i: "install (w_disk w) ''/'' ?root ?backup written fs = (None, fs1)"
    and r: "restore (w_disk w) ''/'' ?backup written None fs1 = (None, fs2)" and up: "restart w 2 opts fs2 = None"
    unfolding swap_in_def Let_def assms(2) join_stage_dir [OF assms(1) plain_dirs(1)]
      join_stage_dir [OF assms(1) plain_dirs(2)]
    by (auto split: option.splits prod.splits)
  have "saved_plain ss fs1"
    using install_saved_plain [OF assms(1,3,5), of "w_disk w"] i by simp
  then have "client_dead fs2"
    by (rule rollback_client_dead [OF assms(1,3) _ assms(4) install_saves_client [OF assms(1,3,4,6,7) i] assms(7) r])
  with dead_client_no_restart [OF assms(2)] up show False by blast
qed

lemma join_with_append:
  "ps \<noteq> [] \<Longrightarrow> qs \<noteq> [] \<Longrightarrow> join_with b (ps @ qs) = join_with b ps @ b # join_with b qs"
proof (induction ps)
  case (Cons p ps)
  then show ?case by (cases "ps = []") (simp_all add: join_with_Cons)
qed simp

lemma rooted_prefix: "stage_ok ss \<Longrightarrow> has_prefix (rooted_path ss) (rooted_path (ss @ x # xs))"
  by (simp add: has_prefix_iff rooted_path_def stage_ok_def join_with_append)

text \<open>What was unpacked into an empty staging directory: the client is part of it, and no backup is
  there yet that could run.\<close>

lemma unpacked_release:
  assumes "stage_ok ss" and "plain_part name"
    and fs0: "\<forall>q. q \<noteq> rooted_path (ss @ [name]) \<longrightarrow> fs0 q = fs q" and empty: "\<forall>p. has_prefix (rooted_path ss) p \<longrightarrow> fs p = None"
    and x: "Extract disk untar archive (rooted_path (ss @ [''root''])) fs0 = (Inr written, fs1)"
    and smoke: "smokeTest w fs1 (path_join (rooted_path (ss @ [''root''])) client_name) = None"
  shows "good_names written \<and> saved_plain ss fs1 \<and> client_name \<in> set written"
proof -
  have good: "good_names written" using Extract_written(2) [OF x] by (simp add: good_names_def)
  have fresh: "fs0 (in_stage ss dir n) = None" if "plain_part dir" "plain_path n" for dir n
  proof -
    have "has_prefix (rooted_path ss) (in_stage ss dir n)"
      using rooted_prefix [OF assms(1)] by (simp add: in_stage_def)
    moreover have "in_stage ss dir n \<noteq> rooted_path (ss @ [name])"
      using that assms(1,2) by (auto simp: in_stage_def rooted_path_inject stage_ok_def plain_path_def)
    ultimately show ?thesis using fs0 empty by simp
  qed
  have changed: "\<exists>m. plain_path m \<and> m \<in> set written \<and> q = in_stage ss ''root'' m" if "fs1 q \<noteq> fs0 q" for q
    using Extract_written(1) [OF x that] good_names_mem [OF good] update_paths(2) [OF assms(1)] by auto
  have "fs1 (in_stage ss ''backup'' n) = None" if "plain_path n" for n
    using changed [of "in_stage ss ''backup'' n"] fresh [OF plain_dirs(2) that]
      in_stage_inject [OF assms(1) plain_dirs(2,1) that]
    by (cases "fs1 (in_stage ss ''backup'' n)") auto
  then have "saved_plain ss fs1" by (simp add: saved_plain_def)
  moreover have "fs1 (in_stage ss ''root'' client_name) \<noteq> None"
    using smoke update_paths(2) [OF assms(1) client_facts(2)]
    by (auto simp: smokeTest_def file_exists_def split: if_splits)
  then have "client_name \<in> set written"
    using changed [of "in_stage ss ''root'' client_name"] fresh [OF plain_dirs(1) client_facts(2)]
      in_stage_inject [OF assms(1) plain_dirs(1,1) client_facts(2)] by auto
  ultimately show ?thesis using good by blast
qed

lemma prepare_keeps_client:
  assumes "stage_ok ss" and "plain_part (as_Name a)" and "prepare w (rooted_path ss) a want fs = (Inr written, fs1)"
  shows "fs1 (in_place client_name) = fs (in_place client_name)"
proof -
  have "top_dir (in_place client_name) \<noteq> hd ss"
    using top_dir_place [OF client_facts(1)] assms(1) by (auto simp: stage_ok_def)
  then have apart: "in_place client_name \<noteq> rooted_path (ss @ xs)" if "list_all plain_part xs" for xs
    using top_dir_stage [OF assms(1) that] by metis
  have "in_place client_name \<noteq> path_join (rooted_path ss) (as_Name a)"
    unfolding join_stage_dir [OF assms(1,2)] using apart [of "[as_Name a]"] assms(2) by simp
  moreover have "\<not> bundle_place (ss @ [''root'']) (in_place client_name)"
    using apart plain_dirs(1) by (auto simp: bundle_place_def plain_path_def)
  moreover have "list_all plain_part (ss @ [''root''])"
    using assms(1) plain_dirs(1) by (simp add: stage_ok_def)
  ultimately show ?thesis
    using prepare_other [OF _ join_stage_dir [OF assms(1) plain_dirs(1)], of "in_place client_name" a w want fs] assms(3)
    by simp
qed

text \<open>C31: the rollback of a release that did not start never brings the old one back. The backup is
  written with mode 0644 and the restored file takes its execute bits from the backup, so the client
  put back cannot be run: the outcome "the previous version was put back and is running again" is
  reported by no update of a machine that had a client.\<close>

theorem rollback_never_runs:
  assumes "stage_ok ss" and "w_stage w = Some (rooted_path ss)" and "op_Root opts \<in> {[], ''/''}"
    and "w_latest w = Inr r" and "plain_part (BundleName (rl_Tag r) (op_GOOS opts) (op_GOARCH opts))"
    and "\<forall>p. \<not> dk_refuses (w_disk w) (Stat p)"
    and "\<forall>p. has_prefix (rooted_path ss) p \<longrightarrow> fs p = None" and "fs (in_place client_name) \<noteq> None"
  shows "fst (Apply w opts fs) \<noteq> Some (PutBack e)"
proof -
  from assms(4,2) show ?thesis
  proof (cases rule: Apply_staged [where opts = opts and fs = fs])
    case (refused e2)
    then show ?thesis by simp
  next
    case (staged a sa sums digest want)
    let ?stage = "rooted_path ss"
    have name: "plain_part (as_Name a)" using AssetFor_name [OF staged(1)] assms(5) by simp
    obtain out fs1 where p: "prepare w ?stage a want fs = (out, fs1)" by fastforce
    show ?thesis
    proof (cases out)
      case (Inl x)
      with prepare_error [of w ?stage a want fs x e] p staged(5) show ?thesis
        by (simp add: staged_def)
    next
      case (Inr written)
      obtain fs0 where "\<forall>q. q \<noteq> path_join ?stage (as_Name a) \<longrightarrow> fs0 q = fs q"
        and "Extract (w_disk w) (w_untar w) (fl_data (the (fs0 (path_join ?stage (as_Name a))))) (rooted_path (ss @ [''root''])) fs0 =
           (Inr written, fs1)"
        and "smokeTest w fs1 (path_join (rooted_path (ss @ [''root''])) client_name) = None"
        by (rule prepare_ok [OF p [unfolded Inr], unfolded join_stage_dir [OF assms(1) plain_dirs(1)]])
      note unpacked = unpacked_release [OF assms(1) name this(1) [unfolded join_stage_dir [OF assms(1) name]] assms(7) this(2,3)]
      have "fs1 (in_place client_name) \<noteq> None"
        using prepare_keeps_client [OF assms(1) name p [unfolded Inr]] assms(8) by simp
      from swap_in_never_back [OF assms(1) applyDefaults_root [OF assms(3)] unpacked [THEN conjunct1]
          unpacked [THEN conjunct2, THEN conjunct2] unpacked [THEN conjunct2, THEN conjunct1] this assms(6)]
      show ?thesis using staged(5) p Inr by (simp add: staged_def case_prod_unfold)
    qed
  qed
qed

end
