(* ===== verification/Upd_Failures.thy ===== *)
theory Upd_Failures
  imports Upd_Rollback
begin

unbundle bit_operations_syntax

text \<open>
  Two updates carried through by evaluation: one whose release does not start, on a machine where
  nothing else goes wrong, and one that runs out of room while it saves the old files.
\<close>

section \<open>Reading the checksum file\<close>

lemma graphic_no_space:
  assumes "graphic c" and "r \<in> set space_runes"
  shows "\<not> has_prefix r (c # cs)"
  using assms space_rune_ends [OF assms(2)] space_runes_nonempty [OF assms(2)]
  by (cases r) (auto simp: has_prefix_def)

lemma trim_left_graphic: "graphic c \<Longrightarrow> trim_left (c # cs) = c # cs"
  using graphic_no_space [of c] by (simp add: trim_left.simps [of "c # cs"] find_None_space)

lemma up_to_space_word:
  "list_all graphic w \<Longrightarrow> up_to_space (w @ CHR '' '' # cs) = w"
  "list_all graphic w \<Longrightarrow> up_to_space w = w"
  using graphic_no_space
  by (induction w) (auto simp: list_ex_iff space_runes_def has_prefix_def)

lemma trim_left_blank: "trim_left (CHR '' '' # cs) = trim_left cs"
  by (simp add: trim_left.simps [of "CHR '' '' # cs"] space_runes_def has_prefix_def)

lemma fields_blank: "split_fields (CHR '' '' # cs) = split_fields cs"
  by (simp add: split_fields.simps [of "CHR '' '' # cs"] split_fields.simps [of cs] trim_left_blank)

lemma fields_word:
  assumes "list_all graphic w" and "w \<noteq> []"
  shows "split_fields (w @ CHR '' '' # cs) = w # split_fields cs" and "split_fields w = [w]"
proof -
  from assms obtain c v where w: "w = c # v" "graphic c" by (cases w) auto
  then have trim: "trim_left (w @ cs) = w @ cs" for cs by (simp add: trim_left_graphic)
  show "split_fields (w @ CHR '' '' # cs) = w # split_fields cs"
    using assms by (subst split_fields.simps)
      (simp add: trim up_to_space_word(1) fields_blank [symmetric, of cs] del: fields_blank)
  show "split_fields w = [w]"
    using assms trim [of "[]"] by (subst split_fields.simps) (simp add: up_to_space_word(2) split_fields.simps [of "[]"] trim_left.simps [of "[]"]
      space_runes_def has_prefix_def)
qed

definition hex_char :: "char \<Rightarrow> bool" where
  "hex_char c \<longleftrightarrow> (\<exists>n < 16. c = hexDigit n)"

lemma hex_encode_chars: "list_all hex_char (hex_encode bs)"
proof (induction bs)
  case (Cons b bs)
  have "hex_char (hexDigit n)" if "n < 16" for n
    unfolding hex_char_def using that by blast
  with Cons byte_split show ?case by simp
qed simp

lemma hex_char_facts:
  assumes "hex_char c"
  shows "graphic c" and "lower_char c = c" and "is_ascii c" and "c \<noteq> CHR 0x0A"
proof -
  from assms obtain n where n: "n < 16" "c = hexDigit n" by (auto simp: hex_char_def)
  then have v: "byte_nat c = (if n < 10 then 48 + n else 87 + n)"
    by (simp add: hexDigit_def)
  from n(1) v show "graphic c" "lower_char c = c" "is_ascii c"
    by (auto simp: graphic_def lower_char_def is_ascii_def split: if_splits)
  have "byte_nat (CHR 0x0A) = 10" by (simp add: byte_nat_def)
  with v n(1) show "c \<noteq> CHR 0x0A" by (auto split: if_splits)
qed

text \<open>One line of \<^verbatim>\<open>sha256sum\<close>'s output lists the file under its digest.\<close>

lemma checksum_listed:
  assumes "list_all hex_char d" and "d \<noteq> []" and "list_all graphic name" and "name \<noteq> []" and "hd name \<noteq> CHR ''*''"
    and "length d + length name < 1000"
  shows "ParseChecksums u (d @ ''  '' @ name) = [(name, d)]"
proof -
  let ?l = "d @ ''  '' @ name"
  have graphic: "list_all graphic d" using assms(1) hex_char_facts(1) by (auto simp: list_all_iff)
  have "CHR 0x0A \<notin> set ?l"
    using assms(1,3) hex_char_facts(4) by (auto simp: list_all_iff graphic_def byte_nat_def)
  then have "split_on (CHR 0x0A) ?l = [?l]" by (rule split_on_single)
  moreover have "length ?l < maxToken" using assms(6) by (simp add: maxToken_def)
  moreover have "drop_cr ?l = ?l"
  proof -
    have "graphic (last name)" using assms(3,4) by (simp add: list_all_iff)
    then have "last ?l \<noteq> CHR 0x0D" using assms(4) by (auto simp: graphic_def byte_nat_def)
    then have "\<not> has_suffix [CHR 0x0D] ?l" by (metis has_suffix_iff last_snoc)
    then show ?thesis by (simp add: drop_cr_def trim_suffix_def)
  qed
  moreover have "take (1024 * 1024) ?l = ?l" using assms(6) by (intro take_all) simp
  moreover have "split_fields ?l = [d, name]"
    using fields_word(1) [OF graphic assms(2), of "CHR '' '' # name"] fields_word(2) [OF assms(3,4)]
    by (simp add: fields_blank)
  moreover have "map lower_char d = d" "list_all is_ascii d"
    using assms(1) hex_char_facts(2,3) by (auto simp: list_all_iff intro: map_idI)
  moreover have "trim_prefix ''*'' name = name"
    using assms(4,5) by (cases name) (simp_all add: trim_prefix_def has_prefix_def)
  ultimately show ?thesis
    by (simp add: ParseChecksums_def scan_lines_def checksum_line_def to_lower_def Let_def del: append_Cons append.simps)
qed

section \<open>A release that does not start\<close>

lemma calm_attempt: "attempt calm_disk c = None"
  by (simp add: attempt_def calm_disk_def)

lemma calm_dir: "MkdirAllMode calm_disk p = None"
  by (simp add: MkdirAllMode_def make_dir_def calm_attempt)

lemma calm_store:
  "store_file calm_disk p m bs False fs =
     (None, fs(p \<mapsto> \<lparr>fl_data = bs, fl_mode = (case fs p of Some f \<Rightarrow> fl_mode f | None \<Rightarrow> m AND NOT 0x3F)\<rparr>))"
  by (auto simp: store_file_def open_write_def append_data_def calm_attempt Let_def split: option.split)
    (auto simp: calm_disk_def)

lemma calm_copy:
  "fs src = Some f \<Longrightarrow> copyFile calm_disk src dst fs =
     (None, fs(dst \<mapsto> \<lparr>fl_data = fl_data f, fl_mode = (case fs dst of Some g \<Rightarrow> fl_mode g | None \<Rightarrow> FileMode AND NOT 0x3F)\<rparr>))"
  by (simp add: copyFile_def calm_attempt calm_dir calm_store)

lemma calm_replace:
  assumes "fs src = Some f"
  shows "replace_file calm_disk src dst fs =
    (None, (fs(dst \<mapsto> \<lparr>fl_data = fl_data f, fl_mode = (if executable f then ExecMode else FileMode)\<rparr>))(dst @ new_suffix := None))"
  using assms new_suffix_differ(1) [of dst]
  by (auto simp: replace_file_def file_exists_def calm_attempt calm_copy Let_def chmod_file_def rename_file_def fun_eq_iff)

lemma calm_back_up:
  "fs target = Some f \<Longrightarrow> fs saved = None \<Longrightarrow> back_up calm_disk target saved fs =
     (None, fs(saved \<mapsto> \<lparr>fl_data = fl_data f, fl_mode = FileMode AND NOT 0x3F\<rparr>))"
  by (simp add: back_up_def file_exists_def calm_attempt calm_dir calm_copy)

definition demo_asset :: asset where
  "demo_asset = \<lparr>as_Name = ''openfrp-2.0.0-linux-arm64.tar.gz'', as_URL = ''bundle'', as_Size = 6\<rparr>"

definition demo_release :: release where
  "demo_release = zero_release\<lparr>rl_Tag := ''v2.0.0'',
     rl_Assets := [demo_asset, \<lparr>as_Name = ''checksums.txt'', as_URL = ''sums'', as_Size = 0\<rparr>]\<rparr>"

definition demo_answer :: "string \<Rightarrow> string + download" where
  "demo_answer url = Inr \<lparr>dl_StatusCode = 200, dl_Status = ''200 OK'',
     dl_Body = (if url = ''bundle'' then ''bundle'' else hex_encode (sha256 ''bundle'') @ ''  '' @ as_Name demo_asset),
     dl_Broken = False\<rparr>"

text \<open>The new client answers the smoke test, but fails once it is installed.\<close>

definition demo_world :: world where
  "demo_world = \<lparr>w_disk = calm_disk, w_latest = Inr demo_release, w_fetch = demo_answer, w_lower = id,
     w_untar = (\<lambda>_. Inr ([demo_entry ''usr/bin/openfrpc''], None)), w_stage = Some (rooted_path [''s'']),
     w_run = (\<lambda>n prog args. if n = 1 \<and> prog = ''new'' then Some ''bad config'' else None)\<rparr>"

definition demo_options :: options where
  "demo_options = \<lparr>op_Root = [], op_ServiceCommand = [], op_GOOS = ''linux'', op_GOARCH = ''arm64''\<rparr>"

definition demo_files :: files where
  "demo_files = [''/etc/init.d/openfrp'' \<mapsto> \<lparr>fl_data = ''init'', fl_mode = ExecMode\<rparr>,
     ''/usr/bin/openfrpc'' \<mapsto> \<lparr>fl_data = ''old'', fl_mode = ExecMode\<rparr>]"

lemma demo_asset_for: "AssetFor demo_release ''linux'' ''arm64'' = Some demo_asset"
  "Checksums demo_release = Some \<lparr>as_Name = ''checksums.txt'', as_URL = ''sums'', as_Size = 0\<rparr>"
  by code_simp+

lemma demo_sums:
  "ParseChecksums id (hex_encode (sha256 ''bundle'') @ ''  '' @ as_Name demo_asset) =
     [(as_Name demo_asset, hex_encode (sha256 ''bundle''))]"
proof (rule checksum_listed)
  show "hex_encode (sha256 ''bundle'') \<noteq> []"
    using hex_encode_length [of "sha256 ''bundle''"] by (auto simp: length_sha256 simp del: hex_encode_length)
  show "list_all graphic (as_Name demo_asset)" by code_simp
qed (simp_all add: hex_encode_chars demo_asset_def length_sha256)

lemma demo_fetch:
  "fetchTo demo_world ''sums'' = Inr (hex_encode (sha256 ''bundle'') @ ''  '' @ as_Name demo_asset,
     hex_encode (sha256 (hex_encode (sha256 ''bundle'') @ ''  '' @ as_Name demo_asset)))"
  "fetchTo demo_world ''bundle'' = Inr (''bundle'', hex_encode (sha256 ''bundle''))"
  by (simp_all add: fetchTo_def demo_world_def demo_answer_def maxBundleSize_def length_sha256 demo_asset_def Let_def)

lemma demo_paths:
  "rooted_path [''s''] = ''/s''" "path_join ''/s'' (as_Name demo_asset) = ''/s/openfrp-2.0.0-linux-arm64.tar.gz''"
  "path_join ''/s'' ''root'' = ''/s/root''" "path_join ''/s'' ''backup'' = ''/s/backup''"
  "path_join ''/s/root'' client_name = ''/s/root/usr/bin/openfrpc''"
  "path_join ''/s/backup'' client_name = ''/s/backup/usr/bin/openfrpc''"
  "path_join ''/'' client_name = ''/usr/bin/openfrpc''" "cleanEntry ''usr/bin/openfrpc'' = Inr client_name"
  by code_simp+

lemma demo_modes:
  "ExecMode AND exec_bits \<noteq> 0" "(FileMode AND NOT 0x3F) AND exec_bits = 0" "FileMode AND exec_bits = 0"
    "(FileMode AND - 64) AND exec_bits = 0"
  by (rule plain_mode)+

definition demo_staged :: files where
  "demo_staged = demo_files(''/s/openfrp-2.0.0-linux-arm64.tar.gz'' \<mapsto> \<lparr>fl_data = ''bundle'', fl_mode = 0x1B6 AND NOT 0x3F\<rparr>,
     ''/s/root/usr/bin/openfrpc'' \<mapsto> \<lparr>fl_data = ''new'', fl_mode = ExecMode\<rparr>)"

lemma demo_extract:
  "Extract calm_disk (\<lambda>_. Inr ([demo_entry ''usr/bin/openfrpc''], None)) raw ''/s/root'' fs =
     (Inr [client_name], fs(''/s/root/usr/bin/openfrpc'' \<mapsto> \<lparr>fl_data = ''new'', fl_mode = ExecMode\<rparr>))"
  using write_entry_calm [OF demo_entry_simps(4,5)]
  by (simp add: Extract_def demo_entry_simps demo_paths client_facts(1))
    (simp add: demo_entry_def entry_mode_def exec_bits_def)

lemma demo_prepare:
  "prepare demo_world ''/s'' demo_asset (hex_encode (sha256 ''bundle'')) demo_files = (Inr [client_name], demo_staged)"
proof -
  have url: "as_URL demo_asset = ''bundle''" by (simp add: demo_asset_def)
  have w: "w_disk demo_world = calm_disk" "w_untar demo_world = (\<lambda>_. Inr ([demo_entry ''usr/bin/openfrpc''], None))"
    by (simp_all add: demo_world_def)
  have fresh: "demo_files ''/s/openfrp-2.0.0-linux-arm64.tar.gz'' = None" by (simp add: demo_files_def)
  have smoke: "smokeTest demo_world demo_staged ''/s/root/usr/bin/openfrpc'' = None"
    by (simp add: smokeTest_def demo_staged_def file_exists_def w calm_attempt executable_def demo_modes exec_file_def)
      (simp add: demo_world_def)
  show ?thesis
    unfolding prepare_def Let_def url demo_paths w calm_attempt option.case demo_fetch sum.case prod.case calm_store
      demo_extract
    using smoke by (simp add: fresh demo_staged_def)
qed

lemma demo_run: "w_run demo_world n prog args = (if n = 1 \<and> prog = ''new'' then Some ''bad config'' else None)"
  by (simp add: demo_world_def)

lemma demo_install: "\<exists>fs. install calm_disk ''/'' ''/s/root'' ''/s/backup'' [client_name] demo_staged = (None, fs)"
proof -
  have "demo_staged ''/usr/bin/openfrpc'' = Some \<lparr>fl_data = ''old'', fl_mode = ExecMode\<rparr>"
    "demo_staged ''/s/backup/usr/bin/openfrpc'' = None"
    "demo_staged ''/s/root/usr/bin/openfrpc'' = Some \<lparr>fl_data = ''new'', fl_mode = ExecMode\<rparr>"
    by (simp_all add: demo_staged_def demo_files_def)
  then show ?thesis by (simp add: Let_def demo_paths calm_back_up calm_replace calm_dir)
qed

lemma demo_swap: "\<exists>fs. swap_in demo_world (applyDefaults demo_options) ''/s'' [client_name] demo_staged =
    (Some (NeitherStarts (ClientDoesNotRun ''permission denied'')), fs) \<and>
    fs ''/usr/bin/openfrpc'' = Some \<lparr>fl_data = ''old'', fl_mode = FileMode\<rparr>"
proof -
  let ?c = "''/usr/bin/openfrpc''" and ?f = "''/s/root/usr/bin/openfrpc''" and ?b = "''/s/backup/usr/bin/openfrpc''"
  define fs1 where "fs1 = demo_staged(?b \<mapsto> \<lparr>fl_data = ''old'', fl_mode = FileMode AND NOT 0x3F\<rparr>)"
  define fs2 where "fs2 = (fs1(?c \<mapsto> \<lparr>fl_data = ''new'', fl_mode = ExecMode\<rparr>))(?c @ new_suffix := None)"
  define fs3 where "fs3 = (fs2(?c \<mapsto> \<lparr>fl_data = ''old'', fl_mode = FileMode\<rparr>))(?c @ new_suffix := None)"
  have w: "w_disk demo_world = calm_disk" by (simp add: demo_world_def)
  have opts: "op_Root (applyDefaults demo_options) = ''/''"
    "op_ServiceCommand (applyDefaults demo_options) = [''/etc/init.d/openfrp'', ''restart'']"
    by (simp_all add: applyDefaults_def demo_options_def)
  have 1: "back_up calm_disk ?c ?b demo_staged = (None, fs1)"
    using calm_back_up [of demo_staged ?c "\<lparr>fl_data = ''old'', fl_mode = ExecMode\<rparr>" ?b]
    by (simp add: fs1_def demo_staged_def demo_files_def)
  have 2: "replace_file calm_disk ?f ?c fs1 = (None, fs2)"
    using calm_replace [of fs1 ?f "\<lparr>fl_data = ''new'', fl_mode = ExecMode\<rparr>" ?c]
    by (simp add: fs2_def fs1_def demo_staged_def executable_def demo_modes)
  have inst: "install calm_disk ''/'' ''/s/root'' ''/s/backup'' [client_name] demo_staged = (None, fs2)"
    by (simp add: Let_def demo_paths 1 2 calm_dir)
  have "fs2 ?b = Some \<lparr>fl_data = ''old'', fl_mode = FileMode AND NOT 0x3F\<rparr>"
    by (simp add: fs2_def fs1_def new_suffix_def)
  then have rest: "restore calm_disk ''/'' ''/s/backup'' [client_name] None fs2 = (None, fs3)"
    using calm_replace [of fs2 ?b _ ?c]
    by (simp add: Let_def demo_paths file_exists_def calm_attempt fs3_def executable_def demo_modes)
  have r1: "restart demo_world 1 (applyDefaults demo_options) fs2 = Some (ClientDoesNotRun ''bad config'')"
    by (simp add: restart_def opts exec_file_def demo_paths fs2_def fs1_def demo_staged_def demo_files_def new_suffix_def
        executable_def demo_modes demo_run)
  have r2: "restart demo_world 2 (applyDefaults demo_options) fs3 = Some (ClientDoesNotRun ''permission denied'')"
    by (simp add: restart_def opts exec_file_def demo_paths fs3_def fs2_def fs1_def demo_staged_def demo_files_def
        new_suffix_def executable_def demo_modes demo_run)
  have "swap_in demo_world (applyDefaults demo_options) ''/s'' [client_name] demo_staged =
      (Some (NeitherStarts (ClientDoesNotRun ''permission denied'')), fs3)"
    unfolding swap_in_def Let_def w opts demo_paths inst rest r1 r2 option.case prod.case by (rule refl)
  then show ?thesis by (simp add: fs3_def new_suffix_def)
qed

theorem install_complete_witness:
  "\<exists>fs f. snd (install calm_disk ''/'' (rooted_path ([''s''] @ [''root''])) (rooted_path ([''s''] @ [''backup''])) [client_name] demo_staged) = fs \<and>
     demo_staged (in_stage [''s''] ''root'' client_name) = Some f \<and>
     fs (in_place client_name) = Some \<lparr>fl_data = fl_data f, fl_mode = (if executable f then ExecMode else FileMode)\<rparr>"
proof -
  have ok: "stage_ok [''s'']" "no_temporary [client_name]" by code_simp+
  obtain fs where fs: "install calm_disk ''/'' (rooted_path ([''s''] @ [''root''])) (rooted_path ([''s''] @ [''backup''])) [client_name] demo_staged = (None, fs)"
    using demo_install by (auto simp: rooted_path_def)
  from install_complete [OF ok(1) _ _ ok(2) fs, of client_name] client_facts(1,2) fs show ?thesis by auto
qed

text \<open>The machine is left with the old client's bytes and without its execute bit.\<close>

lemma demo_apply:
  "\<exists>fs. Apply demo_world demo_options demo_files = (Some (NeitherStarts (ClientDoesNotRun ''permission denied'')), fs) \<and>
     fs ''/usr/bin/openfrpc'' = Some \<lparr>fl_data = ''old'', fl_mode = FileMode\<rparr>"
proof -
  have opts: "op_GOOS demo_options = ''linux''" "op_GOARCH demo_options = ''arm64''" by (simp_all add: demo_options_def)
  have w: "w_latest demo_world = Inr demo_release" "w_stage demo_world = Some ''/s''" "w_lower demo_world = id"
    by (simp_all add: demo_world_def demo_paths)
  have urls: "as_URL demo_asset = ''bundle''" by (simp add: demo_asset_def)
  obtain fs where fs: "swap_in demo_world (applyDefaults demo_options) ''/s'' [client_name] demo_staged =
      (Some (NeitherStarts (ClientDoesNotRun ''permission denied'')), fs)"
    "fs ''/usr/bin/openfrpc'' = Some \<lparr>fl_data = ''old'', fl_mode = FileMode\<rparr>"
    using demo_swap by blast
  have "Apply demo_world demo_options demo_files =
      (Some (NeitherStarts (ClientDoesNotRun ''permission denied'')), remove_all ''/s'' fs)"
    using fs(1)
    by (simp add: Apply_def Let_def w opts demo_asset_for demo_fetch demo_sums [simplified append_Cons append_Nil]
        staged_def demo_prepare)
  moreover have "remove_all ''/s'' fs ''/usr/bin/openfrpc'' = fs ''/usr/bin/openfrpc''"
    by (simp add: remove_all_def has_prefix_def)
  ultimately show ?thesis using fs(2) by simp
qed

theorem rollback_never_runs_witness:
  "fst (Apply demo_world demo_options demo_files) \<noteq> Some (PutBack (ClientDoesNotRun ''bad config'')) \<and>
   fst (Apply demo_world demo_options demo_files) = Some (NeitherStarts (ClientDoesNotRun ''permission denied''))"
proof -
  have "fst (Apply demo_world demo_options demo_files) \<noteq> Some (PutBack (ClientDoesNotRun ''bad config''))"
  proof (rule rollback_never_runs [where ss = "[''s'']" and r = demo_release])
    show "stage_ok [''s'']" by code_simp
    show "plain_part (BundleName (rl_Tag demo_release) (op_GOOS demo_options) (op_GOARCH demo_options))" by code_simp
    show "\<forall>p. has_prefix (rooted_path [''s'']) p \<longrightarrow> demo_files p = None"
      by (auto simp: demo_files_def demo_paths has_prefix_def)
    show "demo_files (in_place client_name) \<noteq> None" by (simp add: demo_files_def in_place_def client_name_def)
  qed (simp_all add: demo_world_def demo_options_def calm_disk_def)
  with demo_apply show ?thesis by auto
qed


section \<open>A backup that breaks off\<close>

text \<open>A disk on which nothing is refused, but only \<open>k\<close> bytes of the file \<open>p\<close> can be written.\<close>

definition tight_disk :: "u32 \<Rightarrow> string \<Rightarrow> nat \<Rightarrow> disk" where
  "tight_disk u p k = \<lparr>dk_umask = u, dk_refuses = (\<lambda>_. False), dk_room = [p \<mapsto> k]\<rparr>"

lemma tight_attempt: "attempt (tight_disk u p k) c = None"
  by (simp add: attempt_def tight_disk_def)

lemma tight_dir: "MkdirAllMode (tight_disk u p k) q = None"
  by (simp add: MkdirAllMode_def make_dir_def tight_attempt)

lemma tight_store:
  "q \<noteq> p \<Longrightarrow> fst (store_file (tight_disk u p k) q m bs False fs) = None"
  "k < length bs \<Longrightarrow> fs p = None \<Longrightarrow> store_file (tight_disk u p k) p m bs False fs =
     (Some (WriteTo p), fs(p \<mapsto> \<lparr>fl_data = take k bs, fl_mode = m AND NOT u\<rparr>))"
  unfolding store_file_def tight_attempt open_write_def append_data_def Let_def
  by (simp_all add: tight_disk_def)

lemma tight_back_up:
  assumes "fs t = Some f" and "fs p = None" and "k < length (fl_data f)"
  shows "back_up (tight_disk u p k) t p fs =
    (Some (BackUp t (WriteTo p)), fs(p \<mapsto> \<lparr>fl_data = take k (fl_data f), fl_mode = FileMode AND NOT u\<rparr>))"
  using assms by (simp add: back_up_def copyFile_def file_exists_def tight_attempt tight_dir tight_store(2))

lemma tight_replace:
  assumes "fs src = Some f" and "dst @ new_suffix \<noteq> p"
  shows "fst (replace_file (tight_disk u p k) src dst fs) = None"
proof -
  obtain r fs1 where c: "copyFile (tight_disk u p k) src (dst @ new_suffix) fs = (r, fs1)" by fastforce
  have "r = None"
    using c assms tight_store(1) [OF assms(2), of u k FileMode "fl_data f" fs]
    by (simp add: copyFile_def tight_attempt tight_dir)
  with c copyFile_ok [of "tight_disk u p k" src "dst @ new_suffix" fs fs1] assms(1) show ?thesis
    by (auto simp: replace_file_def file_exists_def Let_def chmod_file_def rename_file_def tight_attempt)
qed

lemma restore_nothing:
  "\<forall>m \<in> set names. fs (path_join backup m) = None \<Longrightarrow> restore d root backup names failed fs = (failed, fs)"
  by (induction names) (auto simp: Let_def file_exists_def)

text \<open>A backup that runs out of room costs the file it was to save. When the staging directory is
  full after \<open>k\<close> bytes of the first backup, the install stops and the rollback copies the truncated
  backup over the intact file: the update reports that the previous version was put back, and the
  installed file holds its first \<open>k\<close> bytes, without its execute bits.\<close>

theorem rollback_truncates:
  assumes "stage_ok ss" and "op_Root opts = ''/''" and "good_names (n # ns)" and "n \<notin> set ns"
    and "w_disk w = tight_disk u (in_stage ss ''backup'' n) k"
    and "\<forall>m \<in> set (n # ns). fs (in_stage ss ''backup'' m) = None"
    and "fs (in_place n) = Some f" and "k < length (fl_data f)"
  shows "\<exists>fs'. swap_in w opts (rooted_path ss) (n # ns) fs =
      (Some (InstallFailed (BackUp (in_place n) (WriteTo (in_stage ss ''backup'' n)))), fs') \<and>
    fs' (in_place n) = Some \<lparr>fl_data = take k (fl_data f), fl_mode = FileMode\<rparr>"
proof -
  let ?d = "tight_disk u (in_stage ss ''backup'' n) k" and ?saved = "in_stage ss ''backup'' n"
  let ?backup = "rooted_path (ss @ [''backup''])"
  have n: "permitted n" "plain_path n" "good_names ns" using assms(3) by simp_all
  note paths = update_paths(1) [OF n(2)] update_paths(3) [OF assms(1) n(2)]
  note dirs = join_stage_dir [OF assms(1) plain_dirs(1)] join_stage_dir [OF assms(1) plain_dirs(2)]
  define fs1 where "fs1 = fs(?saved \<mapsto> \<lparr>fl_data = take k (fl_data f), fl_mode = FileMode AND NOT u\<rparr>)"
  have "back_up ?d (in_place n) ?saved fs = (Some (BackUp (in_place n) (WriteTo ?saved)), fs1)"
    unfolding fs1_def by (rule tight_back_up) (use assms(6-8) in simp_all)
  then have inst: "install ?d ''/'' (rooted_path (ss @ [''root''])) ?backup (n # ns) fs =
      (Some (BackUp (in_place n) (WriteTo ?saved)), fs1)"
    by (simp add: Let_def paths)
  have saved: "fs1 ?saved = Some \<lparr>fl_data = take k (fl_data f), fl_mode = FileMode AND NOT u\<rparr>"
    by (simp add: fs1_def)
  have tmp: "in_place n @ new_suffix \<noteq> ?saved"
    using in_stage_differ(2) [OF assms(1) plain_dirs(2) n(2,1)] by metis
  obtain fs2 where r: "replace_file ?d ?saved (in_place n) fs1 = (None, fs2)"
    using tight_replace [of fs1 ?saved _ "in_place n" ?saved u k] saved tmp by (metis prod.collapse)
  have others: "fs2 (path_join ?backup m) = None" if "m \<in> set ns" for m
  proof -
    have m: "plain_path m" "m \<noteq> n" using good_names_mem [OF n(3) that] that assms(4) by auto
    have "fs1 (in_stage ss ''backup'' m) = None"
      using assms(6) that m in_stage_inject [OF assms(1) plain_dirs(2,2) m(1) n(2)] by (simp add: fs1_def)
    then show ?thesis
      using replace_other [OF in_stage_differ [OF assms(1) plain_dirs(2) m(1) n(1)], of ?d ?saved fs1] r
        update_paths(3) [OF assms(1) m(1)] by simp
  qed
  have rest: "restore ?d ''/'' ?backup (n # ns) None fs1 = (None, fs2)"
    using restore_nothing [of ns fs2 ?backup ?d "''/''" None] others saved r
    by (simp add: Let_def paths file_exists_def tight_attempt)
  have "fs2 (in_place n) = Some \<lparr>fl_data = take k (fl_data f), fl_mode = FileMode\<rparr>"
    using replace_ok [OF r] saved plain_mode(1) new_suffix_differ(1) [of "in_place n"] by (auto simp: executable_def)
  moreover have "swap_in w opts (rooted_path ss) (n # ns) fs =
      (Some (InstallFailed (BackUp (in_place n) (WriteTo ?saved))), fs2)"
    unfolding swap_in_def Let_def assms(2,5) dirs inst rest option.case prod.case by (rule refl)
  ultimately show ?thesis by blast
qed

definition tight_world :: world where
  "tight_world = demo_world\<lparr>w_disk := tight_disk 0x3F (in_stage [''s''] ''backup'' client_name) 1\<rparr>"

theorem rollback_truncates_witness:
  "\<exists>fs'. swap_in tight_world (applyDefaults demo_options) (rooted_path [''s'']) [client_name] demo_staged =
      (Some (InstallFailed (BackUp (in_place client_name) (WriteTo (in_stage [''s''] ''backup'' client_name)))), fs') \<and>
    fs' (in_place client_name) = Some \<lparr>fl_data = ''o'', fl_mode = FileMode\<rparr>"
proof -
  have f: "demo_staged (in_place client_name) = Some \<lparr>fl_data = ''old'', fl_mode = ExecMode\<rparr>"
    by (simp add: demo_staged_def demo_files_def in_place_def client_name_def)
  have s: "in_stage [''s''] ''backup'' client_name = ''/s/backup/usr/bin/openfrpc''" "stage_ok [''s'']" by code_simp+
  have "demo_staged (in_stage [''s''] ''backup'' client_name) = None"
    unfolding s by (simp add: demo_staged_def demo_files_def)
  with rollback_truncates [OF s(2), of "applyDefaults demo_options" client_name "[]" tight_world "0x3F" 1 demo_staged
      "\<lparr>fl_data = ''old'', fl_mode = ExecMode\<rparr>"] f client_facts(1,2) show ?thesis
    by (simp add: tight_world_def applyDefaults_root demo_options_def)
qed

end
