(* ===== verification/Crt_Names.thy ===== *)
theory Crt_Names
  imports Go_Strings
begin

text \<open>
  The names a certificate covers and the kinds of keys (\<^verbatim>\<open>internal/cert/certificate.go\<close>,
  \<^verbatim>\<open>keytype.go\<close>). A certificate's own names are what \<^verbatim>\<open>crypto/x509\<close> reads of its first block;
  they are an argument, \<^term>\<open>None\<close> when it cannot be read.
\<close>

section \<open>Names\<close>

definition matchesName :: "string \<Rightarrow> string \<Rightarrow> bool" where
  "matchesName pat host =
     (if pat = host then True
      else if \<not> has_prefix ''*.'' pat then False
      else let suffix = drop 1 pat in
        if \<not> has_suffix suffix host then False
        else let prefix = take (length host - length suffix) host
          in prefix \<noteq> [] \<and> \<not> contains prefix ''.'')"

fun any_name :: "(string \<Rightarrow> string) \<Rightarrow> string list \<Rightarrow> string \<Rightarrow> bool" where
  "any_name u [] host = False"
| "any_name u (name # names) host = (if matchesName (to_lower u name) host then True else any_name u names host)"

definition Covers :: "(string \<Rightarrow> string) \<Rightarrow> string list option \<Rightarrow> string \<Rightarrow> bool" where
  "Covers u leaf_names host0 =
     (case leaf_names of
        None \<Rightarrow> False
      | Some names \<Rightarrow> any_name u names (to_lower u (trim_suffix ''.'' host0)))"

fun normalise_loop :: "(string \<Rightarrow> string) \<Rightarrow> string list \<Rightarrow> string list \<Rightarrow> string list" where
  "normalise_loop u out [] = out"
| "normalise_loop u out (d # ds) =
     (let domain = to_lower u (trim_suffix ''.'' (trim_space d)) in
      if domain = [] then normalise_loop u out ds
      else if domain \<in> set out then normalise_loop u out ds
      else normalise_loop u (out @ [domain]) ds)"

definition NormaliseDomains :: "(string \<Rightarrow> string) \<Rightarrow> string list \<Rightarrow> string list" where
  "NormaliseDomains u ds = sort (normalise_loop u [] ds)"

fun NeedsDNSChallenge :: "string list \<Rightarrow> bool" where
  "NeedsDNSChallenge [] = False"
| "NeedsDNSChallenge (d # ds) = (if has_prefix ''*.'' d then True else NeedsDNSChallenge ds)"

section \<open>Keys\<close>

definition KeyRSA2048 :: string where "KeyRSA2048 = ''rsa2048''"
definition KeyRSA3072 :: string where "KeyRSA3072 = ''rsa3072''"
definition KeyRSA4096 :: string where "KeyRSA4096 = ''rsa4096''"
definition KeyECDSA256 :: string where "KeyECDSA256 = ''ec256''"
definition KeyECDSA384 :: string where "KeyECDSA384 = ''ec384''"

definition KeyType_Valid :: "string \<Rightarrow> bool" where
  "KeyType_Valid k \<longleftrightarrow> k = KeyRSA2048 \<or> k = KeyRSA3072 \<or> k = KeyRSA4096 \<or> k = KeyECDSA256 \<or> k = KeyECDSA384"

definition KeyType_Label :: "string \<Rightarrow> string" where
  "KeyType_Label k =
     (if k = KeyRSA2048 then ''RSA 2048'' else if k = KeyRSA3072 then ''RSA 3072''
      else if k = KeyRSA4096 then ''RSA 4096'' else if k = KeyECDSA256 then ''ECDSA P-256''
      else if k = KeyECDSA384 then ''ECDSA P-384'' else k)"

definition KeyTypes :: "string list" where
  "KeyTypes = [KeyECDSA256, KeyECDSA384, KeyRSA2048, KeyRSA3072, KeyRSA4096]"

text \<open>What is generated: an RSA key of so many bits or a curve; the empty type is the default.\<close>

datatype key_spec = RSA nat | ECDSA nat

definition generated_key :: "string \<Rightarrow> key_spec option" where
  "generated_key k =
     (if k = KeyRSA2048 then Some (RSA 2048) else if k = KeyRSA3072 then Some (RSA 3072)
      else if k = KeyRSA4096 then Some (RSA 4096) else if k = KeyECDSA256 \<or> k = [] then Some (ECDSA 256)
      else if k = KeyECDSA384 then Some (ECDSA 384) else None)"

lemma key_types_valid: "KeyType_Valid k \<longleftrightarrow> k \<in> set KeyTypes"
  by (auto simp: KeyType_Valid_def KeyTypes_def)

lemma key_types_generated: "generated_key k \<noteq> None \<longleftrightarrow> k = [] \<or> KeyType_Valid k"
  by (auto simp: generated_key_def KeyType_Valid_def)

section \<open>One label, and only one\<close>

text \<open>The meaning of a wildcard, on labels.\<close>

definition name_covers :: "string \<Rightarrow> string \<Rightarrow> bool" where
  "name_covers pat host \<longleftrightarrow>
     pat = host \<or>
     (\<exists>l rest. split_on (CHR ''.'') pat = ''*'' # rest \<and> rest \<noteq> [] \<and> l \<noteq> [] \<and>
        split_on (CHR ''.'') host = l # rest)"

lemma split_on_cons_iff:
  "split_on b s = l # rest \<and> rest \<noteq> [] \<longleftrightarrow> (\<exists>t. s = l @ b # t \<and> b \<notin> set l \<and> split_on b t = rest)"
proof
  assume a: "split_on b s = l # rest \<and> rest \<noteq> []"
  then have "s = join_with b (l # rest)" by (metis join_split)
  with a have s: "s = l @ b # join_with b rest" by (simp add: join_with_Cons)
  have "b \<notin> set l" using split_on_parts [of l b s] a by simp
  moreover from this s a have "split_on b (join_with b rest) = rest" by (simp add: split_on_append)
  ultimately show "\<exists>t. s = l @ b # t \<and> b \<notin> set l \<and> split_on b t = rest" using s by blast
next
  assume "\<exists>t. s = l @ b # t \<and> b \<notin> set l \<and> split_on b t = rest"
  then show "split_on b s = l # rest \<and> rest \<noteq> []" by (auto simp: split_on_append)
qed

lemma name_covers_split:
  "name_covers pat host \<longleftrightarrow> pat = host \<or>
     (\<exists>l t. pat = ''*.'' @ t \<and> host = l @ ''.'' @ t \<and> l \<noteq> [] \<and> CHR ''.'' \<notin> set l)"
proof -
  have "(split_on (CHR ''.'') pat = ''*'' # rest \<and> rest \<noteq> [] \<and> l \<noteq> [] \<and> split_on (CHR ''.'') host = l # rest) \<longleftrightarrow>
      (\<exists>t. pat = ''*.'' @ t \<and> host = l @ ''.'' @ t \<and> l \<noteq> [] \<and> CHR ''.'' \<notin> set l \<and> split_on (CHR ''.'') t = rest)"
    for l rest
    using split_on_cons_iff [of "CHR ''.''" pat "''*''" rest] split_on_cons_iff [of "CHR ''.''" host l rest]
    by auto
  then show ?thesis unfolding name_covers_def by metis
qed

text \<open>A wildcard covers exactly one label. \<^verbatim>\<open>matchesName\<close>, which compares suffixes, accepts a host
  exactly when it equals the pattern or the pattern is a star followed by the labels that follow the
  host's first, non-empty label.\<close>

theorem matches_name_exact: "matchesName pat host = name_covers pat host"
proof (cases "has_prefix ''*.'' pat")
  case True
  then obtain t where pat: "pat = ''*.'' @ t" by (auto simp: has_prefix_iff)
  show ?thesis
  proof (cases "has_suffix (''.'' @ t) host")
    case True
    then obtain p where "host = p @ ''.'' @ t" by (auto simp: has_suffix_iff)
    then show ?thesis
      by (auto simp: name_covers_split matchesName_def pat has_prefix_iff has_suffix_iff contains_single)
  next
    case False
    then show ?thesis
      by (auto simp: name_covers_split matchesName_def pat has_prefix_iff has_suffix_iff)
  qed
next
  case False
  then show ?thesis by (auto simp: name_covers_split matchesName_def has_prefix_iff)
qed

lemma any_name_iff: "any_name u names host \<longleftrightarrow> (\<exists>n \<in> set names. matchesName (to_lower u n) host)"
  by (induction names) auto

section \<open>Normalised lists of names\<close>

definition normal_domain :: "(string \<Rightarrow> string) \<Rightarrow> string \<Rightarrow> string" where
  "normal_domain u d = to_lower u (trim_suffix ''.'' (trim_space d))"

lemma normalise_loop_facts:
  "distinct out \<Longrightarrow> distinct (normalise_loop u out ds) \<and>
   set (normalise_loop u out ds) = set out \<union> (normal_domain u ` set ds - {[]})"
  by (induction u out ds rule: normalise_loop.induct) (auto simp: Let_def normal_domain_def)

text \<open>A list of names has one normal form. \<^verbatim>\<open>NormaliseDomains\<close> answers the sorted list, without
  repetitions, of the non-empty normalised names, so any two lists with the same names up to case,
  spaces, trailing dots, order and repetition become equal.\<close>

theorem normalise_domains_exact:
  "NormaliseDomains u ds = sorted_list_of_set (normal_domain u ` set ds - {[]})"
proof -
  have "distinct (normalise_loop u [] ds)" "set (normalise_loop u [] ds) = normal_domain u ` set ds - {[]}"
    using normalise_loop_facts [of "[]" u ds] by simp_all
  then show ?thesis unfolding NormaliseDomains_def by (metis sorted_list_of_set_sort_remdups distinct_remdups_id)
qed

end
