(* ===== verification/Crt_Issue.thy ===== *)
theory Crt_Issue
  imports Crt_Names Go_Time
begin

text \<open>
  Issuing a certificate: \<^verbatim>\<open>internal/cert/issuer.go\<close> and what \<^verbatim>\<open>certificate.go\<close> reads of the result. The
  ACME library, the clock it waits by and the random source act on a state \<open>'s\<close>; keys, registrations
  and the two kinds of solvers are the types \<open>'k\<close>, \<open>'r\<close>, \<open>'v\<close> and \<open>'h\<close>. Nothing is assumed of them.
\<close>

section \<open>Certificates\<close>

record x509_leaf =
  xl_NotBefore :: go_time
  xl_NotAfter :: go_time
  xl_CommonName :: string
  xl_Serial :: string
  xl_DNSNames :: "string list"

record x509_reader =
  xr_pem :: "bytes \<Rightarrow> (string \<times> bytes) option"
  xr_parse :: "bytes \<Rightarrow> x509_leaf option"

record x509_certificate =
  ci_Domains :: "string list"
  ci_FullchainPEM :: bytes
  ci_PrivateKeyPEM :: bytes
  ci_IssuedAt :: go_time
  ci_NotAfter :: go_time
  ci_Issuer :: string
  ci_SerialNumber :: string

datatype leaf_error = NoPEMBlock | NotACertificate string | UnparsedLeaf

definition Certificate_Leaf :: "x509_reader \<Rightarrow> bytes \<Rightarrow> leaf_error + x509_leaf" where
  "Certificate_Leaf x chain =
     (case xr_pem x chain of
        None \<Rightarrow> Inl NoPEMBlock
      | Some (ty, body) \<Rightarrow>
          if ty \<noteq> ''CERTIFICATE'' then Inl (NotACertificate ty)
          else (case xr_parse x body of None \<Rightarrow> Inl UnparsedLeaf | Some leaf \<Rightarrow> Inr leaf))"

definition Populate :: "x509_reader \<Rightarrow> x509_certificate \<Rightarrow> leaf_error + x509_certificate" where
  "Populate x c =
     (case Certificate_Leaf x (ci_FullchainPEM c) of
        Inl e \<Rightarrow> Inl e
      | Inr leaf \<Rightarrow>
          (let c = c\<lparr>ci_IssuedAt := xl_NotBefore leaf, ci_NotAfter := xl_NotAfter leaf,
                     ci_Issuer := xl_CommonName leaf, ci_SerialNumber := xl_Serial leaf\<rparr>
           in Inr (if ci_Domains c = [] then c\<lparr>ci_Domains := xl_DNSNames leaf\<rparr> else c)))"

definition no_time :: go_time where "no_time = \<lparr>gt_sec = 0, gt_nsec = 0\<rparr>"

section \<open>Authorities\<close>

record authority =
  ca_Key :: string
  ca_Label :: string
  ca_Directory :: string
  ca_RequiresEAB :: bool

definition DirectoryLetsEncrypt :: string where
  "DirectoryLetsEncrypt = ''https://acme-v02.api.letsencrypt.org/directory''"
definition DirectoryLetsEncryptStaging :: string where
  "DirectoryLetsEncryptStaging = ''https://acme-staging-v02.api.letsencrypt.org/directory''"
definition DirectoryZeroSSL :: string where "DirectoryZeroSSL = ''https://acme.zerossl.com/v2/DV90''"
definition DirectoryGoogle :: string where "DirectoryGoogle = ''https://dv.acme-v02.api.pki.goog/directory''"

definition CAs :: "authority list" where
  "CAs =
    [\<lparr>ca_Key = ''letsencrypt'', ca_Label = ''Let'' @ [CHR 0x27] @ ''s Encrypt'',
      ca_Directory = DirectoryLetsEncrypt, ca_RequiresEAB = False\<rparr>,
     \<lparr>ca_Key = ''letsencrypt-staging'', ca_Label = ''Let'' @ [CHR 0x27] @ ''s Encrypt (staging)'',
      ca_Directory = DirectoryLetsEncryptStaging, ca_RequiresEAB = False\<rparr>,
     \<lparr>ca_Key = ''zerossl'', ca_Label = ''ZeroSSL'', ca_Directory = DirectoryZeroSSL, ca_RequiresEAB = True\<rparr>,
     \<lparr>ca_Key = ''google'', ca_Label = ''Google Trust Services'', ca_Directory = DirectoryGoogle,
      ca_RequiresEAB = True\<rparr>]"

definition LookupCA :: "string \<Rightarrow> authority option" where
  "LookupCA key = find (\<lambda>ca. ca_Key ca = key) CAs"

definition resolveCA :: "string \<Rightarrow> authority option" where
  "resolveCA v0 =
     (let v = (if v0 = [] then ''letsencrypt'' else v0) in
      if has_prefix ''http://'' v \<or> has_prefix ''https://'' v
      then (case find (\<lambda>ca. ca_Directory ca = v) CAs of
              Some ca \<Rightarrow> Some ca
            | None \<Rightarrow> Some \<lparr>ca_Key = v, ca_Label = v, ca_Directory = v, ca_RequiresEAB = False\<rparr>)
      else LookupCA v)"

section \<open>Accounts\<close>

record ('k, 'r) acme_account =
  aa_Email :: string
  aa_PrivateKey :: bytes
  aa_Registration :: bytes
  aa_EABKeyID :: string
  aa_EABHMAC :: string
  aa_key :: "'k option"
  aa_registration :: "'r option"

definition new_account :: "string \<Rightarrow> ('k, 'r) acme_account" where
  "new_account email =
     \<lparr>aa_Email = email, aa_PrivateKey = [], aa_Registration = [], aa_EABKeyID = [], aa_EABHMAC = [],
      aa_key = None, aa_registration = None\<rparr>"

text \<open>How a registration is stored: \<open>rj_decode\<close> is \<^verbatim>\<open>json.Unmarshal\<close>, \<open>rj_uri\<close> its \<^verbatim>\<open>URI\<close> field.\<close>

record 'r registration_json =
  rj_decode :: "bytes \<Rightarrow> 'r option"
  rj_encode :: "'r \<Rightarrow> bytes option"
  rj_uri :: "'r \<Rightarrow> string"

definition LoadRegistration ::
  "'r registration_json \<Rightarrow> bytes \<Rightarrow> ('k, 'r) acme_account \<Rightarrow> ('k, 'r) acme_account option" where
  "LoadRegistration j stored a =
     (if stored = [] then Some a
      else case rj_decode j stored of
        None \<Rightarrow> None
      | Some resource \<Rightarrow>
          if rj_uri j resource = [] then Some a
          else Some (a\<lparr>aa_registration := Some resource, aa_Registration := stored\<rparr>))"

definition MarshalRegistration :: "'r registration_json \<Rightarrow> ('k, 'r) acme_account \<Rightarrow> bytes option" where
  "MarshalRegistration j a =
     (case aa_registration a of None \<Rightarrow> Some (aa_Registration a) | Some resource \<Rightarrow> rj_encode j resource)"

section \<open>The exchange\<close>

text \<open>An error of the library carries an HTTP status when it is a problem document.\<close>

type_synonym acme_error = "nat option \<times> string"

datatype issue_error =
    NoDomains
  | WildcardsNeedDNS "string list"
  | NoSolver
  | UnknownAuthority string
  | NoAccount
  | KeyNotPEM
  | KeyUnparsed
  | KeyNotGenerated
  | KeyNotEncoded
  | UnknownKeyType string
  | ClientRefused string
  | SolverRefused string
  | NeedsBinding string
  | NotRegistered string string
  | NotObtained "string list" acme_error
  | ObtainCancelled "string list"
  | BadLeaf leaf_error

record ('s, 'k, 'r, 'v, 'h) acme_env =
  ae_lower :: "string \<Rightarrow> string"
  ae_x509 :: x509_reader
  ae_parse_key :: "bytes \<Rightarrow> 'k option"
  ae_encode_key :: "'k \<Rightarrow> bytes option"
  ae_pem_encode :: "string \<Rightarrow> bytes \<Rightarrow> bytes"
  ae_generate :: "key_spec \<Rightarrow> 's \<Rightarrow> 'k option \<times> 's"
  ae_client :: "('k, 'r) acme_account \<Rightarrow> string \<Rightarrow> key_spec \<Rightarrow> 's \<Rightarrow> string option \<times> 's"
  ae_solver :: "'v + 'h \<Rightarrow> 's \<Rightarrow> string option \<times> 's"
  ae_register :: "(string \<times> string) option \<Rightarrow> ('k, 'r) acme_account \<Rightarrow> 's \<Rightarrow> (string + 'r) \<times> 's"
  ae_obtain :: "string list \<Rightarrow> string \<Rightarrow> ('k, 'r) acme_account \<Rightarrow> 's \<Rightarrow> (acme_error + (bytes \<times> bytes)) \<times> 's"
  ae_wait :: "int \<Rightarrow> 's \<Rightarrow> bool \<times> 's"

record ('k, 'r, 'v, 'h) issue_request =
  ir_Domains :: "string list"
  ir_CA :: string
  ir_KeyType :: string
  ir_Account :: "('k, 'r) acme_account option"
  ir_Solver :: "'v option"
  ir_HTTPSolver :: "'h option"
  ir_PreferredChain :: string

definition ensureKey ::
  "('s, 'k, 'r, 'v, 'h) acme_env \<Rightarrow> ('k, 'r) acme_account \<Rightarrow> 's \<Rightarrow> issue_error option \<times> ('k, 'r) acme_account \<times> 's" where
  "ensureKey e a s =
     (if aa_key a \<noteq> None then (None, a, s)
      else if aa_PrivateKey a \<noteq> [] then
        (case xr_pem (ae_x509 e) (aa_PrivateKey a) of
           None \<Rightarrow> (Some KeyNotPEM, a, s)
         | Some (ty, body) \<Rightarrow>
             (case ae_parse_key e body of
                None \<Rightarrow> (Some KeyUnparsed, a, s)
              | Some key \<Rightarrow> (None, a\<lparr>aa_key := Some key\<rparr>, s)))
      else
        (case ae_generate e (ECDSA 256) s of
           (None, s) \<Rightarrow> (Some KeyNotGenerated, a, s)
         | (Some key, s) \<Rightarrow>
             (let a = a\<lparr>aa_key := Some key\<rparr> in
              case ae_encode_key e key of
                None \<Rightarrow> (Some KeyNotEncoded, a, s)
              | Some body \<Rightarrow> (None, a\<lparr>aa_PrivateKey := ae_pem_encode e ''EC PRIVATE KEY'' body\<rparr>, s))))"

definition register ::
  "('s, 'k, 'r, 'v, 'h) acme_env \<Rightarrow> authority \<Rightarrow> ('k, 'r) acme_account \<Rightarrow> 's \<Rightarrow> issue_error option \<times> ('k, 'r) acme_account \<times> 's" where
  "register e ca a s =
     (if aa_registration a \<noteq> None then (None, a, s)
      else if ca_RequiresEAB ca then
        (if aa_EABKeyID a = [] \<or> aa_EABHMAC a = [] then (Some (NeedsBinding (ca_Label ca)), a, s)
         else case ae_register e (Some (aa_EABKeyID a, aa_EABHMAC a)) a s of
                (Inl err, s) \<Rightarrow> (Some (NotRegistered (ca_Label ca) err), a, s)
              | (Inr resource, s) \<Rightarrow> (None, a\<lparr>aa_registration := Some resource\<rparr>, s))
      else
        (case ae_register e None a s of
           (Inl err, s) \<Rightarrow> (Some (NotRegistered (ca_Label ca) err), a, s)
         | (Inr resource, s) \<Rightarrow> (None, a\<lparr>aa_registration := Some resource\<rparr>, s)))"

definition obtainAttempts :: nat where "obtainAttempts = 4"
definition obtainRetryDelay :: int where "obtainRetryDelay = 20 * Second"

definition transientACME :: "acme_error \<Rightarrow> bool" where
  "transientACME err =
     (case fst err of None \<Rightarrow> False | Some status \<Rightarrow> status \<in> {429, 500, 502, 503, 504})"

text \<open>The loop of \<^verbatim>\<open>obtain\<close> always leaves from inside: at the last attempt every error returns. \<open>None\<close>
  is the error of a context that ended while waiting.\<close>

function obtain_loop ::
  "('s, 'k, 'r, 'v, 'h) acme_env \<Rightarrow> string list \<Rightarrow> string \<Rightarrow> ('k, 'r) acme_account \<Rightarrow> nat \<Rightarrow> 's \<Rightarrow>
   (acme_error option + (bytes \<times> bytes)) \<times> 's" where
  "obtain_loop e domains chain a attempt s =
     (case ae_obtain e domains chain a s of
        (Inr resource, s) \<Rightarrow> (Inr resource, s)
      | (Inl err, s) \<Rightarrow>
          if \<not> transientACME err \<or> obtainAttempts \<le> attempt then (Inl (Some err), s)
          else (case ae_wait e (int attempt * obtainRetryDelay) s of
                  (True, s) \<Rightarrow> (Inl None, s)
                | (False, s) \<Rightarrow> obtain_loop e domains chain a (attempt + 1) s))"
  by pat_completeness auto
termination by (relation "measure (\<lambda>(e, domains, chain, a, attempt, s). obtainAttempts - attempt)") auto

declare obtain_loop.simps [simp del]

definition obtain_certificate ::
  "('s, 'k, 'r, 'v, 'h) acme_env \<Rightarrow> string list \<Rightarrow> string \<Rightarrow> ('k, 'r) acme_account \<Rightarrow> 's \<Rightarrow>
   (acme_error option + (bytes \<times> bytes)) \<times> 's" where
  "obtain_certificate e domains chain a s = obtain_loop e domains chain a 1 s"

text \<open>\<open>issue_with\<close> is the part of \<^verbatim>\<open>Issue\<close> that talks to the authority. The account is a pointer of
  the source, so the one that was changed is answered on every path.\<close>

definition issue_with ::
  "('s, 'k, 'r, 'v, 'h) acme_env \<Rightarrow> ('k, 'r, 'v, 'h) issue_request \<Rightarrow> string list \<Rightarrow> authority \<Rightarrow> key_spec \<Rightarrow>
   ('k, 'r) acme_account \<Rightarrow> 's \<Rightarrow> (issue_error + x509_certificate) \<times> ('k, 'r) acme_account \<times> 's" where
  "issue_with e rq domains ca spec a s =
     (case ae_client e a (ca_Directory ca) spec s of
        (Some err, s) \<Rightarrow> (Inl (ClientRefused err), a, s)
      | (None, s) \<Rightarrow>
     (case (case ir_Solver rq of
              Some v \<Rightarrow> ae_solver e (Inl v) s
            | None \<Rightarrow> (case ir_HTTPSolver rq of Some h \<Rightarrow> ae_solver e (Inr h) s | None \<Rightarrow> (None, s))) of
        (Some err, s) \<Rightarrow> (Inl (SolverRefused err), a, s)
      | (None, s) \<Rightarrow>
     (case register e ca a s of
        (Some err, a, s) \<Rightarrow> (Inl err, a, s)
      | (None, a, s) \<Rightarrow>
     (case obtain_certificate e domains (ir_PreferredChain rq) a s of
        (Inl (Some err), s) \<Rightarrow> (Inl (NotObtained domains err), a, s)
      | (Inl None, s) \<Rightarrow> (Inl (ObtainCancelled domains), a, s)
      | (Inr (chain, key), s) \<Rightarrow>
          (case Populate (ae_x509 e)
                  \<lparr>ci_Domains = domains, ci_FullchainPEM = chain, ci_PrivateKeyPEM = key,
                   ci_IssuedAt = no_time, ci_NotAfter = no_time, ci_Issuer = [], ci_SerialNumber = []\<rparr> of
             Inl err \<Rightarrow> (Inl (BadLeaf err), a, s)
           | Inr c \<Rightarrow> (Inr c, a, s))))))"

definition Issue ::
  "('s, 'k, 'r, 'v, 'h) acme_env \<Rightarrow> ('k, 'r, 'v, 'h) issue_request \<Rightarrow> 's \<Rightarrow>
   (issue_error + x509_certificate) \<times> ('k, 'r) acme_account option \<times> 's" where
  "Issue e rq s =
     (let domains = NormaliseDomains (ae_lower e) (ir_Domains rq) in
      if domains = [] then (Inl NoDomains, ir_Account rq, s)
      else if NeedsDNSChallenge domains \<and> ir_Solver rq = None
      then (Inl (WildcardsNeedDNS (filter (has_prefix ''*.'') domains)), ir_Account rq, s)
      else if ir_Solver rq = None \<and> ir_HTTPSolver rq = None then (Inl NoSolver, ir_Account rq, s)
      else case resolveCA (ir_CA rq) of
        None \<Rightarrow> (Inl (UnknownAuthority (ir_CA rq)), ir_Account rq, s)
      | Some ca \<Rightarrow>
     (case ir_Account rq of
        None \<Rightarrow> (Inl NoAccount, None, s)
      | Some a \<Rightarrow>
     (case ensureKey e a s of
        (Some err, a, s) \<Rightarrow> (Inl err, Some a, s)
      | (None, a, s) \<Rightarrow>
     (case generated_key (ir_KeyType rq) of
        None \<Rightarrow> (Inl (UnknownKeyType (ir_KeyType rq)), Some a, s)
      | Some spec \<Rightarrow>
          (case issue_with e rq domains ca spec a s of (res, a, s) \<Rightarrow> (res, Some a, s))))))"

section \<open>Bounded retries\<close>

text \<open>The attempts an authority sees, and the waits between them.\<close>

fun obtain_tries :: "('s, 'k, 'r, 'v, 'h) acme_env \<Rightarrow> string list \<Rightarrow> string \<Rightarrow> ('k, 'r) acme_account \<Rightarrow> nat \<Rightarrow> nat \<Rightarrow> 's \<Rightarrow> 's option" where
  "obtain_tries e domains chain a attempt 0 s = Some s"
| "obtain_tries e domains chain a attempt (Suc n) s =
     (case ae_obtain e domains chain a s of
        (Inr resource, s) \<Rightarrow> None
      | (Inl err, s) \<Rightarrow>
          if \<not> transientACME err then None
          else (case ae_wait e (int attempt * obtainRetryDelay) s of
                  (True, s) \<Rightarrow> None
                | (False, s) \<Rightarrow> obtain_tries e domains chain a (attempt + 1) n s))"

lemma obtain_loop_success:
  "obtain_loop e domains chain a attempt s = (Inr r, s') \<longleftrightarrow>
     (\<exists>n \<le> obtainAttempts - attempt. \<exists>t. obtain_tries e domains chain a attempt n s = Some t \<and>
        ae_obtain e domains chain a t = (Inr r, s'))"
proof (induction e domains chain a attempt s rule: obtain_loop.induct)
  case (1 e domains chain a attempt s)
  have first: "(\<exists>n \<le> k. \<exists>t. obtain_tries e domains chain a attempt n s = Some t \<and> Q t) \<longleftrightarrow>
      Q s \<or> (\<exists>n < k. \<exists>t. obtain_tries e domains chain a attempt (Suc n) s = Some t \<and> Q t)" for k Q
    by (metis Suc_le_eq le0 not0_implies_Suc option.inject obtain_tries.simps(1))
  obtain res s1 where o: "ae_obtain e domains chain a s = (res, s1)" by force
  obtain b s2 where w: "ae_wait e (int attempt * obtainRetryDelay) s1 = (b, s2)" by force
  have less: "n < obtainAttempts - attempt \<longleftrightarrow> attempt < obtainAttempts \<and> n \<le> obtainAttempts - (attempt + 1)" for n
    by linarith
  show ?case
  proof (cases res)
    case (Inr x)
    then show ?thesis unfolding first obtain_loop.simps [of e domains chain a attempt s] using o by auto
  next
    case (Inl err)
    show ?thesis
    proof (cases "\<not> transientACME err \<or> obtainAttempts \<le> attempt \<or> b")
      case True
      then show ?thesis unfolding first obtain_loop.simps [of e domains chain a attempt s]
        using o w Inl by auto
    next
      case False
      then show ?thesis unfolding first less obtain_loop.simps [of e domains chain a attempt s]
        using o w Inl 1 [OF o [symmetric] _ _ w [symmetric]] by auto
    qed
  qed
qed

section \<open>What a certificate was issued for\<close>

lemma ensureKey_ok: "ensureKey e a s = (None, a', s') \<Longrightarrow> aa_key a' \<noteq> None \<and> aa_registration a' = aa_registration a \<and>
    aa_EABKeyID a' = aa_EABKeyID a \<and> aa_EABHMAC a' = aa_EABHMAC a"
  by (auto simp: ensureKey_def Let_def split: if_splits option.splits prod.splits)

lemma ensureKey_binding: "ensureKey e a s = (r, a', s') \<Longrightarrow>
    aa_registration a' = aa_registration a \<and> aa_EABKeyID a' = aa_EABKeyID a"
  by (auto simp: ensureKey_def Let_def split: if_splits option.splits prod.splits)

lemma register_ok: "register e ca a s = (None, a', s') \<Longrightarrow> aa_registration a' \<noteq> None \<and> aa_key a' = aa_key a \<and>
    (aa_registration a = None \<and> ca_RequiresEAB ca \<longrightarrow> aa_EABKeyID a \<noteq> [])"
  by (auto simp: register_def split: if_splits sum.splits prod.splits)

lemma Populate_fresh:
  assumes "Populate x \<lparr>ci_Domains = domains, ci_FullchainPEM = chain, ci_PrivateKeyPEM = key, ci_IssuedAt = t0,
      ci_NotAfter = t1, ci_Issuer = i, ci_SerialNumber = n\<rparr> = Inr c" and "domains \<noteq> []"
  shows "ci_Domains c = domains \<and> ci_FullchainPEM c = chain \<and> ci_PrivateKeyPEM c = key \<and>
    (\<exists>leaf. Certificate_Leaf x chain = Inr leaf \<and> ci_IssuedAt c = xl_NotBefore leaf \<and> ci_NotAfter c = xl_NotAfter leaf)"
  using assms by (auto simp: Populate_def Let_def split: sum.splits)

text \<open>What \<^verbatim>\<open>Issue\<close> promises of a certificate it answers.\<close>

definition issued_for ::
  "('s, 'k, 'r, 'v, 'h) acme_env \<Rightarrow> ('k, 'r, 'v, 'h) issue_request \<Rightarrow> x509_certificate \<Rightarrow> ('k, 'r) acme_account \<Rightarrow> 's \<Rightarrow> bool" where
  "issued_for e rq c a s' \<longleftrightarrow>
     (let domains = NormaliseDomains (ae_lower e) (ir_Domains rq) in
      domains \<noteq> [] \<and> (ir_Solver rq \<noteq> None \<or> ir_HTTPSolver rq \<noteq> None \<and> \<not> NeedsDNSChallenge domains) \<and>
      aa_key a \<noteq> None \<and> aa_registration a \<noteq> None \<and>
      resolveCA (ir_CA rq) \<noteq> None \<and> (ir_KeyType rq = [] \<or> KeyType_Valid (ir_KeyType rq)) \<and>
      ci_Domains c = domains \<and>
      (\<exists>before. \<exists>n < obtainAttempts. \<exists>t. obtain_tries e domains (ir_PreferredChain rq) a 1 n before = Some t \<and>
         ae_obtain e domains (ir_PreferredChain rq) a t = (Inr (ci_FullchainPEM c, ci_PrivateKeyPEM c), s')) \<and>
      (\<exists>leaf. Certificate_Leaf (ae_x509 e) (ci_FullchainPEM c) = Inr leaf \<and>
         ci_IssuedAt c = xl_NotBefore leaf \<and> ci_NotAfter c = xl_NotAfter leaf))"

lemma obtain_certificate_success:
  "obtain_certificate e domains chain a s = (Inr r, s') \<longleftrightarrow>
     (\<exists>n < obtainAttempts. \<exists>t. obtain_tries e domains chain a 1 n s = Some t \<and>
        ae_obtain e domains chain a t = (Inr r, s'))"
proof -
  have "n \<le> obtainAttempts - 1 \<longleftrightarrow> n < obtainAttempts" for n by (auto simp: obtainAttempts_def)
  then show ?thesis unfolding obtain_certificate_def obtain_loop_success by simp
qed

lemma issue_with_ok:
  assumes "issue_with e rq domains ca spec a s = (Inr c, a', s')" and "domains \<noteq> []"
  shows "aa_registration a' \<noteq> None \<and> aa_key a' = aa_key a \<and> ci_Domains c = domains \<and>
    (\<exists>before. obtain_certificate e domains (ir_PreferredChain rq) a' before =
        (Inr (ci_FullchainPEM c, ci_PrivateKeyPEM c), s')) \<and>
    (\<exists>leaf. Certificate_Leaf (ae_x509 e) (ci_FullchainPEM c) = Inr leaf \<and>
         ci_IssuedAt c = xl_NotBefore leaf \<and> ci_NotAfter c = xl_NotAfter leaf) \<and>
    (aa_registration a = None \<and> ca_RequiresEAB ca \<longrightarrow> aa_EABKeyID a \<noteq> [])"
  using assms
  by (auto simp: issue_with_def split: prod.splits option.splits sum.splits dest!: register_ok Populate_fresh)

lemma Issue_parts:
  assumes "Issue e rq s = (Inr c, oa, s')"
  obtains ca a0 a1 s1 spec a where
    "NormaliseDomains (ae_lower e) (ir_Domains rq) \<noteq> []"
    "ir_Solver rq \<noteq> None \<or> ir_HTTPSolver rq \<noteq> None \<and> \<not> NeedsDNSChallenge (NormaliseDomains (ae_lower e) (ir_Domains rq))"
    "resolveCA (ir_CA rq) = Some ca" "ir_Account rq = Some a0" "ensureKey e a0 s = (None, a1, s1)"
    "generated_key (ir_KeyType rq) = Some spec"
    "issue_with e rq (NormaliseDomains (ae_lower e) (ir_Domains rq)) ca spec a1 s1 = (Inr c, a, s')" "oa = Some a"
  using assms by (auto simp: Issue_def Let_def split: if_splits option.splits prod.splits)

text \<open>C34: a certificate that is answered is what was asked for. \<^verbatim>\<open>Issue\<close> succeeds only for a known
  authority and key type, with a way to answer the challenge (DNS for wildcards) and a registered
  account; chain and key are what the authority gave for the normalised names at one of the first four
  attempts, the earlier ones having failed transiently, and the dates are those of its first block.\<close>

theorem issue_sound:
  assumes "Issue e rq s = (Inr c, Some a, s')"
  shows "issued_for e rq c a s'"
proof -
  obtain ca a0 a1 s1 spec where parts:
    "NormaliseDomains (ae_lower e) (ir_Domains rq) \<noteq> []"
    "ir_Solver rq \<noteq> None \<or> ir_HTTPSolver rq \<noteq> None \<and> \<not> NeedsDNSChallenge (NormaliseDomains (ae_lower e) (ir_Domains rq))"
    "resolveCA (ir_CA rq) = Some ca" "ensureKey e a0 s = (None, a1, s1)" "generated_key (ir_KeyType rq) = Some spec"
    "issue_with e rq (NormaliseDomains (ae_lower e) (ir_Domains rq)) ca spec a1 s1 = (Inr c, a, s')"
    using assms by (elim Issue_parts) auto
  note facts = issue_with_ok [OF parts(6) parts(1), unfolded obtain_certificate_success]
  have "ir_KeyType rq = [] \<or> KeyType_Valid (ir_KeyType rq)" using parts(5) key_types_generated by fastforce
  with facts parts(1-3) ensureKey_ok [OF parts(4)] show ?thesis unfolding issued_for_def Let_def by auto
qed

text \<open>An authority that is busy once; its state counts what it was asked.\<close>

definition demo_leaf :: x509_leaf where
  "demo_leaf = \<lparr>xl_NotBefore = \<lparr>gt_sec = 1000, gt_nsec = 0\<rparr>, xl_NotAfter = \<lparr>gt_sec = 8000000, gt_nsec = 0\<rparr>,
     xl_CommonName = ''R3'', xl_Serial = ''7'', xl_DNSNames = [''nas.example.com'']\<rparr>"

definition demo_acme :: "(nat, unit, unit, 'v, 'h) acme_env" where
  "demo_acme =
     \<lparr>ae_lower = id,
      ae_x509 = \<lparr>xr_pem = (\<lambda>b. if b = [] then None else Some (''CERTIFICATE'', b)), xr_parse = (\<lambda>b. Some demo_leaf)\<rparr>,
      ae_parse_key = (\<lambda>b. Some ()), ae_encode_key = (\<lambda>k. Some ''K''), ae_pem_encode = (\<lambda>ty b. b),
      ae_generate = (\<lambda>spec s. (Some (), s)), ae_client = (\<lambda>a dir spec s. (None, s)),
      ae_solver = (\<lambda>v s. (None, s)), ae_register = (\<lambda>eab a s. (Inr (), s)),
      ae_obtain = (\<lambda>ds chain a s. (if s = 0 then Inl (Some 503, ''busy'') else Inr (''chain'', ''key''), s + 1)),
      ae_wait = (\<lambda>d s. (False, s))\<rparr>"

definition demo_request :: "(unit, unit, unit, unit) issue_request" where
  "demo_request =
     \<lparr>ir_Domains = ['' nas.example.com.''], ir_CA = [], ir_KeyType = ''ec256'',
      ir_Account = Some (new_account ''me@example.com''), ir_Solver = None, ir_HTTPSolver = Some (),
      ir_PreferredChain = []\<rparr>"

definition demo_certificate :: x509_certificate where
  "demo_certificate =
     \<lparr>ci_Domains = [''nas.example.com''], ci_FullchainPEM = ''chain'', ci_PrivateKeyPEM = ''key'',
      ci_IssuedAt = \<lparr>gt_sec = 1000, gt_nsec = 0\<rparr>, ci_NotAfter = \<lparr>gt_sec = 8000000, gt_nsec = 0\<rparr>,
      ci_Issuer = ''R3'', ci_SerialNumber = ''7''\<rparr>"

definition demo_account :: "(unit, unit) acme_account" where
  "demo_account = (new_account ''me@example.com'')\<lparr>aa_PrivateKey := ''K'', aa_key := Some (), aa_registration := Some ()\<rparr>"

lemma demo_issue: "Issue demo_acme demo_request 0 = (Inr demo_certificate, Some demo_account, 2)"
  by code_simp

theorem issue_sound_witness: "issued_for demo_acme demo_request demo_certificate demo_account 2"
  by (rule issue_sound [OF demo_issue])

lemma issue_needs_binding:
  assumes "resolveCA (ir_CA rq) = Some ca" and "ca_RequiresEAB ca"
    and "ir_Account rq = Some a" and "aa_registration a = None" and "aa_EABKeyID a = []"
  shows "\<exists>err oa s'. Issue e rq s = (Inl err, oa, s')"
proof (cases "Issue e rq s")
  case (fields res oa s')
  show ?thesis
  proof (cases res)
    case (Inr c)
    then have "Issue e rq s = (Inr c, oa, s')" using fields by simp
    then obtain a1 s1 spec a' where
      "NormaliseDomains (ae_lower e) (ir_Domains rq) \<noteq> []" "ensureKey e a s = (None, a1, s1)"
      "issue_with e rq (NormaliseDomains (ae_lower e) (ir_Domains rq)) ca spec a1 s1 = (Inr c, a', s')"
      using assms(1,3) by (elim Issue_parts) auto
    with assms(2,4,5) ensureKey_ok have False by (fastforce dest: issue_with_ok)
    then show ?thesis ..
  qed (use fields in blast)
qed

lemma issue_needs_solver:
  assumes "ir_Solver rq = None" and "ir_HTTPSolver rq = None"
  shows "\<exists>err. Issue e rq s = (Inl err, ir_Account rq, s)"
  using assms by (auto simp: Issue_def Let_def)

end
