(* ===== verification/Crt_Renew.thy ===== *)
theory Crt_Renew
  imports Crt_Issue
begin

text \<open>
  Keeping certificates fresh: \<^verbatim>\<open>internal/cert/renewer.go\<close>. The store is a state \<open>'d\<close> with its \<^verbatim>\<open>List\<close> and
  \<^verbatim>\<open>Save\<close>; everything else outside (the authority, the installer, the clock, the context) acts on the
  state \<open>'s\<close>. \<open>days\<close> is Go's \<^verbatim>\<open>int(d.Hours() / 24)\<close>, a floating-point computation. The last error of
  a certificate is kept as the error itself, \<^term>\<open>None\<close> standing for the empty text: every error of the
  renewer prints as a non-empty one.
\<close>

section \<open>Managed certificates\<close>

datatype renew_error =
    SolverNotBuilt string
  | WildcardNeedsAccount
  | NotIssued issue_error
  | NotInstalled string

record managed =
  mg_ID :: string
  mg_Domains :: "string list"
  mg_CA :: string
  mg_KeyType :: string
  mg_DNSAccount :: string
  mg_Certificate :: "x509_certificate option"
  mg_AutoRenew :: bool
  mg_RenewBefore :: int
  mg_LastAttempt :: go_time
  mg_LastError :: "renew_error option"

definition DefaultRenewBefore :: int where "DefaultRenewBefore = 30"
definition DefaultCheckInterval :: int where "DefaultCheckInterval = 12 * Hour"
definition retryBackoff :: int where "retryBackoff = 6 * Hour"

definition renew_threshold :: "managed \<Rightarrow> int" where
  "renew_threshold m = (if mg_RenewBefore m > 0 then mg_RenewBefore m else DefaultRenewBefore)"

definition time_IsZero :: "go_time \<Rightarrow> bool" where
  "time_IsZero t \<longleftrightarrow> gt_sec t = 0 \<and> gt_nsec t = 0"

definition DaysRemaining :: "(int \<Rightarrow> int) \<Rightarrow> x509_certificate \<Rightarrow> go_time \<Rightarrow> int" where
  "DaysRemaining days c now = days (time_Sub (ci_NotAfter c) now)"

definition NeedsRenewal :: "(int \<Rightarrow> int) \<Rightarrow> x509_certificate \<Rightarrow> go_time \<Rightarrow> int \<Rightarrow> bool" where
  "NeedsRenewal days c now threshold =
     (if time_IsZero (ci_NotAfter c) then True else DaysRemaining days c now \<le> threshold)"

definition Due :: "(int \<Rightarrow> int) \<Rightarrow> managed \<Rightarrow> go_time \<Rightarrow> bool" where
  "Due days m now =
     (if \<not> mg_AutoRenew m then False
      else case mg_Certificate m of
        None \<Rightarrow> True
      | Some c \<Rightarrow>
          if \<not> time_IsZero (mg_LastAttempt m) \<and> mg_LastError m \<noteq> None \<and> time_Sub now (mg_LastAttempt m) < retryBackoff
          then False
          else NeedsRenewal days c now (renew_threshold m))"

section \<open>The renewer\<close>

record ('d, 's, 'k, 'r, 'v, 'h) renew_env =
  re_days :: "int \<Rightarrow> int"
  re_List :: "'d \<Rightarrow> string + managed list"
  re_Save :: "managed \<Rightarrow> 'd \<Rightarrow> bool \<times> 'd"
  re_acme :: "('s, 'k, 'r, 'v, 'h) acme_env"
  re_solvers :: "(managed \<Rightarrow> 's \<Rightarrow> (string + 'v option) \<times> 's) option"
  re_installer :: "(managed \<Rightarrow> 's \<Rightarrow> string option \<times> 's) option"
  re_now :: "'s \<Rightarrow> go_time \<times> 's"
  re_cancelled :: "'s \<Rightarrow> bool"

text \<open>\<open>renew_save\<close> is the closure \<^verbatim>\<open>save\<close>; an error of the store is only logged.\<close>

definition renew_save ::
  "('d, 's, 'k, 'r, 'v, 'h) renew_env \<Rightarrow> managed \<Rightarrow> renew_error option \<Rightarrow> 'd \<times> 's \<Rightarrow> renew_error option \<times> 'd \<times> 's" where
  "renew_save e m err st =
     (case st of (d, s) \<Rightarrow> (err, snd (re_Save e (m\<lparr>mg_LastError := err\<rparr>) d), s))"

definition renew_request :: "managed \<Rightarrow> 'v option \<Rightarrow> ('k, 'r, 'v, 'h) issue_request" where
  "renew_request m solver =
     \<lparr>ir_Domains = mg_Domains m, ir_CA = mg_CA m, ir_KeyType = mg_KeyType m, ir_Account = Some (new_account []),
      ir_Solver = solver, ir_HTTPSolver = None, ir_PreferredChain = []\<rparr>"

definition renewOne ::
  "('d, 's, 'k, 'r, 'v, 'h) renew_env \<Rightarrow> managed \<Rightarrow> 'd \<times> 's \<Rightarrow> renew_error option \<times> 'd \<times> 's" where
  "renewOne e m0 st =
     (case st of (d, s) \<Rightarrow>
     (case re_now e s of (now, s) \<Rightarrow>
      (let m = m0\<lparr>mg_LastAttempt := now\<rparr> in
     (case (case re_solvers e of None \<Rightarrow> (Inr None, s) | Some build \<Rightarrow> build m s) of
        (Inl err, s) \<Rightarrow> renew_save e m (Some (SolverNotBuilt err)) (d, s)
      | (Inr solver, s) \<Rightarrow>
          if NeedsDNSChallenge (mg_Domains m) \<and> solver = None
          then renew_save e m (Some WildcardNeedsAccount) (d, s)
          else
     (case Issue (re_acme e) (renew_request m solver) s of
        (Inl err, a, s) \<Rightarrow> renew_save e m (Some (NotIssued err)) (d, s)
      | (Inr issued, a, s) \<Rightarrow>
          (let m = m\<lparr>mg_Certificate := Some issued\<rparr> in
     (case (case re_installer e of None \<Rightarrow> (None, s) | Some ins \<Rightarrow> ins m s) of
        (Some err, s) \<Rightarrow> renew_save e m (Some (NotInstalled err)) (d, s)
      | (None, s) \<Rightarrow> renew_save e m None (d, s))))))))"

datatype run_outcome = AlreadyRunning | ListFailed string | NothingDue | Interrupted | Failures nat nat | AllRenewed

fun renew_each ::
  "('d, 's, 'k, 'r, 'v, 'h) renew_env \<Rightarrow> managed list \<Rightarrow> nat \<Rightarrow> 'd \<times> 's \<Rightarrow> nat option \<times> 'd \<times> 's" where
  "renew_each e [] failures st = (Some failures, st)"
| "renew_each e (m # ms) failures st =
     (if re_cancelled e (snd st) then (None, st)
      else case renewOne e m st of
        (err, st) \<Rightarrow> renew_each e ms (if err = None then failures else failures + 1) st)"

text \<open>A run finds the flag \<^verbatim>\<open>running\<close> set or sets it, and clears it when it leaves.\<close>

definition Renewer_Run ::
  "('d, 's, 'k, 'r, 'v, 'h) renew_env \<Rightarrow> bool \<Rightarrow> 'd \<times> 's \<Rightarrow> run_outcome \<times> bool \<times> 'd \<times> 's" where
  "Renewer_Run e running st =
     (if running then (AlreadyRunning, True, st)
      else case re_List e (fst st) of
        Inl err \<Rightarrow> (ListFailed err, False, st)
      | Inr managed \<Rightarrow>
          (case re_now e (snd st) of (now, s) \<Rightarrow>
           (let due = filter (\<lambda>m. Due (re_days e) m now) managed in
            if due = [] then (NothingDue, False, fst st, s)
            else case renew_each e due 0 (fst st, s) of
              (None, st) \<Rightarrow> (Interrupted, False, st)
            | (Some failures, st) \<Rightarrow>
                (if failures > 0 then Failures failures (length due) else AllRenewed, False, st))))"

section \<open>Only what is due changes\<close>

text \<open>What the renewer relies on: the store lists every certificate it holds once, and saving one
  replaces it or, when refused, changes nothing.\<close>

definition store_ok :: "('d, 's, 'k, 'r, 'v, 'h) renew_env \<Rightarrow> ('d \<Rightarrow> string \<Rightarrow> managed option) \<Rightarrow> bool" where
  "store_ok e stored \<longleftrightarrow>
     (\<forall>d ms. re_List e d = Inr ms \<longrightarrow> distinct (map mg_ID ms) \<and> (\<forall>m \<in> set ms. stored d (mg_ID m) = Some m)) \<and>
     (\<forall>m d. case re_Save e m d of
        (True, d') \<Rightarrow> stored d' = (stored d)(mg_ID m \<mapsto> m)
      | (False, d') \<Rightarrow> stored d' = stored d)"

text \<open>A certificate after an attempt: nothing that the operator set changed, and the certificate is
  either the one before, with an error, or a fresh one for its names.\<close>

definition attempted :: "('d, 's, 'k, 'r, 'v, 'h) renew_env \<Rightarrow> managed \<Rightarrow> managed \<Rightarrow> bool" where
  "attempted e m m' \<longleftrightarrow>
     (\<exists>t c err. m' = m\<lparr>mg_LastAttempt := t, mg_Certificate := c, mg_LastError := err\<rparr> \<and>
        (c = mg_Certificate m \<and> err \<noteq> None \<or>
         (\<exists>issued solver a s'. c = Some issued \<and> issued_for (re_acme e) (renew_request m solver) issued a s' \<and>
            (\<forall>x. err = Some x \<longrightarrow> (\<exists>y. x = NotInstalled y)))))"

lemma renew_save_stored:
  assumes "store_ok e stored" and "renew_save e m err (d, s) = (r, d', s')"
  shows "r = err \<and> (stored d' = stored d \<or> stored d' = (stored d)(mg_ID m \<mapsto> m\<lparr>mg_LastError := err\<rparr>))"
proof -
  obtain ok d1 where s: "re_Save e (m\<lparr>mg_LastError := err\<rparr>) d = (ok, d1)" by force
  have "case re_Save e (m\<lparr>mg_LastError := err\<rparr>) d of
      (True, d') \<Rightarrow> stored d' = (stored d)(mg_ID (m\<lparr>mg_LastError := err\<rparr>) \<mapsto> m\<lparr>mg_LastError := err\<rparr>)
    | (False, d') \<Rightarrow> stored d' = stored d"
    by (rule assms(1) [unfolded store_ok_def, THEN conjunct2, THEN spec, THEN spec])
  then show ?thesis using s assms(2) by (cases ok) (auto simp: renew_save_def)
qed

lemma attempted_failed: "attempted e m (m\<lparr>mg_LastAttempt := t, mg_LastError := Some err\<rparr>)"
  unfolding attempted_def by (rule exI [of _ t], rule exI [of _ "mg_Certificate m"], rule exI [of _ "Some err"]) simp

lemma attempted_issued:
  assumes "Issue (re_acme e) (renew_request m solver) s = (Inr issued, oa, s')" and "err = map_option NotInstalled y"
  shows "attempted e m (m\<lparr>mg_LastAttempt := t, mg_Certificate := Some issued, mg_LastError := err\<rparr>)"
proof -
  obtain a where "oa = Some a" using assms(1) by (rule Issue_parts)
  with assms(1) have "issued_for (re_acme e) (renew_request m solver) issued a s'" using issue_sound by simp
  then show ?thesis unfolding attempted_def using assms(2)
    by (intro exI [of _ t] exI [of _ "Some issued"] exI [of _ err] conjI refl disjI2) auto
qed

text \<open>How an attempt ends: the certificate it saves, and the state after it.\<close>

lemma renewOne_saves:
  assumes "renewOne e m (d, s) = (r, st')"
  shows "\<exists>m' err s'. renew_save e m' err (d, s') = (r, st') \<and> mg_ID m' = mg_ID m \<and>
    attempted e m (m'\<lparr>mg_LastError := err\<rparr>)"
proof -
  have req: "renew_request (m\<lparr>mg_LastAttempt := t\<rparr>) solver = renew_request m solver" for t solver
    by (simp add: renew_request_def)
  have failed: "attempted e m (m\<lparr>mg_LastAttempt := t\<rparr>\<lparr>mg_LastError := Some err\<rparr>)" for t err
    by (rule attempted_failed)
  have issued: "attempted e m (m\<lparr>mg_LastAttempt := t\<rparr>\<lparr>mg_Certificate := Some issued\<rparr>\<lparr>mg_LastError := err\<rparr>)"
    if "Issue (re_acme e) (renew_request m solver) s1 = (Inr issued, oa, s2)" "err = map_option NotInstalled y"
    for t issued err solver s1 oa s2 y
    by (rule attempted_issued [OF that])
  have close: ?thesis if "renew_save e m' err (d, s') = (r, st')" "mg_ID m' = mg_ID m" "attempted e m (m'\<lparr>mg_LastError := err\<rparr>)"
    for m' err s'
    using that by blast
  obtain now s0 where n: "re_now e s = (now, s0)" by force
  obtain b s1 where b: "(case re_solvers e of None \<Rightarrow> (Inr None, s0) | Some build \<Rightarrow> build (m\<lparr>mg_LastAttempt := now\<rparr>) s0) = (b, s1)"
    by (meson surj_pair)
  show ?thesis
  proof (cases b)
    case (Inl err)
    with assms n b have "renew_save e (m\<lparr>mg_LastAttempt := now\<rparr>) (Some (SolverNotBuilt err)) (d, s1) = (r, st')"
      by (simp add: renewOne_def Let_def)
    then show ?thesis by (rule close [OF _ _ failed]) simp
  next
    case (Inr solver)
    obtain i a s2 where i: "Issue (re_acme e) (renew_request m solver) s1 = (i, a, s2)" by (cases "Issue (re_acme e) (renew_request m solver) s1")
    show ?thesis
    proof (cases "NeedsDNSChallenge (mg_Domains m) \<and> solver = None")
      case True
      with assms n b Inr have "renew_save e (m\<lparr>mg_LastAttempt := now\<rparr>) (Some WildcardNeedsAccount) (d, s1) = (r, st')"
        by (simp add: renewOne_def Let_def)
      then show ?thesis by (rule close [OF _ _ failed]) simp
    next
      case False
      show ?thesis
      proof (cases i)
        case (Inl err)
        then have "renew_save e (m\<lparr>mg_LastAttempt := now\<rparr>) (Some (NotIssued err)) (d, s2) = (r, st')"
          using assms n b \<open>b = Inr solver\<close> False i by (auto simp: renewOne_def Let_def req)
        then show ?thesis by (rule close [OF _ _ failed]) simp
      next
        case (Inr c)
        obtain x s3 where x: "(case re_installer e of None \<Rightarrow> (None, s2)
            | Some ins \<Rightarrow> ins (m\<lparr>mg_LastAttempt := now\<rparr>\<lparr>mg_Certificate := Some c\<rparr>) s2) = (x, s3)"
          by (meson surj_pair)
        have saved: "renew_save e (m\<lparr>mg_LastAttempt := now\<rparr>\<lparr>mg_Certificate := Some c\<rparr>) (map_option NotInstalled x) (d, s3) = (r, st')"
          using assms n b \<open>b = Inr solver\<close> False i Inr x by (cases x) (auto simp: renewOne_def Let_def req)
        have "attempted e m (m\<lparr>mg_LastAttempt := now\<rparr>\<lparr>mg_Certificate := Some c\<rparr>\<lparr>mg_LastError := map_option NotInstalled x\<rparr>)"
          by (rule issued [OF i [unfolded Inr] refl])
        then show ?thesis by (rule close [OF saved, rotated]) simp
      qed
    qed
  qed
qed

lemma renewOne_stored:
  assumes "store_ok e stored" and "renewOne e m (d, s) = (r, d', s')"
  shows "stored d' = stored d \<or> (\<exists>m'. stored d' = (stored d)(mg_ID m \<mapsto> m') \<and> attempted e m m' \<and> mg_LastError m' = r)"
proof -
  obtain m' err s1 where saved: "renew_save e m' err (d, s1) = (r, d', s')" and m': "mg_ID m' = mg_ID m"
    "attempted e m (m'\<lparr>mg_LastError := err\<rparr>)"
    using renewOne_saves [OF assms(2)] by blast
  show ?thesis
    using renew_save_stored [OF assms(1) saved] m' by auto
qed

lemma renew_each_stored:
  "store_ok e stored \<Longrightarrow> distinct (map mg_ID ms) \<Longrightarrow> renew_each e ms failures (d, s) = (n, d', s') \<Longrightarrow>
   stored d' i = stored d i \<or> (\<exists>m \<in> set ms. mg_ID m = i \<and> (\<exists>m'. stored d' i = Some m' \<and> attempted e m m'))"
proof (induction ms arbitrary: failures d s)
  case (Cons m ms)
  show ?case
  proof (cases "re_cancelled e s")
    case True
    then show ?thesis using Cons.prems by simp
  next
    case False
    obtain r d1 s1 where one: "renewOne e m (d, s) = (r, d1, s1)" by (cases "renewOne e m (d, s)")
    with Cons.prems False have rest: "renew_each e ms (if r = None then failures else failures + 1) (d1, s1) = (n, d', s')"
      by simp
    have ih: "stored d' i = stored d1 i \<or> (\<exists>m \<in> set ms. mg_ID m = i \<and> (\<exists>m'. stored d' i = Some m' \<and> attempted e m m'))"
      by (rule Cons.IH [OF Cons.prems(1) _ rest]) (use Cons.prems(2) in simp)
    have "stored d1 i = stored d i \<or> (mg_ID m = i \<and> (\<exists>m'. stored d1 i = Some m' \<and> attempted e m m'))"
      using renewOne_stored [OF Cons.prems(1) one] by (auto split: if_splits)
    with ih show ?thesis by auto
  qed
qed simp

text \<open>C35: a run of the renewer changes nothing but certificates that are due. Whatever the authority,
  the installer and the store refuse, every stored certificate is either unchanged, or was due and keeps
  everything the operator set: with an error noted it keeps the certificate it had, or it has a fresh
  one, issued for its own names, key type and authority.\<close>

theorem renewal_touches_due_only:
  assumes "store_ok e stored" and "Renewer_Run e running (d, s) = (outcome, flag, d', s')"
  shows "flag = running \<and> (stored d' i = stored d i \<or>
    (\<exists>m m'. stored d i = Some m \<and> stored d' i = Some m' \<and> \<not> running \<and> Due (re_days e) m (fst (re_now e s)) \<and> attempted e m m'))"
proof (cases "running \<or> (\<exists>err. re_List e d = Inl err)")
  case True
  then show ?thesis using assms(2) by (cases running) (auto simp: Renewer_Run_def)
next
  case False
  then obtain ms where ms: "re_List e d = Inr ms" "\<not> running" by (cases "re_List e d") auto
  obtain now s0 where now: "re_now e s = (now, s0)" by force
  define due where "due = filter (\<lambda>m. Due (re_days e) m now) ms"
  have list: "distinct (map mg_ID ms)" "\<forall>m \<in> set ms. stored d (mg_ID m) = Some m"
    using assms(1) ms(1) unfolding store_ok_def by blast+
  obtain n d1 s1 where each: "renew_each e due 0 (d, s0) = (n, d1, s1)" by (cases "renew_each e due 0 (d, s0)")
  have "distinct (map mg_ID due)" using list(1) by (simp add: due_def distinct_map_filter)
  from renew_each_stored [OF assms(1) this each, of i] list(2)
  have changed: "stored d1 i = stored d i \<or> (\<exists>m m'. stored d i = Some m \<and> stored d1 i = Some m' \<and> Due (re_days e) m now \<and> attempted e m m')"
    unfolding due_def by fastforce
  show ?thesis
  proof (cases "due = []")
    case True
    then show ?thesis using assms(2) ms now by (auto simp: Renewer_Run_def due_def)
  next
    case False
    then have "d' = d1" "flag = False" using assms(2) ms now each
      by (auto simp: Renewer_Run_def Let_def due_def [symmetric] split: option.splits)
    with changed now ms(2) show ?thesis by simp
  qed
qed

section \<open>Renewals that cannot succeed\<close>


text \<open>A certificate of ZeroSSL, with an authority that would give everything.\<close>

definition demo_managed :: managed where
  "demo_managed =
     \<lparr>mg_ID = ''1'', mg_Domains = [''nas.example.com''], mg_CA = ''zerossl'', mg_KeyType = [], mg_DNSAccount = ''3'',
      mg_Certificate = Some demo_certificate, mg_AutoRenew = True, mg_RenewBefore = 0,
      mg_LastAttempt = no_time, mg_LastError = None\<rparr>"

definition demo_renewer :: "(managed option, nat, unit, unit, unit, unit) renew_env" where
  "demo_renewer =
     \<lparr>re_days = (\<lambda>d. d div (24 * Hour)), re_List = (\<lambda>d. Inr (case d of None \<Rightarrow> [] | Some m \<Rightarrow> [m])),
      re_Save = (\<lambda>m d. if d = None \<or> map_option mg_ID d = Some (mg_ID m) then (True, Some m) else (False, d)),
      re_acme = demo_acme, re_solvers = Some (\<lambda>m s. (Inr (Some ()), s)), re_installer = None,
      re_now = (\<lambda>s. (\<lparr>gt_sec = 7000000, gt_nsec = 0\<rparr>, s)), re_cancelled = (\<lambda>s. False)\<rparr>"


text \<open>A run over one certificate of Let's Encrypt, due in two weeks.\<close>

definition demo_due :: managed where
  "demo_due = demo_managed\<lparr>mg_CA := []\<rparr>"

definition demo_stored :: "managed option \<Rightarrow> string \<Rightarrow> managed option" where
  "demo_stored d i = (case d of None \<Rightarrow> None | Some m \<Rightarrow> if mg_ID m = i then Some m else None)"

lemma demo_store_ok: "store_ok demo_renewer demo_stored"
  by (auto simp: store_ok_def demo_renewer_def demo_stored_def fun_eq_iff split: option.splits)

lemma demo_renewal:
  "Renewer_Run demo_renewer False (Some demo_due, 0) =
     (AllRenewed, False, Some (demo_due\<lparr>mg_LastAttempt := \<lparr>gt_sec = 7000000, gt_nsec = 0\<rparr>\<rparr>), 2)"
  by code_simp

theorem renewal_touches_due_only_witness:
  "demo_stored (Some (demo_due\<lparr>mg_LastAttempt := \<lparr>gt_sec = 7000000, gt_nsec = 0\<rparr>\<rparr>)) ''1'' = demo_stored (Some demo_due) ''1'' \<or>
   (\<exists>m m'. demo_stored (Some demo_due) ''1'' = Some m \<and>
      demo_stored (Some (demo_due\<lparr>mg_LastAttempt := \<lparr>gt_sec = 7000000, gt_nsec = 0\<rparr>\<rparr>)) ''1'' = Some m' \<and>
      \<not> False \<and> Due (re_days demo_renewer) m (fst (re_now demo_renewer 0)) \<and> attempted demo_renewer m m')"
  by (rule renewal_touches_due_only [OF demo_store_ok demo_renewal, THEN conjunct2])

end
