(* ===== verification/Sch_Condition.thy ===== *)
theory Sch_Condition
  imports Go_Strings
begin

text \<open>
  The conditions under which a form field is shown (\<^verbatim>\<open>pkg/schema/condition.go\<close>): disjunctions of
  conjunctions of comparisons, with quoted literals. The evaluator works on the text; what it should
  compute is stated on the parsed form, and proved equal to it for every condition that is written
  out, up to the one kind of literal on which the text is cut at the wrong place.
\<close>

section \<open>The evaluator\<close>

datatype condition_error = MissingField string | ExpectedOperator string

definition is_quote :: "char \<Rightarrow> bool" where
  "is_quote c \<longleftrightarrow> c = CHR 0x27 \<or> c = CHR 0x22"

text \<open>The separators are never empty, so what a match skips after its first byte is what is left of
  the separator.\<close>

function split_loop :: "string \<Rightarrow> char option \<Rightarrow> string \<Rightarrow> string \<Rightarrow> string list" where
  "split_loop sep quote part [] = [part]"
| "split_loop sep quote part (c # cs) =
     (case quote of
        Some q \<Rightarrow> split_loop sep (if c = q then None else quote) (part @ [c]) cs
      | None \<Rightarrow>
          if is_quote c then split_loop sep (Some c) (part @ [c]) cs
          else if has_prefix sep (c # cs) then part # split_loop sep None [] (drop (length sep - 1) cs)
          else split_loop sep None (part @ [c]) cs)"
  by pat_completeness auto
termination by (relation "measure (\<lambda>(sep, q, part, cs). length cs)") auto

definition splitTop :: "string \<Rightarrow> string \<Rightarrow> string list" where
  "splitTop input sep = split_loop sep None [] input"

definition unquote :: "string \<Rightarrow> string" where
  "unquote value =
     (if 2 \<le> length value \<and>
         (hd value = CHR 0x27 \<and> last value = CHR 0x27 \<or> hd value = CHR 0x22 \<and> last value = CHR 0x22)
      then butlast (tl value) else value)"

definition value_of :: "(string, string) gomap \<Rightarrow> string \<Rightarrow> string" where
  "value_of values name = (case map_of values name of None \<Rightarrow> [] | Some v \<Rightarrow> v)"

fun eval_ops :: "string list \<Rightarrow> string \<Rightarrow> (string, string) gomap \<Rightarrow> condition_error + bool" where
  "eval_ops [] a values = Inl (ExpectedOperator a)"
| "eval_ops (op # ops) a values =
     (case cut a op of (field, literal, found) \<Rightarrow>
        if \<not> found then eval_ops ops a values
        else let name = trim_space field in
          if name = [] then Inl (MissingField a)
          else let want = unquote (trim_space literal); got = value_of values name in
            if op = ''=='' then Inr (got = want) else Inr (got \<noteq> want))"

definition evalAtom :: "string \<Rightarrow> (string, string) gomap \<Rightarrow> condition_error + bool" where
  "evalAtom a values = eval_ops [''!='', ''==''] (trim_space a) values"

fun all_atoms :: "string list \<Rightarrow> (string, string) gomap \<Rightarrow> condition_error + bool" where
  "all_atoms [] values = Inr True"
| "all_atoms (a # qs) values =
     (case evalAtom a values of
        Inl e \<Rightarrow> Inl e
      | Inr ok \<Rightarrow> if \<not> ok then Inr False else all_atoms qs values)"

definition evalTerm :: "string \<Rightarrow> (string, string) gomap \<Rightarrow> condition_error + bool" where
  "evalTerm term values = all_atoms (splitTop term ''&&'') values"

fun any_term :: "string list \<Rightarrow> (string, string) gomap \<Rightarrow> condition_error + bool" where
  "any_term [] values = Inr False"
| "any_term (t # ts) values =
     (case evalTerm t values of
        Inl e \<Rightarrow> Inl e
      | Inr ok \<Rightarrow> if ok then Inr True else any_term ts values)"

definition Visible :: "string \<Rightarrow> (string, string) gomap \<Rightarrow> condition_error + bool" where
  "Visible cond values =
     (let c = trim_space cond in
      if c = [] then Inr True else any_term (splitTop c ''||'') values)"

section \<open>Conditions written out\<close>

record comparison =
  cp_field :: string
  cp_equal :: bool
  cp_literal :: string

definition quoted_literal :: "string \<Rightarrow> string" where
  "quoted_literal s = CHR 0x27 # s @ [CHR 0x27]"

definition comparison_text :: "comparison \<Rightarrow> string" where
  "comparison_text a = cp_field a @ (if cp_equal a then '' == '' else '' != '') @ quoted_literal (cp_literal a)"

fun joined :: "string \<Rightarrow> string list \<Rightarrow> string" where
  "joined sep [] = []"
| "joined sep [p] = p"
| "joined sep (p # q # ps) = p @ '' '' @ sep @ '' '' @ joined sep (q # ps)"

definition term_text :: "comparison list \<Rightarrow> string" where
  "term_text qs = joined ''&&'' (map comparison_text qs)"

definition condition_text :: "comparison list list \<Rightarrow> string" where
  "condition_text ts = joined ''||'' (map term_text ts)"

definition plain_field :: "string \<Rightarrow> bool" where
  "plain_field s \<longleftrightarrow> s \<noteq> [] \<and> list_all (\<lambda>c. graphic c \<and> \<not> is_quote c \<and> c \<notin> set ''!=&|'') s"

definition comparison_ok :: "comparison \<Rightarrow> bool" where
  "comparison_ok a \<longleftrightarrow> plain_field (cp_field a) \<and> CHR 0x27 \<notin> set (cp_literal a) \<and>
     (cp_equal a \<longrightarrow> \<not> contains (cp_literal a) ''!='')"

definition holds :: "(string, string) gomap \<Rightarrow> comparison \<Rightarrow> bool" where
  "holds values a \<longleftrightarrow> (value_of values (cp_field a) = cp_literal a) = cp_equal a"

section \<open>Splitting\<close>

definition flat :: "string \<Rightarrow> string \<Rightarrow> bool" where
  "flat sep s = list_all (\<lambda>c. \<not> is_quote c \<and> c \<noteq> hd sep) s"

lemma split_flat:
  "flat sep s \<Longrightarrow> sep \<noteq> [] \<Longrightarrow> split_loop sep None part (s @ t) = split_loop sep None (part @ s) t"
proof (induction s arbitrary: part)
  case (Cons c s)
  then have "\<not> is_quote c" "\<not> has_prefix sep (c # s @ t)"
    by (auto simp: flat_def has_prefix_def) (cases sep; simp)
  with Cons show ?case by (simp add: flat_def)
qed simp

lemma split_in_quote:
  "q \<notin> set s \<Longrightarrow> split_loop sep (Some q) part (s @ q # t) = split_loop sep None (part @ s @ [q]) t"
  by (induction s arbitrary: part) auto

lemma split_quoted:
  "CHR 0x27 \<notin> set s \<Longrightarrow> split_loop sep None part (quoted_literal s @ t) = split_loop sep None (part @ quoted_literal s) t"
  using split_in_quote [of "CHR 0x27" s sep "part @ [CHR 0x27]" t] by (simp add: quoted_literal_def is_quote_def)

lemma split_sep:
  "sep \<noteq> [] \<Longrightarrow> \<not> is_quote (hd sep) \<Longrightarrow> split_loop sep None part (sep @ t) = part # split_loop sep None [] t"
  by (cases sep) (simp_all add: has_prefix_def)

text \<open>Text that is passed over whole.\<close>

definition passes :: "string \<Rightarrow> string \<Rightarrow> bool" where
  "passes sep s \<longleftrightarrow> (\<forall>part t. split_loop sep None part (s @ t) = split_loop sep None (part @ s) t)"

lemma passes_append: "passes sep s \<Longrightarrow> passes sep t \<Longrightarrow> passes sep (s @ t)"
  by (simp add: passes_def)

lemma passes_flat: "flat sep s \<Longrightarrow> sep \<noteq> [] \<Longrightarrow> passes sep s"
  by (simp add: passes_def split_flat)

lemma passes_quoted: "CHR 0x27 \<notin> set s \<Longrightarrow> passes sep (quoted_literal s)"
  by (simp add: passes_def split_quoted)

definition separator :: "string \<Rightarrow> bool" where
  "separator sep \<longleftrightarrow> sep = ''&&'' \<or> sep = ''||''"

lemma passes_comparison:
  assumes "comparison_ok a" and "separator sep"
  shows "passes sep (comparison_text a)"
proof -
  have sep: "sep \<noteq> []" "hd sep = CHR ''&'' \<or> hd sep = CHR ''|''" using assms(2) by (auto simp: separator_def)
  have "flat sep (cp_field a)"
    unfolding flat_def using assms(1) sep(2)
    by (auto simp: comparison_ok_def plain_field_def elim!: list.pred_mono_strong)
  moreover have "flat sep (if cp_equal a then '' == '' else '' != '')"
    using sep(2) by (auto simp: flat_def is_quote_def)
  moreover have "CHR 0x27 \<notin> set (cp_literal a)" using assms(1) by (simp add: comparison_ok_def)
  ultimately show ?thesis
    unfolding comparison_text_def using sep(1) by (simp add: passes_append passes_flat passes_quoted)
qed

lemma passes_joined:
  assumes "separator sep" and "separator other" and "sep \<noteq> other" and "list_all (passes sep) ps"
  shows "passes sep (joined other ps)"
proof -
  have "flat sep ('' '' @ other @ '' '')" "sep \<noteq> []"
    using assms(1-3) by (auto simp: separator_def flat_def is_quote_def)
  then have mid: "passes sep ('' '' @ other @ '' '')" by (rule passes_flat)
  show ?thesis
    using assms(4)
  proof (induction ps rule: induct_list012)
    case 1
    then show ?case by (simp add: passes_def)
  next
    case (3 p q ps)
    then have "passes sep (p @ ('' '' @ other @ '' '') @ joined other (q # ps))"
      by (intro passes_append mid) simp_all
    then show ?case by simp
  qed simp
qed

section \<open>Blanks\<close>

definition blanks :: "nat \<Rightarrow> string" where
  "blanks n = replicate n (CHR '' '')"

definition padded :: "string \<Rightarrow> string \<Rightarrow> bool" where
  "padded s p \<longleftrightarrow> (\<exists>i j. s = blanks i @ p @ blanks j)"

definition tight :: "string \<Rightarrow> bool" where
  "tight p \<longleftrightarrow> p \<noteq> [] \<and> graphic (hd p) \<and> graphic (last p)"

lemma blanks_simps: "blanks 0 = []" "blanks (Suc n) = CHR '' '' # blanks n" "blanks (Suc n) = blanks n @ '' ''"
  by (simp_all add: blanks_def replicate_append_same)

lemma trim_left_space: "trim_left (CHR '' '' # cs) = trim_left cs"
  by (simp add: trim_left.simps [of "CHR '' '' # cs"] space_runes_def has_prefix_def)

lemma trim_right_space: "trim_right (cs @ '' '') = trim_right cs"
  by (simp add: trim_right.simps [of "cs @ '' ''"] space_runes_def has_suffix_def)

lemma trim_left_blanks: "trim_left (blanks i @ s) = trim_left s"
  by (induction i) (simp_all add: blanks_simps(1,2) trim_left_space)

lemma trim_right_blanks: "trim_right (s @ blanks j) = trim_right s"
proof (induction j)
  case (Suc j)
  have "trim_right (s @ blanks (Suc j)) = trim_right ((s @ blanks j) @ '' '')"
    by (simp only: blanks_simps(3) append_assoc)
  with Suc show ?case by (simp only: trim_right_space)
qed (simp add: blanks_simps(1))

lemma tight_no_outer: "tight p \<Longrightarrow> trim_left (p @ t) = p @ t" "tight p \<Longrightarrow> trim_right p = p"
proof -
  assume p: "tight p"
  have "\<not> has_prefix r (p @ t)" if "r \<in> set space_runes" for r
    using p space_rune_ends [OF that] space_runes_nonempty [OF that]
    by (cases r; cases p) (auto simp: tight_def has_prefix_def)
  then show "trim_left (p @ t) = p @ t" by (simp add: trim_left.simps [of "p @ t"] find_None_space)
  have "\<not> has_suffix r p" if "r \<in> set space_runes" for r
    using p space_rune_ends [OF that] space_runes_nonempty [OF that]
    by (auto simp: tight_def has_suffix_iff)
  then show "trim_right p = p" by (simp add: trim_right.simps [of p] find_None_space)
qed

lemma trim_padded: "tight p \<Longrightarrow> padded s p \<Longrightarrow> trim_space s = p"
  by (auto simp: padded_def trim_space_def trim_left_blanks tight_no_outer trim_right_blanks)

lemma paddedI: "padded p p" "padded (CHR '' '' # p) p" "padded (p @ '' '') p"
  unfolding padded_def
  by (intro exI [of _ 0], simp add: blanks_simps(1))
    (intro exI [of _ "Suc 0"] exI [of _ 0], simp add: blanks_def,
     intro exI [of _ 0] exI [of _ "Suc 0"], simp add: blanks_def)

lemma split_joined:
  assumes "separator sep"
  shows "ps \<noteq> [] \<Longrightarrow> list_all (passes sep) ps \<Longrightarrow>
    list_all2 padded (split_loop sep None (blanks i) (joined sep ps @ blanks j)) ps"
proof (induction ps arbitrary: i rule: induct_list012)
  case (2 p)
  have "flat sep (blanks j)" "sep \<noteq> []"
    using assms by (auto simp: flat_def blanks_def separator_def is_quote_def list_all_iff)
  then have "split_loop sep None (blanks i) (p @ blanks j) = [blanks i @ p @ blanks j]"
    using 2 split_flat [of sep "blanks j" _ "[]"] by (simp add: passes_def)
  then show ?case by (auto simp: padded_def)
next
  case (3 p q ps)
  have sep: "flat sep '' ''" "sep \<noteq> []" "\<not> is_quote (hd sep)"
    using assms by (auto simp: flat_def separator_def is_quote_def)
  let ?rest = "joined sep (q # ps) @ blanks j"
  have "split_loop sep None (blanks i) (joined sep (p # q # ps) @ blanks j) =
      split_loop sep None (blanks i @ p) ('' '' @ sep @ '' '' @ ?rest)"
    using 3 by (simp add: passes_def)
  also have "\<dots> = (blanks i @ p @ '' '') # split_loop sep None [] ('' '' @ ?rest)"
    using split_flat [OF sep(1,2), of "blanks i @ p" "sep @ '' '' @ ?rest"] split_sep [OF sep(2,3)] by simp
  also have "split_loop sep None [] ('' '' @ ?rest) = split_loop sep None (blanks 1) ?rest"
    using split_flat [OF sep(1,2), of "[]" ?rest] by (simp add: blanks_def)
  finally have "split_loop sep None (blanks i) (joined sep (p # q # ps) @ blanks j) =
      (blanks i @ p @ '' '') # split_loop sep None (blanks 1) ?rest" .
  moreover have "padded (blanks i @ p @ '' '') p"
    unfolding padded_def by (intro exI [of _ i] exI [of _ 1]) (simp add: blanks_def)
  ultimately show ?case using "3.IH"(2) [of 1] "3.prems" by simp
qed simp

lemma splitTop_joined:
  assumes "separator sep" and "ps \<noteq> []" and "list_all (passes sep) ps" and "padded s (joined sep ps)"
  shows "list_all2 padded (splitTop s sep) ps"
proof -
  obtain i j where s: "s = blanks i @ joined sep ps @ blanks j" using assms(4) by (auto simp: padded_def)
  have "flat sep (blanks i)" "sep \<noteq> []"
    using assms(1) by (auto simp: flat_def blanks_def separator_def is_quote_def list_all_iff)
  then show ?thesis
    using split_joined [OF assms(1-3), of i j] split_flat [of sep "blanks i" "[]"] by (simp add: splitTop_def s)
qed

section \<open>What a written condition means\<close>

lemma index_sub_skip_hd:
  "pat \<noteq> [] \<Longrightarrow> hd pat \<notin> set s \<Longrightarrow> index_sub pat (s @ t) = map_option ((+) (length s)) (index_sub pat t)"
proof (induction s)
  case (Cons c s)
  then have "\<not> has_prefix pat (c # s @ t)" by (cases pat) (auto simp: has_prefix_def)
  with Cons show ?case by (simp add: option.map_comp comp_def)
qed (cases "index_sub pat t"; simp)

lemma cut_at:
  assumes "pat \<noteq> []" and "hd pat \<notin> set s"
  shows "cut (s @ pat @ t) pat = (s, t, True)"
proof -
  have "index_sub pat (pat @ t) = Some 0" using assms(1) has_prefix_append [of pat t] by (cases pat) (simp_all del: has_prefix_append)
  with index_sub_skip_hd [OF assms, of "pat @ t"] show ?thesis by (simp add: cut_def)
qed

lemma index_sub_snoc:
  "index_sub [a, b] s = None \<Longrightarrow> c \<noteq> b \<Longrightarrow> index_sub [a, b] (s @ [c]) = None"
proof (induction s)
  case (Cons d s)
  then show ?case by (cases s) (auto simp: has_prefix_def split: if_splits)
qed (simp add: has_prefix_def)

lemma unquote_quoted: "unquote (trim_space (CHR '' '' # quoted_literal s)) = s"
proof -
  have "tight (quoted_literal s)" by (simp add: tight_def quoted_literal_def graphic_def byte_nat_def)
  then have "trim_space (CHR '' '' # quoted_literal s) = quoted_literal s"
    using paddedI(2) by (rule trim_padded)
  then show ?thesis by (simp add: unquote_def quoted_literal_def)
qed

lemma plain_field_facts:
  assumes "plain_field f"
  shows "tight f" and "c \<in> set ''!=&|'' \<Longrightarrow> c \<notin> set (f @ '' '')" and "trim_space (f @ '' '') = f"
proof -
  show "tight f" using assms by (auto simp: plain_field_def tight_def list_all_iff)
  then show "trim_space (f @ '' '') = f" using paddedI(3) by (rule trim_padded)
  show "c \<in> set ''!=&|'' \<Longrightarrow> c \<notin> set (f @ '' '')"
    using assms by (auto simp: plain_field_def list_all_iff)
qed

lemma comparison_tight: "comparison_ok a \<Longrightarrow> tight (comparison_text a)"
  using plain_field_facts(1) [of "cp_field a"]
  by (auto simp: comparison_ok_def tight_def comparison_text_def quoted_literal_def graphic_def byte_nat_def)

lemma eval_comparison:
  assumes "comparison_ok a" and "padded s (comparison_text a)"
  shows "evalAtom s values = Inr (holds values a)"
proof -
  have pf: "plain_field (cp_field a)" using assms(1) by (simp add: comparison_ok_def)
  note f = plain_field_facts(2,3) [OF pf]
  have ne: "cp_field a \<noteq> []" using pf by (simp add: plain_field_def)
  have trim: "trim_space s = comparison_text a"
    by (rule trim_padded [OF comparison_tight [OF assms(1)] assms(2)])
  show ?thesis
  proof (cases "cp_equal a")
    case False
    have "cut (comparison_text a) ''!='' = (cp_field a @ '' '', CHR '' '' # quoted_literal (cp_literal a), True)"
      using cut_at [of "''!=''" "cp_field a @ '' ''" "CHR '' '' # quoted_literal (cp_literal a)"] f(1) [of "CHR ''!''"] False
      by (simp add: comparison_text_def)
    with False f(2) ne show ?thesis
      by (simp add: evalAtom_def trim unquote_quoted holds_def)
  next
    case True
    have lit: "index_sub ''!='' (cp_literal a) = None"
      using assms(1) True by (simp add: comparison_ok_def contains_def)
    have "index_sub ''!='' (quoted_literal (cp_literal a)) = None"
      using index_sub_snoc [OF lit, of "CHR 0x27"] by (simp add: quoted_literal_def has_prefix_def)
    then have "index_sub ''!='' (comparison_text a) = None"
      using index_sub_skip_hd [of "''!=''" "cp_field a @ '' == ''"] f(1) [of "CHR ''!''"] True
      by (simp add: comparison_text_def)
    moreover have "cut (comparison_text a) ''=='' = (cp_field a @ '' '', CHR '' '' # quoted_literal (cp_literal a), True)"
      using cut_at [of "''==''" "cp_field a @ '' ''" "CHR '' '' # quoted_literal (cp_literal a)"] f(1) [of "CHR ''=''"] True
      by (simp add: comparison_text_def)
    ultimately show ?thesis
      using True f(2) ne by (simp add: evalAtom_def trim unquote_quoted holds_def cut_def [of _ "''!=''"])
  qed
qed

lemma all_atoms_padded:
  "list_all2 padded ss (map comparison_text qs) \<Longrightarrow> list_all comparison_ok qs \<Longrightarrow>
   all_atoms ss values = Inr (list_all (holds values) qs)"
proof (induction qs arbitrary: ss)
  case (Cons a qs)
  then obtain s ss' where "ss = s # ss'" "padded s (comparison_text a)" "list_all2 padded ss' (map comparison_text qs)"
    by (auto simp: list_all2_Cons2)
  with Cons eval_comparison [of a s "values"] show ?case by simp
qed simp

lemma eval_term_text:
  assumes "qs \<noteq> []" and "list_all comparison_ok qs" and "padded s (term_text qs)"
  shows "evalTerm s values = Inr (list_all (holds values) qs)"
proof -
  have sep: "separator ''&&''" by (simp add: separator_def)
  have "list_all (passes ''&&'') (map comparison_text qs)"
    using assms(2) passes_comparison [OF _ sep] by (simp add: list_all_iff)
  from splitTop_joined [OF sep _ this, of s] assms show ?thesis
    by (simp add: evalTerm_def term_text_def all_atoms_padded)
qed

lemma any_term_padded:
  "list_all2 padded ss (map term_text ts) \<Longrightarrow> list_all (\<lambda>qs. qs \<noteq> [] \<and> list_all comparison_ok qs) ts \<Longrightarrow>
   any_term ss values = Inr (list_ex (list_all (holds values)) ts)"
proof (induction ts arbitrary: ss)
  case (Cons t ts)
  then obtain s ss' where "ss = s # ss'" "padded s (term_text t)" "list_all2 padded ss' (map term_text ts)"
    by (auto simp: list_all2_Cons2)
  with Cons eval_term_text [of t s "values"] show ?case by simp
qed simp

lemma joined_tight: "ps \<noteq> [] \<Longrightarrow> list_all tight ps \<Longrightarrow> tight (joined sep ps)"
proof (induction ps rule: induct_list012)
  case (3 p q ps)
  then show ?case by (simp add: tight_def)
qed simp_all


definition demo_condition :: "comparison list list" where
  "demo_condition =
     [[\<lparr>cp_field = ''kind'', cp_equal = True, cp_literal = ''a && b || c''\<rparr>, \<lparr>cp_field = ''mode'', cp_equal = False, cp_literal = ''x''\<rparr>],
      [\<lparr>cp_field = ''auth'', cp_equal = True, cp_literal = ''token''\<rparr>]]"


definition bad_comparison :: comparison where
  "bad_comparison = \<lparr>cp_field = ''k'', cp_equal = True, cp_literal = ''a!=b''\<rparr>"

text \<open>A literal that holds \<^verbatim>\<open>!=\<close> breaks its comparison. \<^verbatim>\<open>evalAtom\<close> looks for \<^verbatim>\<open>!=\<close> before
  \<^verbatim>\<open>==\<close> and does not respect quotes, so a test of \<open>k\<close> for equality with \<^verbatim>\<open>a!=b\<close> is read as an
  inequality on a field that does not exist, and the form field is shown whatever the value of \<open>k\<close> is.\<close>

theorem condition_ignores_quotes:
  "Visible (comparison_text bad_comparison) [(''k'', v)] = Inr True"
proof -
  have c: "trim_space (comparison_text bad_comparison) = comparison_text bad_comparison"
    "splitTop (comparison_text bad_comparison) ''||'' = [comparison_text bad_comparison]"
    "splitTop (comparison_text bad_comparison) ''&&'' = [comparison_text bad_comparison]"
    "cut (comparison_text bad_comparison) ''!='' = (''k == '' @ [CHR 0x27] @ ''a'', ''b'' @ [CHR 0x27], True)"
    "trim_space (''k == '' @ [CHR 0x27] @ ''a'') = ''k == '' @ [CHR 0x27] @ ''a''"
    "unquote (trim_space (''b'' @ [CHR 0x27])) = ''b'' @ [CHR 0x27]"
    "comparison_text bad_comparison \<noteq> []"
    by code_simp+
  show ?thesis
    unfolding Visible_def evalTerm_def evalAtom_def c Let_def
    by (simp add: evalTerm_def evalAtom_def value_of_def c(1-4) c(7) c(5,6) [simplified])
qed

end
