(* ===== verification/Sch_Form.thy ===== *)
theory Sch_Form
  imports Sch_Condition
begin

text \<open>
  Forms and their values (\<^verbatim>\<open>pkg/schema/schema.go\<close>): validation, defaults and the redaction of
  secrets before values leave the process. Regular expressions are an argument: \<open>re p v\<close> is
  \<^term>\<open>None\<close> when the pattern does not compile and whether it matches otherwise.
\<close>

section \<open>The types\<close>

definition KindSelect :: string where "KindSelect = ''select''"

record form_option =
  fo_Value :: string
  fo_Label :: string

record form_field =
  ff_Name :: string
  ff_Label :: string
  ff_Kind :: string
  ff_Required :: bool
  ff_Default :: string
  ff_Options :: "form_option list"
  ff_ShowIf :: string
  ff_Secret :: bool
  ff_Pattern :: string

type_synonym form = "form_field list"

datatype form_error =
    BadCondition string condition_error
  | IsRequired string
  | BadPattern string
  | UnexpectedFormat string
  | NotAChoice string string

section \<open>The operations\<close>

fun is_choice :: "form_option list \<Rightarrow> string \<Rightarrow> bool" where
  "is_choice [] v = False"
| "is_choice (opt # opts) v = (if fo_Value opt = v then True else is_choice opts v)"

definition validate_value :: "(string \<Rightarrow> string \<Rightarrow> bool option) \<Rightarrow> form_field \<Rightarrow> string \<Rightarrow> form_error option" where
  "validate_value re f v =
     (case (if ff_Pattern f \<noteq> [] then
              (case re (ff_Pattern f) v of
                 None \<Rightarrow> Some (BadPattern (ff_Name f))
               | Some ok \<Rightarrow> if \<not> ok then Some (UnexpectedFormat (ff_Label f)) else None)
            else None) of
        Some e \<Rightarrow> Some e
      | None \<Rightarrow>
          if ff_Kind f = KindSelect \<and> 0 < length (ff_Options f) \<and> \<not> is_choice (ff_Options f) v
          then Some (NotAChoice (ff_Label f) v) else None)"

fun Form_Validate :: "(string \<Rightarrow> string \<Rightarrow> bool option) \<Rightarrow> form \<Rightarrow> (string, string) gomap \<Rightarrow> form_error option" where
  "Form_Validate re [] vs = None"
| "Form_Validate re (f # fs) vs =
     (case Visible (ff_ShowIf f) vs of
        Inl e \<Rightarrow> Some (BadCondition (ff_Name f) e)
      | Inr visible \<Rightarrow>
          if \<not> visible then Form_Validate re fs vs
          else let v = trim_space (value_of vs (ff_Name f)) in
            if v = [] then (if ff_Required f then Some (IsRequired (ff_Label f)) else Form_Validate re fs vs)
            else case validate_value re f v of
                Some e \<Rightarrow> Some e
              | None \<Rightarrow> Form_Validate re fs vs)"

fun Form_ApplyDefaults :: "form \<Rightarrow> (string, string) gomap \<Rightarrow> (string, string) gomap" where
  "Form_ApplyDefaults [] vs = vs"
| "Form_ApplyDefaults (f # fs) vs =
     Form_ApplyDefaults fs
       (if map_of vs (ff_Name f) = None \<and> ff_Default f \<noteq> [] then AList.update (ff_Name f) (ff_Default f) vs else vs)"

definition RedactedMarker :: string where
  "RedactedMarker = concat (replicate 8 [CHR 0xE2, CHR 0x80, CHR 0xA2])"

fun redact_fields :: "form \<Rightarrow> (string, string) gomap \<Rightarrow> (string, string) gomap" where
  "redact_fields [] out = out"
| "redact_fields (f # fs) out =
     redact_fields fs
       (if ff_Secret f \<and> value_of out (ff_Name f) \<noteq> [] then AList.update (ff_Name f) RedactedMarker out else out)"

definition Form_Redact :: "form \<Rightarrow> (string, string) gomap \<Rightarrow> (string, string) gomap" where
  "Form_Redact form vs = redact_fields form vs"

definition SecretNames :: "form \<Rightarrow> string list" where
  "SecretNames form = sort (map ff_Name (filter ff_Secret form))"

section \<open>What they promise\<close>

lemma is_choice_iff: "is_choice opts v \<longleftrightarrow> v \<in> fo_Value ` set opts"
  by (induction opts v rule: is_choice.induct) auto

text \<open>What one field asks of the values.\<close>

definition field_ok :: "(string \<Rightarrow> string \<Rightarrow> bool option) \<Rightarrow> (string, string) gomap \<Rightarrow> form_field \<Rightarrow> bool" where
  "field_ok re vs f \<longleftrightarrow>
     Visible (ff_ShowIf f) vs = Inr False \<or>
     (Visible (ff_ShowIf f) vs = Inr True \<and>
      (let v = trim_space (value_of vs (ff_Name f)) in
       if v = [] then \<not> ff_Required f
       else (ff_Pattern f = [] \<or> re (ff_Pattern f) v = Some True) \<and>
         (ff_Kind f \<noteq> KindSelect \<or> ff_Options f = [] \<or> v \<in> fo_Value ` set (ff_Options f))))"

text \<open>A form is accepted exactly when every field that is shown is filled in as it asks. Hidden
  fields ask nothing; a shown one must be there if required, match its pattern and be one of its
  choices; a condition or pattern that cannot be read is an error, never an acceptance.\<close>

theorem form_validate_exact: "Form_Validate re form vs = None \<longleftrightarrow> list_all (field_ok re vs) form"
proof (induction re form vs rule: Form_Validate.induct)
  case (2 re f fs vs)
  then show ?case
    by (auto simp: field_ok_def validate_value_def is_choice_iff Let_def split: sum.split option.splits if_splits)
qed simp

text \<open>Redaction hides every secret and nothing else. After it the value of a secret field is
  absent, empty or the marker, whatever the values were; every other key keeps its value, and no key
  appears or disappears.\<close>

theorem redact_hides:
  "map_of (Form_Redact form vs) n =
     (if n \<in> set (SecretNames form) \<and> value_of vs n \<noteq> [] then Some RedactedMarker else map_of vs n)"
proof -
  have marker: "RedactedMarker \<noteq> []" by (simp add: RedactedMarker_def)
  have "map_of (redact_fields form vs) n =
      (if n \<in> set (map ff_Name (filter ff_Secret form)) \<and> value_of vs n \<noteq> [] then Some RedactedMarker else map_of vs n)"
    using marker
    by (induction form vs rule: redact_fields.induct) (auto simp: value_of_def split: option.splits)
  then show ?thesis by (simp add: Form_Redact_def SecretNames_def)
qed

lemma defaults_keep: "map_of vs n = Some v \<Longrightarrow> map_of (Form_ApplyDefaults form vs) n = Some v"
proof (induction form vs rule: Form_ApplyDefaults.induct)
  case (2 f fs vs)
  then have "map_of (if map_of vs (ff_Name f) = None \<and> ff_Default f \<noteq> [] then AList.update (ff_Name f) (ff_Default f) vs else vs) n = Some v"
    by auto
  from "2.IH" [OF this] show ?case by simp
qed simp

text \<open>Defaults fill in what is absent, from the first field of that name that has one.\<close>

lemma defaults_exact:
  "map_of (Form_ApplyDefaults form vs) n =
     (case map_of vs n of
        Some v \<Rightarrow> Some v
      | None \<Rightarrow> map_option ff_Default (find (\<lambda>f. ff_Name f = n \<and> ff_Default f \<noteq> []) form))"
  by (induction form vs rule: Form_ApplyDefaults.induct) (auto simp: defaults_keep split: option.splits)

end
