(* ===== verification/Dns_Names.thy ===== *)
theory Dns_Names
  imports Sch_Form Go_Time
begin

text \<open>
  Names, records and lines of the DNS part (\<^verbatim>\<open>internal/dns/record.go\<close>, \<^verbatim>\<open>line.go\<close>, \<^verbatim>\<open>provider.go\<close>
  and \<^verbatim>\<open>NormaliseName\<close> of \<^verbatim>\<open>httpclient.go\<close>). Lower-casing outside ASCII is the argument \<open>u\<close>.
\<close>

section \<open>Records\<close>

definition TypeTXT :: string where "TypeTXT = ''TXT''"
definition TypeMX :: string where "TypeMX = ''MX''"
definition LineDefault :: string where "LineDefault = ''DEF''"
definition LineTelecom :: string where "LineTelecom = ''CT''"
definition LineUnicom :: string where "LineUnicom = ''CU''"
definition LineMobile :: string where "LineMobile = ''CM''"
definition LineOverseas :: string where "LineOverseas = ''AB''"

record dns_record =
  rd_ID :: string
  rd_Name :: string
  rd_Type :: string
  rd_Value :: string
  rd_TTL :: int
  rd_Line :: string
  rd_Priority :: int
  rd_Weight :: int
  rd_Remark :: string
  rd_Enabled :: bool
  rd_Proxied :: "bool option"

datatype record_error = NeedsType | NeedsValue | NegativeTTL | NegativePriority

definition Record_FQDN :: "dns_record \<Rightarrow> string \<Rightarrow> string" where
  "Record_FQDN r zone0 =
     (let zone = trim_suffix ''.'' zone0
      in if rd_Name r = [] \<or> rd_Name r = ''@'' then zone else rd_Name r @ ''.'' @ zone)"

definition Record_Validate :: "dns_record \<Rightarrow> record_error option" where
  "Record_Validate r =
     (if rd_Type r = [] then Some NeedsType
      else if trim_space (rd_Value r) = [] then Some NeedsValue
      else if rd_TTL r < 0 then Some NegativeTTL
      else if rd_Type r = TypeMX \<and> rd_Priority r < 0 then Some NegativePriority
      else None)"

definition NormaliseName :: "(string \<Rightarrow> string) \<Rightarrow> string \<Rightarrow> string \<Rightarrow> string" where
  "NormaliseName u fqdn0 zone0 =
     (let fqdn = trim_suffix ''.'' (to_lower u (trim_space fqdn0));
          zone = trim_suffix ''.'' (to_lower u (trim_space zone0))
      in if fqdn = zone \<or> fqdn = [] then ''@''
         else if has_suffix (''.'' @ zone) fqdn then trim_suffix (''.'' @ zone) fqdn
         else fqdn)"

record list_options =
  lo_Keyword :: string
  lo_Type :: string
  lo_Page :: int
  lo_PageSize :: int

definition ListOptions_Normalise :: "list_options \<Rightarrow> list_options" where
  "ListOptions_Normalise o1 =
     (let o2 = (if lo_Page o1 < 1 then o1\<lparr>lo_Page := 1\<rparr> else o1)
      in if lo_PageSize o2 < 1 then o2\<lparr>lo_PageSize := 100\<rparr> else o2)"

section \<open>Lines\<close>

definition AllLines :: "string list" where
  "AllLines = [LineDefault, LineTelecom, LineUnicom, LineMobile, LineOverseas]"

definition lines5 :: "string \<Rightarrow> string \<Rightarrow> string \<Rightarrow> string \<Rightarrow> string \<Rightarrow> (string, string) gomap" where
  "lines5 d t c m a = [(LineDefault, d), (LineTelecom, t), (LineUnicom, c), (LineMobile, m), (LineOverseas, a)]"

definition lines4 :: "string \<Rightarrow> string \<Rightarrow> string \<Rightarrow> string \<Rightarrow> (string, string) gomap" where
  "lines4 d t c m = [(LineDefault, d), (LineTelecom, t), (LineUnicom, c), (LineMobile, m)]"

definition lineTables :: "(string, (string, string) gomap) gomap" where
  "lineTables =
     [(''aliyun'', lines5 ''default'' ''telecom'' ''unicom'' ''mobile'' ''oversea''),
      (''dnspod'', lines5 ''0'' ''10=0'' ''10=1'' ''10=3'' ''3=0''),
      (''huawei'', lines5 ''default_view'' ''Dianxin'' ''Liantong'' ''Yidong'' ''Abroad''),
      (''west'', lines5 '''' ''LTEL'' ''LCNC'' ''LMOB'' ''LFOR''),
      (''baidu'', lines4 ''default'' ''ct'' ''cnc'' ''cmnet''),
      (''jdcloud'', lines5 ''-1'' ''1'' ''2'' ''3'' ''4''),
      (''huoshan'', lines5 ''default'' ''telecom'' ''unicom'' ''mobile'' ''oversea''),
      (''qingcloud'', lines5 ''0'' ''2'' ''3'' ''4'' ''8''),
      (''bt'', lines4 ''0'' ''285344768'' ''285345792'' ''285346816''),
      (''dnsla'', lines4 '''' ''84613316902921216'' ''84613316923892736'' ''84613316953252864''),
      (''cloudflare'', [(LineDefault, ''0'')]), (''namesilo'', [(LineDefault, ''default'')]),
      (''henet'', [(LineDefault, ''default'')]), (''powerdns'', [(LineDefault, ''default'')]),
      (''spaceship'', [(LineDefault, ''default'')]), (''technitium'', [(LineDefault, ''default'')]),
      (''aliyunesa'', [(LineDefault, ''0'')]), (''tencenteo'', [(LineDefault, ''Default'')])]"

definition ProviderLine :: "string \<Rightarrow> string \<Rightarrow> string option" where
  "ProviderLine provider line =
     (case map_of lineTables provider of
        None \<Rightarrow> None
      | Some tbl \<Rightarrow> map_of tbl (if line = [] then LineDefault else line))"

fun line_with :: "string \<Rightarrow> (string, string) gomap \<Rightarrow> string" where
  "line_with v [] = LineDefault"
| "line_with v ((line, candidate) # tbl) = (if candidate = v then line else line_with v tbl)"

definition LineFromProvider :: "string \<Rightarrow> string \<Rightarrow> string" where
  "LineFromProvider provider v =
     (case map_of lineTables provider of None \<Rightarrow> LineDefault | Some tbl \<Rightarrow> line_with v tbl)"

definition SupportedLines :: "string \<Rightarrow> string list" where
  "SupportedLines provider =
     (case map_of lineTables provider of
        None \<Rightarrow> [LineDefault]
      | Some tbl \<Rightarrow>
          (let ls = filter (\<lambda>l. map_of tbl l \<noteq> None) AllLines in if ls = [] then [LineDefault] else ls))"

definition KnownProviderTables :: "string list" where
  "KnownProviderTables = sort (map fst lineTables)"

definition Line_Label :: "string \<Rightarrow> string" where
  "Line_Label l =
     (if l = LineDefault \<or> l = [] then ''Default''
      else if l = LineTelecom then ''China Telecom''
      else if l = LineUnicom then ''China Unicom''
      else if l = LineMobile then ''China Mobile''
      else if l = LineOverseas then ''Overseas''
      else l)"

section \<open>Lines survive the provider\<close>

lemma line_with_inverse:
  "(line, v) \<in> set tbl \<Longrightarrow> distinct (map snd tbl) \<Longrightarrow> line_with v tbl = line"
  by (induction v tbl rule: line_with.induct) (auto intro: rev_image_eqI)

lemma lineTables_injective: "list_all (\<lambda>(p, tbl). distinct (map snd tbl)) lineTables"
  by code_simp

text \<open>A line is not changed by writing a record and reading it back. Every provider's table is
  injective, so the line read from the text a provider stores is the line that was written, in any
  iteration order of the table; exactly the lines of \<^verbatim>\<open>SupportedLines\<close> can be written.\<close>

theorem provider_line_roundtrip:
  assumes "ProviderLine provider line = Some v" and "map_of lineTables provider = Some tbl" and "set tbl' = set tbl" and "distinct tbl'"
  shows "LineFromProvider provider v = (if line = [] then LineDefault else line) \<and>
    line_with v tbl' = (if line = [] then LineDefault else line)"
proof -
  let ?l = "if line = [] then LineDefault else line"
  have v: "map_of tbl ?l = Some v" using assms(1,2) by (simp add: ProviderLine_def)
  have inj: "distinct (map snd tbl)"
    using list_all_map_of [OF lineTables_injective assms(2)] .
  have "inj_on snd (set tbl')" using inj assms(3) by (simp add: distinct_map)
  then have inj': "distinct (map snd tbl')" using assms(4) by (simp add: distinct_map)
  have mem: "(?l, v) \<in> set tbl'" using map_of_SomeD [OF v] assms(3) by simp
  have "line_with v tbl' = ?l" by (rule line_with_inverse [OF mem inj'])
  moreover have "line_with v tbl = ?l" by (rule line_with_inverse [OF map_of_SomeD [OF v] inj])
  ultimately show ?thesis using assms(2) by (simp add: LineFromProvider_def)
qed

lemma supported_lines_exact: "l \<in> set AllLines \<Longrightarrow> map_of lineTables p = Some tbl \<Longrightarrow>
  l \<in> set (SupportedLines p) \<longleftrightarrow> ProviderLine p l \<noteq> None"
proof -
  assume l: "l \<in> set AllLines" and tbl: "map_of lineTables p = Some tbl"
  have "list_all (\<lambda>(p, tbl). filter (\<lambda>l. map_of tbl l \<noteq> None) AllLines \<noteq> []) lineTables" by code_simp
  from list_all_map_of [OF this tbl] have "filter (\<lambda>l. map_of tbl l \<noteq> None) AllLines \<noteq> []" .
  moreover have "l \<noteq> []" using l by (auto simp: AllLines_def LineDefault_def LineTelecom_def LineUnicom_def LineMobile_def LineOverseas_def)
  ultimately show ?thesis using l tbl by (simp add: SupportedLines_def ProviderLine_def Let_def)
qed

section \<open>Names survive the zone\<close>

definition host_name :: "string \<Rightarrow> bool" where
  "host_name s \<longleftrightarrow> s \<noteq> [] \<and> list_all (\<lambda>c. graphic c \<and> lower_char c = c) s \<and> last s \<noteq> CHR ''.''"

lemma host_name_normal: "host_name s \<Longrightarrow> trim_suffix ''.'' (to_lower u (trim_space s)) = s"
proof -
  assume h: "host_name s"
  then have "trim_space s = s"
    by (intro trim_space_graphic) (auto simp: host_name_def list_all_iff)
  moreover have "to_lower u s = s"
    using h by (auto simp: host_name_def to_lower_def list_all_iff graphic_def is_ascii_def intro: map_idI)
  moreover have "\<not> has_suffix ''.'' s"
    using h by (auto simp: host_name_def has_suffix_iff)
  ultimately show ?thesis by (simp add: trim_suffix_def)
qed

lemma trim_dot_id: "host_name s \<Longrightarrow> trim_suffix ''.'' s = s"
  by (auto simp: host_name_def trim_suffix_def has_suffix_iff)

text \<open>A name is not changed by storing it relative to its zone. For a host name equal to the zone
  or below it, the record named by \<^verbatim>\<open>NormaliseName\<close> has that host name as its full name.\<close>

theorem fqdn_roundtrip:
  assumes "host_name fqdn" and "host_name zone" and "fqdn = zone \<or> (\<exists>p. fqdn = p @ ''.'' @ zone \<and> p \<noteq> [] \<and> p \<noteq> ''@'')"
    and "rd_Name r = NormaliseName u fqdn zone"
  shows "Record_FQDN r zone = fqdn"
proof -
  have fqdn: "fqdn \<noteq> []" using assms(1) by (simp add: host_name_def)
  note norm = host_name_normal [OF assms(1)] host_name_normal [OF assms(2)]
  from assms(3) show ?thesis
  proof
    assume "fqdn = zone"
    then show ?thesis using assms(4) norm by (simp add: NormaliseName_def Record_FQDN_def trim_dot_id [OF assms(2)])
  next
    assume "\<exists>p. fqdn = p @ ''.'' @ zone \<and> p \<noteq> [] \<and> p \<noteq> ''@''"
    then obtain p where p: "fqdn = p @ ''.'' @ zone" "p \<noteq> []" "p \<noteq> ''@''" by blast
    then have "fqdn \<noteq> zone" by simp
    then have "NormaliseName u fqdn zone = p"
      using norm fqdn trim_suffix_append [of "''.'' @ zone" p] has_suffix_append [of "''.'' @ zone" p] p(1)
      by (simp add: NormaliseName_def)
    with assms(4) p show ?thesis by (simp add: Record_FQDN_def trim_dot_id [OF assms(2)])
  qed
qed

end
