(* ===== verification/Dns_Solver.thy ===== *)
theory Dns_Solver
  imports Dns_Names
begin

text \<open>
  Answering an ACME challenge through a DNS provider (\<^verbatim>\<open>internal/dns/acmebridge.go\<close>): which zone of
  the account is used, which record is published and what is removed afterwards. A provider is what
  its \<^verbatim>\<open>AddRecord\<close> and \<^verbatim>\<open>DeleteRecord\<close> do with the state \<open>'s\<close> of the vendor's side; what the
  solver relies on is stated as \<open>provider_ok\<close>: an added record appears under a new id, a deleted one
  disappears, and a refused call changes nothing.
\<close>

section \<open>The solver\<close>

record ('s, 'e) provider =
  pv_add :: "string \<Rightarrow> dns_record \<Rightarrow> 's \<Rightarrow> ('e + string) \<times> 's"
  pv_delete :: "string \<Rightarrow> string \<Rightarrow> 's \<Rightarrow> 'e option \<times> 's"
  pv_MinTTL :: int

record solver =
  sv_zone :: string
  sv_created :: "(string, string) gomap"

definition NewSolver :: "(string \<Rightarrow> string) \<Rightarrow> string \<Rightarrow> solver" where
  "NewSolver u zone = \<lparr>sv_zone = trim_suffix ''.'' (to_lower u zone), sv_created = []\<rparr>"

definition acmePrefix :: string where "acmePrefix = ''_acme-challenge.''"

definition challengeKey :: "(string \<Rightarrow> string) \<Rightarrow> string \<Rightarrow> string" where
  "challengeKey u fqdn0 =
     (let fqdn = trim_prefix ''*.'' (trim_suffix ''.'' (to_lower u fqdn0))
      in if has_prefix acmePrefix fqdn then fqdn else acmePrefix @ fqdn)"

definition challengeToken :: "(string \<Rightarrow> string) \<Rightarrow> string \<Rightarrow> string \<Rightarrow> string" where
  "challengeToken u fqdn v = to_lower u (trim_suffix ''.'' fqdn) @ ''|'' @ v"

definition minChallengeTTL :: "int \<Rightarrow> int" where
  "minChallengeTTL minTTL = (if minTTL > 0 then minTTL else 600)"

definition challenge_record :: "(string \<Rightarrow> string) \<Rightarrow> int \<Rightarrow> string \<Rightarrow> string \<Rightarrow> string \<Rightarrow> dns_record" where
  "challenge_record u minTTL zone fqdn v =
     \<lparr>rd_ID = [], rd_Name = NormaliseName u (challengeKey u fqdn) zone, rd_Type = TypeTXT, rd_Value = v,
      rd_TTL = minChallengeTTL minTTL, rd_Line = LineDefault, rd_Priority = 0, rd_Weight = 0,
      rd_Remark = ''openfrp ACME challenge'', rd_Enabled = True, rd_Proxied = None\<rparr>"

definition solver_Present ::
  "(string \<Rightarrow> string) \<Rightarrow> ('s, 'e) provider \<Rightarrow> string \<Rightarrow> string \<Rightarrow> solver \<times> 's \<Rightarrow> 'e option \<times> solver \<times> 's" where
  "solver_Present u pv fqdn v st =
     (case st of (sv, s) \<Rightarrow>
      (case pv_add pv (sv_zone sv) (challenge_record u (pv_MinTTL pv) (sv_zone sv) fqdn v) s of
         (Inl e, s) \<Rightarrow> (Some e, sv, s)
       | (Inr i, s) \<Rightarrow>
           (None, sv\<lparr>sv_created := AList.update (challengeToken u fqdn v) i (sv_created sv)\<rparr>, s)))"

definition solver_CleanUp ::
  "(string \<Rightarrow> string) \<Rightarrow> ('s, 'e) provider \<Rightarrow> string \<Rightarrow> string \<Rightarrow> solver \<times> 's \<Rightarrow> 'e option \<times> solver \<times> 's" where
  "solver_CleanUp u pv fqdn v st =
     (case st of (sv, s) \<Rightarrow>
      (case map_of (sv_created sv) (challengeToken u fqdn v) of
         None \<Rightarrow> (None, sv, s)
       | Some i \<Rightarrow>
          (let sv = sv\<lparr>sv_created := AList.delete (challengeToken u fqdn v) (sv_created sv)\<rparr> in
           case pv_delete pv (sv_zone sv) i s of (e, s) \<Rightarrow> (e, sv, s))))"

definition solver_Timeout :: "int \<times> int" where
  "solver_Timeout = (10 * Minute, 15 * Second)"

section \<open>The zone\<close>

definition covers :: "string \<Rightarrow> string \<Rightarrow> bool" where
  "covers zone name \<longleftrightarrow> name = zone \<or> has_suffix (''.'' @ zone) name"

fun best_zone :: "(string \<Rightarrow> string) \<Rightarrow> string \<Rightarrow> string \<Rightarrow> string list \<Rightarrow> string" where
  "best_zone u name best [] = best"
| "best_zone u name best (d # ds) =
     (let zone = trim_suffix ''.'' (to_lower u d)
      in best_zone u name (if covers zone name \<and> length zone > length best then zone else best) ds)"

datatype 'e zone_error = ListZones 'e | NoZoneCovers string

definition RegistrableZone ::
  "(string \<Rightarrow> string) \<Rightarrow> ('e + string list) \<Rightarrow> string \<Rightarrow> 'e zone_error + string" where
  "RegistrableZone u listed fqdn =
     (let name = trim_suffix ''.'' (to_lower u (trim_prefix ''*.'' fqdn)) in
      case listed of
        Inl e \<Rightarrow> Inl (ListZones e)
      | Inr domains \<Rightarrow>
          (let best = best_zone u name [] domains
           in if best = [] then Inl (NoZoneCovers fqdn) else Inr best))"

lemma best_zone_facts:
  "(best_zone u name best ds = best \<or>
      best_zone u name best ds \<in> (\<lambda>d. trim_suffix ''.'' (to_lower u d)) ` set ds \<and> covers (best_zone u name best ds) name) \<and>
   length best \<le> length (best_zone u name best ds) \<and>
   (\<forall>d \<in> set ds. covers (trim_suffix ''.'' (to_lower u d)) name \<longrightarrow>
      length (trim_suffix ''.'' (to_lower u d)) \<le> length (best_zone u name best ds))"
proof (induction u name best ds rule: best_zone.induct)
  case (2 u name best d ds)
  let ?z = "trim_suffix ''.'' (to_lower u d)"
  show ?case
    using "2.IH" [OF refl] by (cases "covers ?z name \<and> length ?z > length best") (auto simp: Let_def)
qed simp

lemma covers_same_length: "covers z name \<Longrightarrow> covers z' name \<Longrightarrow> length z = length z' \<Longrightarrow> z = z'"
proof -
  have suffix: "covers z name \<Longrightarrow> \<exists>t. name = t @ z" for z
    unfolding covers_def has_suffix_iff by (metis append.assoc append_Nil)
  assume "covers z name" "covers z' name" and len: "length z = length z'"
  then obtain t t' where "name = t @ z" "name = t' @ z'" using suffix by metis
  then have "t @ z = t' @ z'" by simp
  with len show ?thesis by simp
qed

text \<open>The zone chosen for a name is the closest one the account has. \<^verbatim>\<open>RegistrableZone\<close> answers
  a zone exactly when it is one of the account's, is the name or a parent of it, and no zone of the
  account that covers the name is longer; there is at most one such zone, and if there is none that is
  the error.\<close>

theorem registrable_zone_closest:
  "(RegistrableZone u (Inr domains) fqdn = Inr z) =
     (z \<noteq> [] \<and> z \<in> (\<lambda>d. trim_suffix ''.'' (to_lower u d)) ` set domains \<and>
      covers z (trim_suffix ''.'' (to_lower u (trim_prefix ''*.'' fqdn))) \<and>
      (\<forall>d \<in> set domains. covers (trim_suffix ''.'' (to_lower u d)) (trim_suffix ''.'' (to_lower u (trim_prefix ''*.'' fqdn))) \<longrightarrow>
         length (trim_suffix ''.'' (to_lower u d)) \<le> length z))" (is "?found = ?closest")
proof -
  define name where "name = trim_suffix ''.'' (to_lower u (trim_prefix ''*.'' fqdn))"
  define best where "best = best_zone u name [] domains"
  have b: "best = [] \<or> (best \<in> (\<lambda>d. trim_suffix ''.'' (to_lower u d)) ` set domains \<and> covers best name)"
    "\<forall>d \<in> set domains. covers (trim_suffix ''.'' (to_lower u d)) name \<longrightarrow> length (trim_suffix ''.'' (to_lower u d)) \<le> length best"
    using best_zone_facts [of u name "[]" domains] unfolding best_def by blast+
  have found: "?found \<longleftrightarrow> best \<noteq> [] \<and> z = best"
    by (auto simp only: RegistrableZone_def Let_def name_def [symmetric] best_def [symmetric] sum.case split: if_splits)
  have only: "best \<noteq> [] \<and> z = best" if c: "z \<noteq> [] \<and> z \<in> (\<lambda>d. trim_suffix ''.'' (to_lower u d)) ` set domains \<and> covers z name \<and>
      (\<forall>d \<in> set domains. covers (trim_suffix ''.'' (to_lower u d)) name \<longrightarrow> length (trim_suffix ''.'' (to_lower u d)) \<le> length z)"
  proof -
    have len: "length z \<le> length best" using c b(2) by blast
    have ne: "best \<noteq> []" using len c by (cases best) simp_all
    with b(1) have best: "best \<in> (\<lambda>d. trim_suffix ''.'' (to_lower u d)) ` set domains" "covers best name" by blast+
    then have "length best \<le> length z" using c by blast
    with len have "z = best" using covers_same_length [of z name best] c best(2) by simp
    with ne show ?thesis by blast
  qed
  have is_closest: "z \<noteq> [] \<and> z \<in> (\<lambda>d. trim_suffix ''.'' (to_lower u d)) ` set domains \<and> covers z name \<and>
      (\<forall>d \<in> set domains. covers (trim_suffix ''.'' (to_lower u d)) name \<longrightarrow> length (trim_suffix ''.'' (to_lower u d)) \<le> length z)" if "best \<noteq> []" "z = best"
    using b that(1) unfolding that(2) by blast
  show ?thesis
    unfolding name_def [symmetric] using found only is_closest by blast
qed

theorem registrable_zone_closest_witness:
  "RegistrableZone id (Inr [''Example.com.'', ''home.example.com'', ''ample.com'']) ''*.nas.home.example.com'' = Inr ''home.example.com''"
proof -
  let ?ds = "[''Example.com.'', ''home.example.com'', ''ample.com'']"
  have "''home.example.com'' \<noteq> [] \<and> ''home.example.com'' \<in> (\<lambda>d. trim_suffix ''.'' (to_lower id d)) ` set ?ds \<and>
      covers ''home.example.com'' (trim_suffix ''.'' (to_lower id (trim_prefix ''*.'' ''*.nas.home.example.com''))) \<and>
      (\<forall>d \<in> set ?ds. covers (trim_suffix ''.'' (to_lower id d)) (trim_suffix ''.'' (to_lower id (trim_prefix ''*.'' ''*.nas.home.example.com''))) \<longrightarrow>
         length (trim_suffix ''.'' (to_lower id d)) \<le> length ''home.example.com'')"
    by code_simp
  then show ?thesis by (rule registrable_zone_closest [THEN iffD2])
qed

text \<open>A challenge for a name outside the solver's zone is published under another name: below both.\<close>

lemma challenge_outside_zone:
  assumes "host_name (challengeKey u d)" and "host_name zone" and "\<not> covers zone (challengeKey u d)" and "challengeKey u d \<noteq> ''@''"
  shows "Record_FQDN (challenge_record u ttl zone d v) zone = challengeKey u d @ ''.'' @ zone"
proof -
  have key: "challengeKey u d \<noteq> []" using assms(1) by (simp add: host_name_def)
  have out: "challengeKey u d \<noteq> zone" "\<not> has_suffix (''.'' @ zone) (challengeKey u d)"
    using assms(3) by (simp_all only: covers_def de_Morgan_disj not_False_eq_True)
  have "NormaliseName u (challengeKey u d) zone = challengeKey u d"
    by (simp only: NormaliseName_def Let_def host_name_normal [OF assms(1)] host_name_normal [OF assms(2)] out key
        if_False simp_thms)
  then have "rd_Name (challenge_record u ttl zone d v) = challengeKey u d" by (simp only: challenge_record_def dns_record.simps)
  then show ?thesis by (simp only: Record_FQDN_def Let_def trim_dot_id [OF assms(2)] key assms(4) if_False simp_thms)
qed

section \<open>Nothing is left behind\<close>

definition provider_ok :: "('s, 'e) provider \<Rightarrow> ('s \<Rightarrow> string \<Rightarrow> dns_record option) \<Rightarrow> bool" where
  "provider_ok pv recs \<longleftrightarrow>
     (\<forall>z r s. case pv_add pv z r s of
        (Inl e, s') \<Rightarrow> recs s' = recs s
      | (Inr i, s') \<Rightarrow> recs s i = None \<and> recs s' = (recs s)(i \<mapsto> r)) \<and>
     (\<forall>z i s. case pv_delete pv z i s of
        (None, s') \<Rightarrow> recs s' = (recs s)(i := None)
      | (Some e, s') \<Rightarrow> recs s' = recs s)"

datatype solver_op = Presenting string string | Cleaning string string

fun solver_step :: "(string \<Rightarrow> string) \<Rightarrow> ('s, 'e) provider \<Rightarrow> solver_op \<Rightarrow> solver \<times> 's \<Rightarrow> 'e option \<times> solver \<times> 's" where
  "solver_step u pv (Presenting fqdn v) st = solver_Present u pv fqdn v st"
| "solver_step u pv (Cleaning fqdn v) st = solver_CleanUp u pv fqdn v st"

text \<open>A run in which a challenge is not published again while it is published, and every removal
  succeeds; publications may be refused.\<close>

inductive solver_run :: "(string \<Rightarrow> string) \<Rightarrow> ('s, 'e) provider \<Rightarrow> solver \<times> 's \<Rightarrow> solver_op list \<Rightarrow> solver \<times> 's \<Rightarrow> bool"
  for u pv where
  run_Nil: "solver_run u pv st [] st"
| run_Present:
    "map_of (sv_created (fst st)) (challengeToken u fqdn v) = None \<Longrightarrow>
     solver_Present u pv fqdn v st = (e, st') \<Longrightarrow> solver_run u pv st' ops st'' \<Longrightarrow>
     solver_run u pv st (Presenting fqdn v # ops) st''"
| run_CleanUp:
    "solver_CleanUp u pv fqdn v st = (None, st') \<Longrightarrow> solver_run u pv st' ops st'' \<Longrightarrow>
     solver_run u pv st (Cleaning fqdn v # ops) st''"

inductive_cases run_NilE: "solver_run u pv st [] st'"
inductive_cases run_ConsE: "solver_run u pv st (op # ops) st'"

definition solver_inv ::
  "(string \<Rightarrow> dns_record option) \<Rightarrow> (string, string) gomap \<Rightarrow> (string \<Rightarrow> dns_record option) \<Rightarrow> bool" where
  "solver_inv base created m \<longleftrightarrow>
     gomap_ok created \<and> distinct (map snd created) \<and>
     (\<forall>i \<in> snd ` set created. base i = None \<and> m i \<noteq> None) \<and>
     (\<forall>i. i \<notin> snd ` set created \<longrightarrow> m i = base i)"

lemma solver_inv_add:
  assumes "solver_inv base created m" and "map_of created t = None" and "m i = None"
  shows "solver_inv base (created @ [(t, i)]) (m(i \<mapsto> r))"
proof -
  have new: "i \<notin> snd ` set created" using assms(1,3) by (auto simp: solver_inv_def)
  moreover from this have "base i = None" using assms(1,3) by (simp add: solver_inv_def)
  moreover have "t \<notin> fst ` set created" using assms(2) by (simp add: map_of_eq_None_iff)
  ultimately show ?thesis
    using assms(1) unfolding solver_inv_def gomap_ok_def by auto
qed

lemma solver_inv_delete:
  assumes "solver_inv base (xs @ (t, i) # ys) m"
  shows "solver_inv base (xs @ ys) (m(i := None))"
  using assms unfolding solver_inv_def gomap_ok_def by auto

lemma provider_add:
  assumes "provider_ok pv recs"
  shows "pv_add pv z r s = (Inl e, s') \<Longrightarrow> recs s' = recs s"
    and "pv_add pv z r s = (Inr i, s') \<Longrightarrow> recs s i = None \<and> recs s' = (recs s)(i \<mapsto> r)"
proof -
  have law: "case pv_add pv z r s of
        (Inl e, s') \<Rightarrow> recs s' = recs s
      | (Inr i, s') \<Rightarrow> recs s i = None \<and> recs s' = (recs s)(i \<mapsto> r)"
    by (rule assms [unfolded provider_ok_def, THEN conjunct1, THEN spec, THEN spec, THEN spec])
  show "pv_add pv z r s = (Inl e, s') \<Longrightarrow> recs s' = recs s"
    and "pv_add pv z r s = (Inr i, s') \<Longrightarrow> recs s i = None \<and> recs s' = (recs s)(i \<mapsto> r)"
    using law by simp_all
qed

lemma provider_delete:
  assumes "provider_ok pv recs" and "pv_delete pv z i s = (None, s')"
  shows "recs s' = (recs s)(i := None)"
proof -
  have "case pv_delete pv z i s of (None, s') \<Rightarrow> recs s' = (recs s)(i := None) | (Some e, s') \<Rightarrow> recs s' = recs s"
    by (rule assms(1) [unfolded provider_ok_def, THEN conjunct2, THEN spec, THEN spec, THEN spec])
  with assms(2) show ?thesis by simp
qed

lemma solver_inv_present:
  assumes "provider_ok pv recs" and "solver_inv base (sv_created sv) (recs s)"
    and "map_of (sv_created sv) (challengeToken u fqdn v) = None" and "solver_Present u pv fqdn v (sv, s) = (e, sv', s')"
  shows "solver_inv base (sv_created sv') (recs s')"
proof -
  let ?r = "challenge_record u (pv_MinTTL pv) (sv_zone sv) fqdn v"
  obtain x s2 where add: "pv_add pv (sv_zone sv) ?r s = (x, s2)" by fastforce
  show ?thesis
  proof (cases x)
    case (Inl e2)
    with add assms(4) have "sv' = sv" "s' = s2" by (simp_all add: solver_Present_def)
    with provider_add(1) [OF assms(1) add [unfolded Inl]] assms(2) show ?thesis by simp
  next
    case (Inr i)
    with add assms(4) have "sv' = sv\<lparr>sv_created := AList.update (challengeToken u fqdn v) i (sv_created sv)\<rparr>" "s' = s2"
      by (simp_all add: solver_Present_def)
    with provider_add(2) [OF assms(1) add [unfolded Inr]] solver_inv_add [OF assms(2,3)] assms(3) show ?thesis
      by (simp add: update_absent)
  qed
qed

lemma solver_inv_cleanup:
  assumes "provider_ok pv recs" and "solver_inv base (sv_created sv) (recs s)"
    and "solver_CleanUp u pv fqdn v (sv, s) = (None, sv', s')"
  shows "solver_inv base (sv_created sv') (recs s')"
proof (cases "map_of (sv_created sv) (challengeToken u fqdn v)")
  case None
  with assms(2,3) show ?thesis by (simp add: solver_CleanUp_def)
next
  case (Some i)
  obtain x s2 where del: "pv_delete pv (sv_zone sv) i s = (x, s2)" by fastforce
  with Some assms(3) have x: "x = None" "s' = s2"
    and sv': "sv' = sv\<lparr>sv_created := AList.delete (challengeToken u fqdn v) (sv_created sv)\<rparr>"
    by (auto simp: solver_CleanUp_def Let_def)
  have "gomap_ok (sv_created sv)" using assms(2) by (simp add: solver_inv_def)
  from gomap_split [OF this Some] obtain xs ys where
    "sv_created sv = xs @ (challengeToken u fqdn v, i) # ys" "AList.delete (challengeToken u fqdn v) (sv_created sv) = xs @ ys"
    by blast
  with assms(2) provider_delete [OF assms(1) del [unfolded x(1)]] solver_inv_delete show ?thesis
    by (simp add: sv' x(2))
qed

lemma solver_run_inv:
  assumes "provider_ok pv recs"
  shows "solver_run u pv st ops st' \<Longrightarrow> solver_inv base (sv_created (fst st)) (recs (snd st)) \<Longrightarrow>
    solver_inv base (sv_created (fst st')) (recs (snd st'))"
proof (induction rule: solver_run.induct)
  case (run_Present st fqdn v e st' ops st'')
  then show ?case
    using solver_inv_present [OF assms, of base "fst st" "snd st" u fqdn v e "fst st'" "snd st'"] by simp
next
  case (run_CleanUp fqdn v st st' ops st'')
  then show ?case
    using solver_inv_cleanup [OF assms, of base "fst st" "snd st" u fqdn v "fst st'" "snd st'"] by simp
qed


text \<open>A removal the provider refused is forgotten: asking again answers success and removes nothing.\<close>

lemma cleanup_not_retried:
  assumes "gomap_ok (sv_created sv)" and "solver_CleanUp u pv fqdn v (sv, s) = (Some e, sv', s')"
  shows "solver_CleanUp u pv fqdn v (sv', s') = (None, sv', s')"
  using assms by (auto simp: solver_CleanUp_def Let_def split: option.splits prod.splits)

text \<open>A vendor that takes every record and removes it again.\<close>

definition new_id :: "(string, dns_record) gomap \<Rightarrow> string" where
  "new_id m = replicate (Suc (sum_list (map (\<lambda>e. length (fst e)) m))) (CHR ''x'')"

definition plain_vendor :: "((string, dns_record) gomap, string) provider" where
  "plain_vendor = \<lparr>pv_add = (\<lambda>z r m. (Inr (new_id m), (new_id m, r) # m)),
     pv_delete = (\<lambda>z i m. (None, AList.delete i m)), pv_MinTTL = 0\<rparr>"

lemma new_id_fresh: "map_of m (new_id m) = None"
proof -
  have "e \<in> set m \<Longrightarrow> length (fst e) \<le> sum_list (map (\<lambda>e. length (fst e)) m)" for e
    by (induction m) auto
  then have "e \<in> set m \<Longrightarrow> fst e \<noteq> new_id m" for e
    unfolding new_id_def by (metis Suc_n_not_le_n length_replicate)
  then show ?thesis by (force simp: map_of_eq_None_iff)
qed

lemma plain_vendor_ok: "provider_ok plain_vendor map_of"
  by (auto simp: provider_ok_def plain_vendor_def new_id_fresh)

definition web_record :: dns_record where
  "web_record = challenge_record id 0 ''example.com'' ''www.example.com'' ''1''"

definition demo_zone :: "(string, dns_record) gomap" where
  "demo_zone = [(''a1'', web_record)]"


end
