(* ===== verification/Dns_Registry.thy ===== *)
theory Dns_Registry
  imports Dns_Names Sch_Form
begin

text \<open>
  The registry of DNS providers (\<^verbatim>\<open>internal/dns/provider.go\<close>): what a provider says of itself and how
  one is made from the values of an account. A factory is code of a provider; \<open>'p\<close> is what it makes.
  \<^verbatim>\<open>Register\<close> panics on a mistake of the program, which is \<^term>\<open>None\<close>.
\<close>

record capabilities =
  cb_Remark :: nat
  cb_Status :: bool
  cb_Log :: bool
  cb_Weight :: bool
  cb_Redirect :: bool
  cb_Proxy :: bool
  cb_AddZone :: bool
  cb_Paginated :: bool
  cb_MinTTL :: int
  cb_Lines :: "string list"

record descriptor =
  ds_Key :: string
  ds_Label :: string
  ds_Form :: form
  ds_Capabilities :: capabilities

datatype provider_error =
    UnknownProvider string
  | BadAccount string form_error
  | FactoryFailed string

type_synonym 'p registration = "descriptor \<times> ((string, string) gomap \<Rightarrow> string + 'p)"
type_synonym 'p dns_registry = "(string, 'p registration) gomap"

definition dns_Register ::
  "descriptor \<Rightarrow> ((string, string) gomap \<Rightarrow> string + 'p) \<Rightarrow> 'p dns_registry \<Rightarrow> 'p dns_registry option" where
  "dns_Register desc factory reg =
     (if ds_Key desc = [] then None
      else if map_of reg (ds_Key desc) \<noteq> None then None
      else let desc = (if cb_Lines (ds_Capabilities desc) = []
            then desc\<lparr>ds_Capabilities := (ds_Capabilities desc)\<lparr>cb_Lines := SupportedLines (ds_Key desc)\<rparr>\<rparr> else desc)
        in Some (AList.update (ds_Key desc) (desc, factory) reg))"

definition provider_New ::
  "(string \<Rightarrow> string \<Rightarrow> bool option) \<Rightarrow> 'p dns_registry \<Rightarrow> string \<Rightarrow> (string, string) gomap \<Rightarrow> provider_error + 'p" where
  "provider_New re reg key vs0 =
     (case map_of reg key of
        None \<Rightarrow> Inl (UnknownProvider key)
      | Some (desc, factory) \<Rightarrow>
          (let vs = Form_ApplyDefaults (ds_Form desc) vs0 in
           case Form_Validate re (ds_Form desc) vs of
             Some e \<Rightarrow> Inl (BadAccount (ds_Label desc) e)
           | None \<Rightarrow> (case factory vs of Inl e \<Rightarrow> Inl (FactoryFailed e) | Inr p \<Rightarrow> Inr p)))"

definition Describe :: "'p dns_registry \<Rightarrow> string \<Rightarrow> descriptor option" where
  "Describe reg key = map_option fst (map_of reg key)"

definition Descriptors :: "'p dns_registry \<Rightarrow> descriptor list" where
  "Descriptors reg = sort_key ds_Key (map (fst \<circ> snd) reg)"

definition Keys :: "'p dns_registry \<Rightarrow> string list" where
  "Keys reg = map ds_Key (Descriptors reg)"

section \<open>Facts\<close>

text \<open>A registry the program built: every descriptor is found under its own key and names lines.\<close>

definition registry_ok :: "'p dns_registry \<Rightarrow> bool" where
  "registry_ok reg \<longleftrightarrow> gomap_ok reg \<and>
     (\<forall>k d f. map_of reg k = Some (d, f) \<longrightarrow> ds_Key d = k \<and> k \<noteq> [] \<and> cb_Lines (ds_Capabilities d) \<noteq> [])"

lemma supported_lines_nonempty: "SupportedLines key \<noteq> []"
  by (simp add: SupportedLines_def Let_def split: option.split)

lemma registry_ok_empty: "registry_ok []"
  by (simp add: registry_ok_def)

lemma registry_ok_register:
  assumes "registry_ok reg" and "dns_Register desc factory reg = Some reg'"
  shows "registry_ok reg'"
proof -
  obtain d where d: "reg' = AList.update (ds_Key desc) (d, factory) reg" "ds_Key d = ds_Key desc" "ds_Key desc \<noteq> []"
    "cb_Lines (ds_Capabilities d) \<noteq> []"
    using assms(2) supported_lines_nonempty [of "ds_Key desc"] by (auto simp: dns_Register_def Let_def split: if_splits)
  have ok: "gomap_ok reg" "\<And>k d f. map_of reg k = Some (d, f) \<Longrightarrow> ds_Key d = k \<and> k \<noteq> [] \<and> cb_Lines (ds_Capabilities d) \<noteq> []"
    using assms(1) unfolding registry_ok_def by blast+
  show ?thesis
    unfolding registry_ok_def d(1)
  proof (intro conjI allI impI)
    fix k d' f
    assume "map_of (AList.update (ds_Key desc) (d, factory) reg) k = Some (d', f)"
    then have "(k = ds_Key desc \<and> d' = d) \<or> map_of reg k = Some (d', f)" by (auto split: if_splits)
    then have "ds_Key d' = k \<and> k \<noteq> [] \<and> cb_Lines (ds_Capabilities d') \<noteq> []"
      using d(2-4) ok(2) [of k d' f] by (elim disjE) auto
    then show "ds_Key d' = k" "k \<noteq> []" "cb_Lines (ds_Capabilities d') \<noteq> []" by simp_all
  qed (use ok(1) in simp)
qed

end
