(* ===== verification/Sto_Records.thy ===== *)
theory Sto_Records
  imports Go_Strings
begin

text \<open>
  The accounts and certificate orders of the client's database:
  \<^verbatim>\<open>internal/storage/repo/account.go\<close>, \<^verbatim>\<open>acmeaccount.go\<close> and \<^verbatim>\<open>certorder.go\<close>. What each SQL statement does to
  the tables is written out, the constraints of the schema included; rows stand in the order of their
  ids, which are never used twice. Any statement may be refused (a full disk, a busy database):
  \<open>db_refused\<close> tells which, by their number, and a refused statement changes nothing. Lists and maps
  that the columns hold as JSON are kept as such.
\<close>

section \<open>Tables\<close>

record dns_account =
  da_ID :: int
  da_Name :: string
  da_Provider :: string
  da_Credentials :: "(string, string) gomap"
  da_CreatedAt :: int
  da_UpdatedAt :: int

record acme_row =
  am_ID :: int
  am_CA :: string
  am_Email :: string
  am_PrivateKey :: bytes
  am_Registration :: bytes
  am_EABKeyID :: string
  am_EABHMAC :: string
  am_CreatedAt :: int

definition StatePending :: string where "StatePending = ''pending''"
definition StateIssuing :: string where "StateIssuing = ''issuing''"
definition StateIssued :: string where "StateIssued = ''issued''"
definition StateFailed :: string where "StateFailed = ''failed''"

record order_row =
  ow_ID :: int
  ow_Domains :: "string list"
  ow_KeyType :: string
  ow_CA :: string
  ow_AccountID :: "int option"
  ow_Email :: string
  ow_AutoRenew :: bool
  ow_State :: string
  ow_LastError :: string
  ow_Certificate :: bytes
  ow_PrivateKey :: bytes
  ow_IssuedAt :: "int option"
  ow_ExpiresAt :: "int option"
  ow_CreatedAt :: int
  ow_UpdatedAt :: int

record cert_order =
  od_ID :: int
  od_Domains :: "string list"
  od_KeyType :: string
  od_CA :: string
  od_AccountID :: int
  od_Email :: string
  od_AutoRenew :: "bool option"
  od_State :: string
  od_LastError :: string
  od_Certificate :: bytes
  od_PrivateKey :: bytes
  od_IssuedAt :: int
  od_ExpiresAt :: int
  od_CreatedAt :: int
  od_UpdatedAt :: int

record order_event =
  ev_ID :: int
  ev_Order :: int
  ev_Kind :: string
  ev_Detail :: string
  ev_CreatedAt :: int

record database =
  db_accounts :: "dns_account list"
  db_acme :: "acme_row list"
  db_orders :: "order_row list"
  db_events :: "order_event list"
  db_ids :: "int \<times> int \<times> int \<times> int"
  db_statements :: nat
  db_refused :: "nat \<Rightarrow> bool"
  db_clock :: "nat \<Rightarrow> int"

datatype repo_error = Refused | Missing int | Taken string

text \<open>One statement: whether it is carried out, when, and the database that counts it.\<close>

definition statement :: "database \<Rightarrow> bool \<times> int \<times> database" where
  "statement db =
     (\<not> db_refused db (db_statements db), db_clock db (db_statements db), db\<lparr>db_statements := Suc (db_statements db)\<rparr>)"

definition null_int :: "int option \<Rightarrow> int" where
  "null_int v = (case v of None \<Rightarrow> 0 | Some i \<Rightarrow> i)"

definition nullableID :: "int \<Rightarrow> int option" where
  "nullableID i = (if i = 0 then None else Some i)"

section \<open>DNS accounts\<close>

definition Accounts_List :: "database \<Rightarrow> (repo_error + dns_account list) \<times> database" where
  "Accounts_List db0 =
     (case statement db0 of (ok, now, db) \<Rightarrow>
        (if ok then Inr (sort_key da_Name (db_accounts db)) else Inl Refused, db))"

definition Accounts_Get :: "int \<Rightarrow> database \<Rightarrow> (repo_error + dns_account) \<times> database" where
  "Accounts_Get i db0 =
     (case statement db0 of (ok, now, db) \<Rightarrow>
        (if \<not> ok then Inl Refused
         else case find (\<lambda>a. da_ID a = i) (db_accounts db) of None \<Rightarrow> Inl (Missing i) | Some a \<Rightarrow> Inr a, db))"

definition Accounts_Create :: "dns_account \<Rightarrow> database \<Rightarrow> (repo_error + dns_account) \<times> database" where
  "Accounts_Create a db0 =
     (case statement db0 of (ok, now, db) \<Rightarrow>
        if \<not> ok then (Inl Refused, db)
        else if da_Name a \<in> da_Name ` set (db_accounts db) then (Inl (Taken (da_Name a)), db)
        else let a = a\<lparr>da_ID := fst (db_ids db), da_CreatedAt := now, da_UpdatedAt := now\<rparr> in
          (Inr a, db\<lparr>db_accounts := db_accounts db @ [a], db_ids := (fst (db_ids db) + 1, snd (db_ids db))\<rparr>))"

definition Accounts_Update :: "dns_account \<Rightarrow> database \<Rightarrow> repo_error option \<times> database" where
  "Accounts_Update a db0 =
     (case statement db0 of (ok, now, db) \<Rightarrow>
        if \<not> ok then (Some Refused, db)
        else if da_ID a \<notin> da_ID ` set (db_accounts db) then (Some (Missing (da_ID a)), db)
        else if \<exists>b \<in> set (db_accounts db). da_ID b \<noteq> da_ID a \<and> da_Name b = da_Name a then (Some (Taken (da_Name a)), db)
        else (None, db\<lparr>db_accounts := map (\<lambda>b. if da_ID b = da_ID a
            then b\<lparr>da_Name := da_Name a, da_Provider := da_Provider a, da_Credentials := da_Credentials a, da_UpdatedAt := now\<rparr>
            else b) (db_accounts db)\<rparr>))"

text \<open>An order refers to its account with \<^verbatim>\<open>ON DELETE SET NULL\<close>.\<close>

definition Accounts_Delete :: "int \<Rightarrow> database \<Rightarrow> repo_error option \<times> database" where
  "Accounts_Delete i db0 =
     (case statement db0 of (ok, now, db) \<Rightarrow>
        if \<not> ok then (Some Refused, db)
        else if i \<notin> da_ID ` set (db_accounts db) then (Some (Missing i), db)
        else (None, db\<lparr>db_accounts := filter (\<lambda>a. da_ID a \<noteq> i) (db_accounts db),
                       db_orders := map (\<lambda>r. if ow_AccountID r = Some i then r\<lparr>ow_AccountID := None\<rparr> else r) (db_orders db)\<rparr>))"

section \<open>ACME accounts\<close>

definition ACME_Find :: "string \<Rightarrow> string \<Rightarrow> database \<Rightarrow> (repo_error + acme_row) \<times> database" where
  "ACME_Find ca email db0 =
     (case statement db0 of (ok, now, db) \<Rightarrow>
        (if \<not> ok then Inl Refused
         else case find (\<lambda>a. am_CA a = ca \<and> am_Email a = email) (db_acme db) of
             None \<Rightarrow> Inl (Missing 0) | Some a \<Rightarrow> Inr a, db))"

definition FindEAB :: "string \<Rightarrow> database \<Rightarrow> (repo_error + string \<times> string) \<times> database" where
  "FindEAB ca db0 =
     (case statement db0 of (ok, now, db) \<Rightarrow>
        (if \<not> ok then Inl Refused
         else case find (\<lambda>a. am_CA a = ca \<and> am_EABKeyID a \<noteq> []) (rev (db_acme db)) of
             None \<Rightarrow> Inl (Missing 0) | Some a \<Rightarrow> Inr (am_EABKeyID a, am_EABHMAC a), db))"

definition acme_merge :: "acme_row \<Rightarrow> acme_row \<Rightarrow> acme_row" where
  "acme_merge new old =
     old\<lparr>am_PrivateKey := (if am_PrivateKey new \<noteq> [] then am_PrivateKey new else am_PrivateKey old),
         am_Registration := (if am_Registration new \<noteq> [] then am_Registration new else am_Registration old),
         am_EABKeyID := am_EABKeyID new, am_EABHMAC := am_EABHMAC new\<rparr>"

definition ACME_Save :: "acme_row \<Rightarrow> database \<Rightarrow> (repo_error + acme_row) \<times> database" where
  "ACME_Save a db0 =
     (case statement db0 of (ok, now, db) \<Rightarrow>
        if \<not> ok then (Inl Refused, db)
        else case find (\<lambda>b. am_CA b = am_CA a \<and> am_Email b = am_Email a) (db_acme db) of
          Some old \<Rightarrow>
            (Inr (a\<lparr>am_ID := am_ID old, am_CreatedAt := am_CreatedAt old\<rparr>),
             db\<lparr>db_acme := map (\<lambda>b. if am_CA b = am_CA a \<and> am_Email b = am_Email a then acme_merge a b else b) (db_acme db)\<rparr>)
        | None \<Rightarrow>
            (case db_ids db of (i, j, ks) \<Rightarrow>
               (let a = a\<lparr>am_ID := j, am_CreatedAt := now\<rparr> in
                (Inr a, db\<lparr>db_acme := db_acme db @ [a], db_ids := (i, j + 1, ks)\<rparr>))))"

section \<open>Orders\<close>

definition scanOrder :: "order_row \<Rightarrow> cert_order" where
  "scanOrder r =
     \<lparr>od_ID = ow_ID r, od_Domains = ow_Domains r, od_KeyType = ow_KeyType r, od_CA = ow_CA r,
      od_AccountID = null_int (ow_AccountID r), od_Email = ow_Email r, od_AutoRenew = Some (ow_AutoRenew r),
      od_State = ow_State r, od_LastError = ow_LastError r, od_Certificate = ow_Certificate r,
      od_PrivateKey = ow_PrivateKey r, od_IssuedAt = null_int (ow_IssuedAt r), od_ExpiresAt = null_int (ow_ExpiresAt r),
      od_CreatedAt = ow_CreatedAt r, od_UpdatedAt = ow_UpdatedAt r\<rparr>"

definition Orders_List :: "database \<Rightarrow> (repo_error + cert_order list) \<times> database" where
  "Orders_List db0 =
     (case statement db0 of (ok, now, db) \<Rightarrow>
        (if ok then Inr (map scanOrder (rev (db_orders db))) else Inl Refused, db))"

definition Orders_Get :: "int \<Rightarrow> database \<Rightarrow> (repo_error + cert_order) \<times> database" where
  "Orders_Get i db0 =
     (case statement db0 of (ok, now, db) \<Rightarrow>
        (if \<not> ok then Inl Refused
         else case find (\<lambda>r. ow_ID r = i) (db_orders db) of
             None \<Rightarrow> Inl (Missing i) | Some r \<Rightarrow> Inr (scanOrder r), db))"

definition due_row :: "int \<Rightarrow> order_row \<Rightarrow> bool" where
  "due_row cutoff r \<longleftrightarrow> ow_State r = StateIssued \<and> ow_AutoRenew r \<and>
     (case ow_ExpiresAt r of None \<Rightarrow> False | Some t \<Rightarrow> t \<le> cutoff)"

definition DueForRenewal :: "int \<Rightarrow> database \<Rightarrow> (repo_error + cert_order list) \<times> database" where
  "DueForRenewal cutoff db0 =
     (case statement db0 of (ok, now, db) \<Rightarrow>
        (if ok then Inr (map scanOrder (sort_key (\<lambda>r. null_int (ow_ExpiresAt r)) (filter (due_row cutoff) (db_orders db))))
         else Inl Refused, db))"

text \<open>The account of an order must exist.\<close>

definition Orders_Create :: "cert_order \<Rightarrow> database \<Rightarrow> (repo_error + cert_order) \<times> database" where
  "Orders_Create o0 db0 =
     (let state = (if od_State o0 = [] then StatePending else od_State o0);
          auto = (case od_AutoRenew o0 of None \<Rightarrow> True | Some b \<Rightarrow> b) in
      case statement db0 of (ok, now, db) \<Rightarrow>
        if \<not> ok \<or> od_AccountID o0 \<noteq> 0 \<and> od_AccountID o0 \<notin> da_ID ` set (db_accounts db) then (Inl Refused, db)
        else (case db_ids db of (i, j, k, l) \<Rightarrow>
          (let row = \<lparr>ow_ID = k, ow_Domains = od_Domains o0, ow_KeyType = od_KeyType o0, ow_CA = od_CA o0,
                      ow_AccountID = nullableID (od_AccountID o0), ow_Email = od_Email o0, ow_AutoRenew = auto,
                      ow_State = state, ow_LastError = [], ow_Certificate = [], ow_PrivateKey = [],
                      ow_IssuedAt = None, ow_ExpiresAt = None, ow_CreatedAt = now, ow_UpdatedAt = now\<rparr>
           in (Inr (o0\<lparr>od_ID := k, od_State := state, od_AutoRenew := Some auto, od_CreatedAt := now, od_UpdatedAt := now\<rparr>),
               db\<lparr>db_orders := db_orders db @ [row], db_ids := (i, j, k + 1, l)\<rparr>))))"

definition update_order :: "int \<Rightarrow> (int \<Rightarrow> order_row \<Rightarrow> order_row) \<Rightarrow> database \<Rightarrow> repo_error option \<times> database" where
  "update_order i f db0 =
     (case statement db0 of (ok, now, db) \<Rightarrow>
        if \<not> ok then (Some Refused, db)
        else if i \<notin> ow_ID ` set (db_orders db) then (Some (Missing i), db)
        else (None, db\<lparr>db_orders := map (\<lambda>r. if ow_ID r = i then f now r else r) (db_orders db)\<rparr>))"

definition Orders_SetState :: "int \<Rightarrow> string \<Rightarrow> string \<Rightarrow> database \<Rightarrow> repo_error option \<times> database" where
  "Orders_SetState i state err =
     update_order i (\<lambda>now r. r\<lparr>ow_State := state, ow_LastError := err, ow_UpdatedAt := now\<rparr>)"

definition StoreCertificate :: "int \<Rightarrow> bytes \<Rightarrow> bytes \<Rightarrow> int \<Rightarrow> int \<Rightarrow> database \<Rightarrow> repo_error option \<times> database" where
  "StoreCertificate i chain key issued expires =
     update_order i (\<lambda>now r. r\<lparr>ow_Certificate := chain, ow_PrivateKey := key, ow_IssuedAt := Some issued,
       ow_ExpiresAt := Some expires, ow_State := StateIssued, ow_LastError := [], ow_UpdatedAt := now\<rparr>)"

text \<open>The events of an order go with it.\<close>

definition Orders_Delete :: "int \<Rightarrow> database \<Rightarrow> repo_error option \<times> database" where
  "Orders_Delete i db0 =
     (case statement db0 of (ok, now, db) \<Rightarrow>
        if \<not> ok then (Some Refused, db)
        else if i \<notin> ow_ID ` set (db_orders db) then (Some (Missing i), db)
        else (None, db\<lparr>db_orders := filter (\<lambda>r. ow_ID r \<noteq> i) (db_orders db),
                       db_events := filter (\<lambda>v. ev_Order v \<noteq> i) (db_events db)\<rparr>))"

definition AppendEvent :: "int \<Rightarrow> string \<Rightarrow> string \<Rightarrow> database \<Rightarrow> repo_error option \<times> database" where
  "AppendEvent i kind detail db0 =
     (case statement db0 of (ok, now, db) \<Rightarrow>
        if \<not> ok \<or> i \<notin> ow_ID ` set (db_orders db) then (Some Refused, db)
        else (case db_ids db of (a, j, k, l) \<Rightarrow>
          (None, db\<lparr>db_events := db_events db @ [\<lparr>ev_ID = l, ev_Order = i, ev_Kind = kind, ev_Detail = detail, ev_CreatedAt = now\<rparr>],
                    db_ids := (a, j, k, l + 1)\<rparr>)))"

definition Orders_Events :: "int \<Rightarrow> int \<Rightarrow> database \<Rightarrow> (repo_error + order_event list) \<times> database" where
  "Orders_Events i limit0 db0 =
     (let limit = (if limit0 \<le> 0 then 50 else limit0) in
      case statement db0 of (ok, now, db) \<Rightarrow>
        (if ok then Inr (take (nat limit) (rev (filter (\<lambda>v. ev_Order v = i) (db_events db)))) else Inl Refused, db))"

section \<open>Facts\<close>

definition order_of :: "database \<Rightarrow> int \<Rightarrow> order_row option" where
  "order_of db i = find (\<lambda>r. ow_ID r = i) (db_orders db)"

lemma find_map_update:
  assumes "\<And>r. key (g r) = key r"
  shows "find (\<lambda>r. key r = j) (map (\<lambda>r. if key r = i then g r else r) rows) =
     (if j = i then map_option g (find (\<lambda>r. key r = j) rows) else find (\<lambda>r. key r = j) rows)"
  by (induction rows) (auto simp: assms)

lemma find_present: "find (\<lambda>r. key r = i) rows = None \<longleftrightarrow> i \<notin> key ` set rows"
  by (induction rows) auto

end
