(* ===== verification/Man_Accounts.thy ===== *)
theory Man_Accounts
  imports Dns_Registry Sto_Records
begin

text \<open>
  The DNS accounts as the command line shows and edits them: \<^verbatim>\<open>internal/manage/dns.go\<close>. The service is
  the database and the registry of providers; the records themselves are calls to the provider.
\<close>

section \<open>Operations\<close>

record account_view =
  av_ID :: int
  av_Name :: string
  av_Provider :: string
  av_ProviderLabel :: string
  av_Credentials :: "(string, string) gomap"
  av_SecretsSet :: "string list"
  av_CreatedAt :: int
  av_UpdatedAt :: int

record account_input =
  ai_ID :: int
  ai_Name :: string
  ai_Provider :: string
  ai_Credentials :: "(string, string) gomap"

datatype account_error =
    AccountRepo repo_error
  | NoSuchProvider string
  | AccountNeedsName
  | AccountForm form_error

definition redact :: "'p dns_registry \<Rightarrow> dns_account \<Rightarrow> account_view" where
  "redact reg a =
     (let view = \<lparr>av_ID = da_ID a, av_Name = da_Name a, av_Provider = da_Provider a,
            av_ProviderLabel = da_Provider a, av_Credentials = [], av_SecretsSet = [],
            av_CreatedAt = da_CreatedAt a, av_UpdatedAt = da_UpdatedAt a\<rparr>
      in case Describe reg (da_Provider a) of
        None \<Rightarrow> view\<lparr>av_Credentials := map (\<lambda>(name, v). (name, [])) (da_Credentials a)\<rparr>
      | Some d \<Rightarrow>
          (let secrets = SecretNames (ds_Form d) in
           view\<lparr>av_ProviderLabel := ds_Label d,
                av_SecretsSet := filter (\<lambda>name. value_of (da_Credentials a) name \<noteq> []) secrets,
                av_Credentials := filter (\<lambda>(name, v). name \<notin> set secrets) (da_Credentials a)\<rparr>))"

definition ListAccounts :: "'p dns_registry \<Rightarrow> database \<Rightarrow> (repo_error + account_view list) \<times> database" where
  "ListAccounts reg db =
     (case Accounts_List db of
        (Inl e, db) \<Rightarrow> (Inl e, db)
      | (Inr stored, db) \<Rightarrow> (Inr (map (redact reg) stored), db))"

definition CreateAccount ::
  "(string \<Rightarrow> string \<Rightarrow> bool option) \<Rightarrow> 'p dns_registry \<Rightarrow> account_input \<Rightarrow> database \<Rightarrow> (account_error + account_view) \<times> database" where
  "CreateAccount re reg i db =
     (case Describe reg (ai_Provider i) of
        None \<Rightarrow> (Inl (NoSuchProvider (ai_Provider i)), db)
      | Some d \<Rightarrow>
          if ai_Name i = [] then (Inl AccountNeedsName, db)
          else let vs = Form_ApplyDefaults (ds_Form d) (ai_Credentials i) in
            (case Form_Validate re (ds_Form d) vs of
               Some e \<Rightarrow> (Inl (AccountForm e), db)
             | None \<Rightarrow>
                 (case Accounts_Create \<lparr>da_ID = 0, da_Name = ai_Name i, da_Provider = ai_Provider i, da_Credentials = vs,
                                        da_CreatedAt = 0, da_UpdatedAt = 0\<rparr> db of
                    (Inl e, db) \<Rightarrow> (Inl (AccountRepo e), db)
                  | (Inr created, db) \<Rightarrow> (Inr (redact reg created), db))))"

fun keep_secrets :: "(string, string) gomap \<Rightarrow> string list \<Rightarrow> (string, string) gomap \<Rightarrow> (string, string) gomap" where
  "keep_secrets existing [] vs = vs"
| "keep_secrets existing (name # names) vs =
     keep_secrets existing names
       (if value_of vs name = [] \<or> value_of vs name = RedactedMarker
        then AList.update name (value_of existing name) vs else vs)"

definition UpdateAccount ::
  "(string \<Rightarrow> string \<Rightarrow> bool option) \<Rightarrow> 'p dns_registry \<Rightarrow> account_input \<Rightarrow> database \<Rightarrow> (account_error + account_view) \<times> database" where
  "UpdateAccount re reg i db =
     (case Accounts_Get (ai_ID i) db of
        (Inl e, db) \<Rightarrow> (Inl (AccountRepo e), db)
      | (Inr existing, db) \<Rightarrow>
          (let provider = (if ai_Provider i = [] then da_Provider existing else ai_Provider i) in
           case Describe reg provider of
             None \<Rightarrow> (Inl (NoSuchProvider provider), db)
           | Some d \<Rightarrow>
               (let vs = (if provider = da_Provider existing
                      then keep_secrets (da_Credentials existing) (SecretNames (ds_Form d)) (ai_Credentials i)
                      else ai_Credentials i);
                    vs = Form_ApplyDefaults (ds_Form d) vs
                in case Form_Validate re (ds_Form d) vs of
                  Some e \<Rightarrow> (Inl (AccountForm e), db)
                | None \<Rightarrow>
                    (let updated = \<lparr>da_ID = ai_ID i, da_Name = (if ai_Name i = [] then da_Name existing else ai_Name i),
                           da_Provider = provider, da_Credentials = vs, da_CreatedAt = 0, da_UpdatedAt = 0\<rparr>
                     in case Accounts_Update updated db of
                       (Some e, db) \<Rightarrow> (Inl (AccountRepo e), db)
                     | (None, db) \<Rightarrow> (Inr (redact reg updated), db)))))"

definition DeleteAccount :: "int \<Rightarrow> database \<Rightarrow> repo_error option \<times> database" where
  "DeleteAccount i db = Accounts_Delete i db"

definition account_provider ::
  "(string \<Rightarrow> string \<Rightarrow> bool option) \<Rightarrow> 'p dns_registry \<Rightarrow> int \<Rightarrow> database \<Rightarrow> (repo_error + provider_error + 'p) \<times> database" where
  "account_provider re reg i db =
     (case Accounts_Get i db of
        (Inl e, db) \<Rightarrow> (Inl e, db)
      | (Inr account, db) \<Rightarrow> (Inr (provider_New re reg (da_Provider account) (da_Credentials account)), db))"

definition account_capabilities :: "'p dns_registry \<Rightarrow> int \<Rightarrow> database \<Rightarrow> (account_error + capabilities) \<times> database" where
  "account_capabilities reg i db =
     (case Accounts_Get i db of
        (Inl e, db) \<Rightarrow> (Inl (AccountRepo e), db)
      | (Inr account, db) \<Rightarrow>
          (case Describe reg (da_Provider account) of
             None \<Rightarrow> (Inl (NoSuchProvider (da_Provider account)), db)
           | Some d \<Rightarrow> (Inr (ds_Capabilities d), db)))"

section \<open>Secrets\<close>

definition account_of :: "database \<Rightarrow> int \<Rightarrow> dns_account option" where
  "account_of db i = find (\<lambda>a. da_ID a = i) (db_accounts db)"

lemma map_of_filter_keys: "map_of (filter (\<lambda>(k, v). P k) m) n = (if P n then map_of m n else None)"
  by (induction m) auto

lemma value_of_update: "value_of (AList.update k v m) n = (if n = k then v else value_of m n)"
  by (simp add: value_of_def)

lemma keep_secrets_exact:
  "map_of (keep_secrets existing names vs) n =
     (if n \<in> set names \<and> (value_of vs n = [] \<or> value_of vs n = RedactedMarker) then Some (value_of existing n) else map_of vs n)"
proof (induction existing names vs rule: keep_secrets.induct)
  case (2 existing name names vs)
  then show ?case by (auto simp: value_of_update) 
qed simp

text \<open>What an account's credentials become when they are edited.\<close>

definition edited :: "form \<Rightarrow> (string, string) gomap \<Rightarrow> (string, string) gomap \<Rightarrow> bool \<Rightarrow> string \<Rightarrow> string option" where
  "edited form old new same n =
     (if same \<and> n \<in> set (SecretNames form) \<and> (value_of new n = [] \<or> value_of new n = RedactedMarker) then Some (value_of old n)
      else case map_of new n of
        Some v \<Rightarrow> Some v
      | None \<Rightarrow> map_option ff_Default (find (\<lambda>f. ff_Name f = n \<and> ff_Default f \<noteq> []) form))"

lemma account_of_update:
  assumes "Accounts_Update a db = (None, db')" and "account_of db (da_ID a) = Some old"
  shows "account_of db' j =
    (if j = da_ID a then Some (old\<lparr>da_Name := da_Name a, da_Provider := da_Provider a, da_Credentials := da_Credentials a,
        da_UpdatedAt := db_clock db (db_statements db)\<rparr>)
     else account_of db j)"
proof -
  let ?g = "\<lambda>b. b\<lparr>da_Name := da_Name a, da_Provider := da_Provider a, da_Credentials := da_Credentials a,
      da_UpdatedAt := db_clock db (db_statements db)\<rparr>"
  have "db_accounts db' = map (\<lambda>b. if da_ID b = da_ID a then ?g b else b) (db_accounts db)"
    using assms(1) by (simp add: Accounts_Update_def statement_def split: if_splits) (drule sym, simp)
  moreover have "find (\<lambda>b. da_ID b = j) (map (\<lambda>b. if da_ID b = da_ID a then ?g b else b) (db_accounts db)) =
      (if j = da_ID a then map_option ?g (account_of db j) else account_of db j)"
    unfolding account_of_def by (rule find_map_update) simp
  ultimately show ?thesis using assms(2) by (simp add: account_of_def)
qed

lemma Accounts_Get_ok:
  "Accounts_Get i db = (r, db') \<Longrightarrow> account_of db' = account_of db \<and> (\<forall>a. r = Inr a \<longrightarrow> account_of db i = Some a)"
  by (auto simp: Accounts_Get_def statement_def account_of_def fun_eq_iff split: option.splits if_splits)


text \<open>A token that is left blank while the email address is edited.\<close>

definition demo_field :: "string \<Rightarrow> bool \<Rightarrow> form_field" where
  "demo_field name secret =
     \<lparr>ff_Name = name, ff_Label = name, ff_Kind = ''text'', ff_Required = True, ff_Default = [], ff_Options = [],
      ff_ShowIf = [], ff_Secret = secret, ff_Pattern = []\<rparr>"

definition demo_descriptor :: descriptor where
  "demo_descriptor =
     \<lparr>ds_Key = ''cloudflare'', ds_Label = ''Cloudflare'', ds_Form = [demo_field ''email'' False, demo_field ''token'' True],
      ds_Capabilities = \<lparr>cb_Remark = 1, cb_Status = False, cb_Log = False, cb_Weight = False, cb_Redirect = False,
        cb_Proxy = True, cb_AddZone = True, cb_Paginated = True, cb_MinTTL = 60, cb_Lines = [''DEF'']\<rparr>\<rparr>"

definition demo_registry :: "unit dns_registry" where
  "demo_registry = [(''cloudflare'', demo_descriptor, \<lambda>vs. Inr ())]"

definition demo_account_row :: dns_account where
  "demo_account_row =
     \<lparr>da_ID = 3, da_Name = ''home'', da_Provider = ''cloudflare'',
      da_Credentials = [(''email'', ''me@example.com''), (''token'', ''s3cret'')], da_CreatedAt = 1, da_UpdatedAt = 1\<rparr>"

definition demo_database :: database where
  "demo_database =
     \<lparr>db_accounts = [demo_account_row], db_acme = [], db_orders = [], db_events = [], db_ids = (4, 1, 1, 1),
      db_statements = 0, db_refused = (\<lambda>n. False), db_clock = (\<lambda>n. 100)\<rparr>"

definition demo_input :: account_input where
  "demo_input = \<lparr>ai_ID = 3, ai_Name = [], ai_Provider = [], ai_Credentials = [(''email'', ''you@example.com'')]\<rparr>"

definition demo_edit :: "(account_error + account_view) \<times> database" where
  "demo_edit = UpdateAccount (\<lambda>p v. Some True) demo_registry demo_input demo_database"


end
