(* ===== verification/Man_Reach.thy ===== *)
theory Man_Reach
  imports Cli_Announce
begin

text \<open>
  Whether the names of an order point at a tunnel server, before a challenge is tried over HTTP:
  \<^verbatim>\<open>internal/manage/reachable.go\<close>. The name service is an argument: \<open>lookup_host\<close> asks one resolver,
  \<open>lookup\<close> is the answer of the solver's own \<^verbatim>\<open>lookup\<close>.
\<close>

section \<open>Operations\<close>

definition publicResolvers :: "string list" where
  "publicResolvers = [''1.1.1.1:53'', ''8.8.8.8:53'']"

definition sortedKeys :: "string set \<Rightarrow> string list" where
  "sortedKeys s = sorted_list_of_set s"

definition seen_addresses :: "string list \<Rightarrow> string set" where
  "seen_addresses addresses = set (map IP_String (List.map_filter ParseIP addresses))"

fun resolve_loop :: "(string \<Rightarrow> string \<Rightarrow> string list option) \<Rightarrow> string \<Rightarrow> string list \<Rightarrow> string set \<Rightarrow> string set" where
  "resolve_loop lookup_host name [] seen = seen"
| "resolve_loop lookup_host name (server # servers) seen =
     (case lookup_host server name of
        None \<Rightarrow> resolve_loop lookup_host name servers seen
      | Some addresses \<Rightarrow>
          (let seen = seen \<union> seen_addresses addresses in
           if seen \<noteq> {} then seen else resolve_loop lookup_host name servers seen))"

definition resolvePublic :: "(string \<Rightarrow> string \<Rightarrow> string list option) \<Rightarrow> string \<Rightarrow> string list" where
  "resolvePublic lookup_host name = sortedKeys (resolve_loop lookup_host name publicResolvers {})"

definition solver_lookup ::
  "(string \<Rightarrow> string list) option \<Rightarrow> (string \<Rightarrow> string \<Rightarrow> string list option) \<Rightarrow> string \<Rightarrow> string list" where
  "solver_lookup resolve lookup_host name =
     (case resolve of Some r \<Rightarrow> r name | None \<Rightarrow> resolvePublic lookup_host name)"

fun serverAddresses :: "(string \<Rightarrow> string list) \<Rightarrow> upstream list \<Rightarrow> string set" where
  "serverAddresses lookup [] = {}"
| "serverAddresses lookup (server # servers) =
     (case ParseIP (up_Addr server) of
        Some ip \<Rightarrow> {IP_String ip}
      | None \<Rightarrow> set (lookup (up_Addr server))) \<union> serverAddresses lookup servers"

fun intersects :: "string list \<Rightarrow> string set \<Rightarrow> bool" where
  "intersects [] expected = False"
| "intersects (a # rest) expected = (if a \<in> expected then True else intersects rest expected)"

datatype reachable = Undetermined | Unverified "string list" | Confirmed "string list"

fun classify ::
  "(string \<Rightarrow> string list) \<Rightarrow> string set \<Rightarrow> string list \<Rightarrow> (string \<times> string list) list \<times> string list \<times> string list \<Rightarrow>
   (string \<times> string list) list \<times> string list \<times> string list" where
  "classify lookup expected [] acc = acc"
| "classify lookup expected (domain # domains) (problems, confirmed, unknown) =
     (let addresses = lookup domain in
      classify lookup expected domains
        (if addresses = [] then (problems, confirmed, unknown @ [domain])
         else if intersects addresses expected then (problems, confirmed @ [domain], unknown)
         else (problems @ [(domain, addresses)], confirmed, unknown)))"

text \<open>An error names the domains that point elsewhere, with their addresses, and the servers'.\<close>

definition checkReachable ::
  "(string \<Rightarrow> string list) \<Rightarrow> upstream list \<Rightarrow> string list \<Rightarrow> ((string \<times> string list) list \<times> string list) + reachable" where
  "checkReachable lookup servers domains =
     (let expected = serverAddresses lookup servers in
      if expected = {} then Inr Undetermined
      else case classify lookup expected domains ([], [], []) of
        (problems, confirmed, unknown) \<Rightarrow>
          if problems \<noteq> [] then Inl (problems, sortedKeys expected)
          else if unknown \<noteq> [] then Inr (Unverified unknown)
          else Inr (Confirmed confirmed))"

section \<open>The check agrees with where the challenge goes\<close>

lemma serverAddresses_addressesOf: "serverAddresses lookup servers = (\<Union>u \<in> set servers. set (addressesOf lookup u))"
  by (induction servers) (auto simp: addressesOf_def split: option.splits)

lemma intersects_iff: "intersects addresses expected \<longleftrightarrow> set addresses \<inter> expected \<noteq> {}"
  by (induction addresses) auto

lemma classify_exact:
  "classify lookup expected domains (problems, confirmed, unknown) =
     (problems @ map (\<lambda>d. (d, lookup d)) (filter (\<lambda>d. lookup d \<noteq> [] \<and> set (lookup d) \<inter> expected = {}) domains),
      confirmed @ filter (\<lambda>d. set (lookup d) \<inter> expected \<noteq> {}) domains,
      unknown @ filter (\<lambda>d. lookup d = []) domains)"
  by (induction domains arbitrary: problems confirmed unknown) (auto simp: intersects_iff Let_def)

lemma serversFor_iff: "serversFor lookup servers domain \<noteq> [] \<longleftrightarrow> set (lookup domain) \<inter> serverAddresses lookup servers \<noteq> {}"
  by (auto simp: serversFor_def Let_def serverAddresses_addressesOf filter_empty_conv list_ex_iff)

text \<open>C38: the check before an HTTP validation agrees with what the validation then does. When a
  server's address is known it refuses exactly if some name resolves and no server answers under any of
  its addresses; it confirms the names exactly if a server that must take the challenge is found for
  each, and names that do not resolve are left to the authority.\<close>

theorem reachable_exact:
  assumes "serverAddresses lookup servers \<noteq> {}"
  shows "((\<exists>e. checkReachable lookup servers domains = Inl e) \<longleftrightarrow>
      (\<exists>d \<in> set domains. lookup d \<noteq> [] \<and> serversFor lookup servers d = [])) \<and>
    (checkReachable lookup servers domains = Inr (Confirmed domains) \<longleftrightarrow>
      (\<forall>d \<in> set domains. serversFor lookup servers d \<noteq> []))"
proof -
  let ?for = "\<lambda>d. set (lookup d) \<inter> serverAddresses lookup servers"
  have c: "checkReachable lookup servers domains =
      (if \<exists>d \<in> set domains. lookup d \<noteq> [] \<and> ?for d = {}
       then Inl (map (\<lambda>d. (d, lookup d)) (filter (\<lambda>d. lookup d \<noteq> [] \<and> ?for d = {}) domains), sortedKeys (serverAddresses lookup servers))
       else if \<exists>d \<in> set domains. lookup d = [] then Inr (Unverified (filter (\<lambda>d. lookup d = []) domains))
       else Inr (Confirmed (filter (\<lambda>d. ?for d \<noteq> {}) domains)))"
    using assms by (auto simp: checkReachable_def Let_def classify_exact filter_empty_conv)
  have none: "serversFor lookup servers d = [] \<longleftrightarrow> ?for d = {}" for d
    using serversFor_iff [of lookup servers d] by blast
  have "filter (\<lambda>d. ?for d \<noteq> {}) domains = domains \<longleftrightarrow> (\<forall>d \<in> set domains. ?for d \<noteq> {})"
    by (simp add: filter_id_conv)
  then show ?thesis unfolding c none by auto
qed

definition demo_lookup :: "string \<Rightarrow> string list" where
  "demo_lookup name =
     (if name = ''nas.example.com'' then [''203.0.113.7''] else if name = ''www.example.com'' then [''198.51.100.1''] else [])"

definition demo_server :: upstream where
  "demo_server = (demo_upstream ''a'')\<lparr>up_Addr := ''203.0.113.7''\<rparr>"

theorem reachable_exact_witness:
  "checkReachable demo_lookup [demo_server] [''nas.example.com''] = Inr (Confirmed [''nas.example.com'']) \<and>
   (\<exists>e. checkReachable demo_lookup [demo_server] [''nas.example.com'', ''www.example.com''] = Inl e)"
proof
  have known: "serverAddresses demo_lookup [demo_server] \<noteq> {}" by code_simp
  have "serversFor demo_lookup [demo_server] ''nas.example.com'' \<noteq> []" by code_simp
  then show "checkReachable demo_lookup [demo_server] [''nas.example.com''] = Inr (Confirmed [''nas.example.com''])"
    by (intro reachable_exact [OF known, THEN conjunct2, THEN iffD2]) simp
  have "demo_lookup ''www.example.com'' \<noteq> [] \<and> serversFor demo_lookup [demo_server] ''www.example.com'' = []"
    by code_simp
  then show "\<exists>e. checkReachable demo_lookup [demo_server] [''nas.example.com'', ''www.example.com''] = Inl e"
    by (intro reachable_exact [OF known, THEN conjunct1, THEN iffD2]) auto
qed

end
