(* ===== verification/Man_Cert.thy ===== *)
theory Man_Cert
  imports Crt_Issue Dns_Solver Man_Accounts Man_Reach
begin

text \<open>
  Certificate orders of the client: \<^verbatim>\<open>internal/manage/cert.go\<close> and \<^verbatim>\<open>certsource.go\<close>. The service is the
  database of \<open>Sto_Records\<close>; the world outside (authority, DNS vendors, name service) is the state
  \<open>'s\<close>. How errors and dates print, and Go's floating-point number of days, are arguments.
\<close>

section \<open>The service\<close>

record ('s, 'k, 'r, 'p) manage_env =
  me_re :: "string \<Rightarrow> string \<Rightarrow> bool option"
  me_registry :: "'p dns_registry"
  me_acme :: "('s, 'k, 'r, 'p \<times> solver, upstream list) acme_env"
  me_json :: "'r registration_json"
  me_domains :: "'p \<Rightarrow> 's \<Rightarrow> (string + string list) \<times> 's"
  me_http :: "upstream list option"
  me_lookup :: "'s \<Rightarrow> string \<Rightarrow> string list"
  me_days :: "int \<Rightarrow> int"
  me_date :: "go_time \<Rightarrow> string"

datatype order_error =
    OrderRepo repo_error
  | NoOrderDomains
  | NoEmail
  | BadKeyType string
  | NoSuchCA string
  | WildcardNeedsDNS
  | NoValidation
  | NeedsEAB string
  | BadRegistration
  | BadProvider provider_error
  | NoZone "string zone_error"
  | PointsElsewhere "(string \<times> string list) list" "string list"
  | NotIssuedBy issue_error
  | AccountNotEncoded
  | NotYetIssued int

definition unix_of :: "go_time \<Rightarrow> int" where
  "unix_of t = i64_wrap (gt_sec t - unixToInternal)"

section \<open>Views and orders\<close>

record order_view =
  ov_ID :: int
  ov_Domains :: "string list"
  ov_KeyType :: string
  ov_CA :: string
  ov_CALabel :: string
  ov_Email :: string
  ov_AccountID :: int
  ov_AccountName :: string
  ov_State :: string
  ov_LastError :: string
  ov_AutoRenew :: bool
  ov_IssuedAt :: int
  ov_ExpiresAt :: int
  ov_DaysRemaining :: int
  ov_Issuer :: string
  ov_SerialNumber :: string

record order_input =
  oi_Domains :: "string list"
  oi_KeyType :: string
  oi_CA :: string
  oi_Email :: string
  oi_AccountID :: int
  oi_AutoRenew :: "bool option"

definition bare_certificate :: "bytes \<Rightarrow> bytes \<Rightarrow> x509_certificate" where
  "bare_certificate chain key =
     \<lparr>ci_Domains = [], ci_FullchainPEM = chain, ci_PrivateKeyPEM = key, ci_IssuedAt = no_time, ci_NotAfter = no_time,
      ci_Issuer = [], ci_SerialNumber = []\<rparr>"

definition order_view_of ::
  "('s, 'k, 'r, 'p) manage_env \<Rightarrow> cert_order \<Rightarrow> (int, string) gomap \<Rightarrow> go_time \<Rightarrow> order_view" where
  "order_view_of e ord names now =
     (let view = \<lparr>ov_ID = od_ID ord, ov_Domains = od_Domains ord, ov_KeyType = od_KeyType ord, ov_CA = od_CA ord,
            ov_CALabel = (case LookupCA (od_CA ord) of Some ca \<Rightarrow> ca_Label ca | None \<Rightarrow> od_CA ord),
            ov_Email = od_Email ord, ov_AccountID = od_AccountID ord,
            ov_AccountName = (case map_of names (od_AccountID ord) of None \<Rightarrow> [] | Some n \<Rightarrow> n),
            ov_State = od_State ord, ov_LastError = od_LastError ord,
            ov_AutoRenew = (case od_AutoRenew ord of None \<Rightarrow> False | Some b \<Rightarrow> b),
            ov_IssuedAt = od_IssuedAt ord, ov_ExpiresAt = od_ExpiresAt ord,
            ov_DaysRemaining = (if od_ExpiresAt ord > 0 then me_days e (time_Sub (time_Unix (od_ExpiresAt ord)) now) else 0),
            ov_Issuer = [], ov_SerialNumber = []\<rparr>
      in if od_Certificate ord = [] then view
         else case Populate (ae_x509 (me_acme e)) (bare_certificate (od_Certificate ord) []) of
             Inl err \<Rightarrow> view
           | Inr c \<Rightarrow> view\<lparr>ov_Issuer := ci_Issuer c, ov_SerialNumber := ci_SerialNumber c\<rparr>)"

definition ListOrders :: "('s, 'k, 'r, 'p) manage_env \<Rightarrow> go_time \<Rightarrow> database \<Rightarrow> (repo_error + order_view list) \<times> database" where
  "ListOrders e now db =
     (case Orders_List db of
        (Inl err, db) \<Rightarrow> (Inl err, db)
      | (Inr orders, db) \<Rightarrow>
          (case Accounts_List db of (accounts, db) \<Rightarrow>
             (let names = (case accounts of Inl err \<Rightarrow> [] | Inr xs \<Rightarrow> map (\<lambda>a. (da_ID a, da_Name a)) xs)
              in (Inr (map (\<lambda>ord. order_view_of e ord names now) orders), db))))"

definition order_keyType :: "order_input \<Rightarrow> string" where
  "order_keyType i = (if oi_KeyType i = [] then ''ec256'' else oi_KeyType i)"

definition order_ca :: "order_input \<Rightarrow> string" where
  "order_ca i = (if oi_CA i = [] then ''letsencrypt'' else oi_CA i)"

definition check_order :: "('s, 'k, 'r, 'p) manage_env \<Rightarrow> order_input \<Rightarrow> string list \<Rightarrow> order_error option" where
  "check_order e i domains =
     (if domains = [] then Some NoOrderDomains
      else if oi_Email i = [] then Some NoEmail
      else if \<not> KeyType_Valid (order_keyType i) then Some (BadKeyType (oi_KeyType i))
      else if LookupCA (order_ca i) = None then Some (NoSuchCA (order_ca i))
      else if NeedsDNSChallenge domains \<and> oi_AccountID i = 0 then Some WildcardNeedsDNS
      else if oi_AccountID i = 0 \<and> me_http e = None then Some NoValidation
      else None)"

definition new_order :: "order_input \<Rightarrow> string list \<Rightarrow> cert_order" where
  "new_order i domains =
     \<lparr>od_ID = 0, od_Domains = domains, od_KeyType = order_keyType i, od_CA = order_ca i, od_AccountID = oi_AccountID i,
      od_Email = oi_Email i, od_AutoRenew = oi_AutoRenew i, od_State = [], od_LastError = [], od_Certificate = [],
      od_PrivateKey = [], od_IssuedAt = 0, od_ExpiresAt = 0, od_CreatedAt = 0, od_UpdatedAt = 0\<rparr>"

definition CreateOrder ::
  "('s, 'k, 'r, 'p) manage_env \<Rightarrow> go_time \<Rightarrow> order_input \<Rightarrow> database \<Rightarrow> (order_error + order_view) \<times> database" where
  "CreateOrder e now i db =
     (let domains = NormaliseDomains (ae_lower (me_acme e)) (oi_Domains i) in
      case check_order e i domains of
        Some err \<Rightarrow> (Inl err, db)
      | None \<Rightarrow>
     (case (if oi_AccountID i \<noteq> 0
            then (case Accounts_Get (oi_AccountID i) db of (Inl err, db) \<Rightarrow> (Some err, db) | (Inr a, db) \<Rightarrow> (None, db))
            else (None, db)) of
        (Some err, db) \<Rightarrow> (Inl (OrderRepo err), db)
      | (None, db) \<Rightarrow>
     (case Orders_Create (new_order i domains) db of
        (Inl err, db) \<Rightarrow> (Inl (OrderRepo err), db)
      | (Inr created, db) \<Rightarrow>
          (case AppendEvent (od_ID created) ''requested'' [] db of (ignored, db) \<Rightarrow>
             (Inr (order_view_of e created [] now), db)))))"

definition Material :: "int \<Rightarrow> database \<Rightarrow> (order_error + bytes) \<times> database" where
  "Material i db =
     (case Orders_Get i db of
        (Inl err, db) \<Rightarrow> (Inl (OrderRepo err), db)
      | (Inr ord, db) \<Rightarrow>
          (if od_Certificate ord = [] then Inl (NotYetIssued i) else Inr (od_Certificate ord), db))"

section \<open>ACME accounts\<close>

definition acmeAccount ::
  "'r registration_json \<Rightarrow> string \<Rightarrow> string \<Rightarrow> database \<Rightarrow> (order_error + ('k, 'r) acme_account) \<times> database" where
  "acmeAccount j ca email db =
     (case ACME_Find ca email db of
        (Inl err, db) \<Rightarrow>
          (case FindEAB ca db of
             (Inl err, db) \<Rightarrow> (Inr (new_account email), db)
           | (Inr (keyID, hmac), db) \<Rightarrow> (Inr ((new_account email)\<lparr>aa_EABKeyID := keyID, aa_EABHMAC := hmac\<rparr>), db))
      | (Inr stored, db) \<Rightarrow>
          (case (if am_EABKeyID stored = []
                 then (case FindEAB ca db of
                         (Inl err, db) \<Rightarrow> (stored, db)
                       | (Inr (keyID, hmac), db) \<Rightarrow> (stored\<lparr>am_EABKeyID := keyID, am_EABHMAC := hmac\<rparr>, db))
                 else (stored, db)) of
             (stored, db) \<Rightarrow>
               (case LoadRegistration j (am_Registration stored)
                   ((new_account (am_Email stored))\<lparr>aa_PrivateKey := am_PrivateKey stored,
                      aa_EABKeyID := am_EABKeyID stored, aa_EABHMAC := am_EABHMAC stored\<rparr>) of
                  None \<Rightarrow> (Inl BadRegistration, db)
                | Some a \<Rightarrow> (Inr a, db))))"

definition saveACMEAccount ::
  "'r registration_json \<Rightarrow> string \<Rightarrow> ('k, 'r) acme_account \<Rightarrow> database \<Rightarrow> order_error option \<times> database" where
  "saveACMEAccount j ca a db =
     (case MarshalRegistration j a of
        None \<Rightarrow> (Some AccountNotEncoded, db)
      | Some registration \<Rightarrow>
          (case ACME_Save \<lparr>am_ID = 0, am_CA = ca, am_Email = aa_Email a, am_PrivateKey = aa_PrivateKey a,
                           am_Registration = registration, am_EABKeyID = aa_EABKeyID a, am_EABHMAC = aa_EABHMAC a,
                           am_CreatedAt = 0\<rparr> db of
             (Inl err, db) \<Rightarrow> (Some (OrderRepo err), db)
           | (Inr saved, db) \<Rightarrow> (None, db)))"

record eab_state =
  es_Required :: bool
  es_Present :: bool
  es_CA :: string
  es_CALabel :: string
  es_Email :: string
  es_HowToGet :: string

definition eabSource :: "string \<Rightarrow> string" where
  "eabSource ca =
     (if ca = ''zerossl'' then ''https://app.zerossl.com/developer''
      else if ca = ''google'' then ''https://console.cloud.google.com/security/publicca'' else [])"

definition EABStatusFor :: "string \<Rightarrow> string \<Rightarrow> database \<Rightarrow> (order_error + eab_state) \<times> database" where
  "EABStatusFor caKey email db =
     (case LookupCA caKey of
        None \<Rightarrow> (Inl (NoSuchCA caKey), db)
      | Some ca \<Rightarrow>
          (let state = \<lparr>es_Required = ca_RequiresEAB ca, es_Present = False, es_CA = ca_Key ca,
                        es_CALabel = ca_Label ca, es_Email = email, es_HowToGet = []\<rparr>
           in if \<not> ca_RequiresEAB ca then (Inr state, db)
              else let state = state\<lparr>es_HowToGet := eabSource (ca_Key ca)\<rparr> in
                case FindEAB (ca_Key ca) db of
                  (Inl err, db) \<Rightarrow> (Inr state, db)
                | (Inr (keyID, hmac), db) \<Rightarrow> (Inr (state\<lparr>es_Present := keyID \<noteq> []\<rparr>), db)))"

definition EABStatus :: "int \<Rightarrow> database \<Rightarrow> (order_error + eab_state) \<times> database" where
  "EABStatus i db =
     (case Orders_Get i db of
        (Inl err, db) \<Rightarrow> (Inl (OrderRepo err), db)
      | (Inr ord, db) \<Rightarrow> EABStatusFor (od_CA ord) (od_Email ord) db)"

definition SetEAB :: "string \<Rightarrow> string \<Rightarrow> string \<Rightarrow> string \<Rightarrow> database \<Rightarrow> order_error option \<times> database" where
  "SetEAB ca email keyID hmac db =
     (case ACME_Find ca email db of (found, db) \<Rightarrow>
        (let existing = (case found of
               Inl err \<Rightarrow> \<lparr>am_ID = 0, am_CA = ca, am_Email = email, am_PrivateKey = [], am_Registration = [],
                            am_EABKeyID = [], am_EABHMAC = [], am_CreatedAt = 0\<rparr>
             | Inr a \<Rightarrow> a)
         in case ACME_Save (existing\<lparr>am_EABKeyID := keyID, am_EABHMAC := hmac\<rparr>) db of
              (Inl err, db) \<Rightarrow> (Some (OrderRepo err), db)
            | (Inr saved, db) \<Rightarrow> (None, db)))"

section \<open>Issuing\<close>

text \<open>How the names of an order are proved. An order without domains makes the source panic; none is
  ever stored, and the model answers an error.\<close>

definition order_solver ::
  "('s, 'k, 'r, 'p) manage_env \<Rightarrow> cert_order \<Rightarrow> database \<Rightarrow> 's \<Rightarrow>
   (order_error + ('p \<times> solver) option \<times> upstream list option) \<times> database \<times> 's" where
  "order_solver e ord db s =
     (if od_AccountID ord \<noteq> 0 then
        (case account_provider (me_re e) (me_registry e) (od_AccountID ord) db of
           (Inl err, db) \<Rightarrow> (Inl (OrderRepo err), db, s)
         | (Inr (Inl err), db) \<Rightarrow> (Inl (BadProvider err), db, s)
         | (Inr (Inr p), db) \<Rightarrow>
             (case od_Domains ord of
                [] \<Rightarrow> (Inl NoOrderDomains, db, s)
              | d # ds \<Rightarrow>
                  (case me_domains e p s of (zones, s) \<Rightarrow>
                     (case RegistrableZone (ae_lower (me_acme e)) zones d of
                        Inl err \<Rightarrow> (Inl (NoZone err), db, s)
                      | Inr zone \<Rightarrow> (Inr (Some (p, NewSolver (ae_lower (me_acme e)) zone), None), db, s)))))
      else if NeedsDNSChallenge (od_Domains ord) then (Inl WildcardNeedsDNS, db, s)
      else case me_http e of
        None \<Rightarrow> (Inl NoValidation, db, s)
      | Some servers \<Rightarrow>
          (case checkReachable (me_lookup e s) servers (od_Domains ord) of
             Inl (problems, expected) \<Rightarrow> (Inl (PointsElsewhere problems expected), db, s)
           | Inr note \<Rightarrow> (Inr (None, Some servers), db, s)))"

definition order_request :: "cert_order \<Rightarrow> authority \<Rightarrow> ('k, 'r) acme_account \<Rightarrow> 'v option \<times> 'h option \<Rightarrow> ('k, 'r, 'v, 'h) issue_request" where
  "order_request ord ca a solvers =
     \<lparr>ir_Domains = od_Domains ord, ir_CA = ca_Key ca, ir_KeyType = od_KeyType ord, ir_Account = Some a,
      ir_Solver = fst solvers, ir_HTTPSolver = snd solvers, ir_PreferredChain = []\<rparr>"

definition manage_issue ::
  "('s, 'k, 'r, 'p) manage_env \<Rightarrow> cert_order \<Rightarrow> database \<Rightarrow> 's \<Rightarrow> (order_error + x509_certificate) \<times> database \<times> 's" where
  "manage_issue e ord db s =
     (case LookupCA (od_CA ord) of
        None \<Rightarrow> (Inl (NoSuchCA (od_CA ord)), db, s)
      | Some ca \<Rightarrow>
     (case acmeAccount (me_json e) (ca_Key ca) (od_Email ord) db of
        (Inl err, db) \<Rightarrow> (Inl err, db, s)
      | (Inr a, db) \<Rightarrow>
          if ca_RequiresEAB ca \<and> aa_EABKeyID a = [] then (Inl (NeedsEAB (ca_Label ca)), db, s)
          else
     (case order_solver e ord db s of
        (Inl err, db, s) \<Rightarrow> (Inl err, db, s)
      | (Inr solvers, db, s) \<Rightarrow>
     (case Issue (me_acme e) (order_request ord ca a solvers) s of
        (Inl err, changed, s) \<Rightarrow> (Inl (NotIssuedBy err), db, s)
      | (Inr c, changed, s) \<Rightarrow>
          (case saveACMEAccount (me_json e) (ca_Key ca) (case changed of None \<Rightarrow> a | Some a \<Rightarrow> a) db of
             (Some err, db) \<Rightarrow> (Inl err, db, s)
           | (None, db) \<Rightarrow> (Inr c, db, s))))))"

definition issue_result ::
  "('s, 'k, 'r, 'p) manage_env \<Rightarrow> (order_error \<Rightarrow> string) \<Rightarrow> int \<Rightarrow> cert_order \<Rightarrow>
   (order_error + x509_certificate) \<times> database \<times> 's \<Rightarrow> order_error option \<times> database \<times> 's" where
  "issue_result e error_text i ord st =
     (case st of
        (Inl err, db, s) \<Rightarrow>
          (let db = snd (Orders_SetState i StateFailed (error_text err) db);
               db = snd (AppendEvent i ''failed'' (error_text err) db)
           in (Some err, db, s))
      | (Inr c, db, s) \<Rightarrow>
          (case StoreCertificate i (ci_FullchainPEM c) (ci_PrivateKeyPEM c) (unix_of (ci_IssuedAt c)) (unix_of (ci_NotAfter c)) db of
             (Some err, db) \<Rightarrow> (Some (OrderRepo err), db, s)
           | (None, db) \<Rightarrow>
               (None, snd (AppendEvent i (if od_IssuedAt ord > 0 then ''renewed'' else ''issued'')
                  (''valid until '' @ me_date e (ci_NotAfter c)) db), s)))"

definition Service_Issue ::
  "('s, 'k, 'r, 'p) manage_env \<Rightarrow> (order_error \<Rightarrow> string) \<Rightarrow> int \<Rightarrow> database \<Rightarrow> 's \<Rightarrow> order_error option \<times> database \<times> 's" where
  "Service_Issue e error_text i db s =
     (case Orders_Get i db of
        (Inl err, db) \<Rightarrow> (Some (OrderRepo err), db, s)
      | (Inr ord, db) \<Rightarrow>
     (case Orders_SetState i StateIssuing [] db of
        (Some err, db) \<Rightarrow> (Some (OrderRepo err), db, s)
      | (None, db) \<Rightarrow> issue_result e error_text i ord (manage_issue e ord db s)))"

section \<open>The source of the certificates a client pushes\<close>

datatype source_error = SourceRepo repo_error | ErrNoCertificate int

definition CertSource_Certificate ::
  "x509_reader \<Rightarrow> int \<Rightarrow> database \<Rightarrow> (source_error + Cli_Session.certificate) \<times> database" where
  "CertSource_Certificate x i db =
     (case Orders_Get i db of
        (Inl err, db) \<Rightarrow> (Inl (SourceRepo err), db)
      | (Inr ord, db) \<Rightarrow>
          if od_Certificate ord = [] \<or> od_PrivateKey ord = [] then (Inl (ErrNoCertificate i), db)
          else (case (case Populate x (bare_certificate (od_Certificate ord) (od_PrivateKey ord)) of
                        Inl err \<Rightarrow> (Some (od_Domains ord), od_ExpiresAt ord)
                      | Inr m \<Rightarrow> (if ci_Domains m = [] then None else Some (ci_Domains m), unix_of (ci_NotAfter m))) of
                  (domains, notAfter) \<Rightarrow>
                    (Inr \<lparr>ce_Domains = domains, ce_Fullchain = od_Certificate ord, ce_PrivateKey = od_PrivateKey ord,
                         ce_NotAfter = notAfter\<rparr>, db)))"

end
