(* ===== verification/Man_Orders.thy ===== *)
theory Man_Orders
  imports Man_Cert
begin

text \<open>
  What issuing does to the orders: whatever fails, no certificate is lost, and what is stored is what
  was issued and what the client then pushes.
\<close>

section \<open>What each step leaves alone\<close>

lemma statement_frame:
  "statement db = (ok, now, db') \<Longrightarrow> db_orders db' = db_orders db \<and> db_acme db' = db_acme db \<and> db_accounts db' = db_accounts db"
  by (auto simp: statement_def)

lemma Orders_Get_ok:
  "Orders_Get i db = (r, db') \<Longrightarrow> db_orders db' = db_orders db \<and> db_acme db' = db_acme db \<and>
     (\<forall>ord. r = Inr ord \<longrightarrow> (\<exists>row. order_of db i = Some row \<and> ord = scanOrder row))"
  by (auto simp: Orders_Get_def order_of_def split: prod.splits option.splits if_splits dest: statement_frame)

lemma update_order_ok:
  assumes "update_order i f db = (err, db')" and "\<And>now r. ow_ID (f now r) = ow_ID r"
  shows "db_acme db' = db_acme db"
    and "err \<noteq> None \<Longrightarrow> db_orders db' = db_orders db"
    and "err = None \<Longrightarrow> \<exists>now row. order_of db i = Some row \<and> order_of db' = (order_of db)(i \<mapsto> f now row)"
proof -
  obtain ok now db1 where s: "statement db = (ok, now, db1)" by (cases "statement db")
  note frame = statement_frame [OF s]
  have found: "order_of (db1\<lparr>db_orders := map (\<lambda>r. if ow_ID r = i then f now r else r) (db_orders db1)\<rparr>) j =
      (if j = i then map_option (f now) (order_of db j) else order_of db j)" for j
    using find_map_update [of ow_ID "f now" j i "db_orders db"] assms(2) frame by (simp add: order_of_def)
  show "db_acme db' = db_acme db" "err \<noteq> None \<Longrightarrow> db_orders db' = db_orders db"
    using assms(1) s frame by (auto simp: update_order_def split: if_splits)
  assume "err = None"
  then have "db' = db1\<lparr>db_orders := map (\<lambda>r. if ow_ID r = i then f now r else r) (db_orders db1)\<rparr>"
    and "i \<in> ow_ID ` set (db_orders db)"
    using assms(1) s frame by (auto simp: update_order_def split: if_splits)
  moreover from this(2) obtain row where "order_of db i = Some row"
    using find_present [of ow_ID i "db_orders db"] by (auto simp: order_of_def)
  ultimately show "\<exists>now row. order_of db i = Some row \<and> order_of db' = (order_of db)(i \<mapsto> f now row)"
    using found by (intro exI [of _ now] exI [of _ row]) (auto simp: fun_eq_iff)
qed

lemma AppendEvent_frame:
  "db_orders (snd (AppendEvent i kind detail db)) = db_orders db \<and> db_acme (snd (AppendEvent i kind detail db)) = db_acme db"
  by (auto simp: AppendEvent_def split: prod.splits dest!: statement_frame)

lemma FindEAB_frame: "FindEAB ca db = (r, db') \<Longrightarrow> db_orders db' = db_orders db \<and> db_acme db' = db_acme db"
  by (auto simp: FindEAB_def split: prod.splits dest!: statement_frame)

lemma ACME_Find_frame: "ACME_Find ca email db = (r, db') \<Longrightarrow> db_orders db' = db_orders db \<and> db_acme db' = db_acme db"
  by (auto simp: ACME_Find_def split: prod.splits dest!: statement_frame)

lemma acmeAccount_frame: "acmeAccount j ca email db = (r, db') \<Longrightarrow> db_orders db' = db_orders db \<and> db_acme db' = db_acme db"
  by (auto simp: acmeAccount_def split: prod.splits sum.splits option.splits if_splits
      dest!: FindEAB_frame ACME_Find_frame)

lemma Accounts_Get_frame: "Accounts_Get i db = (r, db') \<Longrightarrow> db_orders db' = db_orders db \<and> db_acme db' = db_acme db \<and> db_accounts db' = db_accounts db"
  by (auto simp: Accounts_Get_def split: prod.splits dest!: statement_frame)

lemma order_solver_frame: "order_solver e ord db s = (r, db', s') \<Longrightarrow> db_orders db' = db_orders db \<and> db_acme db' = db_acme db"
  by (auto simp: order_solver_def account_provider_def split: prod.splits sum.splits option.splits if_splits list.splits
      dest!: Accounts_Get_frame)

lemma saveACME_frame: "saveACMEAccount j ca a db = (r, db') \<Longrightarrow> db_orders db' = db_orders db"
  by (auto simp: saveACMEAccount_def ACME_Save_def Let_def split: prod.splits sum.splits option.splits if_splits
      dest!: statement_frame)

lemma saveACME_refused: "saveACMEAccount j ca a db = (Some err, db') \<Longrightarrow> db_acme db' = db_acme db"
  by (auto simp: saveACMEAccount_def ACME_Save_def Let_def split: prod.splits sum.splits option.splits if_splits
      dest!: statement_frame)

lemma manage_issue_frame:
  "manage_issue e ord db s = (r, db', s') \<Longrightarrow>
     db_orders db' = db_orders db \<and> (\<forall>err. r = Inl err \<longrightarrow> db_acme db' = db_acme db)"
  by (auto simp: manage_issue_def split: prod.splits sum.splits option.splits if_splits
      dest!: acmeAccount_frame order_solver_frame dest: saveACME_frame saveACME_refused)

definition request_of :: "cert_order \<Rightarrow> ('k, 'r, 'v, 'h) issue_request \<Rightarrow> bool" where
  "request_of ord rq \<longleftrightarrow> ir_Domains rq = od_Domains ord \<and> ir_KeyType rq = od_KeyType ord \<and>
     (\<exists>ca. LookupCA (od_CA ord) = Some ca \<and> ir_CA rq = ca_Key ca)"

lemma manage_issue_issued:
  assumes "manage_issue e ord db s = (Inr c, db', s')"
  shows "\<exists>rq a s1. request_of ord rq \<and> issued_for (me_acme e) rq c a s1"
proof -
  obtain ca a0 solvers s0 oa s1 where rq: "LookupCA (od_CA ord) = Some ca"
    "Issue (me_acme e) (order_request ord ca a0 solvers) s0 = (Inr c, oa, s1)"
    using assms unfolding manage_issue_def by (auto split: prod.splits sum.splits option.splits if_splits)
  then obtain a where "oa = Some a" by (elim Issue_parts)
  with rq have "issued_for (me_acme e) (order_request ord ca a0 solvers) c a s1" by (intro issue_sound) simp
  moreover have "request_of ord (order_request ord ca a0 solvers)"
    using rq(1) by (simp add: request_of_def order_request_def)
  ultimately show ?thesis by blast
qed

section \<open>No certificate is lost\<close>

text \<open>A row after an attempt: what the operator ordered stays; after a failure the certificate, its key
  and its dates stay too; after a success they are, together, what was issued for the order.\<close>

definition after_issue ::
  "('s, 'k, 'r, 'p) manage_env \<Rightarrow> order_error option \<Rightarrow> order_row \<Rightarrow> order_row \<Rightarrow> bool" where
  "after_issue e err row row' \<longleftrightarrow>
     (\<exists>state msg t. row' = row\<lparr>ow_State := state, ow_LastError := msg, ow_UpdatedAt := t,
         ow_Certificate := ow_Certificate row', ow_PrivateKey := ow_PrivateKey row', ow_IssuedAt := ow_IssuedAt row',
         ow_ExpiresAt := ow_ExpiresAt row'\<rparr>) \<and>
     (case err of
        Some x \<Rightarrow> ow_Certificate row' = ow_Certificate row \<and> ow_PrivateKey row' = ow_PrivateKey row \<and>
          ow_IssuedAt row' = ow_IssuedAt row \<and> ow_ExpiresAt row' = ow_ExpiresAt row
      | None \<Rightarrow> ow_State row' = StateIssued \<and> ow_LastError row' = [] \<and>
          (\<exists>c rq a s1. request_of (scanOrder row) rq \<and> issued_for (me_acme e) rq c a s1 \<and>
             ow_Certificate row' = ci_FullchainPEM c \<and> ow_PrivateKey row' = ci_PrivateKeyPEM c \<and>
             ow_IssuedAt row' = Some (unix_of (ci_IssuedAt c)) \<and> ow_ExpiresAt row' = Some (unix_of (ci_NotAfter c))))"

lemma order_of_orders: "db_orders db' = db_orders db \<Longrightarrow> order_of db' = order_of db"
  by (simp add: order_of_def fun_eq_iff)

lemma set_state_cases:
  "Orders_SetState i state msg db = (err, db') \<Longrightarrow>
     order_of db' = order_of db \<and> err \<noteq> None \<or>
     (\<exists>t row. err = None \<and> order_of db i = Some row \<and>
        order_of db' = (order_of db)(i \<mapsto> row\<lparr>ow_State := state, ow_LastError := msg, ow_UpdatedAt := t\<rparr>))"
  unfolding Orders_SetState_def
  using update_order_ok(2,3) [of i "\<lambda>now r. r\<lparr>ow_State := state, ow_LastError := msg, ow_UpdatedAt := now\<rparr>" db err db']
    order_of_orders [of db' db] by (cases err) auto

lemma store_cases:
  "StoreCertificate i chain key issued expires db = (err, db') \<Longrightarrow>
     order_of db' = order_of db \<and> err \<noteq> None \<or>
     (\<exists>t row. err = None \<and> order_of db i = Some row \<and>
        order_of db' = (order_of db)(i \<mapsto> row\<lparr>ow_Certificate := chain, ow_PrivateKey := key, ow_IssuedAt := Some issued,
          ow_ExpiresAt := Some expires, ow_State := StateIssued, ow_LastError := [], ow_UpdatedAt := t\<rparr>))"
  unfolding StoreCertificate_def
  using update_order_ok(2,3) [of i "\<lambda>now r. r\<lparr>ow_Certificate := chain, ow_PrivateKey := key, ow_IssuedAt := Some issued,
       ow_ExpiresAt := Some expires, ow_State := StateIssued, ow_LastError := [], ow_UpdatedAt := now\<rparr>" db err db']
    order_of_orders [of db' db] by (cases err) auto

lemma after_issue_failed:
  "after_issue e (Some x) row (row\<lparr>ow_State := state, ow_LastError := msg, ow_UpdatedAt := t\<rparr>)"
  unfolding after_issue_def by (rule conjI, rule exI [of _ state], rule exI [of _ msg], rule exI [of _ t]) simp_all

lemma after_issue_issued:
  assumes "request_of (scanOrder row) rq" and "issued_for (me_acme e) rq c a s1"
  shows "after_issue e None row (row\<lparr>ow_Certificate := ci_FullchainPEM c, ow_PrivateKey := ci_PrivateKeyPEM c,
      ow_IssuedAt := Some (unix_of (ci_IssuedAt c)), ow_ExpiresAt := Some (unix_of (ci_NotAfter c)),
      ow_State := StateIssued, ow_LastError := [], ow_UpdatedAt := t\<rparr>)"
  unfolding after_issue_def
  by (rule conjI, rule exI [of _ StateIssued], rule exI [of _ "[]"], rule exI [of _ t]) (use assms in auto)

lemma issue_result_cases:
  assumes "issue_result e error_text i (scanOrder row) (m, db, s) = (err, db', s')"
    and "order_of db i = Some (row\<lparr>ow_State := st, ow_LastError := msg, ow_UpdatedAt := t0\<rparr>)"
    and "\<And>c. m = Inr c \<Longrightarrow> \<exists>rq a s1. request_of (scanOrder row) rq \<and> issued_for (me_acme e) rq c a s1"
  shows "\<exists>row'. order_of db' = (order_of db)(i \<mapsto> row') \<and> after_issue e err row row'"
proof (cases m)
  case (Inl x)
  obtain e4 db4 where failed: "Orders_SetState i StateFailed (error_text x) db = (e4, db4)" by force
  have run: "err = Some x" "order_of db' = order_of db4"
    using assms(1) Inl failed order_of_orders [OF AppendEvent_frame [THEN conjunct1]]
    by (auto simp: issue_result_def Let_def)
  have "order_of db4 = order_of db \<or>
      (\<exists>t. order_of db4 = (order_of db)(i \<mapsto> row\<lparr>ow_State := StateFailed, ow_LastError := error_text x, ow_UpdatedAt := t\<rparr>))"
    using set_state_cases [OF failed] assms(2) by auto
  with run assms(2) after_issue_failed show ?thesis by (metis fun_upd_triv)
next
  case (Inr c)
  obtain e4 db4 where store: "StoreCertificate i (ci_FullchainPEM c) (ci_PrivateKeyPEM c) (unix_of (ci_IssuedAt c))
      (unix_of (ci_NotAfter c)) db = (e4, db4)" by force
  obtain rq a s1 where issued: "request_of (scanOrder row) rq" "issued_for (me_acme e) rq c a s1"
    using assms(3) [OF Inr] by blast
  have run: "order_of db' = order_of db4" "err = map_option OrderRepo e4"
    using assms(1) Inr store order_of_orders [OF AppendEvent_frame [THEN conjunct1]]
    by (auto simp: issue_result_def split: option.splits)
  show ?thesis
  proof (cases e4)
    case (Some x)
    then show ?thesis using run assms(2) after_issue_failed store_cases [OF store] by (metis fun_upd_triv option.simps(3,9))
  next
    case None
    then obtain t where "order_of db4 = (order_of db)(i \<mapsto> row\<lparr>ow_Certificate := ci_FullchainPEM c, ow_PrivateKey := ci_PrivateKeyPEM c,
        ow_IssuedAt := Some (unix_of (ci_IssuedAt c)), ow_ExpiresAt := Some (unix_of (ci_NotAfter c)),
        ow_State := StateIssued, ow_LastError := [], ow_UpdatedAt := t\<rparr>)"
      using store_cases [OF store] assms(2) by auto
    then show ?thesis using run None after_issue_issued [OF issued, of t] by auto
  qed
qed

text \<open>C39: an attempt to issue never loses a certificate. Whatever the authority, the DNS vendor or the
  database refuses and wherever it stops, only the order itself changes: after an error its certificate,
  key and dates are those before and what was ordered stays; after a success all four were stored at
  once and are what the authority issued for the order's own names and key type.\<close>

theorem issue_keeps_certificates:
  assumes "Service_Issue e error_text i db s = (err, db', s')"
  shows "order_of db' = order_of db \<and> err \<noteq> None \<or>
    (\<exists>row row'. order_of db i = Some row \<and> order_of db' = (order_of db)(i \<mapsto> row') \<and> after_issue e err row row')"
proof -
  obtain r db1 where get: "Orders_Get i db = (r, db1)" by force
  note g = Orders_Get_ok [OF get]
  have same1: "order_of db1 = order_of db" using g order_of_orders by blast
  show ?thesis
  proof (cases r)
    case (Inl x)
    then show ?thesis using assms get same1 by (auto simp: Service_Issue_def)
  next
    case (Inr ord)
    then obtain row where row: "order_of db i = Some row" "ord = scanOrder row" using g by blast
    obtain e2 db2 where set: "Orders_SetState i StateIssuing [] db1 = (e2, db2)" by force
    show ?thesis
    proof (cases e2)
      case (Some x)
      then show ?thesis using assms get set Inr same1 set_state_cases [OF set] by (auto simp: Service_Issue_def)
    next
      case None
      then obtain t where row1: "order_of db2 = (order_of db)(i \<mapsto> row\<lparr>ow_State := StateIssuing, ow_LastError := [], ow_UpdatedAt := t\<rparr>)"
        using set_state_cases [OF set] row same1 by auto
      obtain m db3 s3 where man: "manage_issue e ord db2 s = (m, db3, s3)" by (cases "manage_issue e ord db2 s")
      have row3: "order_of db3 = order_of db2" using manage_issue_frame [OF man] order_of_orders by blast
      have "issue_result e error_text i (scanOrder row) (m, db3, s3) = (err, db', s')"
        using assms get set man Inr None row(2) by (simp add: Service_Issue_def)
      moreover have "\<exists>rq a s1. request_of (scanOrder row) rq \<and> issued_for (me_acme e) rq c a s1" if "m = Inr c" for c
        using manage_issue_issued [OF man [unfolded that]] row(2) by simp
      ultimately have "\<exists>row'. order_of db' = (order_of db3)(i \<mapsto> row') \<and> after_issue e err row row'"
        using row1 row3 by (intro issue_result_cases) auto
      then show ?thesis using row(1) row1 row3 by auto
    qed
  qed
qed

section \<open>What is issued is what is pushed\<close>

lemma scan_material: "od_Certificate (scanOrder r) = ow_Certificate r" "od_PrivateKey (scanOrder r) = ow_PrivateKey r"
  by (simp_all add: scanOrder_def)

lemma Populate_bare:
  assumes "Certificate_Leaf x chain = Inr leaf"
  shows "\<exists>m. Populate x (bare_certificate chain key) = Inr m \<and> ci_Domains m = xl_DNSNames leaf \<and> ci_NotAfter m = xl_NotAfter leaf"
  using assms by (simp add: Populate_def bare_certificate_def Let_def)

text \<open>The client pushes the certificate that was issued. After an order was issued, the source of the
  client's pushes answers, unless the database refuses, exactly the chain and key the authority gave,
  with the names and the expiry of the chain itself.\<close>

theorem issued_certificate_is_pushed:
  assumes "Service_Issue e error_text i db s = (None, db', s')"
    and "CertSource_Certificate (ae_x509 (me_acme e)) i db' = (res, db'')"
  shows "\<exists>c rq a s1. issued_for (me_acme e) rq c a s1 \<and>
    (res = Inl (SourceRepo Refused) \<or>
     (ci_FullchainPEM c = [] \<or> ci_PrivateKeyPEM c = []) \<and> res = Inl (ErrNoCertificate i) \<or>
     (\<exists>leaf. Certificate_Leaf (ae_x509 (me_acme e)) (ci_FullchainPEM c) = Inr leaf \<and>
        res = Inr \<lparr>ce_Domains = (if xl_DNSNames leaf = [] then None else Some (xl_DNSNames leaf)),
                   ce_Fullchain = ci_FullchainPEM c, ce_PrivateKey = ci_PrivateKeyPEM c,
                   ce_NotAfter = unix_of (xl_NotAfter leaf)\<rparr>))"
proof -
  obtain row row' where "order_of db' = (order_of db)(i \<mapsto> row')" "after_issue e None row row'"
    using issue_keeps_certificates [OF assms(1)] by auto
  then obtain c rq a s1 where c: "issued_for (me_acme e) rq c a s1" "order_of db' i = Some row'"
    "ow_Certificate row' = ci_FullchainPEM c" "ow_PrivateKey row' = ci_PrivateKeyPEM c"
    unfolding after_issue_def by auto
  obtain leaf where leaf: "Certificate_Leaf (ae_x509 (me_acme e)) (ci_FullchainPEM c) = Inr leaf"
    using c(1) unfolding issued_for_def Let_def by blast
  obtain r db1 where get: "Orders_Get i db' = (r, db1)" by force
  have r: "r = Inl Refused \<or> r = Inr (scanOrder row')"
    using get c(2) by (auto simp: Orders_Get_def order_of_def split: prod.splits if_splits dest!: statement_frame)
  obtain m where m: "Populate (ae_x509 (me_acme e)) (bare_certificate (ow_Certificate row') (ow_PrivateKey row')) = Inr m"
    "ci_Domains m = xl_DNSNames leaf" "ci_NotAfter m = xl_NotAfter leaf"
    using Populate_bare [OF leaf] c(3) by auto
  consider "res = Inl (SourceRepo Refused)"
    | "ci_FullchainPEM c = [] \<or> ci_PrivateKeyPEM c = []" "res = Inl (ErrNoCertificate i)"
    | "res = Inr \<lparr>ce_Domains = (if xl_DNSNames leaf = [] then None else Some (xl_DNSNames leaf)),
         ce_Fullchain = ci_FullchainPEM c, ce_PrivateKey = ci_PrivateKeyPEM c, ce_NotAfter = unix_of (xl_NotAfter leaf)\<rparr>"
    using assms(2) get r m c(3,4)
    by (elim disjE) (auto simp: CertSource_Certificate_def scan_material split: if_splits)
  then show ?thesis using c(1) leaf by cases blast+
qed

section \<open>What a failed attempt forgets\<close>

lemma ACME_Find_missing:
  assumes "\<forall>r \<in> set (db_acme db). \<not> (am_CA r = ca \<and> am_Email r = email)"
  shows "\<exists>err db'. ACME_Find ca email db = (Inl err, db')"
proof -
  have "find (\<lambda>a. am_CA a = ca \<and> am_Email a = email) (db_acme db) = None"
    using assms by (simp add: find_None_iff)
  then show ?thesis by (simp add: ACME_Find_def statement_def)
qed

text \<open>A failed first attempt forgets the account it registered. When the authority does not issue,
  nothing of the ACME account is stored, so the next attempt of a new customer starts with no key and no
  registration and registers once more.\<close>

theorem failed_issue_registers_again:
  assumes "manage_issue e ord db s = (Inl err, db', s')" and "LookupCA (od_CA ord) = Some ca"
    and "\<forall>r \<in> set (db_acme db). \<not> (am_CA r = ca_Key ca \<and> am_Email r = od_Email ord)"
  shows "\<exists>a db''. acmeAccount (me_json e) (ca_Key ca) (od_Email ord) db' = (Inr a, db'') \<and>
    aa_PrivateKey a = [] \<and> aa_key a = None \<and> aa_registration a = None"
proof -
  have "db_acme db' = db_acme db" using manage_issue_frame [OF assms(1)] by blast
  then obtain x db1 where find: "ACME_Find (ca_Key ca) (od_Email ord) db' = (Inl x, db1)"
    using ACME_Find_missing [of db' "ca_Key ca" "od_Email ord"] assms(3) by auto
  show ?thesis
    by (cases "FindEAB (ca_Key ca) db1"; cases "fst (FindEAB (ca_Key ca) db1)")
      (auto simp: acmeAccount_def find new_account_def split: prod.splits sum.splits)
qed

text \<open>A renewal that fails is not due any more, although its certificate still is in use.\<close>

lemma failed_order_not_due: "ow_State row = StateFailed \<Longrightarrow> \<not> due_row cutoff row"
  by (simp add: due_row_def StateFailed_def StateIssued_def)

section \<open>Orders that are accepted\<close>

definition ids_ok :: "database \<Rightarrow> bool" where
  "ids_ok db \<longleftrightarrow> (\<forall>r \<in> set (db_orders db). ow_ID r < fst (snd (snd (db_ids db))))"

lemma Orders_Create_ok:
  assumes "Orders_Create ord db = (Inr created, db')" and "ids_ok db"
  shows "ids_ok db' \<and> order_of db (od_ID created) = None \<and>
    (\<exists>row. order_of db' = (order_of db)(od_ID created \<mapsto> row) \<and> ow_Domains row = od_Domains ord \<and> ow_KeyType row = od_KeyType ord \<and>
       ow_CA row = od_CA ord \<and> ow_Email row = od_Email ord \<and> ow_AccountID row = nullableID (od_AccountID ord) \<and>
       ow_Certificate row = [] \<and> ow_State row = (if od_State ord = [] then StatePending else od_State ord) \<and>
       (od_AccountID ord \<noteq> 0 \<longrightarrow> od_AccountID ord \<in> da_ID ` set (db_accounts db)))"
proof -
  obtain ok now db1 where s: "statement db = (ok, now, db1)" by (cases "statement db")
  note frame = statement_frame [OF s]
  have ids1: "db_ids db1 = db_ids db" using s by (auto simp: statement_def)
  obtain x y k l where ids: "db_ids db = (x, y, k, l)" by (cases "db_ids db")
  have fresh: "find (\<lambda>r. ow_ID r = k) (db_orders db) = None"
    using assms(2) ids by (auto simp: ids_ok_def find_None_iff)
  have new: "created = ord\<lparr>od_ID := k, od_State := (if od_State ord = [] then StatePending else od_State ord),
      od_AutoRenew := Some (case od_AutoRenew ord of None \<Rightarrow> True | Some b \<Rightarrow> b), od_CreatedAt := now, od_UpdatedAt := now\<rparr>"
    and acc: "od_AccountID ord \<noteq> 0 \<longrightarrow> od_AccountID ord \<in> da_ID ` set (db_accounts db)"
    and "\<exists>row. db' = db1\<lparr>db_orders := db_orders db1 @ [row], db_ids := (x, y, k + 1, l)\<rparr> \<and> ow_ID row = k \<and>
      ow_Domains row = od_Domains ord \<and> ow_KeyType row = od_KeyType ord \<and> ow_CA row = od_CA ord \<and> ow_Email row = od_Email ord \<and>
      ow_AccountID row = nullableID (od_AccountID ord) \<and> ow_Certificate row = [] \<and>
      ow_State row = (if od_State ord = [] then StatePending else od_State ord)"
    using assms(1) s ids ids1 frame by (auto simp: Orders_Create_def Let_def split: if_splits)
  then obtain row where row: "db_orders db' = db_orders db @ [row]" "ow_ID row = k" "ow_Domains row = od_Domains ord"
    "ow_KeyType row = od_KeyType ord" "ow_CA row = od_CA ord" "ow_Email row = od_Email ord"
    "ow_AccountID row = nullableID (od_AccountID ord)" "ow_Certificate row = []"
    "ow_State row = (if od_State ord = [] then StatePending else od_State ord)" "db_ids db' = (x, y, k + 1, l)"
    using frame by auto
  have found: "find (\<lambda>r. ow_ID r = j) (xs @ [row]) = (case find (\<lambda>r. ow_ID r = j) xs of None \<Rightarrow> if j = k then Some row else None | Some r \<Rightarrow> Some r)"
    for j xs using row(2) by (induction xs) auto
  have "order_of db' = (order_of db)(od_ID created \<mapsto> row)"
    using fresh new by (auto simp: order_of_def row(1) found fun_eq_iff split: option.splits)
  moreover have "ids_ok db'" using assms(2) row(1,2,10) ids by (auto simp: ids_ok_def)
  ultimately show ?thesis using fresh new row acc by (auto simp: order_of_def)
qed

lemma check_order_None:
  "check_order e i domains = None \<longleftrightarrow> domains \<noteq> [] \<and> oi_Email i \<noteq> [] \<and> KeyType_Valid (order_keyType i) \<and>
     LookupCA (order_ca i) \<noteq> None \<and> (oi_AccountID i \<noteq> 0 \<or> me_http e \<noteq> None \<and> \<not> NeedsDNSChallenge domains)"
  by (auto simp: check_order_def)

lemma order_view_ID: "ov_ID (order_view_of e ord names now) = od_ID ord"
  by (simp add: order_view_of_def Let_def split: sum.split)

text \<open>An order that is accepted can be issued. It is stored under a new id and no other order
  changes; its names are the normalised ones and not empty, its key type and authority are known, and
  there is a way to prove the names: an account that exists, or an HTTP solver and no wildcard.\<close>

theorem created_order_stored:
  assumes "CreateOrder e now i db = (Inr view, db')" and "ids_ok db"
  shows "ids_ok db' \<and> order_of db (ov_ID view) = None \<and>
    (\<exists>row. order_of db' = (order_of db)(ov_ID view \<mapsto> row) \<and>
       ow_Domains row = NormaliseDomains (ae_lower (me_acme e)) (oi_Domains i) \<and> ow_Domains row \<noteq> [] \<and> ow_Email row \<noteq> [] \<and>
       KeyType_Valid (ow_KeyType row) \<and> LookupCA (ow_CA row) \<noteq> None \<and> ow_State row = StatePending \<and> ow_Certificate row = [] \<and>
       (case ow_AccountID row of
          Some a \<Rightarrow> a \<in> da_ID ` set (db_accounts db)
        | None \<Rightarrow> me_http e \<noteq> None \<and> \<not> NeedsDNSChallenge (ow_Domains row)))"
proof -
  let ?ds = "NormaliseDomains (ae_lower (me_acme e)) (oi_Domains i)"
  have checked: "check_order e i ?ds = None"
    using assms(1) by (cases "check_order e i ?ds") (simp_all add: CreateOrder_def Let_def)
  define found where "found = (if oi_AccountID i \<noteq> 0
      then (case Accounts_Get (oi_AccountID i) db of (Inl err, db) \<Rightarrow> (Some err, db) | (Inr a, db) \<Rightarrow> (None, db)) else (None, db))"
  obtain e1 db1 where e1: "found = (e1, db1)" by force
  obtain r db2 where create: "Orders_Create (new_order i ?ds) db1 = (r, db2)" by force
  have same: "db_orders db1 = db_orders db" "db_accounts db1 = db_accounts db" "db_ids db1 = db_ids db"
    using e1 unfolding found_def by (auto simp: Accounts_Get_def statement_def split: if_splits prod.splits sum.splits)
  have none: "e1 = None" "\<exists>created. r = Inr created"
    using assms(1) checked e1 create unfolding CreateOrder_def Let_def found_def
    by (auto split: option.splits sum.splits)
  then obtain created where created: "r = Inr created" by blast
  have view: "view = order_view_of e created [] now" "db' = snd (AppendEvent (od_ID created) ''requested'' [] db2)"
    using assms(1) checked e1 create none(1) created unfolding CreateOrder_def Let_def found_def
    by (auto split: prod.splits)
  have "ids_ok db1" using assms(2) same by (simp add: ids_ok_def)
  note stored = Orders_Create_ok [OF create [unfolded created] this]
  have "ids_ok db'" "order_of db' = order_of db2"
    using stored order_of_orders [OF AppendEvent_frame [THEN conjunct1]] unfolding view(2)
    by (auto simp: ids_ok_def AppendEvent_def statement_def split: prod.splits)
  moreover have "order_of db1 = order_of db" using same(1) by (rule order_of_orders)
  ultimately show ?thesis
    using stored checked same(2) unfolding view(1) check_order_None order_view_ID
    by (auto simp: new_order_def nullableID_def split: if_splits)
qed

section \<open>Examples\<close>

text \<open>One order whose last attempt failed; the authority of \<open>demo_acme\<close> issues at the second try.\<close>

definition demo_service :: "(nat, unit, unit, unit) manage_env" where
  "demo_service =
     \<lparr>me_re = (\<lambda>p v. Some True), me_registry = demo_registry, me_acme = demo_acme,
      me_json = \<lparr>rj_decode = (\<lambda>b. Some ()), rj_encode = (\<lambda>r. Some ''reg''), rj_uri = (\<lambda>r. ''uri'')\<rparr>,
      me_domains = (\<lambda>p s. (Inr [''example.com''], s)), me_http = Some [demo_server], me_lookup = (\<lambda>s. demo_lookup),
      me_days = (\<lambda>d. d div (24 * Hour)), me_date = (\<lambda>t. [])\<rparr>"

definition demo_row :: order_row where
  "demo_row =
     \<lparr>ow_ID = 1, ow_Domains = [''nas.example.com''], ow_KeyType = ''ec256'', ow_CA = ''letsencrypt'', ow_AccountID = None,
      ow_Email = ''me@example.com'', ow_AutoRenew = True, ow_State = StateFailed, ow_LastError = ''busy'',
      ow_Certificate = ''old chain'', ow_PrivateKey = ''old key'', ow_IssuedAt = Some 5, ow_ExpiresAt = Some 9,
      ow_CreatedAt = 1, ow_UpdatedAt = 2\<rparr>"

definition demo_orders :: database where
  "demo_orders = demo_database\<lparr>db_orders := [demo_row], db_ids := (4, 1, 2, 1)\<rparr>"

definition demo_issued :: "order_error option \<times> database \<times> nat" where
  "demo_issued = Service_Issue demo_service (\<lambda>e. ''failed'') 1 demo_orders 0"

lemma demo_issued_ok: "fst demo_issued = None"
  by code_simp

lemma demo_issued_run:
  "Service_Issue demo_service (\<lambda>e. ''failed'') 1 demo_orders 0 = (None, fst (snd demo_issued), snd (snd demo_issued))"
  using demo_issued_ok by (simp add: demo_issued_def prod_eq_iff)

theorem issue_keeps_certificates_witness:
  "order_of (fst (snd demo_issued)) = order_of demo_orders \<and> (None :: order_error option) \<noteq> None \<or>
   (\<exists>row row'. order_of demo_orders 1 = Some row \<and> order_of (fst (snd demo_issued)) = (order_of demo_orders)(1 \<mapsto> row') \<and>
      after_issue demo_service None row row')"
  by (rule issue_keeps_certificates [OF demo_issued_run])

definition demo_pushed :: "(source_error + Cli_Session.certificate) \<times> database" where
  "demo_pushed = CertSource_Certificate (ae_x509 (me_acme demo_service)) 1 (fst (snd demo_issued))"

theorem issued_certificate_is_pushed_witness:
  "\<exists>c rq a s1. issued_for (me_acme demo_service) rq c a s1 \<and>
    (fst demo_pushed = Inl (SourceRepo Refused) \<or>
     (ci_FullchainPEM c = [] \<or> ci_PrivateKeyPEM c = []) \<and> fst demo_pushed = Inl (ErrNoCertificate 1) \<or>
     (\<exists>leaf. Certificate_Leaf (ae_x509 (me_acme demo_service)) (ci_FullchainPEM c) = Inr leaf \<and>
        fst demo_pushed = Inr \<lparr>ce_Domains = (if xl_DNSNames leaf = [] then None else Some (xl_DNSNames leaf)),
                   ce_Fullchain = ci_FullchainPEM c, ce_PrivateKey = ci_PrivateKeyPEM c,
                   ce_NotAfter = unix_of (xl_NotAfter leaf)\<rparr>))"
  by (rule issued_certificate_is_pushed [OF demo_issued_run, where db'' = "snd demo_pushed"]) (simp add: demo_pushed_def)

text \<open>An authority that registers every account it is asked to, counts them, and refuses the order.\<close>

definition refusing_service :: "(nat, unit, unit, unit) manage_env" where
  "refusing_service = demo_service\<lparr>me_acme := (me_acme demo_service)\<lparr>
     ae_register := (\<lambda>eab a s. (Inr (), s + 1)), ae_obtain := (\<lambda>ds chain a s. (Inl (Some 403, ''no''), s))\<rparr>\<rparr>"

definition demo_refused :: "(order_error + x509_certificate) \<times> database \<times> nat" where
  "demo_refused = manage_issue refusing_service (scanOrder demo_row) demo_orders 0"

lemma demo_refused_ends:
  "fst demo_refused = Inl (NotIssuedBy (NotObtained [''nas.example.com''] (Some 403, ''no'')))" "snd (snd demo_refused) = 1"
  by code_simp+

theorem failed_issue_registers_again_witness:
  "\<exists>a db''. acmeAccount (me_json refusing_service) ''letsencrypt'' ''me@example.com'' (fst (snd demo_refused)) = (Inr a, db'') \<and>
     aa_PrivateKey a = [] \<and> aa_key a = None \<and> aa_registration a = None"
proof -
  have run: "manage_issue refusing_service (scanOrder demo_row) demo_orders 0 =
      (Inl (NotIssuedBy (NotObtained [''nas.example.com''] (Some 403, ''no''))), fst (snd demo_refused), 1)"
    using demo_refused_ends unfolding demo_refused_def by (simp add: prod_eq_iff)
  obtain ca where ca: "LookupCA (od_CA (scanOrder demo_row)) = Some ca" "ca_Key ca = ''letsencrypt''"
    by (simp add: LookupCA_def CAs_def scanOrder_def demo_row_def)
  have "\<forall>r \<in> set (db_acme demo_orders). \<not> (am_CA r = ca_Key ca \<and> am_Email r = od_Email (scanOrder demo_row))"
    by (simp add: demo_orders_def demo_database_def)
  note again = failed_issue_registers_again [OF run ca(1) this]
  have "od_Email (scanOrder demo_row) = ''me@example.com''" by (simp add: scanOrder_def demo_row_def)
  with again ca(2) show ?thesis by simp
qed

text \<open>A wildcard, proved through the stored DNS account.\<close>

definition demo_order_input :: order_input where
  "demo_order_input = \<lparr>oi_Domains = [''*.Home.example.com.''], oi_KeyType = [], oi_CA = [], oi_Email = ''me@example.com'',
     oi_AccountID = 3, oi_AutoRenew = None\<rparr>"

definition demo_created :: "(order_error + order_view) \<times> database" where
  "demo_created = CreateOrder demo_service no_time demo_order_input demo_orders"

theorem created_order_stored_witness:
  "ids_ok (snd demo_created) \<and> order_of demo_orders 2 = None \<and>
   (\<exists>row. order_of (snd demo_created) = (order_of demo_orders)(2 \<mapsto> row) \<and>
      ow_Domains row = NormaliseDomains (ae_lower (me_acme demo_service)) (oi_Domains demo_order_input) \<and> ow_Domains row \<noteq> [] \<and>
      ow_Email row \<noteq> [] \<and> KeyType_Valid (ow_KeyType row) \<and> LookupCA (ow_CA row) \<noteq> None \<and> ow_State row = StatePending \<and>
      ow_Certificate row = [] \<and>
      (case ow_AccountID row of
         Some a \<Rightarrow> a \<in> da_ID ` set (db_accounts demo_orders)
       | None \<Rightarrow> me_http demo_service \<noteq> None \<and> \<not> NeedsDNSChallenge (ow_Domains row)))"
proof -
  have "map_sum (\<lambda>x. ()) ov_ID (fst demo_created) = Inr 2" by code_simp
  then obtain view where view: "fst demo_created = Inr view" "ov_ID view = 2" by (cases "fst demo_created") auto
  then have run: "CreateOrder demo_service no_time demo_order_input demo_orders = (Inr view, snd demo_created)"
    by (simp add: demo_created_def prod_eq_iff)
  have "ids_ok demo_orders" by (simp add: ids_ok_def demo_orders_def demo_row_def)
  with created_order_stored [OF run this] view(2) show ?thesis by metis
qed

end
