(* ===== verification/Sto_Migrate.thy ===== *)
theory Sto_Migrate
  imports Go_Strings Go_Strconv
begin

text \<open>
  Bringing the database to the current schema: \<^verbatim>\<open>internal/storage/migrate/migrate.go\<close>. \<open>'s\<close> is what the
  scripts work on and \<open>exec\<close> what one script makes of it, \<^term>\<open>None\<close> when it fails. A transaction that
  does not commit leaves everything as it was; \<open>mx_commits\<close> tells which do, so that a run may be
  interrupted anywhere.
\<close>

section \<open>Operations\<close>

record migration =
  mi_version :: int
  mi_name :: string
  mi_body :: string

record 's migrated =
  mt_schema :: 's
  mt_versions :: "int list"

record 's migrate_env =
  mx_exec :: "string \<Rightarrow> 's \<Rightarrow> 's option"
  mx_commits :: "migration \<Rightarrow> 's \<Rightarrow> bool"
  mx_reads :: bool

datatype migrate_error =
    NotNamed string
  | NoVersion string
  | SharedVersion string string int
  | CannotRead
  | CannotApply string

fun load_files :: "(string \<times> string) list \<Rightarrow> migration list \<Rightarrow> migrate_error + migration list" where
  "load_files [] out = Inr out"
| "load_files ((name, body) # entries) out =
     (case cut name ''_'' of (digits, rest, found) \<Rightarrow>
        if \<not> found then Inl (NotNamed name)
        else case parse_int64 digits of
          None \<Rightarrow> Inl (NoVersion name)
        | Some version \<Rightarrow> load_files entries (out @ [\<lparr>mi_version = version, mi_name = name, mi_body = body\<rparr>]))"

fun shared_version :: "migration list \<Rightarrow> migrate_error option" where
  "shared_version (a # b # ms) =
     (if mi_version b = mi_version a then Some (SharedVersion (mi_name a) (mi_name b) (mi_version b))
      else shared_version (b # ms))"
| "shared_version ms = None"

definition load :: "(string \<times> string) list \<Rightarrow> migrate_error + migration list" where
  "load entries =
     (case load_files entries [] of
        Inl e \<Rightarrow> Inl e
      | Inr out \<Rightarrow>
          (let out = sort_key mi_version out in
           case shared_version out of Some e \<Rightarrow> Inl e | None \<Rightarrow> Inr out))"

text \<open>One transaction: the script, the row of its version (a primary key), the commit.\<close>

definition apply_one :: "'s migrate_env \<Rightarrow> migration \<Rightarrow> 's migrated \<Rightarrow> migrate_error option \<times> 's migrated" where
  "apply_one e m db =
     (case mx_exec e (mi_body m) (mt_schema db) of
        None \<Rightarrow> (Some (CannotApply (mi_name m)), db)
      | Some schema \<Rightarrow>
          if mi_version m \<in> set (mt_versions db) \<or> \<not> mx_commits e m (mt_schema db) then (Some (CannotApply (mi_name m)), db)
          else (None, \<lparr>mt_schema = schema, mt_versions = mt_versions db @ [mi_version m]\<rparr>))"

fun run_pending :: "'s migrate_env \<Rightarrow> int set \<Rightarrow> migration list \<Rightarrow> 's migrated \<Rightarrow> migrate_error option \<times> 's migrated" where
  "run_pending e applied [] db = (None, db)"
| "run_pending e applied (m # ms) db =
     (if mi_version m \<in> applied then run_pending e applied ms db
      else case apply_one e m db of
        (Some err, db) \<Rightarrow> (Some err, db)
      | (None, db) \<Rightarrow> run_pending e applied ms db)"

definition migrate_Run :: "'s migrate_env \<Rightarrow> (string \<times> string) list \<Rightarrow> 's migrated \<Rightarrow> migrate_error option \<times> 's migrated" where
  "migrate_Run e entries db =
     (if \<not> mx_reads e then (Some CannotRead, db)
      else case load entries of
        Inl err \<Rightarrow> (Some err, db)
      | Inr pending \<Rightarrow> run_pending e (set (mt_versions db)) pending db)"

section \<open>A run that is interrupted resumes\<close>

lemma shared_version_None: "sorted (map mi_version ms) \<Longrightarrow> shared_version ms = None \<Longrightarrow> distinct (map mi_version ms)"
proof (induction ms rule: shared_version.induct)
  case (1 a b ms)
  then have "mi_version a < mi_version b" "sorted (map mi_version (b # ms))" "distinct (map mi_version (b # ms))"
    by (auto split: if_splits)
  then show ?case by auto
qed simp_all

lemma load_distinct: "load entries = Inr ms \<Longrightarrow> distinct (map mi_version ms) \<and> sorted (map mi_version ms)"
  using shared_version_None by (auto simp: load_def Let_def split: sum.splits option.splits)

text \<open>All pending scripts in the order of their versions.\<close>

fun run_scripts :: "(string \<Rightarrow> 's \<Rightarrow> 's option) \<Rightarrow> migration list \<Rightarrow> 's \<Rightarrow> 's option" where
  "run_scripts exec [] s = Some s"
| "run_scripts exec (m # ms) s = (case exec (mi_body m) s of None \<Rightarrow> None | Some s \<Rightarrow> run_scripts exec ms s)"

definition pending_of :: "migration list \<Rightarrow> int list \<Rightarrow> migration list" where
  "pending_of ms versions = filter (\<lambda>m. mi_version m \<notin> set versions) ms"

lemma run_scripts_append:
  "run_scripts exec (xs @ ys) s = (case run_scripts exec xs s of None \<Rightarrow> None | Some s \<Rightarrow> run_scripts exec ys s)"
  by (induction xs arbitrary: s) (auto split: option.split)

text \<open>A run carries out a prefix of what is pending, all of it when it succeeds.\<close>

lemma run_pending_prefix:
  assumes "distinct (map mi_version ms)" and "run_pending e applied ms db = (err, db')" and "applied \<subseteq> set (mt_versions db)"
    and "\<forall>m \<in> set ms. mi_version m \<in> set (mt_versions db) \<longrightarrow> mi_version m \<in> applied"
  shows "\<exists>did rest. filter (\<lambda>m. mi_version m \<notin> applied) ms = did @ rest \<and>
    mt_versions db' = mt_versions db @ map mi_version did \<and>
    run_scripts (mx_exec e) did (mt_schema db) = Some (mt_schema db') \<and> (err = None \<longrightarrow> rest = [])"
  using assms
proof (induction e applied ms db rule: run_pending.induct)
  case (2 e applied m ms db)
  show ?case
  proof (cases "mi_version m \<in> applied")
    case True
    then show ?thesis using 2 by auto
  next
    case False
    obtain x db1 where one: "apply_one e m db = (x, db1)" by force
    show ?thesis
    proof (cases x)
      case (Some y)
      then have "db' = db" "err \<noteq> None"
        using "2.prems"(2) False one by (auto simp: apply_one_def split: option.splits if_splits)
      then show ?thesis by - (rule exI [of _ "[]"], rule exI [of _ "filter (\<lambda>m. mi_version m \<notin> applied) (m # ms)"], auto)
    next
      case None
      then obtain schema where s: "mx_exec e (mi_body m) (mt_schema db) = Some schema"
        "db1 = \<lparr>mt_schema = schema, mt_versions = mt_versions db @ [mi_version m]\<rparr>"
        using one by (auto simp: apply_one_def split: option.splits if_splits)
      have run: "run_pending e applied ms db1 = (err, db')" using "2.prems"(2) False one None by simp
      have "\<forall>k \<in> set ms. mi_version k \<noteq> mi_version m" using "2.prems"(1) by (auto simp: image_iff)
      then have "applied \<subseteq> set (mt_versions db1)" "distinct (map mi_version ms)"
        "\<forall>k \<in> set ms. mi_version k \<in> set (mt_versions db1) \<longrightarrow> mi_version k \<in> applied"
        using "2.prems"(1,3,4) s(2) by auto
      from "2.IH"(2) [OF False one [symmetric] None this(2) run this(1,3)] obtain did rest where
        "filter (\<lambda>m. mi_version m \<notin> applied) ms = did @ rest" "mt_versions db' = mt_versions db1 @ map mi_version did"
        "run_scripts (mx_exec e) did (mt_schema db1) = Some (mt_schema db')" "err = None \<longrightarrow> rest = []"
        by blast
      then show ?thesis using False s by (intro exI [of _ "m # did"] exI [of _ rest]) simp
    qed
  qed
qed simp

lemma migrate_Run_prefix:
  assumes "load entries = Inr ms" and "migrate_Run e entries db = (err, db')"
  shows "\<exists>did rest. pending_of ms (mt_versions db) = did @ rest \<and> mt_versions db' = mt_versions db @ map mi_version did \<and>
    run_scripts (mx_exec e) did (mt_schema db) = Some (mt_schema db') \<and> (err = None \<longrightarrow> rest = [])"
proof (cases "mx_reads e")
  case True
  then have "run_pending e (set (mt_versions db)) ms db = (err, db')" using assms by (simp add: migrate_Run_def)
  then show ?thesis
    unfolding pending_of_def using load_distinct [OF assms(1)] by (intro run_pending_prefix) auto
next
  case False
  then have "db' = db" "err \<noteq> None" using assms(2) by (auto simp: migrate_Run_def)
  then show ?thesis by - (rule exI [of _ "[]"], rule exI [of _ "pending_of ms (mt_versions db)"], auto)
qed

text \<open>C40: an upgrade of the schema that is interrupted resumes. After any run, failed wherever it may,
  and a later run that succeeds, the database is what running every pending script once, in the order
  of the versions, makes of it, and exactly these versions are recorded.\<close>

theorem interrupted_migration_resumes:
  assumes "load entries = Inr ms" and "migrate_Run e1 entries db = (err, db1)"
    and "migrate_Run e2 entries db1 = (None, db2)" and "mx_exec e2 = mx_exec e1"
  shows "run_scripts (mx_exec e1) (pending_of ms (mt_versions db)) (mt_schema db) = Some (mt_schema db2) \<and>
    mt_versions db2 = mt_versions db @ map mi_version (pending_of ms (mt_versions db))"
proof -
  obtain did rest where first: "pending_of ms (mt_versions db) = did @ rest" "mt_versions db1 = mt_versions db @ map mi_version did"
    "run_scripts (mx_exec e1) did (mt_schema db) = Some (mt_schema db1)"
    using migrate_Run_prefix [OF assms(1,2)] by blast
  have second: "mt_versions db2 = mt_versions db1 @ map mi_version (pending_of ms (mt_versions db1))"
    "run_scripts (mx_exec e1) (pending_of ms (mt_versions db1)) (mt_schema db1) = Some (mt_schema db2)"
    using migrate_Run_prefix [OF assms(1,3)] assms(4) by auto
  have "distinct (map mi_version (did @ rest))"
    using load_distinct [OF assms(1)] first(1) unfolding pending_of_def by (metis distinct_map_filter)
  moreover have "pending_of ms (mt_versions db1) = filter (\<lambda>m. mi_version m \<notin> mi_version ` set did) (did @ rest)"
    unfolding first(1) [symmetric] first(2) pending_of_def by (auto intro: filter_cong)
  ultimately have "pending_of ms (mt_versions db1) = rest"
    by (auto simp: filter_empty_conv filter_id_conv)
  then show ?thesis using first second by (simp add: run_scripts_append)
qed

text \<open>Three scripts, the second of which does not commit the first time.\<close>

definition demo_scripts :: "(string \<times> string) list" where
  "demo_scripts = [(''0003_c.sql'', ''c''), (''0001_a.sql'', ''a''), (''0002_b.sql'', ''b'')]"

definition demo_migrations :: "migration list" where
  "demo_migrations =
     [\<lparr>mi_version = 1, mi_name = ''0001_a.sql'', mi_body = ''a''\<rparr>, \<lparr>mi_version = 2, mi_name = ''0002_b.sql'', mi_body = ''b''\<rparr>,
      \<lparr>mi_version = 3, mi_name = ''0003_c.sql'', mi_body = ''c''\<rparr>]"

definition demo_migrate :: "bool \<Rightarrow> string migrate_env" where
  "demo_migrate steady = \<lparr>mx_exec = (\<lambda>body s. Some (s @ body)), mx_commits = (\<lambda>m s. steady \<or> mi_version m \<noteq> 2), mx_reads = True\<rparr>"

theorem interrupted_migration_resumes_witness:
  "run_scripts (mx_exec (demo_migrate False)) (pending_of demo_migrations []) [] = Some ''abc'' \<and>
   [1, 2, 3] = [] @ map mi_version (pending_of demo_migrations [])"
proof -
  have "load demo_scripts = Inr demo_migrations" by code_simp
  moreover have "migrate_Run (demo_migrate False) demo_scripts \<lparr>mt_schema = [], mt_versions = []\<rparr> =
      (Some (CannotApply ''0002_b.sql''), \<lparr>mt_schema = ''a'', mt_versions = [1]\<rparr>)" by code_simp
  moreover have "migrate_Run (demo_migrate True) demo_scripts \<lparr>mt_schema = ''a'', mt_versions = [1]\<rparr> =
      (None, \<lparr>mt_schema = ''abc'', mt_versions = [1, 2, 3]\<rparr>)" by code_simp
  moreover have "mx_exec (demo_migrate True) = mx_exec (demo_migrate False)" by (simp add: demo_migrate_def)
  ultimately show ?thesis using interrupted_migration_resumes by fastforce
qed

end
