(* ===== verification/Spec2Isabelle.thy ===== *)
theory Spec2Isabelle
  imports Vhost_Router Vhost_Sniff_Http Vhost_Sniff_Tls Proto_Codec Proto_Handshake Proto_Udp
    Srv_Challenge Srv_CertStore Srv_Session Srv_UdpSessions Srv_Lifecycle Srv_Vhost
    Net_ProxyProto Cfg_Config Cli_Supervisor Cli_Udp Cli_History Cli_Forward Sys_Compose Upd_Failures
    Crt_Renew Man_Orders Sto_Migrate
begin

text \<open>
  A verification of openfrp, a reverse tunnel written in Go. A client behind a router keeps a control
  connection to one or more servers; a server publishes the client's services under ports and host
  names and hands every visitor to the client over a work connection. Around that core the client
  obtains certificates, manages DNS records, keeps traffic statistics and updates itself.

  \<^bold>\<open>How the parts interact.\<close> The client logs in with a key derived from a shared token and a timestamp
  (\<^verbatim>\<open>protocol/handshake.go\<close>), asks for its tunnels to be published and then answers the server's
  requests for work connections in its control loop. The server keeps one session per client with a
  pool of work connections; a published proxy either binds a socket (TCP, UDP) or claims host names in
  the router. A visitor of a shared port is sniffed for its host name, routed, given a work connection
  and relayed under the limits of its tunnel, while the statistics count it. The client connects the
  work connection to the local service, announcing the visitor's address with a PROXY header when
  asked to. Certificates are ordered by the management commands, proved over HTTP (through a server's
  challenge store) or over DNS (through a vendor), kept in a SQLite file, and pushed to the servers.

  \<^bold>\<open>Conventions.\<close> A Go string and a byte slice are both finite sequences of bytes, here \<^typ>\<open>string\<close>. A
  map is an association list with distinct keys (\<open>gomap\<close> of \<open>Openfrp_Prelude\<close>), so that an iteration
  order exists; theorems hold for every such list. Errors are constructors of a sum or an option, one
  per error the source makes; their texts are modelled only where the code reads them. Machine integers
  are \<^typ>\<open>int\<close> with \<open>i64_wrap\<close> where a result can leave 64 bits, and words where the code works
  bitwise. A mutex that covers a whole method makes that method one step; where the source unlocks in
  between, the method is split into the steps other goroutines can come between.

  \<^bold>\<open>Pieces of the Go library\<close> (what the source uses of them): \<open>Go_Strings\<close>, \<open>Go_IO\<close> (readers
  that deliver arbitrary chunks), \<open>Go_Strconv\<close>, \<open>Go_Json\<close>, \<open>Go_Sha256\<close>, \<open>Go_Time\<close>, \<open>Go_Net\<close>,
  \<open>Go_Path\<close>, \<open>Go_Files\<close>. Parameters stand for code that is not in the repository: IDNA and Unicode
  tables (\<open>text_env\<close>), regular expressions, X.509 and PEM parsing, TLS handshakes, gzip and tar, the
  ACME library, DNS vendors and name servers, the operating system's answers to listen, dial, write and
  file calls. What a theorem needs of them is among its premises; most theorems need nothing.

  \<^bold>\<open>Theories and sources\<close> (under \<^verbatim>\<open>src/\<close>).

  \<^item> Host names: \<open>Vhost_Pattern\<close>, \<open>Vhost_Trie\<close>, \<open>Vhost_Router\<close> model \<^verbatim>\<open>internal/tunnel/vhost\<close>: pattern
    parsing, the label trie, the router that rebuilds an immutable table on every change. The invariant
    \<open>router_ok\<close> makes the trie's lookup a refinement of exact name, one-label wildcard and catch-all
    over the authoritative map. \<open>Vhost_Sniff\<close>, \<open>Vhost_Sniff_Http\<close>, \<open>Vhost_Sniff_Tls\<close> are the sniffers;
    their theorems hold for every way the network cuts the stream.
  \<^item> Protocol: \<open>Proto_Message\<close>, \<open>Proto_Json\<close>, \<open>Proto_Codec\<close>, \<open>Proto_Handshake\<close>, \<open>Proto_Udp\<close> model
    \<^verbatim>\<open>internal/tunnel/protocol\<close>: messages and their JSON, framing, authentication, datagram frames, with
    round trips and bounds.
  \<^item> Server: \<open>Srv_Limits\<close> (\<^verbatim>\<open>limits.go\<close>, \<^verbatim>\<open>pkg/netutil/limit.go\<close>), \<open>Srv_Stats\<close> (\<^verbatim>\<open>internal/stats\<close>),
    \<open>Srv_Proxy\<close>, \<open>Srv_UdpSessions\<close> (\<^verbatim>\<open>server/proxy\<close>, \<^verbatim>\<open>pkg/netutil/splice.go\<close>), \<open>Srv_Challenge\<close>,
    \<open>Srv_CertStore\<close>, \<open>Srv_Pool\<close> and \<open>Srv_Session\<close> (\<^verbatim>\<open>session.go\<close>), \<open>Srv_Server\<close> (\<^verbatim>\<open>registry.go\<close>,
    \<^verbatim>\<open>control.go\<close>, \<^verbatim>\<open>server.go\<close>), \<open>Srv_Vhost\<close> (\<^verbatim>\<open>vhost.go\<close>). The interfaces a proxy is handed are the
    locales \<open>route_registrar\<close>, \<open>proxy_limits\<close> and \<open>recorder\<close>, interpreted on the router, the limits and
    the statistics. \<open>Srv_Invariant\<close> and \<open>Srv_Lifecycle\<close> state what holds of the whole server under any
    interleaving of its handlers: which sessions are registered, whose routes are published, who holds
    which socket.
  \<^item> Client: \<open>Cfg_Config\<close> (\<^verbatim>\<open>internal/config\<close>), \<open>Cli_Supervisor\<close>, \<open>Cli_Session\<close>, \<open>Cli_Forward\<close>,
    \<open>Cli_Udp\<close>, \<open>Cli_History\<close>, \<open>Cli_Announce\<close> (\<^verbatim>\<open>internal/tunnel/client\<close>), \<open>Net_ProxyProto\<close>
    (\<^verbatim>\<open>pkg/netutil/proxyproto.go\<close>).
  \<^item> Both together: \<open>Sys_Compose\<close> connects the bytes the client writes with the handlers that read them.
  \<^item> Storage: \<open>Sto_Traffic\<close>, \<open>Sto_Records\<close>, \<open>Sto_Migrate\<close> (\<^verbatim>\<open>internal/storage\<close>): what each statement does
    to the tables, any statement being refused at will, and migrations that resume after a failure.
  \<^item> Certificates and DNS: \<open>Crt_Names\<close>, \<open>Crt_Issue\<close>, \<open>Crt_Renew\<close> (\<^verbatim>\<open>internal/cert\<close>), \<open>Dns_Names\<close>,
    \<open>Dns_Solver\<close>, \<open>Dns_Registry\<close> (\<^verbatim>\<open>internal/dns\<close>), \<open>Sch_Condition\<close>, \<open>Sch_Form\<close> (\<^verbatim>\<open>pkg/schema\<close>).
  \<^item> Management: \<open>Man_Accounts\<close>, \<open>Man_Reach\<close>, \<open>Man_Cert\<close> (\<^verbatim>\<open>internal/manage\<close>) put storage, certificates,
    DNS and the announcements to servers together; \<open>Man_Orders\<close> shows that no attempt to issue loses a
    certificate and that what was issued is what the client pushes.
  \<^item> Updates: \<open>Upd_Semver\<close> (the comparison is the \<^verbatim>\<open>linorder\<close> instance of versions), \<open>Upd_Release\<close>,
    \<open>Upd_Bundle\<close>, \<open>Upd_Install\<close> (\<^verbatim>\<open>internal/update\<close>); \<open>Upd_Rollback\<close> and \<open>Upd_Failures\<close> show what an
    update, and one that fails, leave behind.

  \<^bold>\<open>What the groups of lemmas show.\<close> Each component has its well-formedness invariant and a lemma per
  operation that keeps it (names ending in \<open>_ok\<close>), lemmas on what an operation leaves alone (\<open>_frame\<close>,
  \<open>_other\<close>), and the functional theorems built from them. The theorems numbered C1 onwards are the
  properties of the program; a theorem named \<open>x_witness\<close> applies \<open>x\<close> to concrete data, and some theorems
  exhibit behaviour that is not intended: work lost by a race, a rollback that cannot start, renewals
  that cannot succeed, a challenge that is not withdrawn.

  \<^bold>\<open>Loops and bounds.\<close> Recursion is structural or has a measure: the sniffers consume their buffer, the
  frame readers (\<open>forward_loop\<close>, \<open>control_loop\<close>) take at least a header off the stream per turn, and
  \<open>obtain_loop\<close> counts its four attempts. \<open>await_reply\<close> takes fuel, one more than the bytes still to come,
  which is enough because every turn reads at least one of them. Sizes and limits are those of the
  source: messages of at most 256 KiB, 10000 levels of JSON, eight carriers per session, 64 UDP peers before eviction.

  \<^bold>\<open>Not modelled.\<close> Goroutine scheduling inside a step, deadlines and buffer pools; the choice of the
  splice system call, socket options and listeners (\<^verbatim>\<open>pkg/netutil\<close>) and the multiplexing library of
  \<^verbatim>\<open>internal/tunnel/transport\<close>, which belong to the system and to packages outside the repository; the
  seven DNS vendors (\<^verbatim>\<open>internal/dns/providers\<close>) and the signing of their requests (\<^verbatim>\<open>pkg/cloudapi\<close>),
  whose meaning is fixed by the vendors' interfaces; \<^verbatim>\<open>internal/deploy\<close> and \<^verbatim>\<open>internal/cloudflare\<close>, which
  run commands over SSH or an external program; the periodic job runner \<^verbatim>\<open>internal/scheduler\<close>, which
  nothing calls; the command line, logging and the translation tools. The floating-point number of days
  a certificate has left is an argument.
\<close>

end
